(* ===== verification/Prelude.thy ===== *)
theory Prelude
  imports Main "HOL-Library.Word" "HOL-Library.Char_ord" "HOL-Library.List_Lexorder"
begin

text \<open>
  Shared vocabulary of the development: the machine integers and byte strings of the Rust
  code, results as sums, the part of the Rust standard library on strings the program uses
  (\<open>str::trim\<close> on UTF-8 bytes, \<open>chars().count()\<close>), and generic lemmas on lists.
  A Rust \<open>String\<close> is the list of its UTF-8 bytes; a \<open>usize\<close> length is a \<open>nat\<close>.
\<close>

section \<open>Types\<close>

type_synonym u8 = "8 word"
type_synonym u32 = "32 word"
type_synonym u64 = "64 word"

text \<open>Collections of facts the component proofs share.\<close>

named_theorems result_simps \<open>case analysis of results\<close>
named_theorems frame_simps \<open>fields an operation leaves unchanged\<close>

section \<open>Results\<close>

text \<open>\<open>Result<'a, 'e>\<close> is \<open>'e + 'a\<close>: \<open>Inl\<close> the error, \<open>Inr\<close> the value.\<close>

definition is_ok :: "'e + 'a \<Rightarrow> bool" where
  "is_ok r = (case r of Inl _ \<Rightarrow> False | Inr _ \<Rightarrow> True)"

lemma is_ok_simps [simp, result_simps]: "is_ok (Inr x)" "\<not> is_ok (Inl e)"
  by (simp_all add: is_ok_def)

lemma is_okE: "is_ok r \<Longrightarrow> (\<And>x. r = Inr x \<Longrightarrow> P) \<Longrightarrow> P"
  by (cases r) auto

lemma is_ok_iff: "is_ok r \<longleftrightarrow> (\<exists>x. r = Inr x)"
  by (cases r) auto

lemma not_is_ok_iff: "\<not> is_ok r \<longleftrightarrow> (\<exists>e. r = Inl e)"
  by (cases r) auto

text \<open>\<open>Option::ok_or\<close> and the \<open>?\<close> operator on a pair of checks.\<close>

definition ok_or :: "'a option \<Rightarrow> 'e \<Rightarrow> 'e + 'a" where
  "ok_or x e = (case x of None \<Rightarrow> Inl e | Some v \<Rightarrow> Inr v)"

lemma ok_or_simps [simp, result_simps]: "ok_or None e = Inl e" "ok_or (Some v) e = Inr v"
  by (simp_all add: ok_or_def)

text \<open>\<open>iter().map(f).collect::<Result<Vec<_>>>()\<close>: the first error stops the traversal.\<close>

fun collect_results :: "('a \<Rightarrow> 'e + 'b) \<Rightarrow> 'a list \<Rightarrow> 'e + 'b list" where
  "collect_results f [] = Inr []"
| "collect_results f (x # xs) =
     (case f x of
        Inl e \<Rightarrow> Inl e
      | Inr y \<Rightarrow> (case collect_results f xs of Inl e \<Rightarrow> Inl e | Inr ys \<Rightarrow> Inr (y # ys)))"

lemma collect_results_all_ok:
  "(\<And>x. x \<in> set xs \<Longrightarrow> f x = Inr (g x)) \<Longrightarrow> collect_results f xs = Inr (map g xs)"
  by (induction xs) auto

lemma collect_results_length:
  "collect_results f xs = Inr ys \<Longrightarrow> length ys = length xs"
  by (induction xs arbitrary: ys) (auto split: sum.splits)

lemma collect_results_nth:
  "collect_results f xs = Inr ys \<Longrightarrow> i < length xs \<Longrightarrow> f (xs ! i) = Inr (ys ! i)"
proof (induction xs arbitrary: ys i)
  case Nil
  then show ?case by simp
next
  case (Cons x xs)
  then show ?case by (cases i) (auto split: sum.splits)
qed

section \<open>Strings\<close>

text \<open>
  \<open>ws_len s\<close> is the byte length of the Unicode \<open>White_Space\<close> character the UTF-8 string
  \<open>s\<close> starts with, 0 if it starts with none: U+0009..U+000D and U+0020 (one byte), U+0085
  and U+00A0 (\<open>C2 xx\<close>), U+1680 (\<open>E1 9A 80\<close>), U+2000..U+200A, U+2028, U+2029, U+202F
  (\<open>E2 80 xx\<close>), U+205F (\<open>E2 81 9F\<close>) and U+3000 (\<open>E3 80 80\<close>).
\<close>

definition byte :: "char \<Rightarrow> nat" where
  "byte c = of_char c"

definition ascii_ws :: "nat \<Rightarrow> bool" where
  "ascii_ws b = ((9 \<le> b \<and> b \<le> 13) \<or> b = 32)"

definition ws2 :: "nat \<Rightarrow> nat \<Rightarrow> bool" where
  "ws2 a b = (a = 194 \<and> (b = 133 \<or> b = 160))"

definition ws3 :: "nat \<Rightarrow> nat \<Rightarrow> nat \<Rightarrow> bool" where
  "ws3 a b c =
     ((a = 225 \<and> b = 154 \<and> c = 128)
      \<or> (a = 226 \<and> b = 128 \<and> ((128 \<le> c \<and> c \<le> 138) \<or> c = 168 \<or> c = 169 \<or> c = 175))
      \<or> (a = 226 \<and> b = 129 \<and> c = 159)
      \<or> (a = 227 \<and> b = 128 \<and> c = 128))"

fun ws_len :: "string \<Rightarrow> nat" where
  "ws_len [] = 0"
| "ws_len (a # s) =
     (if ascii_ws (byte a) then 1
      else case s of
        [] \<Rightarrow> 0
      | b # s' \<Rightarrow>
          if ws2 (byte a) (byte b) then 2
          else (case s' of [] \<Rightarrow> 0 | c # _ \<Rightarrow> if ws3 (byte a) (byte b) (byte c) then 3 else 0))"

text \<open>The same test at the end of the string, on the reversed bytes.\<close>

fun ws_len_rev :: "string \<Rightarrow> nat" where
  "ws_len_rev [] = 0"
| "ws_len_rev (c # s) =
     (if ascii_ws (byte c) then 1
      else case s of
        [] \<Rightarrow> 0
      | b # s' \<Rightarrow>
          if ws2 (byte b) (byte c) then 2
          else (case s' of [] \<Rightarrow> 0 | a # _ \<Rightarrow> if ws3 (byte a) (byte b) (byte c) then 3 else 0))"

function trim_start :: "string \<Rightarrow> string" where
  "trim_start s = (if ws_len s = 0 then s else trim_start (drop (ws_len s) s))"
  by pat_completeness auto
termination
proof (relation "measure length")
  fix s :: string
  assume "ws_len s \<noteq> 0"
  then have "s \<noteq> []" by auto
  then show "(drop (ws_len s) s, s) \<in> measure length"
    using \<open>ws_len s \<noteq> 0\<close> by (cases s) auto
qed simp

function trim_end_rev :: "string \<Rightarrow> string" where
  "trim_end_rev s = (if ws_len_rev s = 0 then s else trim_end_rev (drop (ws_len_rev s) s))"
  by pat_completeness auto
termination
proof (relation "measure length")
  fix s :: string
  assume "ws_len_rev s \<noteq> 0"
  then have "s \<noteq> []" by auto
  then show "(drop (ws_len_rev s) s, s) \<in> measure length"
    using \<open>ws_len_rev s \<noteq> 0\<close> by (cases s) auto
qed simp

declare trim_start.simps [simp del] trim_end_rev.simps [simp del]

definition trim :: "string \<Rightarrow> string" where
  "trim s = rev (trim_end_rev (rev (trim_start s)))"

lemma ws_len_ascii: "byte a < 128 \<Longrightarrow> ws_len (a # s) = (if ascii_ws (byte a) then 1 else 0)"
  by (simp add: ws2_def ws3_def split: list.split)

lemma ws_len_rev_ascii: "byte c < 128 \<Longrightarrow> ws_len_rev (c # s) = (if ascii_ws (byte c) then 1 else 0)"
  by (simp add: ws2_def ws3_def split: list.split)

text \<open>\<open>s.trim().is_empty()\<close>, the program's test for a blank identifier.\<close>

definition is_blank :: "string \<Rightarrow> bool" where
  "is_blank s = (trim s = [])"

lemma trim_Nil [simp]: "trim [] = []"
  by (simp add: trim_def trim_start.simps trim_end_rev.simps)

lemma is_blank_Nil [simp]: "is_blank []"
  by (simp add: is_blank_def)

text \<open>A string that starts and ends with ASCII characters other than spaces is its own trim.\<close>

lemma trim_ascii_ends:
  assumes "s \<noteq> []" and "byte (hd s) < 128" and "\<not> ascii_ws (byte (hd s))"
    and "byte (last s) < 128" and "\<not> ascii_ws (byte (last s))"
  shows "trim s = s"
proof -
  obtain a r where "s = a # r" using assms(1) by (cases s) auto
  with assms have "ws_len s = 0" by (simp add: ws_len_ascii del: ws_len.simps)
  then have start: "trim_start s = s" by (simp add: trim_start.simps)
  obtain z t where z: "rev s = z # t" using assms(1) by (cases "rev s") auto
  then have "z = last s" by (metis hd_rev list.sel(1))
  then have "ws_len_rev (z # t) = 0" using assms(4,5) by (simp add: ws_len_rev_ascii del: ws_len_rev.simps)
  then have "ws_len_rev (rev s) = 0" by (simp only: z)
  with start show ?thesis by (simp add: trim_def trim_end_rev.simps)
qed

text \<open>\<open>chars().count()\<close> of a UTF-8 string: the bytes that are not continuation bytes.\<close>

definition is_cont :: "char \<Rightarrow> bool" where
  "is_cont c = (128 \<le> byte c \<and> byte c < 192)"

definition char_count :: "string \<Rightarrow> nat" where
  "char_count s = length (filter (\<lambda>c. \<not> is_cont c) s)"

text \<open>\<open>chars().take(n).collect()\<close>: the bytes of the first \<open>n\<close> characters.\<close>

fun take_chars :: "nat \<Rightarrow> string \<Rightarrow> string" where
  "take_chars n [] = []"
| "take_chars n (c # s) =
     (if is_cont c then c # take_chars n s
      else case n of 0 \<Rightarrow> [] | Suc m \<Rightarrow> c # take_chars m s)"

lemma char_count_simps [simp]:
  "char_count [] = 0"
  "char_count (c # s) = (if is_cont c then 0 else 1) + char_count s"
  by (simp_all add: char_count_def)

lemma char_count_take_chars: "char_count (take_chars n s) = min n (char_count s)"
  by (induction n s rule: take_chars.induct) (auto split: nat.splits)

lemma take_chars_prefix: "\<exists>t. s = take_chars n s @ t"
  by (induction n s rule: take_chars.induct) (auto split: nat.splits)

text \<open>
  The well-formedness of UTF-8 that \<open>str::from_utf8\<close> checks: lead bytes, continuation bytes,
  no overlong forms, no surrogates, nothing above U+10FFFF.
\<close>

definition cont_byte :: "nat \<Rightarrow> bool" where
  "cont_byte b = (128 \<le> b \<and> b \<le> 191)"

fun valid_utf8_bytes :: "nat list \<Rightarrow> bool" where
  "valid_utf8_bytes [] = True"
| "valid_utf8_bytes (a # s) =
     (if a < 128 then valid_utf8_bytes s
      else case s of
        [] \<Rightarrow> False
      | b # s2 \<Rightarrow>
          if 194 \<le> a \<and> a \<le> 223 then cont_byte b \<and> valid_utf8_bytes s2
          else case s2 of
            [] \<Rightarrow> False
          | c # s3 \<Rightarrow>
              if 224 \<le> a \<and> a \<le> 239 then
                cont_byte b \<and> cont_byte c \<and> (a = 224 \<longrightarrow> 160 \<le> b) \<and> (a = 237 \<longrightarrow> b \<le> 159)
                \<and> valid_utf8_bytes s3
              else case s3 of
                [] \<Rightarrow> False
              | d # s4 \<Rightarrow>
                  240 \<le> a \<and> a \<le> 244 \<and> cont_byte b \<and> cont_byte c \<and> cont_byte d
                  \<and> (a = 240 \<longrightarrow> 144 \<le> b) \<and> (a = 244 \<longrightarrow> b \<le> 143) \<and> valid_utf8_bytes s4)"

definition valid_utf8 :: "string \<Rightarrow> bool" where
  "valid_utf8 s = valid_utf8_bytes (map byte s)"

text \<open>
  \<open>BufRead::lines\<close>: the pieces up to each newline, without it and without a carriage return
  before it; a last piece without a newline is a line as it is.
\<close>

definition newline :: char where
  "newline = CHR 0x0A"

definition strip_cr :: "string \<Rightarrow> string" where
  "strip_cr l = (if l \<noteq> [] \<and> last l = CHR 0x0D then butlast l else l)"

function buf_lines :: "string \<Rightarrow> string list" where
  "buf_lines [] = []"
| "buf_lines (c # s) =
     (let l = takeWhile (\<lambda>c. c \<noteq> newline) (c # s) in
      case dropWhile (\<lambda>c. c \<noteq> newline) (c # s) of
        [] \<Rightarrow> [l]
      | n # rest \<Rightarrow> strip_cr l # buf_lines rest)"
  by pat_completeness auto
termination
proof (relation "measure length")
  fix c :: char and s x rest n
  assume "dropWhile (\<lambda>c. c \<noteq> newline) (c # s) = n # rest"
  then have "length (n # rest) \<le> length (c # s)" by (metis length_dropWhile_le)
  then show "(rest, c # s) \<in> measure length" by simp
qed simp

lemma span_newline:
  "newline \<notin> set l \<Longrightarrow> takeWhile (\<lambda>c. c \<noteq> newline) (l @ newline # s) = l
     \<and> dropWhile (\<lambda>c. c \<noteq> newline) (l @ newline # s) = newline # s"
  by (induction l) auto

lemma buf_lines_line:
  assumes "newline \<notin> set l"
  shows "buf_lines (l @ newline # s) = strip_cr l # buf_lines s"
proof (cases l)
  case Nil
  then show ?thesis by (simp add: strip_cr_def)
next
  case (Cons a as)
  then have "takeWhile (\<lambda>c. c \<noteq> newline) (l @ newline # s) = l"
    and "dropWhile (\<lambda>c. c \<noteq> newline) (l @ newline # s) = newline # s"
    using span_newline [OF assms] by blast+
  with Cons show ?thesis by (simp add: Let_def)
qed

lemma buf_lines_concat:
  "\<forall>l \<in> set ls. newline \<notin> set l \<Longrightarrow>
   buf_lines (concat (map (\<lambda>l. l @ [newline]) ls)) = map strip_cr ls"
  by (induction ls) (auto simp: buf_lines_line simp del: buf_lines.simps(2))

section \<open>Lists\<close>

text \<open>\<open>iter().position(p)\<close>: the index of the first element that satisfies \<open>p\<close>.\<close>

fun position :: "('a \<Rightarrow> bool) \<Rightarrow> 'a list \<Rightarrow> nat option" where
  "position p [] = None"
| "position p (x # xs) = (if p x then Some 0 else map_option Suc (position p xs))"

lemma position_Some:
  "position p xs = Some i \<Longrightarrow> i < length xs \<and> p (xs ! i) \<and> (\<forall>j < i. \<not> p (xs ! j))"
proof (induction xs arbitrary: i)
  case Nil
  then show ?case by simp
next
  case (Cons x xs)
  show ?case
  proof (cases "p x")
    case True
    with Cons.prems show ?thesis by simp
  next
    case False
    with Cons.prems obtain j where "position p xs = Some j" and i: "i = Suc j" by auto
    then have *: "j < length xs \<and> p (xs ! j) \<and> (\<forall>k < j. \<not> p (xs ! k))" by (rule_tac Cons.IH)
    with i False show ?thesis by (auto simp: nth_Cons split: nat.splits)
  qed
qed

lemma position_None: "position p xs = None \<longleftrightarrow> (\<forall>x \<in> set xs. \<not> p x)"
  by (induction xs) auto

text \<open>\<open>slice::join\<close> on strings.\<close>

fun join :: "string \<Rightarrow> string list \<Rightarrow> string" where
  "join sep [] = []"
| "join sep [x] = x"
| "join sep (x # y # ys) = x @ sep @ join sep (y # ys)"

text \<open>The last element, \<open>slice::last\<close>.\<close>

definition last_opt :: "'a list \<Rightarrow> 'a option" where
  "last_opt xs = (if xs = [] then None else Some (last xs))"

lemma last_opt_simps [simp]:
  "last_opt [] = None" "last_opt (xs @ [x]) = Some x"
  by (simp_all add: last_opt_def)

lemma last_opt_None [simp]: "last_opt xs = None \<longleftrightarrow> xs = []"
  by (simp add: last_opt_def)

lemma last_opt_SomeD: "last_opt xs = Some x \<Longrightarrow> xs \<noteq> [] \<and> x = last xs"
  by (auto simp: last_opt_def split: if_splits)

text \<open>A counter that is not at its maximum counts up.\<close>

lemma unat_plus_1: "(w :: 'a::len word) \<noteq> - 1 \<Longrightarrow> unat (w + 1) = Suc (unat w)"
  by (metis add.commute add_eq_0_iff unatSuc)

end
