(* ===== verification/Protocol.thy ===== *)
theory Protocol
  imports Prelude
begin

text \<open>
  The provider-neutral data of \<open>agent-core/src/llm/protocol\<close>: messages and content blocks,
  requests and responses, the stream events of one model call and the snapshots rendered
  from them, and the error type of a call. Constructors carry the source enum's name as a
  prefix where two enums share a variant name (\<open>CbText\<close> is \<open>ContentBlock::Text\<close>).
\<close>

section \<open>JSON values\<close>

text \<open>
  \<open>serde_json::Value\<close>. A number is an integer in the range of \<open>i64\<close> or \<open>u64\<close>, or the bits
  of an \<open>f64\<close>; an object is the association list of its entries in the map's order.
\<close>

datatype json =
    JNull
  | JBool bool
  | JInt int
  | JFloat u64
  | JStr string
  | JArr "json list"
  | JObj "(string \<times> json) list"

fun json_is_object :: "json \<Rightarrow> bool" where
  "json_is_object (JObj _) = True"
| "json_is_object _ = False"

fun json_is_string :: "json \<Rightarrow> bool" where
  "json_is_string (JStr _) = True"
| "json_is_string _ = False"

fun json_as_str :: "json \<Rightarrow> string option" where
  "json_as_str (JStr s) = Some s"
| "json_as_str _ = None"

text \<open>\<open>value.get(key)\<close> and \<open>value[key] = v\<close> on an object; \<open>get\<close> is \<open>None\<close> elsewhere.\<close>

fun json_get :: "string \<Rightarrow> json \<Rightarrow> json option" where
  "json_get k (JObj kvs) = map_of kvs k"
| "json_get k _ = None"

fun alist_put :: "'k \<Rightarrow> 'v \<Rightarrow> ('k \<times> 'v) list \<Rightarrow> ('k \<times> 'v) list" where
  "alist_put k v [] = [(k, v)]"
| "alist_put k v ((k', v') # m) = (if k = k' then (k, v) # m else (k', v') # alist_put k v m)"

fun json_put :: "string \<Rightarrow> json \<Rightarrow> json \<Rightarrow> json" where
  "json_put k v (JObj kvs) = JObj (alist_put k v kvs)"
| "json_put k v j = j"

lemma map_of_alist_put [simp]: "map_of (alist_put k v m) = (map_of m)(k \<mapsto> v)"
  by (induction k v m rule: alist_put.induct) (auto simp: fun_eq_iff)

lemma json_get_put [simp]:
  "json_is_object j \<Longrightarrow> json_get k (json_put k' v j) = (if k = k' then Some v else json_get k j)"
  by (cases j) auto

lemma json_is_object_put [simp]: "json_is_object (json_put k v j) = json_is_object j"
  by (cases j) auto

section \<open>Messages\<close>

datatype role = System | User | Assistant

datatype content_block =
    CbText string
  | CbThinking string
  | CbToolUse (tu_id: string) (tu_name: string) (tu_input: json)
  | CbToolResult (tr_id: string) tool_result_content
and tool_result_content =
    TrcText string
  | TrcBlocks "content_block list"

datatype message_content =
    McText string
  | McBlocks "content_block list"

record message =
  msg_role :: role
  msg_content :: message_content

record tool_schema =
  schema_name :: string
  schema_description :: string
  schema_input :: json

section \<open>Requests and responses\<close>

datatype thinking_level = ThinkOff | ThinkLow | ThinkMedium | ThinkHigh

record model_request =
  rq_model :: string
  rq_system :: string
  rq_messages :: "message list"
  rq_tools :: "tool_schema list"
  rq_max_tokens :: u32
  rq_thinking_level :: "thinking_level option"
  rq_session_id :: "string option"
  rq_previous_response_id :: "string option"

datatype stop_reason = EndTurn | StopToolUse | MaxTokens | StopOther string

record usage =
  input_tokens :: u32
  output_tokens :: u32

record model_response =
  rs_content :: "content_block list"
  rs_stop_reason :: stop_reason
  rs_usage :: "usage option"
  rs_model :: "string option"
  rs_response_id :: "string option"

section \<open>Streaming\<close>

datatype stream_event =
    TextPart u32 string
  | ThinkingPart u32 string
  | ToolUseStarted string string
  | ToolUsePart string string
  | ToolUseFinished string string json
  | Finished stop_reason "usage option" "string option"

datatype pending_block =
    PbText string
  | PbThinking string
  | PbToolUse string string string

record snapshot =
  sn_content :: "content_block list"
  sn_pending :: "pending_block option"
  sn_stop_reason :: "stop_reason option"
  sn_usage :: "usage option"
  sn_model :: "string option"

section \<open>Errors\<close>

datatype cancel_reason = CancelUser | CancelParent | CancelHook | CancelDisposed

datatype request_failure_kind = Recoverable | Unrecoverable

datatype llm_error =
    Cancelled cancel_reason
  | RequestFailed request_failure_kind string

text \<open>The \<open>Display\<close> of an error, with the \<open>Debug\<close> names of the enums it prints.\<close>

fun cancel_reason_debug :: "cancel_reason \<Rightarrow> string" where
  "cancel_reason_debug CancelUser = ''User''"
| "cancel_reason_debug CancelParent = ''Parent''"
| "cancel_reason_debug CancelHook = ''Hook''"
| "cancel_reason_debug CancelDisposed = ''Disposed''"

fun request_failure_kind_debug :: "request_failure_kind \<Rightarrow> string" where
  "request_failure_kind_debug Recoverable = ''Recoverable''"
| "request_failure_kind_debug Unrecoverable = ''Unrecoverable''"

fun llm_error_display :: "llm_error \<Rightarrow> string" where
  "llm_error_display (Cancelled r) = ''llm call cancelled: '' @ cancel_reason_debug r"
| "llm_error_display (RequestFailed k m) =
     ''llm request failed ('' @ request_failure_kind_debug k @ ''): '' @ m"

section \<open>Content classification\<close>

fun is_text_block :: "content_block \<Rightarrow> bool" where
  "is_text_block (CbText _) = True"
| "is_text_block (CbThinking _) = True"
| "is_text_block _ = False"

fun is_tool_use :: "content_block \<Rightarrow> bool" where
  "is_tool_use (CbToolUse _ _ _) = True"
| "is_tool_use _ = False"

fun is_tool_result :: "content_block \<Rightarrow> bool" where
  "is_tool_result (CbToolResult _ _) = True"
| "is_tool_result _ = False"

text \<open>The ids of the tool-use and of the tool-result blocks of a list, in order.\<close>

definition tool_use_ids :: "content_block list \<Rightarrow> string list" where
  "tool_use_ids bs = map tu_id (filter is_tool_use bs)"

definition tool_result_ids :: "content_block list \<Rightarrow> string list" where
  "tool_result_ids bs = map tr_id (filter is_tool_result bs)"

lemma tool_use_ids_simps [simp]:
  "tool_use_ids [] = []"
  "tool_use_ids (CbText t # bs) = tool_use_ids bs"
  "tool_use_ids (CbThinking t # bs) = tool_use_ids bs"
  "tool_use_ids (CbToolUse i n v # bs) = i # tool_use_ids bs"
  "tool_use_ids (CbToolResult i c # bs) = tool_use_ids bs"
  "tool_use_ids (bs @ bs') = tool_use_ids bs @ tool_use_ids bs'"
  by (simp_all add: tool_use_ids_def)

lemma tool_result_ids_simps [simp]:
  "tool_result_ids [] = []"
  "tool_result_ids (CbText t # bs) = tool_result_ids bs"
  "tool_result_ids (CbThinking t # bs) = tool_result_ids bs"
  "tool_result_ids (CbToolUse i n v # bs) = tool_result_ids bs"
  "tool_result_ids (CbToolResult i c # bs) = i # tool_result_ids bs"
  "tool_result_ids (bs @ bs') = tool_result_ids bs @ tool_result_ids bs'"
  by (simp_all add: tool_result_ids_def)

lemma text_blocks_no_tools:
  "list_all is_text_block bs \<Longrightarrow> tool_use_ids bs = [] \<and> tool_result_ids bs = []"
proof (induction bs)
  case Nil
  then show ?case by simp
next
  case (Cons b bs)
  then show ?case by (cases b) auto
qed

end
