(* ===== verification/Tools.thy ===== *)
theory Tools
  imports Protocol "HOL-Library.Multiset"
begin

text \<open>
  \<open>agent-core/src/tools\<close>: tool declarations, calls and results, the frozen registry with its
  precompiled input validators, and the single-call boundary \<open>Tool::execute\<close>. The JSON Schema
  library is a parameter (record \<open>schema_lib\<close>): what compiling a schema and running the
  compiled validator answer. An executor is a reference; what it replies is given by the
  environment of the run.
\<close>

section \<open>Calls and results\<close>

record tool_call =
  call_id :: string
  call_name :: string
  call_input :: json

datatype tool_error =
    ToolUseIdEmpty
  | ToolCallNameEmpty
  | ToolNameEmpty
  | ToolNameInvalid
  | DuplicateToolName string
  | InvalidInputSchema string string
  | ResultIdentityMismatch
  | PipelineOwnedStatus
  | ExecutorError string

definition tool_call_new :: "string \<Rightarrow> string \<Rightarrow> json \<Rightarrow> tool_error + tool_call" where
  "tool_call_new tool_use_id name input =
     (if is_blank tool_use_id then Inl ToolUseIdEmpty
      else if is_blank name then Inl ToolCallNameEmpty
      else Inr \<lparr>call_id = tool_use_id, call_name = name, call_input = input\<rparr>)"

datatype tool_content = TcText string | TcJson json

datatype tool_cancellation = TcancelUser | TcancelParent | TcancelHook | TcancelDisposed

datatype tool_status =
    Succeeded
  | Failed bool
  | InvalidArguments
  | UnknownTool
  | Denied
  | ToolCancelled tool_cancellation
  | OutcomeUnknown

record tool_result =
  res_id :: string
  res_name :: string
  res_status :: tool_status
  res_content :: tool_content

definition with_status :: "tool_call \<Rightarrow> tool_status \<Rightarrow> tool_content \<Rightarrow> tool_result" where
  "with_status call status content =
     \<lparr>res_id = call_id call, res_name = call_name call, res_status = status, res_content = content\<rparr>"

definition succeeded :: "tool_call \<Rightarrow> tool_content \<Rightarrow> tool_result" where
  "succeeded call content = with_status call Succeeded content"

definition failed :: "tool_call \<Rightarrow> tool_content \<Rightarrow> bool \<Rightarrow> tool_result" where
  "failed call content retryable = with_status call (Failed retryable) content"

definition outcome_unknown :: "tool_call \<Rightarrow> tool_content \<Rightarrow> tool_result" where
  "outcome_unknown call content = with_status call OutcomeUnknown content"

lemma with_status_sel [simp]:
  "res_id (with_status c s x) = call_id c" "res_name (with_status c s x) = call_name c"
  "res_status (with_status c s x) = s" "res_content (with_status c s x) = x"
  by (simp_all add: with_status_def)

lemma outcome_unknown_sel [simp]:
  "res_id (outcome_unknown c x) = call_id c" "res_name (outcome_unknown c x) = call_name c"
  "res_status (outcome_unknown c x) = OutcomeUnknown"
  by (simp_all add: outcome_unknown_def)

section \<open>Specifications\<close>

record tool_spec =
  spec_name :: string
  spec_description :: string
  spec_input_schema :: json

text \<open>\<open>byte.is_ascii_alphanumeric() || matches!(byte, b'_' | b'-')\<close>\<close>

definition tool_name_byte :: "char \<Rightarrow> bool" where
  "tool_name_byte c =
     (let b = byte c in
      (48 \<le> b \<and> b \<le> 57) \<or> (65 \<le> b \<and> b \<le> 90) \<or> (97 \<le> b \<and> b \<le> 122) \<or> b = 95 \<or> b = 45)"

definition tool_spec_new :: "string \<Rightarrow> string \<Rightarrow> json \<Rightarrow> tool_error + tool_spec" where
  "tool_spec_new name description input_schema =
     (if is_blank name then Inl ToolNameEmpty
      else if length name > 64 \<or> \<not> list_all tool_name_byte name then Inl ToolNameInvalid
      else Inr \<lparr>spec_name = name, spec_description = description,
                spec_input_schema = input_schema\<rparr>)"

type_synonym executor_ref = nat

record tool =
  tool_spec :: tool_spec
  tool_executor :: executor_ref

abbreviation tool_name :: "tool \<Rightarrow> string" where
  "tool_name t \<equiv> spec_name (tool_spec t)"

section \<open>One call\<close>

fun executor_status :: "tool_status \<Rightarrow> bool" where
  "executor_status Succeeded = True"
| "executor_status (Failed _) = True"
| "executor_status OutcomeUnknown = True"
| "executor_status _ = False"

text \<open>\<open>Tool::execute\<close> on the executor's reply: the error passes, the result is checked.\<close>

definition tool_execute :: "tool_call \<Rightarrow> string + tool_result \<Rightarrow> tool_error + tool_result" where
  "tool_execute call reply =
     (case reply of
        Inl e \<Rightarrow> Inl (ExecutorError e)
      | Inr result \<Rightarrow>
          if res_id result \<noteq> call_id call \<or> res_name result \<noteq> call_name call then
            Inl ResultIdentityMismatch
          else if \<not> executor_status (res_status result) then Inl PipelineOwnedStatus
          else Inr result)"

lemma tool_execute_ok:
  "tool_execute call reply = Inr r \<Longrightarrow>
   res_id r = call_id call \<and> res_name r = call_name call \<and> executor_status (res_status r)
     \<and> reply = Inr r"
  by (auto simp: tool_execute_def split: sum.splits if_splits)

section \<open>Schema validation\<close>

type_synonym validator = "json \<Rightarrow> string option"

record schema_lib =
  meta_validate :: "json \<Rightarrow> string option"
  build_validator :: "(string \<Rightarrow> string + json) \<Rightarrow> json \<Rightarrow> string + validator"

text \<open>\<open>RejectExternalRetriever\<close>: every external reference is an error.\<close>

definition reject_external :: "string \<Rightarrow> string + json" where
  "reject_external uri = Inl (''external schema reference is not allowed: '' @ uri)"

definition compile_input_validator :: "schema_lib \<Rightarrow> tool_spec \<Rightarrow> string + validator" where
  "compile_input_validator L spec =
     (if \<not> json_is_object (spec_input_schema spec) then Inl ''input schema must be a JSON object''
      else case meta_validate L (spec_input_schema spec) of
        Some e \<Rightarrow> Inl (''schema does not conform to JSON Schema Draft 2020-12: '' @ e)
      | None \<Rightarrow>
          (case build_validator L reject_external (spec_input_schema spec) of
             Inl e \<Rightarrow> Inl (''schema could not be compiled: '' @ e)
           | Inr v \<Rightarrow> Inr v))"

section \<open>The registry\<close>

text \<open>\<open>slice::binary_search_by\<close>: halving of the window \<open>[base, base + sz)\<close>.\<close>

datatype ordering = OLess | OEqual | OGreater

definition str_cmp :: "string \<Rightarrow> string \<Rightarrow> ordering" where
  "str_cmp a b = (if a < b then OLess else if a = b then OEqual else OGreater)"

function bsearch_base :: "('a \<Rightarrow> ordering) \<Rightarrow> 'a list \<Rightarrow> nat \<Rightarrow> nat \<Rightarrow> nat" where
  "bsearch_base f xs base sz =
     (if sz > 1 then
        (let half = sz div 2; mid = base + half in
         bsearch_base f xs (if f (xs ! mid) = OGreater then base else mid) (sz - half))
      else base)"
  by pat_completeness auto
termination
  by (relation "measure (\<lambda>(f, xs, base, sz). sz)") auto

declare bsearch_base.simps [simp del]

definition binary_search_by :: "('a \<Rightarrow> ordering) \<Rightarrow> 'a list \<Rightarrow> nat option" where
  "binary_search_by f xs =
     (if xs = [] then None
      else let base = bsearch_base f xs 0 (length xs) in
        if f (xs ! base) = OEqual then Some base else None)"

record registry =
  reg_tools :: "tool list"
  reg_validators :: "validator list"

text \<open>\<open>windows(2).find(|pair| names equal)\<close>\<close>

fun duplicate_window :: "tool list \<Rightarrow> string option" where
  "duplicate_window (a # b # ts) =
     (if tool_name a = tool_name b then Some (tool_name a) else duplicate_window (b # ts))"
| "duplicate_window _ = None"

definition compile_with_context :: "schema_lib \<Rightarrow> tool \<Rightarrow> tool_error + validator" where
  "compile_with_context L t =
     (case compile_input_validator L (tool_spec t) of
        Inl e \<Rightarrow> Inl (InvalidInputSchema (tool_name t) e)
      | Inr v \<Rightarrow> Inr v)"

definition registry_new :: "schema_lib \<Rightarrow> tool list \<Rightarrow> tool_error + registry" where
  "registry_new L tools0 =
     (let tools = sort_key tool_name tools0 in
      case duplicate_window tools of
        Some n \<Rightarrow> Inl (DuplicateToolName n)
      | None \<Rightarrow>
          (case collect_results (compile_with_context L) tools of
             Inl e \<Rightarrow> Inl e
           | Inr validators \<Rightarrow> Inr \<lparr>reg_tools = tools, reg_validators = validators\<rparr>))"

definition resolve :: "registry \<Rightarrow> string \<Rightarrow> tool option" where
  "resolve R name =
     (case binary_search_by (\<lambda>t. str_cmp (tool_name t) name) (reg_tools R) of
        None \<Rightarrow> None
      | Some i \<Rightarrow> Some (reg_tools R ! i))"

definition validate_input :: "registry \<Rightarrow> tool \<Rightarrow> tool_call \<Rightarrow> string option" where
  "validate_input R t call =
     (case binary_search_by (\<lambda>c. str_cmp (tool_name c) (tool_name t)) (reg_tools R) of
        None \<Rightarrow> Some (''tool '' @ tool_name t @ '' does not belong to this registry'')
      | Some i \<Rightarrow> (reg_validators R ! i) (call_input call))"

section \<open>Binary search is lookup\<close>

lemma bsearch_base_spec:
  assumes "sz \<ge> 1" and "base + sz \<le> length xs"
    and "sorted_wrt (\<lambda>a b. (f a = OGreater \<longrightarrow> f b = OGreater) \<and> (f b = OLess \<longrightarrow> f a = OLess)) xs"
    and "k < length xs" and "f (xs ! k) = OEqual"
    and "\<forall>j < length xs. f (xs ! j) = OEqual \<longrightarrow> j = k"
    and "base \<le> k" and "k < base + sz"
  shows "bsearch_base f xs base sz = k"
  using assms
proof (induction f xs base sz rule: bsearch_base.induct)
  case (1 f xs base sz)
  show ?case
  proof (cases "sz > 1")
    case False
    with "1.prems" have "base = k" by linarith
    with False show ?thesis by (simp add: bsearch_base.simps [of f xs k sz])
  next
    case True
    let ?half = "sz div 2" and ?mid = "base + sz div 2"
    have mid: "?mid < length xs" using True "1.prems"(2) by linarith
    have mono: "(f (xs ! a) = OGreater \<longrightarrow> f (xs ! b) = OGreater) \<and> (f (xs ! b) = OLess \<longrightarrow> f (xs ! a) = OLess)"
      if "a < b" "b < length xs" for a b
      using sorted_wrt_nth_less [OF "1.prems"(3) that] .
    have side: "(f (xs ! ?mid) = OGreater \<longrightarrow> k < ?mid) \<and> (f (xs ! ?mid) \<noteq> OGreater \<longrightarrow> ?mid \<le> k)"
    proof (cases ?mid k rule: linorder_cases)
      case less
      with mono [of ?mid k] "1.prems"(4,5) show ?thesis by auto
    next
      case equal
      with "1.prems"(5) show ?thesis by auto
    next
      case greater
      with mono [of k ?mid] mid "1.prems"(5,6) show ?thesis by (cases "f (xs ! ?mid)") auto
    qed
    let ?nb = "if f (xs ! ?mid) = OGreater then base else ?mid"
    have nb: "?nb \<le> k" "k < ?nb + (sz - ?half)" "?nb + (sz - ?half) \<le> length xs"
      using side "1.prems"(2,7,8) by auto
    have "bsearch_base f xs ?nb (sz - ?half) = k"
      by (rule "1.IH" [OF True refl refl _ nb(3) "1.prems"(3-6) nb(1,2)]) (use True in simp)
    with True show ?thesis by (simp add: bsearch_base.simps [of f xs base sz] Let_def)
  qed
qed

text \<open>On a list with strictly increasing keys the search finds the key's only index.\<close>

lemma binary_search_by_key:
  assumes sorted: "sorted_wrt (<) (map g xs)"
  shows "binary_search_by (\<lambda>x. str_cmp (g x) key) xs = Some i \<longleftrightarrow> i < length xs \<and> g (xs ! i) = key"
    (is "?s = Some i \<longleftrightarrow> ?hit")
proof
  assume s: "?s = Some i"
  then have ne: "xs \<noteq> []" and b: "bsearch_base (\<lambda>x. str_cmp (g x) key) xs 0 (length xs) = i"
    and eq: "str_cmp (g (xs ! i)) key = OEqual"
    by (auto simp: binary_search_by_def Let_def split: if_splits)
  have bound: "bsearch_base f xs base sz < length xs"
    if "sz \<ge> 1" "base + sz \<le> length xs" for f base sz
    using that
  proof (induction f xs base sz rule: bsearch_base.induct)
    case (1 f xs base sz)
    show ?case
    proof (cases "sz > 1")
      case True
      then have "bsearch_base f xs (if f (xs ! (base + sz div 2)) = OGreater then base
          else base + sz div 2) (sz - sz div 2) < length xs"
        using "1.prems" by (intro "1.IH") auto
      with True show ?thesis by (simp add: bsearch_base.simps [of f xs base sz] Let_def)
    next
      case False
      then show ?thesis using 1 by (simp add: bsearch_base.simps [of f xs base sz])
    qed
  qed
  have "i < length xs" using bound [of "length xs" 0] ne b by (cases xs) auto
  with eq show ?hit by (auto simp: str_cmp_def split: if_splits)
next
  assume hit: ?hit
  let ?f = "\<lambda>x. str_cmp (g x) key"
  have mono: "g (xs ! a) < g (xs ! b)" if "a < b" "b < length xs" for a b
    using sorted that by (auto simp: sorted_wrt_iff_nth_less)
  have "bsearch_base ?f xs 0 (length xs) = i"
  proof (rule bsearch_base_spec)
    show "sorted_wrt (\<lambda>a b. (?f a = OGreater \<longrightarrow> ?f b = OGreater) \<and> (?f b = OLess \<longrightarrow> ?f a = OLess)) xs"
      using mono by (force simp: sorted_wrt_iff_nth_less str_cmp_def split: if_splits)
    show "\<forall>j < length xs. ?f (xs ! j) = OEqual \<longrightarrow> j = i"
      using mono hit by (metis linorder_neqE_nat order.irrefl ordering.distinct(1,5) str_cmp_def)
  qed (use hit in \<open>auto simp: str_cmp_def\<close>)
  with hit show "?s = Some i" by (auto simp: binary_search_by_def str_cmp_def)
qed

section \<open>The registry's invariant\<close>

definition registry_ok :: "registry \<Rightarrow> bool" where
  "registry_ok R \<longleftrightarrow>
     sorted_wrt (<) (map tool_name (reg_tools R)) \<and> length (reg_validators R) = length (reg_tools R)"

lemma duplicate_window_None:
  "sorted (map tool_name ts) \<Longrightarrow> duplicate_window ts = None \<longleftrightarrow> sorted_wrt (<) (map tool_name ts)"
proof (induction ts rule: duplicate_window.induct)
  case (1 a b ts)
  then show ?case by (auto simp: order.strict_iff_order)
qed auto

lemma registry_newE:
  assumes "registry_new L ts = Inr R"
  obtains "reg_tools R = sort_key tool_name ts" "registry_ok R"
    "collect_results (compile_with_context L) (reg_tools R) = Inr (reg_validators R)"
proof -
  let ?ts = "sort_key tool_name ts"
  have dup: "duplicate_window ?ts = None"
    using assms by (simp add: registry_new_def Let_def split: option.splits)
  then obtain vs where vs: "collect_results (compile_with_context L) ?ts = Inr vs"
    and R: "R = \<lparr>reg_tools = ?ts, reg_validators = vs\<rparr>"
    using assms by (auto simp: registry_new_def Let_def split: sum.splits)
  have "sorted_wrt (<) (map tool_name ?ts)" using dup by (simp add: duplicate_window_None)
  with vs R that show ?thesis by (simp add: registry_ok_def collect_results_length [OF vs])
qed

lemma resolve_Some:
  assumes "registry_ok R"
  shows "resolve R n = Some t \<longleftrightarrow> t \<in> set (reg_tools R) \<and> tool_name t = n"
proof -
  note key = binary_search_by_key [of tool_name "reg_tools R" n]
  have sorted: "sorted_wrt (<) (map tool_name (reg_tools R))" using assms by (simp add: registry_ok_def)
  then have inj: "i = j" if "i < length (reg_tools R)" "j < length (reg_tools R)"
      "tool_name (reg_tools R ! i) = tool_name (reg_tools R ! j)" for i j
    using that by (metis (no_types, lifting) distinct_conv_nth length_map nth_map strict_sorted_iff)
  show ?thesis
  proof
    assume "resolve R n = Some t"
    then obtain i where "binary_search_by (\<lambda>c. str_cmp (tool_name c) n) (reg_tools R) = Some i"
      and "t = reg_tools R ! i" by (auto simp: resolve_def split: option.splits)
    with key [OF sorted, of i] show "t \<in> set (reg_tools R) \<and> tool_name t = n" by simp
  next
    assume t: "t \<in> set (reg_tools R) \<and> tool_name t = n"
    then obtain i where i: "i < length (reg_tools R)" "reg_tools R ! i = t" by (auto simp: in_set_conv_nth)
    with t key [OF sorted, of i] show "resolve R n = Some t" by (simp add: resolve_def)
  qed
qed

lemma compile_with_context_ok:
  "compile_with_context L t = Inr v \<longleftrightarrow> compile_input_validator L (tool_spec t) = Inr v"
  by (auto simp: compile_with_context_def split: sum.splits)

lemma collect_results_ok_iff: "is_ok (collect_results f xs) \<longleftrightarrow> (\<forall>x \<in> set xs. is_ok (f x))"
  by (induction xs) (auto simp: is_ok_def split: sum.splits)

text \<open>
  a frozen registry holds exactly the tools it was built from, in strictly increasing
  name order, and \<open>resolve\<close> (a binary search) finds a tool by its name and no other.
\<close>

theorem registry_lookup:
  assumes "registry_new L ts = Inr R"
  shows "mset (reg_tools R) = mset ts \<and> sorted_wrt (<) (map tool_name (reg_tools R))
    \<and> (\<forall>n t. resolve R n = Some t \<longleftrightarrow> t \<in> set ts \<and> tool_name t = n)"
proof -
  obtain "reg_tools R = sort_key tool_name ts" and "registry_ok R"
    using registry_newE [OF assms] by metis
  then show ?thesis using resolve_Some [of R] by (simp add: registry_ok_def)
qed

definition permissive_lib :: schema_lib where
  "permissive_lib =
     \<lparr>meta_validate = (\<lambda>_. None),
      build_validator = (\<lambda>_ schema. Inr (\<lambda>input. if json_is_object input then None else Some ''not an object''))\<rparr>"

definition demo_tool :: "string \<Rightarrow> executor_ref \<Rightarrow> tool" where
  "demo_tool n x = \<lparr>tool_spec = \<lparr>spec_name = n, spec_description = [], spec_input_schema = JObj []\<rparr>,
                    tool_executor = x\<rparr>"

lemma demo_registry_names:
  "map_sum id (\<lambda>R. map tool_name (reg_tools R))
     (registry_new permissive_lib [demo_tool ''write'' 1, demo_tool ''bash'' 2]) = Inr [''bash'', ''write'']"
  by code_simp

lemma demo_registry: "\<exists>R. registry_new permissive_lib [demo_tool ''write'' 1, demo_tool ''bash'' 2] = Inr R"
  using demo_registry_names
  by (cases "registry_new permissive_lib [demo_tool ''write'' 1, demo_tool ''bash'' 2]") auto

theorem registry_lookup_witness:
  "\<exists>R. registry_new permissive_lib [demo_tool ''write'' 1, demo_tool ''bash'' 2] = Inr R
    \<and> resolve R ''bash'' = Some (demo_tool ''bash'' 2) \<and> resolve R ''grep'' = None"
proof -
  obtain R where R: "registry_new permissive_lib [demo_tool ''write'' 1, demo_tool ''bash'' 2] = Inr R"
    using demo_registry by blast
  note l = registry_lookup [OF R, THEN conjunct2, THEN conjunct2]
  have "resolve R ''bash'' = Some (demo_tool ''bash'' 2)" 
    using l [rule_format, of "''bash''" "demo_tool ''bash'' 2"] by (simp add: demo_tool_def)
  moreover have "resolve R ''grep'' = None"
  proof (cases "resolve R ''grep''")
    case (Some t)
    with l [rule_format, of "''grep''" t] show ?thesis by (auto simp: demo_tool_def)
  qed
  ultimately show ?thesis using R by blast
qed

text \<open>
  The registry is all or nothing: construction succeeds exactly when the names are
  distinct and every input schema compiles.
\<close>

theorem registry_new_ok_iff:
  "is_ok (registry_new L ts) \<longleftrightarrow>
     distinct (map tool_name ts) \<and> list_all (\<lambda>t. is_ok (compile_input_validator L (tool_spec t))) ts"
proof -
  let ?ts = "sort_key tool_name ts"
  have "is_ok (compile_with_context L t) \<longleftrightarrow> is_ok (compile_input_validator L (tool_spec t))" for t
    by (auto simp: compile_with_context_def is_ok_def split: sum.splits)
  then have c: "is_ok (collect_results (compile_with_context L) ?ts) \<longleftrightarrow>
      (\<forall>t \<in> set ts. is_ok (compile_input_validator L (tool_spec t)))"
    by (simp add: collect_results_ok_iff)
  have all: "list_all P ts \<longleftrightarrow> (\<forall>t \<in> set ts. P t)" for P by (simp add: list_all_iff)
  have "duplicate_window ?ts = None \<longleftrightarrow> distinct (map tool_name ?ts)"
    by (simp add: duplicate_window_None strict_sorted_iff)
  also have "\<dots> \<longleftrightarrow> distinct (map tool_name ts)"
    by (rule mset_eq_imp_distinct_iff) simp
  finally show ?thesis using c all
    by (auto simp: registry_new_def Let_def is_ok_def split: option.splits sum.splits)
qed

text \<open>
  a resolved tool is validated by the validator compiled from that same tool's schema:
  the schema the model is shown and the check its calls go through never diverge.
\<close>

theorem validate_input_own_schema:
  assumes "registry_new L ts = Inr R" and "resolve R n = Some t"
  shows "\<exists>v. compile_input_validator L (tool_spec t) = Inr v \<and> validate_input R t call = v (call_input call)"
proof -
  have ok: "registry_ok R" and coll: "collect_results (compile_with_context L) (reg_tools R) = Inr (reg_validators R)"
    using registry_newE [OF assms(1)] by metis+
  have t: "t \<in> set (reg_tools R)" using resolve_Some [OF ok] assms(2) by simp
  then obtain i where i: "i < length (reg_tools R)" "reg_tools R ! i = t" by (auto simp: in_set_conv_nth)
  have "binary_search_by (\<lambda>c. str_cmp (tool_name c) (tool_name t)) (reg_tools R) = Some i"
    using binary_search_by_key [of tool_name "reg_tools R" "tool_name t" i] ok i by (simp add: registry_ok_def)
  moreover have "compile_input_validator L (tool_spec t) = Inr (reg_validators R ! i)"
    using collect_results_nth [OF coll i(1)] i(2) by (simp add: compile_with_context_ok)
  ultimately show ?thesis by (simp add: validate_input_def)
qed

theorem validate_input_own_schema_witness:
  "\<exists>R t. registry_new permissive_lib [demo_tool ''bash'' 2] = Inr R \<and> resolve R ''bash'' = Some t
    \<and> validate_input R t \<lparr>call_id = ''1'', call_name = ''bash'', call_input = JNull\<rparr> = Some ''not an object''"
proof -
  obtain R where R: "registry_new permissive_lib [demo_tool ''bash'' 2] = Inr R"
    by (simp add: registry_new_def demo_tool_def permissive_lib_def compile_with_context_def
        compile_input_validator_def Let_def)
  then have "registry_ok R" and "reg_tools R = [demo_tool ''bash'' 2]"
    using registry_newE [OF R] by auto
  then have res: "resolve R ''bash'' = Some (demo_tool ''bash'' 2)"
    by (simp add: resolve_Some demo_tool_def)
  from validate_input_own_schema [OF R res, of "\<lparr>call_id = ''1'', call_name = ''bash'', call_input = JNull\<rparr>"] R res
  show ?thesis
    by (auto simp: permissive_lib_def compile_input_validator_def demo_tool_def)
qed

text \<open>A tool specification is accepted exactly when its name matches \<open>[A-Za-z0-9_-]{1,64}\<close>.\<close>

theorem tool_spec_new_ok_iff:
  "is_ok (tool_spec_new n d s) \<longleftrightarrow> n \<noteq> [] \<and> length n \<le> 64 \<and> list_all tool_name_byte n"
proof -
  have "\<not> is_blank n" if "n \<noteq> []" "\<forall>c \<in> set n. tool_name_byte c"
  proof -
    have ok: "byte c < 128 \<and> \<not> ascii_ws (byte c)" if "tool_name_byte c" for c
      using that unfolding tool_name_byte_def ascii_ws_def Let_def by linarith
    have "tool_name_byte (hd n)" and "tool_name_byte (last n)" using that by auto
    then have "trim n = n" using trim_ascii_ends [OF that(1)] ok by blast
    then show ?thesis using that(1) by (simp add: is_blank_def)
  qed
  then show ?thesis by (auto simp: tool_spec_new_def is_ok_def list_all_iff)
qed

end
