(* ===== verification/Channel.thy ===== *)
theory Channel
  imports Prelude
begin

text \<open>
  The bounded queues between the tasks of the program: the contract of a queue that refuses what
  it has no room for (\<open>bounded_queue\<close>), and \<open>tokio::sync::mpsc\<close> as the code uses it. The observer
  bridge of \<open>Events\<close> keeps the same contract.
\<close>

section \<open>The contract\<close>

datatype 'a queue_op = Push 'a | Pop

locale bounded_queue =
  fixes contents :: "'q \<Rightarrow> 'a list"
    and capacity :: "'q \<Rightarrow> nat"
    and push :: "'a \<Rightarrow> 'q \<Rightarrow> bool \<times> 'q"
    and pop :: "'q \<Rightarrow> ('a \<times> 'q) option"
  assumes push_contents: "push x q = (b, q') \<Longrightarrow> contents q' = (if b then contents q @ [x] else contents q)"
    and push_room: "push x q = (True, q') \<Longrightarrow> length (contents q) < capacity q"
    and push_capacity: "push x q = (b, q') \<Longrightarrow> capacity q' = capacity q"
    and pop_contents: "pop q = Some (x, q') \<Longrightarrow> contents q = x # contents q'"
    and pop_capacity: "pop q = Some (x, q') \<Longrightarrow> capacity q' = capacity q"
    and pop_empty: "pop q = None \<Longrightarrow> contents q = []"
begin

text \<open>Any interleaving of a sender and a receiver: what was accepted and what was taken.\<close>

fun run_ops :: "'a queue_op list \<Rightarrow> 'q \<Rightarrow> 'a list \<times> 'a list \<times> 'q" where
  "run_ops [] q = ([], [], q)"
| "run_ops (Push x # ops) q =
     (case push x q of (b, q') \<Rightarrow>
        (case run_ops ops q' of (acc, taken, q'') \<Rightarrow> (if b then x # acc else acc, taken, q'')))"
| "run_ops (Pop # ops) q =
     (case pop q of
        None \<Rightarrow> run_ops ops q
      | Some (x, q') \<Rightarrow> (case run_ops ops q' of (acc, taken, q'') \<Rightarrow> (acc, x # taken, q'')))"

lemma fifo: "run_ops ops q = (acc, taken, q') \<Longrightarrow> contents q @ acc = taken @ contents q'"
proof (induction ops arbitrary: q acc taken)
  case (Cons op ops)
  show ?case
  proof (cases op)
    case (Push x)
    obtain b q1 where p: "push x q = (b, q1)" by fastforce
    obtain acc1 where "run_ops ops q1 = (acc1, taken, q')" "acc = (if b then x # acc1 else acc1)"
      using Cons.prems Push p by (auto split: prod.splits)
    with Cons.IH [of q1 acc1 taken] push_contents [OF p] show ?thesis by (cases b) auto
  next
    case Pop
    show ?thesis
    proof (cases "pop q")
      case None
      then show ?thesis using Cons Pop by simp
    next
      case (Some xq)
      obtain x q1 where xq: "xq = (x, q1)" by (cases xq)
      obtain taken1 where "run_ops ops q1 = (acc, taken1, q')" "taken = x # taken1"
        using Cons.prems Pop Some xq by (auto split: prod.splits)
      with Cons.IH [of q1 acc taken1] pop_contents [of q x q1] Some xq show ?thesis by simp
    qed
  qed
qed simp

lemma push_bound: "push x q = (b, q') \<Longrightarrow> length (contents q) \<le> capacity q \<Longrightarrow> length (contents q') \<le> capacity q'"
  using push_contents [of x q b q'] push_room [of x q q'] push_capacity [of x q b q'] by (cases b) auto

lemma pop_bound: "pop q = Some (x, q') \<Longrightarrow> length (contents q) \<le> capacity q \<Longrightarrow> length (contents q') \<le> capacity q'"
  using pop_contents [of q x q'] pop_capacity [of q x q'] by simp

lemma bounded: "run_ops ops q = (acc, taken, q') \<Longrightarrow> length (contents q) \<le> capacity q \<Longrightarrow> length (contents q') \<le> capacity q'"
proof (induction ops arbitrary: q acc taken)
  case (Cons op ops)
  show ?case
  proof (cases op)
    case (Push x)
    obtain b q1 where p: "push x q = (b, q1)" by fastforce
    obtain acc1 where "run_ops ops q1 = (acc1, taken, q')"
      using Cons.prems(1) Push p by (auto split: prod.splits)
    from Cons.IH [OF this push_bound [OF p Cons.prems(2)]] show ?thesis .
  next
    case Pop
    show ?thesis
    proof (cases "pop q")
      case None
      then show ?thesis using Cons Pop by simp
    next
      case (Some xq)
      obtain x q1 where xq: "xq = (x, q1)" by (cases xq)
      obtain taken1 where "run_ops ops q1 = (acc, taken1, q')"
        using Cons.prems(1) Pop Some xq by (auto split: prod.splits)
      from Cons.IH [OF this pop_bound [OF _ Cons.prems(2)]] Some xq show ?thesis by simp
    qed
  qed
qed simp

end

section \<open>Channels\<close>

text \<open>\<open>mpsc::channel\<close>: its capacity, what is queued, and whether the receiver is alive.\<close>

record 'a channel =
  ch_capacity :: nat
  ch_queue :: "'a list"
  ch_open :: bool

definition channel_new :: "nat \<Rightarrow> 'a channel" where
  "channel_new capacity = \<lparr>ch_capacity = capacity, ch_queue = [], ch_open = True\<rparr>"

datatype send_result = Sent | SendFull | SendClosed

definition try_send :: "'a \<Rightarrow> 'a channel \<Rightarrow> send_result \<times> 'a channel" where
  "try_send x c =
     (if \<not> ch_open c then (SendClosed, c)
      else if length (ch_queue c) < ch_capacity c then (Sent, c\<lparr>ch_queue := ch_queue c @ [x]\<rparr>)
      else (SendFull, c))"

definition try_recv :: "'a channel \<Rightarrow> ('a \<times> 'a channel) option" where
  "try_recv c = (case ch_queue c of [] \<Rightarrow> None | x # xs \<Rightarrow> Some (x, c\<lparr>ch_queue := xs\<rparr>))"

definition channel_push :: "'a \<Rightarrow> 'a channel \<Rightarrow> bool \<times> 'a channel" where
  "channel_push x c = (case try_send x c of (r, c') \<Rightarrow> (r = Sent, c'))"

interpretation channel: bounded_queue ch_queue ch_capacity channel_push try_recv
  by unfold_locales
    (auto simp: channel_push_def try_send_def try_recv_def split: if_splits list.splits)

end
