(* ===== verification/Events.thy ===== *)
theory Events
  imports Tools Channel
begin

text \<open>
  \<open>agent-core/src/event\<close>: the turn events of the loop, the correlation context, the dispatcher
  that runs commit, then the hooks, then the observer bridge, and the bounded bridge itself.
  The commit handler of a dispatch is a function on the store's state; the contract the
  dispatcher relies on is the locale \<open>commit_handler\<close>, which the session store provides.
\<close>

section \<open>Turn events\<close>

datatype turn_compaction_kind = TurnPrune | TurnTailWindow | TurnSummary

datatype llm_call_failure_kind = FailRequest request_failure_kind | InvalidResponse

datatype llm_call_outcome =
    CallSucceeded stop_reason "usage option"
  | CallFailed llm_call_failure_kind
  | CallCancelled cancel_reason

datatype turn_event =
    TurnStarted (ev_turn: u64)
  | TurnEnded (ev_turn: u64)
  | UserPromptCommitted (ev_turn: u64) string
  | AssistantFinalized (ev_turn: u64) string "content_block list"
  | ToolCallRecorded (ev_turn: u64) tool_call
  | ToolResultRecorded (ev_turn: u64) tool_result
  | LlmCallStarted (ev_turn: u64) u32 string
  | LlmCallEnded (ev_turn: u64) u32 string llm_call_outcome
  | MessageUpdate (ev_turn: u64) u32 string snapshot
  | CompactionApplied (ev_turn: u64) turn_compaction_kind "string option" "string list"
      "u64 option" "u64 option"
  | CompactionRecommended (ev_turn: u64)
  | ContextPreflightEnded (ev_turn: u64)
  | ContextPostflightEnded (ev_turn: u64)

fun is_committable :: "turn_event \<Rightarrow> bool" where
  "is_committable (UserPromptCommitted _ _) = True"
| "is_committable (AssistantFinalized _ _ _) = True"
| "is_committable (ToolCallRecorded _ _) = True"
| "is_committable (ToolResultRecorded _ _) = True"
| "is_committable (CompactionApplied _ _ _ _ _ _) = True"
| "is_committable _ = False"

section \<open>Correlation context\<close>

record trace_context =
  tr_run_id :: string
  tr_session_id :: string
  tr_turn :: u64
  tr_step :: u32
  tr_llm_call_id :: "string option"
  tr_tool_use_id :: "string option"
  tr_session_item_id :: "string option"

definition trace_new :: "string \<Rightarrow> string \<Rightarrow> trace_context" where
  "trace_new run_id session_id =
     \<lparr>tr_run_id = run_id, tr_session_id = session_id, tr_turn = 0, tr_step = 0,
      tr_llm_call_id = None, tr_tool_use_id = None, tr_session_item_id = None\<rparr>"

fun apply_event_to_trace :: "trace_context \<Rightarrow> turn_event \<Rightarrow> trace_context" where
  "apply_event_to_trace t (ToolCallRecorded n call) =
     t\<lparr>tr_turn := n, tr_tool_use_id := Some (call_id call)\<rparr>"
| "apply_event_to_trace t (ToolResultRecorded n result) =
     t\<lparr>tr_turn := n, tr_tool_use_id := Some (res_id result)\<rparr>"
| "apply_event_to_trace t (LlmCallStarted n s i) =
     t\<lparr>tr_turn := n, tr_step := s, tr_llm_call_id := Some i\<rparr>"
| "apply_event_to_trace t (LlmCallEnded n s i _) =
     t\<lparr>tr_turn := n, tr_step := s, tr_llm_call_id := Some i\<rparr>"
| "apply_event_to_trace t (MessageUpdate n s i _) =
     t\<lparr>tr_turn := n, tr_step := s, tr_llm_call_id := Some i\<rparr>"
| "apply_event_to_trace t e = t\<lparr>tr_turn := ev_turn e\<rparr>"

section \<open>The observer bridge\<close>

record observer_event =
  oe_context :: trace_context
  oe_event :: turn_event

text \<open>The bounded channel: its capacity, what is queued, and whether the receiver lives.\<close>

record bridge =
  br_capacity :: nat
  br_queue :: "observer_event list"
  br_open :: bool

definition bridge_channel :: "nat \<Rightarrow> string + bridge" where
  "bridge_channel capacity =
     (if capacity = 0 then Inl ''observer bridge capacity must be greater than zero''
      else Inr \<lparr>br_capacity = capacity, br_queue = [], br_open = True\<rparr>)"

definition try_publish :: "bridge \<Rightarrow> trace_context \<Rightarrow> turn_event \<Rightarrow> bridge" where
  "try_publish br ctx e =
     (if br_open br \<and> length (br_queue br) < br_capacity br then
        br\<lparr>br_queue := br_queue br @ [\<lparr>oe_context = ctx, oe_event = e\<rparr>]\<rparr>
      else br)"

section \<open>The dispatcher\<close>

text \<open>
  A hook answers \<open>None\<close> for \<open>Ok\<close> and its error otherwise. The frozen hook table is built by
  appending. \<open>dp_seen\<close> records, in order, the hook calls made (hook index, context, event),
  \<open>dp_diagnostics\<close> the failures printed.
\<close>

type_synonym hook = "trace_context \<Rightarrow> turn_event \<Rightarrow> string option"

definition registry_add_hook :: "hook list \<Rightarrow> hook \<Rightarrow> hook list" where
  "registry_add_hook hooks h = hooks @ [h]"

record dispatcher =
  dp_hooks :: "hook list"
  dp_trace :: trace_context
  dp_bridge :: "bridge option"
  dp_seen :: "(nat \<times> trace_context \<times> turn_event) list"
  dp_diagnostics :: "(nat \<times> turn_event \<times> string) list"

definition dispatcher_new :: "hook list \<Rightarrow> trace_context \<Rightarrow> dispatcher" where
  "dispatcher_new hooks trace =
     \<lparr>dp_hooks = hooks, dp_trace = trace, dp_bridge = None, dp_seen = [], dp_diagnostics = []\<rparr>"

definition with_observer_bridge :: "dispatcher \<Rightarrow> bridge \<Rightarrow> dispatcher" where
  "with_observer_bridge d br = d\<lparr>dp_bridge := Some br\<rparr>"

text \<open>The loop over the hooks: each is called, an error is printed and the loop goes on.\<close>

fun run_hooks :: "trace_context \<Rightarrow> turn_event \<Rightarrow> nat \<Rightarrow> hook list \<Rightarrow> dispatcher \<Rightarrow> dispatcher" where
  "run_hooks ctx e i [] d = d"
| "run_hooks ctx e i (h # hs) d =
     run_hooks ctx e (Suc i) hs
       (d\<lparr>dp_seen := dp_seen d @ [(i, ctx, e)],
          dp_diagnostics := dp_diagnostics d @
            (case h ctx e of None \<Rightarrow> [] | Some err \<Rightarrow> [(i, e, err)])\<rparr>)"

text \<open>The trace at the start of a dispatch: transient fields cleared, the event applied.\<close>

definition begin_trace :: "trace_context \<Rightarrow> turn_event \<Rightarrow> trace_context" where
  "begin_trace t e =
     apply_event_to_trace
       (t\<lparr>tr_session_item_id := None, tr_tool_use_id := None, tr_llm_call_id := None\<rparr>) e"

text \<open>What follows the commit: hooks, then the bridge.\<close>

definition after_commit :: "dispatcher \<Rightarrow> turn_event \<Rightarrow> dispatcher" where
  "after_commit d e =
     (let d' = run_hooks (dp_trace d) e 0 (dp_hooks d) d in
      case dp_bridge d' of
        None \<Rightarrow> d'
      | Some br \<Rightarrow> d'\<lparr>dp_bridge := Some (try_publish br (dp_trace d') e)\<rparr>)"

type_synonym ('e, 's) commit_fn = "'s \<Rightarrow> turn_event \<Rightarrow> ('e + string option) \<times> 's"

definition emit :: "('e, 's) commit_fn \<Rightarrow> dispatcher \<Rightarrow> 's \<Rightarrow> turn_event \<Rightarrow> ('e + unit) \<times> dispatcher \<times> 's" where
  "emit commit d s e =
     (let d1 = d\<lparr>dp_trace := begin_trace (dp_trace d) e\<rparr> in
      if is_committable e then
        (case commit s e of
           (Inl err, s') \<Rightarrow> (Inl err, d1, s')
         | (Inr item_id, s') \<Rightarrow>
             (Inr (), after_commit (d1\<lparr>dp_trace := (dp_trace d1)\<lparr>tr_session_item_id := item_id\<rparr>\<rparr>) e, s'))
      else (Inr (), after_commit d1 e, s))"

section \<open>Dispatcher lemmas\<close>

lemma run_hooks_frame [simp]:
  "dp_trace (run_hooks ctx e i hs d) = dp_trace d"
  "dp_hooks (run_hooks ctx e i hs d) = dp_hooks d"
  "dp_bridge (run_hooks ctx e i hs d) = dp_bridge d"
  by (induction ctx e i hs d rule: run_hooks.induct) auto

lemma run_hooks_seen:
  "dp_seen (run_hooks ctx e i hs d) = dp_seen d @ map (\<lambda>j. (i + j, ctx, e)) [0..<length hs]"
proof (induction ctx e i hs d rule: run_hooks.induct)
  case (1 ctx e i d)
  then show ?case by simp
next
  case (2 ctx e i h hs d)
  have "map (\<lambda>j. (i + j, ctx, e)) [0..<Suc (length hs)] =
      (i, ctx, e) # map (\<lambda>j. (Suc i + j, ctx, e)) [0..<length hs]"
    by (simp add: upt_conv_Cons map_Suc_upt [symmetric] comp_def del: upt_Suc)
  with 2 show ?case by simp
qed

lemma after_commit_frame [simp]:
  "dp_trace (after_commit d e) = dp_trace d" "dp_hooks (after_commit d e) = dp_hooks d"
  by (auto simp: after_commit_def Let_def split: option.splits)

lemma after_commit_seen:
  "dp_seen (after_commit d e) = dp_seen d @ map (\<lambda>j. (j, dp_trace d, e)) [0..<length (dp_hooks d)]"
  by (auto simp: after_commit_def Let_def run_hooks_seen split: option.splits)

lemma after_commit_bridge:
  "dp_bridge (after_commit d e) = map_option (\<lambda>br. try_publish br (dp_trace d) e) (dp_bridge d)"
  by (auto simp: after_commit_def Let_def split: option.splits)

lemma emit_frame: "emit commit d s e = (r, d', s') \<Longrightarrow> dp_hooks d' = dp_hooks d"
  by (auto simp: emit_def Let_def split: if_splits prod.splits sum.splits)

lemma emit_observational:
  "\<not> is_committable e \<Longrightarrow>
   emit commit d s e = (Inr (), after_commit (d\<lparr>dp_trace := begin_trace (dp_trace d) e\<rparr>) e, s)"
  by (simp add: emit_def)

lemma emit_committable:
  "is_committable e \<Longrightarrow> emit commit d s e =
    (case commit s e of
       (Inl err, s') \<Rightarrow> (Inl err, d\<lparr>dp_trace := begin_trace (dp_trace d) e\<rparr>, s')
     | (Inr item_id, s') \<Rightarrow>
         (Inr (), after_commit (d\<lparr>dp_trace := (begin_trace (dp_trace d) e)\<lparr>tr_session_item_id := item_id\<rparr>\<rparr>) e, s'))"
  by (simp add: emit_def Let_def split: prod.split sum.split)

lemma try_publish_bound:
  "length (br_queue br) \<le> br_capacity br \<Longrightarrow>
   length (br_queue (try_publish br ctx e)) \<le> br_capacity (try_publish br ctx e)"
  by (auto simp: try_publish_def)

text \<open>The bridge keeps the contract of a bounded queue.\<close>

definition bridge_push :: "observer_event \<Rightarrow> bridge \<Rightarrow> bool \<times> bridge" where
  "bridge_push x br =
     (br_open br \<and> length (br_queue br) < br_capacity br, try_publish br (oe_context x) (oe_event x))"

definition bridge_pop :: "bridge \<Rightarrow> (observer_event \<times> bridge) option" where
  "bridge_pop br = (case br_queue br of [] \<Rightarrow> None | x # xs \<Rightarrow> Some (x, br\<lparr>br_queue := xs\<rparr>))"

interpretation bridge: bounded_queue br_queue br_capacity bridge_push bridge_pop
  by unfold_locales
    (auto simp: bridge_push_def bridge_pop_def try_publish_def split: if_splits list.splits)

section \<open>The commit contract\<close>

text \<open>
  What the dispatcher's caller may rely on from a commit handler over a log: a failed commit
  leaves the log as it was, a successful one appends at most one entry, and the store's
  invariant is kept either way.
\<close>

locale commit_handler =
  fixes commit :: "'s \<Rightarrow> turn_event \<Rightarrow> ('e + string option) \<times> 's"
    and log :: "'s \<Rightarrow> 'i list"
    and inv :: "'s \<Rightarrow> bool"
  assumes commit_inv: "inv s \<Longrightarrow> commit s e = (r, s') \<Longrightarrow> inv s'"
    and commit_fail: "commit s e = (Inl err, s') \<Longrightarrow> log s' = log s"
    and commit_append: "commit s e = (Inr i, s') \<Longrightarrow> \<exists>new. log s' = log s @ new \<and> length new \<le> 1"
begin

lemma emit_inv: "inv s \<Longrightarrow> emit commit d s e = (r, d', s') \<Longrightarrow> inv s'"
  by (auto simp: emit_def Let_def split: if_splits prod.splits sum.splits dest: commit_inv)

lemma emit_log: "emit commit d s e = (r, d', s') \<Longrightarrow> \<exists>new. log s' = log s @ new \<and> length new \<le> 1"
  by (auto simp: emit_def Let_def split: if_splits prod.splits sum.splits
        dest: commit_fail commit_append)

lemma emit_fail_log: "emit commit d s e = (Inl err, d', s') \<Longrightarrow> log s' = log s \<and> dp_seen d' = dp_seen d"
  by (auto simp: emit_def Let_def split: if_splits prod.splits sum.splits dest: commit_fail)

text \<open>A whole list of events keeps the invariant and only extends the log.\<close>

fun emit_all :: "dispatcher \<Rightarrow> 's \<Rightarrow> turn_event list \<Rightarrow> dispatcher \<times> 's" where
  "emit_all d s [] = (d, s)"
| "emit_all d s (e # es) = (let (r, d', s') = emit commit d s e in emit_all d' s' es)"

lemma emit_all_log:
  "inv s \<Longrightarrow> emit_all d s es = (d', s') \<Longrightarrow> inv s' \<and> (\<exists>new. log s' = log s @ new \<and> length new \<le> length es)"
proof (induction es arbitrary: d s)
  case Nil
  then show ?case by simp
next
  case (Cons e es)
  obtain r d1 s1 where e: "emit commit d s e = (r, d1, s1)" by (cases "emit commit d s e")
  with Cons.prems have all: "emit_all d1 s1 es = (d', s')" by simp
  obtain new1 where new1: "log s1 = log s @ new1" "length new1 \<le> 1" using emit_log [OF e] by blast
  from Cons.IH [OF emit_inv [OF Cons.prems(1) e] all]
  obtain new2 where "inv s'" "log s' = log s1 @ new2" "length new2 \<le> length es" by blast
  with new1 show ?case by (intro conjI exI [of _ "new1 @ new2"]) auto
qed

end

section \<open>Properties\<close>

text \<open>
  One dispatch. An observational event never touches the store; a failed commit returns
  its error and shows the event to no hook and not to the bridge; otherwise every hook is
  called once, in registration order, with a context that carries the committed item's id
  (whatever the hooks answer), and the bridge publishes after them.
\<close>

theorem emit_order:
  "(if is_committable e then
      snd (snd (emit commit d s e)) = snd (commit s e)
      \<and> is_ok (fst (emit commit d s e)) = is_ok (fst (commit s e))
    else snd (snd (emit commit d s e)) = s \<and> is_ok (fst (emit commit d s e)))
   \<and> (let d' = fst (snd (emit commit d s e)) in
      if is_ok (fst (emit commit d s e)) then
        dp_seen d' = dp_seen d @ map (\<lambda>j. (j, dp_trace d', e)) [0..<length (dp_hooks d)]
        \<and> dp_bridge d' = map_option (\<lambda>br. try_publish br (dp_trace d') e) (dp_bridge d)
        \<and> tr_session_item_id (dp_trace d') =
            (if is_committable e then (case fst (commit s e) of Inr i \<Rightarrow> i | Inl _ \<Rightarrow> None)
             else tr_session_item_id (begin_trace (dp_trace d) e))
      else dp_seen d' = dp_seen d \<and> dp_bridge d' = dp_bridge d \<and> dp_diagnostics d' = dp_diagnostics d)"
proof (cases "is_committable e")
  case False
  then show ?thesis by (simp add: emit_observational Let_def after_commit_seen after_commit_bridge)
next
  case True
  obtain r s' where c: "commit s e = (r, s')" by (cases "commit s e")
  show ?thesis
  proof (cases r)
    case (Inl err)
    with True c show ?thesis by (simp add: emit_committable Let_def)
  next
    case (Inr i)
    with True c show ?thesis
      by (simp add: emit_committable Let_def after_commit_seen after_commit_bridge)
  qed
qed

lemma begin_trace_item: "tr_session_item_id (begin_trace t e) = None"
  by (cases e) (simp_all add: begin_trace_def)

text \<open>
  No correlation id leaks from one event to the next: what hooks see after a dispatch
  depends on the event and the committed id only; an event without a tool or model call
  clears both ids, and an observational event carries no item id.
\<close>

theorem emit_trace_fresh:
  "(let t = dp_trace (fst (snd (emit commit d s e))) in
    tr_turn t = ev_turn e
    \<and> tr_tool_use_id t = (case e of ToolCallRecorded _ c \<Rightarrow> Some (call_id c)
                          | ToolResultRecorded _ r \<Rightarrow> Some (res_id r) | _ \<Rightarrow> None)
    \<and> tr_llm_call_id t = (case e of LlmCallStarted _ _ i \<Rightarrow> Some i | LlmCallEnded _ _ i _ \<Rightarrow> Some i
                          | MessageUpdate _ _ i _ \<Rightarrow> Some i | _ \<Rightarrow> None)
    \<and> (is_committable e \<or> tr_session_item_id t = None)
    \<and> tr_run_id t = tr_run_id (dp_trace d) \<and> tr_session_id t = tr_session_id (dp_trace d))"
proof (cases "is_committable e")
  case False
  then show ?thesis
    by (cases e) (simp_all add: emit_observational Let_def begin_trace_def)
next
  case True
  obtain r s' where c: "commit s e = (r, s')" by (cases "commit s e")
  show ?thesis
    using True c by (cases e; cases r) (simp_all add: emit_committable Let_def begin_trace_def)
qed

end
