(* ===== verification/Session_Types.thy ===== *)
theory Session_Types
  imports Tools
begin

text \<open>
  \<open>agent-core/src/session/types.rs\<close>: the items of the Session Item Log, the drafts they are
  frozen from, the header, and the validation of a draft against the log it is appended to.
\<close>

section \<open>Items\<close>

definition session_header_version :: u32 where
  "session_header_version = 2"

datatype compaction_kind = Prune | TailWindow | Summary

record item_base =
  ib_id :: string
  ib_seq :: u64
  ib_session_id :: string
  ib_turn :: u64
  ib_at :: string

datatype session_item =
    ItUser (base: item_base) string
  | ItAssistant (base: item_base) "content_block list"
  | ItToolCall (base: item_base) tool_call
  | ItToolResult (base: item_base) tool_result
  | ItCompaction (base: item_base) compaction_kind "string option" "string list"
      "u64 option" "u64 option"
  | ItCheckpoint (base: item_base) string

abbreviation item_turn :: "session_item \<Rightarrow> u64" where
  "item_turn i \<equiv> ib_turn (base i)"

fun item_text :: "session_item \<Rightarrow> string option" where
  "item_text (ItUser _ t) = Some t"
| "item_text _ = None"

record session_header =
  sh_version :: u32
  sh_session_id :: string
  sh_cwd :: string
  sh_parent :: "string option"
  sh_seed_len :: u64

datatype draft =
    DrUser (draft_turn: u64) string
  | DrAssistant (draft_turn: u64) "content_block list"
  | DrToolCall (draft_turn: u64) tool_call
  | DrToolResult (draft_turn: u64) tool_result
  | DrCompaction (draft_turn: u64) compaction_kind "string option" "string list"
      "u64 option" "u64 option"
  | DrCheckpoint (draft_turn: u64) string

section \<open>Validation\<close>

datatype session_error =
    AssistantToolBlock
  | TurnDecreased u64 u64
  | EmptyUserText
  | EmptyToolUseId
  | EmptyToolName
  | EmptyCheckpointId
  | SerializeFailed
  | AppendFailed
  | InvalidSessionId string
  | MetaNotFound string
  | LogNotFound string
  | SessionsDirUnreadable
  | CreateFailed
  | HeaderParse
  | HeaderIdMismatch string string
  | UnsupportedVersion u32
  | LineUnreadable nat
  | LineParse nat
  | SeqGap nat u64
  | SessionIdMismatch nat string
  | LoadedTurnDecreased nat
  | InvalidCallIdentity nat
  | InvalidResultIdentity nat
  | BoundaryNotFound string
  | BoundaryInsideTurn
  | TurnOverflow
  | NotCommittable string
  | ZeroPageLimit
  | ModifiedTimeFailed
  | CommittedItemMissing

fun validate_assistant_blocks :: "content_block list \<Rightarrow> session_error + unit" where
  "validate_assistant_blocks [] = Inr ()"
| "validate_assistant_blocks (b # bs) =
     (case b of
        CbText _ \<Rightarrow> validate_assistant_blocks bs
      | CbThinking _ \<Rightarrow> validate_assistant_blocks bs
      | CbToolUse _ _ _ \<Rightarrow> Inl AssistantToolBlock
      | CbToolResult _ _ \<Rightarrow> Inl AssistantToolBlock)"

fun validate_draft_content :: "draft \<Rightarrow> session_error + unit" where
  "validate_draft_content (DrUser _ text) = (if text = [] then Inl EmptyUserText else Inr ())"
| "validate_draft_content (DrAssistant _ blocks) = validate_assistant_blocks blocks"
| "validate_draft_content (DrToolCall _ call) =
     (if is_blank (call_id call) then Inl EmptyToolUseId
      else if is_blank (call_name call) then Inl EmptyToolName else Inr ())"
| "validate_draft_content (DrToolResult _ result) =
     (if is_blank (res_id result) then Inl EmptyToolUseId
      else if is_blank (res_name result) then Inl EmptyToolName else Inr ())"
| "validate_draft_content (DrCheckpoint _ cid) = (if cid = [] then Inl EmptyCheckpointId else Inr ())"
| "validate_draft_content (DrCompaction _ _ _ _ _ _) = Inr ()"

definition validate_draft :: "draft \<Rightarrow> session_item list \<Rightarrow> session_error + unit" where
  "validate_draft d items =
     (case last_opt items of
        Some l \<Rightarrow>
          if draft_turn d < item_turn l then Inl (TurnDecreased (item_turn l) (draft_turn d))
          else validate_draft_content d
      | None \<Rightarrow> validate_draft_content d)"

section \<open>Freezing and rebasing\<close>

fun freeze_item :: "draft \<Rightarrow> item_base \<Rightarrow> session_item" where
  "freeze_item (DrUser _ text) b = ItUser b text"
| "freeze_item (DrAssistant _ blocks) b = ItAssistant b blocks"
| "freeze_item (DrToolCall _ call) b = ItToolCall b call"
| "freeze_item (DrToolResult _ result) b = ItToolResult b result"
| "freeze_item (DrCompaction _ k sid ex bt at) b = ItCompaction b k sid ex bt at"
| "freeze_item (DrCheckpoint _ cid) b = ItCheckpoint b cid"

fun rebase_item :: "session_item \<Rightarrow> item_base \<Rightarrow> session_item" where
  "rebase_item (ItUser _ text) b = ItUser b text"
| "rebase_item (ItAssistant _ blocks) b = ItAssistant b blocks"
| "rebase_item (ItToolCall _ call) b = ItToolCall b call"
| "rebase_item (ItToolResult _ result) b = ItToolResult b result"
| "rebase_item (ItCompaction _ k sid ex bt at) b = ItCompaction b k sid ex bt at"
| "rebase_item (ItCheckpoint _ cid) b = ItCheckpoint b cid"

lemma base_freeze [simp]: "base (freeze_item d b) = b"
  by (cases d) auto

lemma base_rebase [simp]: "base (rebase_item i b) = b"
  by (cases i) auto

lemma rebase_rebase [simp]: "rebase_item (rebase_item i b) b' = rebase_item i b'"
  by (cases i) auto

lemma rebase_base [simp]: "rebase_item i (base i) = i"
  by (cases i) auto

lemma validate_assistant_blocks_ok:
  "is_ok (validate_assistant_blocks bs) \<longleftrightarrow> list_all is_text_block bs"
proof (induction bs)
  case Nil
  then show ?case by simp
next
  case (Cons b bs)
  then show ?case by (cases b) auto
qed

section \<open>What a valid item is\<close>

text \<open>The check \<open>validate_loaded_items\<close> makes on one item's content.\<close>

fun item_identity_ok :: "session_item \<Rightarrow> bool" where
  "item_identity_ok (ItToolCall _ call) = (\<not> is_blank (call_id call) \<and> \<not> is_blank (call_name call))"
| "item_identity_ok (ItToolResult _ result) = (\<not> is_blank (res_id result) \<and> \<not> is_blank (res_name result))"
| "item_identity_ok _ = True"

lemma freeze_identity_ok: "is_ok (validate_draft_content d) \<Longrightarrow> item_identity_ok (freeze_item d b)"
  by (cases d) (auto split: if_splits)

lemma rebase_identity_ok [simp]: "item_identity_ok (rebase_item i b) = item_identity_ok i"
  by (cases i) auto

lemma validate_draft_ok_iff:
  "is_ok (validate_draft d items) \<longleftrightarrow>
     is_ok (validate_draft_content d) \<and> (items = [] \<or> item_turn (last items) \<le> draft_turn d)"
  by (auto simp: validate_draft_def last_opt_def not_less split: if_splits)

end
