(* ===== verification/Session_Files.thy ===== *)
theory Session_Files
  imports Session_Types "HOL-Library.Sublist"
begin

text \<open>
  \<open>agent-core/src/session/file_store.rs\<close>: the two files of a session, the scan of the date
  partitions of a sessions directory, and the reading of header and items. The file system
  is explicit: what a directory listing returned and what the named nodes are. A failed
  append leaves what it wrote before it failed. JSON text and the derived serializers are
  parameters (record \<open>serde\<close>), as are the UUID and date parsers (record \<open>name_lib\<close>).
\<close>

section \<open>Parameters\<close>

record serde =
  enc_item :: "session_item \<Rightarrow> string option"
  parse_json :: "string \<Rightarrow> json option"
  dec_item :: "json \<Rightarrow> session_item option"
  enc_header :: "session_header \<Rightarrow> string option"
  dec_header :: "string \<Rightarrow> session_header option"

record name_lib =
  is_uuid :: "string \<Rightarrow> bool"
  is_date :: "string \<Rightarrow> bool"

section \<open>Appending to a log\<close>

datatype append_outcome = AppendOk | OpenFailed | WriteFailed nat | NewlineFailed

text \<open>\<open>append_line\<close>: whether it returned \<open>Ok\<close>, and the bytes of the log after it.\<close>

fun append_line :: "string \<Rightarrow> string \<Rightarrow> append_outcome \<Rightarrow> bool \<times> string" where
  "append_line log line AppendOk = (True, log @ line @ [newline])"
| "append_line log line OpenFailed = (False, log)"
| "append_line log line (WriteFailed k) = (False, log @ take k line)"
| "append_line log line NewlineFailed = (False, log @ line)"

lemma append_line_ok [simp]: "fst (append_line log line out) \<longleftrightarrow> out = AppendOk"
  by (cases out) auto

section \<open>The store of one session\<close>

record file_store =
  fs_session_id :: string
  fs_meta :: string
  fs_log :: string

definition validate_session_id :: "name_lib \<Rightarrow> string \<Rightarrow> session_error + unit" where
  "validate_session_id L sid = (if is_uuid L sid then Inr () else Inl (InvalidSessionId sid))"

text \<open>
  \<open>FileSessionStore::create\<close>; the outcome says which file operation failed, if any.
  \<open>write_header\<close> is the pretty-printed header.
\<close>

datatype create_outcome = CreateOk | CreateDirFailed | WriteHeaderFailed | CreateLogFailed

definition file_store_create ::
  "serde \<Rightarrow> name_lib \<Rightarrow> create_outcome \<Rightarrow> session_header \<Rightarrow> session_error + file_store" where
  "file_store_create S L out header =
     (case validate_session_id L (sh_session_id header) of
        Inl e \<Rightarrow> Inl e
      | Inr _ \<Rightarrow>
          if out = CreateDirFailed then Inl CreateFailed
          else case enc_header S header of
            None \<Rightarrow> Inl SerializeFailed
          | Some raw \<Rightarrow>
              if out = WriteHeaderFailed \<or> out = CreateLogFailed then Inl CreateFailed
              else Inr \<lparr>fs_session_id = sh_session_id header, fs_meta = raw, fs_log = []\<rparr>)"

definition read_header :: "serde \<Rightarrow> file_store \<Rightarrow> session_error + session_header" where
  "read_header S fs =
     (if \<not> valid_utf8 (fs_meta fs) then Inl HeaderParse
      else case dec_header S (fs_meta fs) of
        None \<Rightarrow> Inl HeaderParse
      | Some h \<Rightarrow>
          if sh_session_id h \<noteq> fs_session_id fs then
            Inl (HeaderIdMismatch (sh_session_id h) (fs_session_id fs))
          else Inr h)"

text \<open>
  \<open>migrate_v1_tool_result\<close>: a version-1 \<open>tool_outcome\<close> line gets a status and a tagged
  content.
\<close>

definition migrate_v1_tool_result :: "u32 \<Rightarrow> json \<Rightarrow> json" where
  "migrate_v1_tool_result version value =
     (if version \<noteq> 1 \<or> Option.bind (json_get ''kind'' value) json_as_str \<noteq> Some ''tool_outcome''
      then value
      else
        let v1 = (if json_get ''status'' value = None
                  then json_put ''status'' (JStr ''outcome_unknown'') value else value) in
        case json_get ''content'' v1 of
          None \<Rightarrow> v1
        | Some content \<Rightarrow>
            json_put ''content''
              (JObj [(''type'', JStr (if json_is_string content then ''text'' else ''json'')),
                     (''value'', content)]) v1)"

text \<open>The loop of \<open>read_items\<close> over the lines of the log, numbered from 1 in errors.\<close>

fun read_lines :: "serde \<Rightarrow> u32 \<Rightarrow> nat \<Rightarrow> string list \<Rightarrow> session_error + session_item list" where
  "read_lines S version n [] = Inr []"
| "read_lines S version n (line # lines) =
     (if \<not> valid_utf8 line then Inl (LineUnreadable (n + 1))
      else if is_blank line then read_lines S version (n + 1) lines
      else case parse_json S line of
        None \<Rightarrow> Inl (LineParse (n + 1))
      | Some value \<Rightarrow>
          (case dec_item S (migrate_v1_tool_result version value) of
             None \<Rightarrow> Inl (LineParse (n + 1))
           | Some item \<Rightarrow>
               (case read_lines S version (n + 1) lines of
                  Inl e \<Rightarrow> Inl e
                | Inr items \<Rightarrow> Inr (item # items))))"

definition read_items :: "serde \<Rightarrow> file_store \<Rightarrow> u32 \<Rightarrow> session_error + session_item list" where
  "read_items S fs version = read_lines S version 0 (buf_lines (fs_log fs))"

section \<open>The sessions directory\<close>

record file_node =
  fn_content :: string
  fn_mtime :: "nat option"

datatype node = File file_node | Directory

datatype dir_entry = EntryError | Entry "string option"

datatype listing = NotFound | Unreadable | Entries "dir_entry list"

text \<open>A partition: what listing it returned, and its nodes by name.\<close>

record partition_dir =
  pt_list :: listing
  pt_nodes :: "(string \<times> node) list"

datatype top_node = TopDir partition_dir | TopFile

record sessions_dir =
  sd_list :: listing
  sd_nodes :: "(string \<times> top_node) list"

definition meta_suffix :: string where
  "meta_suffix = ''.meta.json''"

definition meta_name :: "string \<Rightarrow> string" where
  "meta_name sid = sid @ meta_suffix"

definition log_name :: "string \<Rightarrow> string" where
  "log_name sid = sid @ ''.log.jsonl''"

definition is_file :: "partition_dir \<Rightarrow> string \<Rightarrow> bool" where
  "is_file p name = (case map_of (pt_nodes p) name of Some (File _) \<Rightarrow> True | _ \<Rightarrow> False)"

definition strip_suffix :: "string \<Rightarrow> string \<Rightarrow> string option" where
  "strip_suffix suf s =
     (if length suf \<le> length s \<and> drop (length s - length suf) s = suf
      then Some (take (length s - length suf) s) else None)"

text \<open>The entry of a partition loop: a directory with a date name, by its name.\<close>

definition date_partition :: "name_lib \<Rightarrow> sessions_dir \<Rightarrow> string \<Rightarrow> partition_dir option" where
  "date_partition L sd n =
     (case map_of (sd_nodes sd) n of
        Some (TopDir p) \<Rightarrow> if is_date L n then Some p else None
      | _ \<Rightarrow> None)"

fun locate_loop :: "name_lib \<Rightarrow> sessions_dir \<Rightarrow> string \<Rightarrow> dir_entry list \<Rightarrow> session_error + partition_dir" where
  "locate_loop L sd sid [] = Inl (MetaNotFound sid)"
| "locate_loop L sd sid (EntryError # es) = Inl SessionsDirUnreadable"
| "locate_loop L sd sid (Entry None # es) = locate_loop L sd sid es"
| "locate_loop L sd sid (Entry (Some n) # es) =
     (case date_partition L sd n of
        None \<Rightarrow> locate_loop L sd sid es
      | Some p \<Rightarrow> if is_file p (meta_name sid) then Inr p else locate_loop L sd sid es)"

definition locate_session_dir :: "name_lib \<Rightarrow> sessions_dir \<Rightarrow> string \<Rightarrow> session_error + partition_dir" where
  "locate_session_dir L sd sid =
     (case validate_session_id L sid of
        Inl e \<Rightarrow> Inl e
      | Inr _ \<Rightarrow>
          (case sd_list sd of
             Entries es \<Rightarrow> locate_loop L sd sid es
           | _ \<Rightarrow> Inl SessionsDirUnreadable))"

definition file_content :: "partition_dir \<Rightarrow> string \<Rightarrow> string" where
  "file_content p name = (case map_of (pt_nodes p) name of Some (File f) \<Rightarrow> fn_content f | _ \<Rightarrow> [])"

definition file_store_open :: "name_lib \<Rightarrow> sessions_dir \<Rightarrow> string \<Rightarrow> session_error + file_store" where
  "file_store_open L sd sid =
     (case validate_session_id L sid of
        Inl e \<Rightarrow> Inl e
      | Inr _ \<Rightarrow>
          (case locate_session_dir L sd sid of
             Inl e \<Rightarrow> Inl e
           | Inr p \<Rightarrow>
               if \<not> is_file p (meta_name sid) then Inl (MetaNotFound sid)
               else if \<not> is_file p (log_name sid) then Inl (LogNotFound sid)
               else Inr \<lparr>fs_session_id = sid, fs_meta = file_content p (meta_name sid),
                         fs_log = file_content p (log_name sid)\<rparr>))"

text \<open>
  The session a name of a partition stands for in both scans: a \<open>.meta.json\<close> file whose stem
  is a session id and whose log file exists.
\<close>

definition scan_name :: "name_lib \<Rightarrow> partition_dir \<Rightarrow> string \<Rightarrow> string option" where
  "scan_name L p name =
     (case strip_suffix meta_suffix name of
        None \<Rightarrow> None
      | Some sid \<Rightarrow>
          if is_ok (validate_session_id L sid) \<and> is_file p name \<and> is_file p (log_name sid)
          then Some sid else None)"

definition newest_modified_time :: "partition_dir \<Rightarrow> string \<Rightarrow> string \<Rightarrow> session_error + nat" where
  "newest_modified_time p meta log =
     (case map_of (pt_nodes p) meta of
        Some (File m) \<Rightarrow>
          (case fn_mtime m of
             None \<Rightarrow> Inl ModifiedTimeFailed
           | Some meta_time \<Rightarrow>
               (case map_of (pt_nodes p) log of
                  None \<Rightarrow> Inr meta_time
                | Some (File l) \<Rightarrow>
                    (case fn_mtime l of
                       None \<Rightarrow> Inl ModifiedTimeFailed
                     | Some log_time \<Rightarrow> Inr (max log_time meta_time))
                | Some Directory \<Rightarrow> Inl ModifiedTimeFailed))
      | _ \<Rightarrow> Inl ModifiedTimeFailed)"

text \<open>\<open>latest_session_id\<close>: the newest so far, replaced by a newer or, at a tie, a larger id.\<close>

definition is_newer :: "(nat \<times> string) option \<Rightarrow> nat \<Rightarrow> string \<Rightarrow> bool" where
  "is_newer latest t sid =
     (case latest of None \<Rightarrow> True | Some (lt, lid) \<Rightarrow> t > lt \<or> (t = lt \<and> sid > lid))"

fun latest_files ::
  "name_lib \<Rightarrow> partition_dir \<Rightarrow> dir_entry list \<Rightarrow> (nat \<times> string) option \<Rightarrow>
   session_error + (nat \<times> string) option" where
  "latest_files L p [] latest = Inr latest"
| "latest_files L p (EntryError # es) latest = Inl SessionsDirUnreadable"
| "latest_files L p (Entry None # es) latest = latest_files L p es latest"
| "latest_files L p (Entry (Some name) # es) latest =
     (case scan_name L p name of
        None \<Rightarrow> latest_files L p es latest
      | Some sid \<Rightarrow>
          (case newest_modified_time p name (log_name sid) of
             Inl e \<Rightarrow> Inl e
           | Inr t \<Rightarrow>
               latest_files L p es (if is_newer latest t sid then Some (t, sid) else latest)))"

fun latest_loop ::
  "name_lib \<Rightarrow> sessions_dir \<Rightarrow> dir_entry list \<Rightarrow> (nat \<times> string) option \<Rightarrow>
   session_error + (nat \<times> string) option" where
  "latest_loop L sd [] latest = Inr latest"
| "latest_loop L sd (EntryError # es) latest = Inl SessionsDirUnreadable"
| "latest_loop L sd (Entry None # es) latest = latest_loop L sd es latest"
| "latest_loop L sd (Entry (Some n) # es) latest =
     (case date_partition L sd n of
        None \<Rightarrow> latest_loop L sd es latest
      | Some p \<Rightarrow>
          (case pt_list p of
             Entries files \<Rightarrow>
               (case latest_files L p files latest of
                  Inl e \<Rightarrow> Inl e
                | Inr latest' \<Rightarrow> latest_loop L sd es latest')
           | _ \<Rightarrow> Inl SessionsDirUnreadable))"

definition latest_session_id :: "name_lib \<Rightarrow> sessions_dir \<Rightarrow> session_error + string option" where
  "latest_session_id L sd =
     (case sd_list sd of
        NotFound \<Rightarrow> Inr None
      | Unreadable \<Rightarrow> Inl SessionsDirUnreadable
      | Entries es \<Rightarrow>
          (case latest_loop L sd es None of
             Inl e \<Rightarrow> Inl e
           | Inr latest \<Rightarrow> Inr (map_option snd latest)))"

fun ids_files :: "name_lib \<Rightarrow> partition_dir \<Rightarrow> dir_entry list \<Rightarrow> session_error + string list" where
  "ids_files L p [] = Inr []"
| "ids_files L p (EntryError # es) = Inl SessionsDirUnreadable"
| "ids_files L p (Entry None # es) = ids_files L p es"
| "ids_files L p (Entry (Some name) # es) =
     (case ids_files L p es of
        Inl e \<Rightarrow> Inl e
      | Inr ids \<Rightarrow> (case scan_name L p name of None \<Rightarrow> Inr ids | Some sid \<Rightarrow> Inr (sid # ids)))"

fun ids_loop :: "name_lib \<Rightarrow> sessions_dir \<Rightarrow> dir_entry list \<Rightarrow> session_error + string list" where
  "ids_loop L sd [] = Inr []"
| "ids_loop L sd (EntryError # es) = Inl SessionsDirUnreadable"
| "ids_loop L sd (Entry None # es) = ids_loop L sd es"
| "ids_loop L sd (Entry (Some n) # es) =
     (case date_partition L sd n of
        None \<Rightarrow> ids_loop L sd es
      | Some p \<Rightarrow>
          (case pt_list p of
             Entries files \<Rightarrow>
               (case ids_files L p files of
                  Inl e \<Rightarrow> Inl e
                | Inr ids \<Rightarrow> (case ids_loop L sd es of Inl e \<Rightarrow> Inl e | Inr rest \<Rightarrow> Inr (ids @ rest)))
           | _ \<Rightarrow> Inl SessionsDirUnreadable))"

text \<open>\<open>sort\<close> then \<open>dedup\<close> of adjacent equals.\<close>

definition session_ids :: "name_lib \<Rightarrow> sessions_dir \<Rightarrow> session_error + string list" where
  "session_ids L sd =
     (case sd_list sd of
        NotFound \<Rightarrow> Inr []
      | Unreadable \<Rightarrow> Inl SessionsDirUnreadable
      | Entries es \<Rightarrow>
          (case ids_loop L sd es of Inl e \<Rightarrow> Inl e | Inr ids \<Rightarrow> Inr (remdups_adj (sort ids))))"

section \<open>Lemmas on the scans\<close>

lemma strip_suffix_Some: "strip_suffix suf s = Some t \<longleftrightarrow> s = t @ suf"
proof
  assume "strip_suffix suf s = Some t"
  then have "drop (length s - length suf) s = suf" "t = take (length s - length suf) s"
    by (auto simp: strip_suffix_def split: if_splits)
  then show "s = t @ suf" by (metis append_take_drop_id)
qed (simp add: strip_suffix_def)

text \<open>A session of a partition: its two files, under an id that is one.\<close>

definition session_in :: "name_lib \<Rightarrow> partition_dir \<Rightarrow> string \<Rightarrow> bool" where
  "session_in L p sid \<longleftrightarrow> is_uuid L sid \<and> is_file p (meta_name sid) \<and> is_file p (log_name sid)"

lemma strip_suffix_append [simp]: "strip_suffix suf (t @ suf) = Some t"
  by (simp add: strip_suffix_Some)

lemma scan_name_Some: "scan_name L p name = Some sid \<longleftrightarrow> name = meta_name sid \<and> session_in L p sid"
  by (auto simp: scan_name_def meta_name_def session_in_def strip_suffix_Some validate_session_id_def
      split: option.splits if_splits)

text \<open>A session that the listings show: its partition, in a directory entry with a date name.\<close>

definition listed :: "name_lib \<Rightarrow> sessions_dir \<Rightarrow> dir_entry list \<Rightarrow> partition_dir \<Rightarrow> string \<Rightarrow> bool" where
  "listed L sd es p sid \<longleftrightarrow>
     (\<exists>n files. Entry (Some n) \<in> set es \<and> date_partition L sd n = Some p
        \<and> pt_list p = Entries files \<and> Entry (Some (meta_name sid)) \<in> set files \<and> session_in L p sid)"

lemma ids_files_set:
  "ids_files L p files = Inr ids \<Longrightarrow>
     sid \<in> set ids \<longleftrightarrow> Entry (Some (meta_name sid)) \<in> set files \<and> session_in L p sid"
proof (induction L p files arbitrary: ids rule: ids_files.induct)
  case (4 L p name es)
  then obtain ids' where i: "ids_files L p es = Inr ids'" by (auto split: sum.splits)
  note IH = "4.IH" [OF i]
  show ?case
  proof (cases "scan_name L p name")
    case None
    then have "\<not> (name = meta_name sid \<and> session_in L p sid)"
      by (metis scan_name_Some option.distinct(1))
    with None i IH "4.prems" show ?thesis by auto
  next
    case (Some sid')
    then have "name = meta_name sid'" "session_in L p sid'" by (simp_all add: scan_name_Some)
    with Some i IH "4.prems" show ?thesis by (auto simp: meta_name_def)
  qed
qed auto

lemma listed_Cons:
  "listed L sd (Entry (Some n) # es) p sid \<longleftrightarrow>
     listed L sd es p sid
     \<or> (date_partition L sd n = Some p \<and> (\<exists>files. pt_list p = Entries files
          \<and> Entry (Some (meta_name sid)) \<in> set files \<and> session_in L p sid))"
  "listed L sd (Entry None # es) p sid \<longleftrightarrow> listed L sd es p sid"
  "\<not> listed L sd [] p sid"
  by (auto simp: listed_def)

lemma ids_loop_set:
  "ids_loop L sd es = Inr ids \<Longrightarrow> sid \<in> set ids \<longleftrightarrow> (\<exists>p. listed L sd es p sid)"
proof (induction L sd es arbitrary: ids rule: ids_loop.induct)
  case (4 L sd n es)
  show ?case
  proof (cases "date_partition L sd n")
    case None
    with 4 show ?thesis by (simp add: listed_Cons)
  next
    case (Some p)
    with "4.prems" obtain files ids1 ids2 where "pt_list p = Entries files"
      "ids_files L p files = Inr ids1" "ids_loop L sd es = Inr ids2" "ids = ids1 @ ids2"
      by (auto split: listing.splits sum.splits)
    with "4.IH"(2) [OF Some this(1,2)] ids_files_set [OF this(2)] Some show ?thesis
      by (auto simp: listed_Cons)
  qed
qed (auto simp: listed_Cons)

section \<open>The newest session\<close>

text \<open>The order of \<open>latest_session_id\<close>: by time, then by id.\<close>

definition not_newer :: "nat \<times> string \<Rightarrow> nat \<times> string \<Rightarrow> bool" where
  "not_newer a b \<longleftrightarrow> fst a < fst b \<or> (fst a = fst b \<and> snd a \<le> snd b)"

lemma not_newer_refl [simp]: "not_newer a a"
  by (simp add: not_newer_def)

lemma not_newer_trans: "not_newer a b \<Longrightarrow> not_newer b c \<Longrightarrow> not_newer a c"
  by (auto simp: not_newer_def)

lemma is_newer_choice:
  "not_newer (t, sid) (if is_newer (Some l) t sid then (t, sid) else l)"
  "not_newer l (if is_newer (Some l) t sid then (t, sid) else l)"
  by (cases l; auto simp: not_newer_def is_newer_def)+

text \<open>The choice so far is the largest of what was seen and of what it started from.\<close>

definition best_of :: "((nat \<times> string) \<Rightarrow> bool) \<Rightarrow> (nat \<times> string) option \<Rightarrow> bool" where
  "best_of P r \<longleftrightarrow> (case r of None \<Rightarrow> \<forall>x. \<not> P x | Some b \<Rightarrow> P b \<and> (\<forall>x. P x \<longrightarrow> not_newer x b))"

lemma best_of_add:
  assumes "best_of P latest"
  shows "best_of (\<lambda>x. x = (t, sid) \<or> P x) (if is_newer latest t sid then Some (t, sid) else latest)"
proof (cases latest)
  case None
  with assms show ?thesis by (auto simp: best_of_def is_newer_def)
next
  case (Some l)
  with assms have "P l" "\<forall>x. P x \<longrightarrow> not_newer x l" by (auto simp: best_of_def)
  have "\<forall>x. P x \<longrightarrow> not_newer x (if is_newer (Some l) t sid then (t, sid) else l)"
    using \<open>\<forall>x. P x \<longrightarrow> not_newer x l\<close> is_newer_choice(2) not_newer_trans by blast
  with Some \<open>P l\<close> is_newer_choice(1) [where l=l and t=t and sid=sid] show ?thesis
    by (auto simp: best_of_def)
qed

definition timed :: "name_lib \<Rightarrow> partition_dir \<Rightarrow> dir_entry list \<Rightarrow> nat \<times> string \<Rightarrow> bool" where
  "timed L p files x \<longleftrightarrow> Entry (Some (meta_name (snd x))) \<in> set files \<and> session_in L p (snd x)
     \<and> newest_modified_time p (meta_name (snd x)) (log_name (snd x)) = Inr (fst x)"

lemma best_of_cong: "(\<And>x. P x \<longleftrightarrow> Q x) \<Longrightarrow> best_of P r \<longleftrightarrow> best_of Q r"
  by (simp add: best_of_def split: option.split)

lemma latest_files_best:
  "latest_files L p files latest = Inr r \<Longrightarrow> best_of P latest \<Longrightarrow>
   best_of (\<lambda>x. timed L p files x \<or> P x) r"
proof (induction L p files latest arbitrary: P rule: latest_files.induct)
  case (4 L p name es latest)
  show ?case
  proof (cases "scan_name L p name")
    case None
    then have "timed L p (Entry (Some name) # es) x \<longleftrightarrow> timed L p es x" for x
      using scan_name_Some [of L p name "snd x"] by (auto simp: timed_def)
    with None 4 show ?thesis by simp
  next
    case (Some sid)
    then have n: "name = meta_name sid" "session_in L p sid" by (simp_all add: scan_name_Some)
    from Some "4.prems" obtain t where t: "newest_modified_time p name (log_name sid) = Inr t"
      and r: "latest_files L p es (if is_newer latest t sid then Some (t, sid) else latest) = Inr r"
      by (auto split: sum.splits)
    have "best_of (\<lambda>x. timed L p es x \<or> x = (t, sid) \<or> P x) r"
      using "4.IH"(2) [OF Some t r] best_of_add [OF "4.prems"(2)] by blast
    moreover have "timed L p (Entry (Some name) # es) x \<longleftrightarrow> timed L p es x \<or> x = (t, sid)" for x
      using n t by (cases x) (auto simp: timed_def meta_name_def)
    ultimately show ?thesis
      by (simp add: best_of_cong [of "\<lambda>x. timed L p (Entry (Some name) # es) x \<or> P x"
            "\<lambda>x. timed L p es x \<or> x = (t, sid) \<or> P x"])
  qed
qed (auto simp: timed_def)

definition listed_at :: "name_lib \<Rightarrow> sessions_dir \<Rightarrow> dir_entry list \<Rightarrow> nat \<times> string \<Rightarrow> bool" where
  "listed_at L sd es x \<longleftrightarrow>
     (\<exists>p. listed L sd es p (snd x)
        \<and> newest_modified_time p (meta_name (snd x)) (log_name (snd x)) = Inr (fst x))"

lemma listed_at_Cons:
  "listed_at L sd (Entry (Some n) # es) x \<longleftrightarrow>
     listed_at L sd es x
     \<or> (\<exists>p files. date_partition L sd n = Some p \<and> pt_list p = Entries files \<and> timed L p files x)"
  "listed_at L sd (Entry None # es) x \<longleftrightarrow> listed_at L sd es x"
  "\<not> listed_at L sd [] x"
  by (auto simp: listed_at_def listed_Cons timed_def)

lemma latest_loop_best:
  "latest_loop L sd es latest = Inr r \<Longrightarrow> best_of P latest \<Longrightarrow>
   best_of (\<lambda>x. listed_at L sd es x \<or> P x) r"
proof (induction L sd es latest arbitrary: P rule: latest_loop.induct)
  case (4 L sd n es latest)
  show ?case
  proof (cases "date_partition L sd n")
    case None
    with 4 show ?thesis by (simp add: listed_at_Cons)
  next
    case (Some p)
    with "4.prems" obtain files latest' where f: "pt_list p = Entries files"
      "latest_files L p files latest = Inr latest'" "latest_loop L sd es latest' = Inr r"
      by (auto split: listing.splits sum.splits)
    have "best_of (\<lambda>x. listed_at L sd es x \<or> timed L p files x \<or> P x) r"
      using "4.IH"(2) [OF Some f(1,2,3)] latest_files_best [OF f(2) "4.prems"(2)] by blast
    moreover have "listed_at L sd (Entry (Some n) # es) x \<or> P x
        \<longleftrightarrow> listed_at L sd es x \<or> timed L p files x \<or> P x" for x
      using Some f(1) by (auto simp: listed_at_Cons)
    ultimately show ?thesis
      by (simp add: best_of_cong [of "\<lambda>x. listed_at L sd (Entry (Some n) # es) x \<or> P x"])
  qed
qed (auto simp: listed_at_Cons)

lemma sorted_distinct_remdups_adj: "sorted (xs :: 'a::linorder list) \<Longrightarrow> distinct (remdups_adj xs)"
  by (induction xs rule: remdups_adj.induct) (auto simp: order.order_iff_strict)

section \<open>Properties\<close>

text \<open>
  the list of sessions is complete and exact. When \<open>session_ids\<close> returns, its ids are
  sorted without repetition, and they are those of the listed files \<open><id>.meta.json\<close> in date
  directories whose id is a UUID and which have a log beside them.
\<close>

theorem session_ids_exact:
  assumes "session_ids L sd = Inr ids" and "sd_list sd = Entries es"
  shows "sorted ids \<and> distinct ids \<and> set ids = {sid. \<exists>p. listed L sd es p sid}"
proof -
  from assms obtain raw where r: "ids_loop L sd es = Inr raw" "ids = remdups_adj (sort raw)"
    by (auto simp: session_ids_def split: sum.splits)
  have "set ids = {sid. \<exists>p. listed L sd es p sid}"
    using ids_loop_set [OF r(1)] r(2) by auto
  with r(2) show ?thesis by (simp add: sorted_remdups_adj sorted_distinct_remdups_adj)
qed

text \<open>
  The session that is resumed is the most recent one. The scan answers with no id only when
  no session is listed, else with a listed session whose newest file is at least as recent as
  that of every other, the larger id winning a tie.
\<close>

theorem latest_session_is_newest:
  assumes "latest_session_id L sd = Inr r" and "sd_list sd = Entries es"
  shows "(case r of
      None \<Rightarrow> \<forall>x. \<not> listed_at L sd es x
    | Some sid \<Rightarrow> \<exists>t. listed_at L sd es (t, sid) \<and> (\<forall>x. listed_at L sd es x \<longrightarrow> not_newer x (t, sid)))"
proof -
  from assms obtain l where l: "latest_loop L sd es None = Inr l" "r = map_option snd l"
    by (auto simp: latest_session_id_def split: sum.splits)
  have "best_of (\<lambda>x. listed_at L sd es x \<or> False) l"
    by (rule latest_loop_best [OF l(1)]) (simp add: best_of_def)
  with l(2) show ?thesis by (cases l) (auto simp: best_of_def)
qed

text \<open>
  A version-1 tool outcome gets a status it did not have and its content a tag, and nothing
  else of it changes; a line of another kind or version is left alone.
\<close>

theorem migrate_v1_only_touches_outcomes:
  "(if version = 1 \<and> Option.bind (json_get ''kind'' v) json_as_str = Some ''tool_outcome'' then
      (k = ''status'' \<or> k = ''content'' \<or>
         json_get k (migrate_v1_tool_result version v) = json_get k v)
      \<and> json_get ''status'' (migrate_v1_tool_result version v) =
          (case json_get ''status'' v of None \<Rightarrow> Some (JStr ''outcome_unknown'') | s \<Rightarrow> s)
      \<and> json_get ''content'' (migrate_v1_tool_result version v) =
          map_option (\<lambda>c. JObj [(''type'', JStr (if json_is_string c then ''text'' else ''json'')), (''value'', c)])
            (json_get ''content'' v)
    else migrate_v1_tool_result version v = v)"
proof (cases "version = 1 \<and> Option.bind (json_get ''kind'' v) json_as_str = Some ''tool_outcome''")
  case True
  then have "json_is_object v" by (cases v) auto
  with True show ?thesis by (auto simp: migrate_v1_tool_result_def Let_def split: option.splits)
next
  case False
  then have "migrate_v1_tool_result version v = v"
    unfolding migrate_v1_tool_result_def by (simp only: de_Morgan_conj if_True)
  with False show ?thesis by (simp only: if_False simp_thms)
qed

section \<open>A directory of two sessions\<close>

definition two_sessions :: sessions_dir where
  "two_sessions = \<lparr>sd_list = Entries [Entry (Some ''d''), Entry None, Entry (Some ''x'')],
     sd_nodes = [(''x'', TopFile), (''d'', TopDir \<lparr>
       pt_list = Entries (map (\<lambda>n. Entry (Some n)) [''b.meta.json'', ''a.log.jsonl'', ''a.meta.json'', ''c.meta.json'', ''b.log.jsonl'']),
       pt_nodes = [(''a.meta.json'', File \<lparr>fn_content = [], fn_mtime = Some 3\<rparr>),
                   (''a.log.jsonl'', File \<lparr>fn_content = [], fn_mtime = Some 7\<rparr>),
                   (''b.meta.json'', File \<lparr>fn_content = [], fn_mtime = Some 5\<rparr>),
                   (''b.log.jsonl'', File \<lparr>fn_content = [], fn_mtime = Some 4\<rparr>),
                   (''c.meta.json'', File \<lparr>fn_content = [], fn_mtime = Some 9\<rparr>)]\<rparr>)]\<rparr>"

definition all_names :: name_lib where
  "all_names = \<lparr>is_uuid = (\<lambda>_. True), is_date = (\<lambda>_. True)\<rparr>"

theorem session_ids_exact_witness:
  "session_ids all_names two_sessions = Inr [''a'', ''b''] \<and> sorted [''a'', ''b''::string]"
proof -
  have ids: "session_ids all_names two_sessions = Inr [''a'', ''b'']" by code_simp
  show ?thesis using session_ids_exact [OF ids, of "[Entry (Some ''d''), Entry None, Entry (Some ''x'')]"] ids
    by (simp add: two_sessions_def)
qed

theorem latest_session_is_newest_witness:
  "latest_session_id all_names two_sessions = Inr (Some ''a'')
   \<and> (\<exists>t. listed_at all_names two_sessions [Entry (Some ''d''), Entry None, Entry (Some ''x'')] (t, ''a''))"
proof -
  have l: "latest_session_id all_names two_sessions = Inr (Some ''a'')" by code_simp
  show ?thesis using latest_session_is_newest [OF l, of "[Entry (Some ''d''), Entry None, Entry (Some ''x'')]"] l
    by (auto simp: two_sessions_def)
qed

end
