(* ===== verification/Session_Store.thy ===== *)
theory Session_Store
  imports Events Session_Files
begin

text \<open>
  \<open>agent-core/src/session/store.rs\<close> and \<open>commit.rs\<close>: the in-memory log with its file, its
  creation, loading, appending and forking, and the mapping of committable turn events to
  drafts. Fresh ids, timestamps and the outcome of each file operation are arguments.
\<close>

section \<open>The store\<close>

record session_store =
  ss_header :: session_header
  ss_items :: "session_item list"
  ss_next_seq :: u64
  ss_store :: file_store

text \<open>What one commit reads from outside: a fresh item id, the time, and what the append did.\<close>

record commit_io =
  ci_id :: string
  ci_at :: string
  ci_append :: append_outcome

definition store_append_line :: "file_store \<Rightarrow> string \<Rightarrow> append_outcome \<Rightarrow> bool \<times> file_store" where
  "store_append_line fs line out =
     (case append_line (fs_log fs) line out of (ok, log) \<Rightarrow> (ok, fs\<lparr>fs_log := log\<rparr>))"

definition store_create ::
  "serde \<Rightarrow> name_lib \<Rightarrow> create_outcome \<Rightarrow> string \<Rightarrow> string \<Rightarrow> session_error + session_store" where
  "store_create S L out session_id cwd =
     (let header = \<lparr>sh_version = session_header_version, sh_session_id = session_id, sh_cwd = cwd,
                    sh_parent = None, sh_seed_len = 0\<rparr> in
      case file_store_create S L out header of
        Inl e \<Rightarrow> Inl e
      | Inr store \<Rightarrow>
          Inr \<lparr>ss_header = header, ss_items = [], ss_next_seq = 0, ss_store = store\<rparr>)"

definition validate_header_version :: "u32 \<Rightarrow> session_error + unit" where
  "validate_header_version version =
     (if version = 1 \<or> version = session_header_version then Inr () else Inl (UnsupportedVersion version))"

text \<open>The body of the loop of \<open>validate_loaded_items\<close> at position \<open>n\<close>, after \<open>prev\<close>.\<close>

definition validate_loaded_item ::
  "string \<Rightarrow> nat \<Rightarrow> session_item option \<Rightarrow> session_item \<Rightarrow> session_error option" where
  "validate_loaded_item sid n prev item =
     (if ib_seq (base item) \<noteq> word_of_nat n then Some (SeqGap (n + 1) (ib_seq (base item)))
      else if ib_session_id (base item) \<noteq> sid then
        Some (SessionIdMismatch (n + 1) (ib_session_id (base item)))
      else if (case prev of Some p \<Rightarrow> item_turn item < item_turn p | None \<Rightarrow> False) then
        Some (LoadedTurnDecreased (n + 1))
      else case item of
        ItToolCall _ call \<Rightarrow>
          if is_blank (call_id call) \<or> is_blank (call_name call)
          then Some (InvalidCallIdentity (n + 1)) else None
      | ItToolResult _ result \<Rightarrow>
          if is_blank (res_id result) \<or> is_blank (res_name result)
          then Some (InvalidResultIdentity (n + 1)) else None
      | _ \<Rightarrow> None)"

fun validate_loaded_from ::
  "string \<Rightarrow> nat \<Rightarrow> session_item option \<Rightarrow> session_item list \<Rightarrow> session_error + unit" where
  "validate_loaded_from sid n prev [] = Inr ()"
| "validate_loaded_from sid n prev (item # items) =
     (case validate_loaded_item sid n prev item of
        Some e \<Rightarrow> Inl e
      | None \<Rightarrow> validate_loaded_from sid (n + 1) (Some item) items)"

definition validate_loaded_items :: "session_item list \<Rightarrow> string \<Rightarrow> session_error + unit" where
  "validate_loaded_items items sid = validate_loaded_from sid 0 None items"

definition store_load ::
  "serde \<Rightarrow> name_lib \<Rightarrow> sessions_dir \<Rightarrow> string \<Rightarrow> session_error + session_store" where
  "store_load S L sd sid =
     (case file_store_open L sd sid of
        Inl e \<Rightarrow> Inl e
      | Inr store \<Rightarrow>
          (case read_header S store of
             Inl e \<Rightarrow> Inl e
           | Inr header \<Rightarrow>
               (case validate_header_version (sh_version header) of
                  Inl e \<Rightarrow> Inl e
                | Inr _ \<Rightarrow>
                    (case read_items S store (sh_version header) of
                       Inl e \<Rightarrow> Inl e
                     | Inr items \<Rightarrow>
                         (case validate_loaded_items items (sh_session_id header) of
                            Inl e \<Rightarrow> Inl e
                          | Inr _ \<Rightarrow>
                              Inr \<lparr>ss_header = header, ss_items = items,
                                   ss_next_seq = word_of_nat (length items), ss_store = store\<rparr>)))))"

section \<open>Appending\<close>

text \<open>
  \<open>commit_item\<close>: the item is pushed and the counter raised before the append, and both are
  taken back when it fails; the bytes the append wrote stay.
\<close>

definition commit_item ::
  "serde \<Rightarrow> commit_io \<Rightarrow> session_store \<Rightarrow> draft \<Rightarrow> (session_error + session_item) \<times> session_store" where
  "commit_item S io st d =
     (case validate_draft d (ss_items st) of
        Inl e \<Rightarrow> (Inl e, st)
      | Inr _ \<Rightarrow>
          let b = \<lparr>ib_id = ci_id io, ib_seq = ss_next_seq st,
                   ib_session_id = sh_session_id (ss_header st), ib_turn = draft_turn d,
                   ib_at = ci_at io\<rparr>;
              item = freeze_item d b in
          case enc_item S item of
            None \<Rightarrow> (Inl SerializeFailed, st)
          | Some line \<Rightarrow>
              let idx = length (ss_items st);
                  pushed = st\<lparr>ss_items := ss_items st @ [item], ss_next_seq := ss_next_seq st + 1\<rparr>;
                  (ok, fs) = store_append_line (ss_store st) line (ci_append io);
                  pushed = pushed\<lparr>ss_store := fs\<rparr> in
              if \<not> ok then
                (Inl AppendFailed,
                 pushed\<lparr>ss_items := butlast (ss_items pushed), ss_next_seq := ss_next_seq pushed - 1\<rparr>)
              else if idx < length (ss_items pushed) then (Inr (ss_items pushed ! idx), pushed)
              else (Inl CommittedItemMissing, pushed))"

definition next_turn :: "session_store \<Rightarrow> session_error + u64" where
  "next_turn st =
     (case last_opt (ss_items st) of
        None \<Rightarrow> Inr 0
      | Some item \<Rightarrow> if item_turn item = - 1 then Inl TurnOverflow else Inr (item_turn item + 1))"

section \<open>Forking\<close>

definition validate_fork_boundary :: "session_item list \<Rightarrow> nat \<Rightarrow> session_error + unit" where
  "validate_fork_boundary items i =
     (if list_ex (\<lambda>item. item_turn item = item_turn (items ! i)) (drop (i + 1) items)
      then Inl BoundaryInsideTurn else Inr ())"

text \<open>The copy loop of \<open>fork\<close>; a failure leaves the file of the new session half written.\<close>

fun fork_items ::
  "serde \<Rightarrow> string \<Rightarrow> (nat \<Rightarrow> append_outcome) \<Rightarrow> nat \<Rightarrow> session_item list \<Rightarrow> file_store \<Rightarrow>
   (session_error + session_item list) \<times> file_store" where
  "fork_items S sid outs seq [] fs = (Inr [], fs)"
| "fork_items S sid outs seq (source # sources) fs =
     (let item = rebase_item source
           \<lparr>ib_id = ib_id (base source), ib_seq = word_of_nat seq, ib_session_id = sid,
            ib_turn = item_turn source, ib_at = ib_at (base source)\<rparr> in
      case enc_item S item of
        None \<Rightarrow> (Inl SerializeFailed, fs)
      | Some line \<Rightarrow>
          (case store_append_line fs line (outs seq) of
             (False, fs') \<Rightarrow> (Inl AppendFailed, fs')
           | (True, fs') \<Rightarrow>
               (case fork_items S sid outs (seq + 1) sources fs' of
                  (Inl e, fs'') \<Rightarrow> (Inl e, fs'')
                | (Inr items, fs'') \<Rightarrow> (Inr (item # items), fs''))))"

text \<open>
  \<open>fork\<close>: the new store or the error, and the files of the new session if they were made.
\<close>

definition store_fork ::
  "serde \<Rightarrow> name_lib \<Rightarrow> create_outcome \<Rightarrow> (nat \<Rightarrow> append_outcome) \<Rightarrow> string \<Rightarrow> session_store \<Rightarrow> string \<Rightarrow>
   (session_error + session_store) \<times> file_store option" where
  "store_fork S L out outs session_id st boundary =
     (case position (\<lambda>item. ib_id (base item) = boundary) (ss_items st) of
        None \<Rightarrow> (Inl (BoundaryNotFound boundary), None)
      | Some i \<Rightarrow>
          (case validate_fork_boundary (ss_items st) i of
             Inl e \<Rightarrow> (Inl e, None)
           | Inr _ \<Rightarrow>
               let seed_len = word_of_nat (i + 1);
                   header = \<lparr>sh_version = session_header_version, sh_session_id = session_id,
                             sh_cwd = sh_cwd (ss_header st),
                             sh_parent = Some (sh_session_id (ss_header st)),
                             sh_seed_len = seed_len\<rparr> in
               case file_store_create S L out header of
                 Inl e \<Rightarrow> (Inl e, None)
               | Inr store \<Rightarrow>
                   (case fork_items S session_id outs 0 (take (i + 1) (ss_items st)) store of
                      (Inl e, store') \<Rightarrow> (Inl e, Some store')
                    | (Inr items, store') \<Rightarrow>
                        (Inr \<lparr>ss_header = header, ss_items = items, ss_next_seq = seed_len,
                              ss_store = store'\<rparr>, Some store'))))"

section \<open>Committing events\<close>

fun compaction_kind_from :: "turn_compaction_kind \<Rightarrow> compaction_kind" where
  "compaction_kind_from TurnPrune = Prune"
| "compaction_kind_from TurnTailWindow = TailWindow"
| "compaction_kind_from TurnSummary = Summary"

fun non_committable_label :: "turn_event \<Rightarrow> string" where
  "non_committable_label (TurnStarted _) = ''TurnStarted''"
| "non_committable_label (TurnEnded _) = ''TurnEnded''"
| "non_committable_label (LlmCallStarted _ _ _) = ''LlmCallStarted''"
| "non_committable_label (LlmCallEnded _ _ _ _) = ''LlmCallEnded''"
| "non_committable_label (MessageUpdate _ _ _ _) = ''MessageUpdate''"
| "non_committable_label (CompactionRecommended _) = ''CompactionRecommended''"
| "non_committable_label (ContextPreflightEnded _) = ''ContextPreflightEnded''"
| "non_committable_label (ContextPostflightEnded _) = ''ContextPostflightEnded''"
| "non_committable_label _ = ''committable''"

text \<open>The draft of an event; an empty assistant marker commits nothing (\<open>Inr None\<close>).\<close>

fun draft_of_event :: "turn_event \<Rightarrow> session_error + draft option" where
  "draft_of_event (UserPromptCommitted turn text) = Inr (Some (DrUser turn text))"
| "draft_of_event (AssistantFinalized turn _ blocks) =
     (if blocks = [] then Inr None else Inr (Some (DrAssistant turn blocks)))"
| "draft_of_event (ToolCallRecorded turn call) = Inr (Some (DrToolCall turn call))"
| "draft_of_event (ToolResultRecorded turn result) = Inr (Some (DrToolResult turn result))"
| "draft_of_event (CompactionApplied turn k sid ex before after) =
     Inr (Some (DrCompaction turn (compaction_kind_from k) sid ex before after))"
| "draft_of_event other = Inl (NotCommittable (non_committable_label other))"

definition commit_from_event ::
  "serde \<Rightarrow> commit_io \<Rightarrow> session_store \<Rightarrow> turn_event \<Rightarrow>
   (session_error + session_item option) \<times> session_store" where
  "commit_from_event S io st e =
     (case draft_of_event e of
        Inl err \<Rightarrow> (Inl err, st)
      | Inr None \<Rightarrow> (Inr None, st)
      | Inr (Some d) \<Rightarrow>
          (case commit_item S io st d of
             (Inl err, st') \<Rightarrow> (Inl err, st')
           | (Inr item, st') \<Rightarrow> (Inr (Some item), st')))"

definition commit_event ::
  "serde \<Rightarrow> commit_io \<Rightarrow> session_store \<Rightarrow> turn_event \<Rightarrow> (session_error + string option) \<times> session_store" where
  "commit_event S io st e =
     (case commit_from_event S io st e of
        (Inl err, st') \<Rightarrow> (Inl err, st')
      | (Inr item, st') \<Rightarrow> (Inr (map_option (\<lambda>i. ib_id (base i)) item), st'))"

section \<open>What the store promises\<close>

text \<open>The log of a session: numbered from 0, of that session, turns never decreasing.\<close>

definition log_ok :: "string \<Rightarrow> session_item list \<Rightarrow> bool" where
  "log_ok sid items \<longleftrightarrow>
     map (\<lambda>i. ib_seq (base i)) items = map word_of_nat [0..<length items]
     \<and> list_all (\<lambda>i. ib_session_id (base i) = sid \<and> item_identity_ok i) items
     \<and> sorted (map item_turn items)"

definition store_ok :: "session_store \<Rightarrow> bool" where
  "store_ok st \<longleftrightarrow>
     log_ok (sh_session_id (ss_header st)) (ss_items st)
     \<and> ss_next_seq st = word_of_nat (length (ss_items st))
     \<and> fs_session_id (ss_store st) = sh_session_id (ss_header st)"

text \<open>The bytes the items alone make up.\<close>

definition log_line :: "serde \<Rightarrow> session_item \<Rightarrow> string" where
  "log_line S item = (case enc_item S item of None \<Rightarrow> [] | Some line \<Rightarrow> line @ [newline])"

definition log_bytes :: "serde \<Rightarrow> session_item list \<Rightarrow> string" where
  "log_bytes S items = concat (map (log_line S) items)"

definition file_in_step :: "serde \<Rightarrow> session_store \<Rightarrow> bool" where
  "file_in_step S st \<longleftrightarrow>
     fs_log (ss_store st) = log_bytes S (ss_items st)
     \<and> list_all (\<lambda>i. enc_item S i \<noteq> None) (ss_items st)"

lemma log_bytes_simps [simp]:
  "log_bytes S [] = []" "log_bytes S (xs @ ys) = log_bytes S xs @ log_bytes S ys"
  "log_bytes S (x # xs) = log_line S x @ log_bytes S xs"
  by (simp_all add: log_bytes_def)

lemma log_ok_Nil [simp]: "log_ok sid []"
  by (simp add: log_ok_def)

lemma log_ok_snoc:
  "log_ok sid (items @ [i]) \<longleftrightarrow>
     log_ok sid items \<and> ib_seq (base i) = word_of_nat (length items)
     \<and> ib_session_id (base i) = sid \<and> item_identity_ok i
     \<and> (items = [] \<or> item_turn (last items) \<le> item_turn i)"
proof -
  have "sorted (map item_turn items @ [item_turn i]) \<longleftrightarrow>
      sorted (map item_turn items) \<and> (items = [] \<or> item_turn (last items) \<le> item_turn i)"
  proof (induction items)
    case Nil
    then show ?case by simp
  next
    case (Cons a items)
    show ?case
    proof (cases "items = []")
      case False
      then have "last items \<in> set items" by simp
      with False Cons show ?thesis by (auto intro: order_trans)
    qed simp
  qed
  then show ?thesis by (auto simp: log_ok_def)
qed

lemma sorted_take_map: "sorted (map f xs) \<Longrightarrow> sorted (map f (take n xs))"
  by (metis sorted_wrt_take take_map)

lemma take_upt_min: "take n [0..<m] = [0..<min m n]"
  by (cases "n \<le> m") (simp_all add: min_def)

lemma log_ok_take:
  assumes "log_ok sid items"
  shows "log_ok sid (take n items)"
proof -
  have seqs: "map (\<lambda>i. ib_seq (base i)) items = map word_of_nat [0..<length items]"
    using assms by (simp only: log_ok_def)
  have "map (\<lambda>i. ib_seq (base i)) (take n items) = take n (map (\<lambda>i. ib_seq (base i)) items)"
    by (simp only: take_map)
  also have "\<dots> = take n (map word_of_nat [0..<length items])"
    by (simp only: seqs)
  also have "\<dots> = map word_of_nat [0..<length (take n items)]"
    by (simp only: take_map take_upt_min length_take)
  finally show ?thesis
    using assms unfolding log_ok_def by (auto simp: list_all_iff sorted_take_map dest: in_set_takeD)
qed

lemma validate_loaded_from_ok:
  "is_ok (validate_loaded_from sid n prev items) \<longleftrightarrow>
     map (\<lambda>i. ib_seq (base i)) items = map word_of_nat [n..<n + length items]
     \<and> list_all (\<lambda>i. ib_session_id (base i) = sid \<and> item_identity_ok i) items
     \<and> sorted (map item_turn ((case prev of None \<Rightarrow> [] | Some p \<Rightarrow> [p]) @ items))"
proof (induction sid n prev items rule: validate_loaded_from.induct)
  case (1 sid n prev)
  then show ?case by (simp split: option.split)
next
  case (2 sid n prev item items)
  have one: "validate_loaded_item sid n prev item = None \<longleftrightarrow>
      ib_seq (base item) = word_of_nat n \<and> ib_session_id (base item) = sid \<and> item_identity_ok item
      \<and> (case prev of None \<Rightarrow> True | Some p \<Rightarrow> item_turn p \<le> item_turn item)"
    by (cases item) (auto simp: validate_loaded_item_def not_less split: option.splits)
  have upt: "[n..<n + length (item # items)] = n # [n + 1..<(n + 1) + length items]"
    by (simp add: upt_conv_Cons del: upt_Suc)
  show ?case
  proof (cases "validate_loaded_item sid n prev item")
    case (Some e)
    then have "\<not> (ib_seq (base item) = word_of_nat n \<and> ib_session_id (base item) = sid \<and> item_identity_ok item
      \<and> (case prev of None \<Rightarrow> True | Some p \<Rightarrow> item_turn p \<le> item_turn item))"
      using one by simp
    with Some show ?thesis unfolding upt by (auto split: option.splits)
  next
    case None
    with one have "ib_seq (base item) = word_of_nat n" "ib_session_id (base item) = sid"
      "item_identity_ok item" "case prev of None \<Rightarrow> True | Some p \<Rightarrow> item_turn p \<le> item_turn item"
      by auto
    with None 2 show ?thesis unfolding upt by (auto split: option.splits intro: order_trans)
  qed
qed

lemma validate_loaded_items_ok: "is_ok (validate_loaded_items items sid) \<longleftrightarrow> log_ok sid items"
  by (simp add: validate_loaded_items_def validate_loaded_from_ok log_ok_def)

section \<open>One commit\<close>

lemma store_append_line_cases:
  "store_append_line fs line out = (ok, fs') \<Longrightarrow>
     (ok \<longleftrightarrow> out = AppendOk)
     \<and> fs_session_id fs' = fs_session_id fs \<and> fs_meta fs' = fs_meta fs
     \<and> fs_log fs' = snd (append_line (fs_log fs) line out)"
  by (cases out) (auto simp: store_append_line_def)

text \<open>The item a commit would append.\<close>

definition next_item :: "commit_io \<Rightarrow> session_store \<Rightarrow> draft \<Rightarrow> session_item" where
  "next_item io st d = freeze_item d
     \<lparr>ib_id = ci_id io, ib_seq = ss_next_seq st, ib_session_id = sh_session_id (ss_header st),
      ib_turn = draft_turn d, ib_at = ci_at io\<rparr>"

lemma base_next_item [simp]:
  "base (next_item io st d) =
     \<lparr>ib_id = ci_id io, ib_seq = ss_next_seq st, ib_session_id = sh_session_id (ss_header st),
      ib_turn = draft_turn d, ib_at = ci_at io\<rparr>"
  by (simp add: next_item_def)

lemma commit_item_cases:
  obtains (invalid) e where "validate_draft d (ss_items st) = Inl e" "commit_item S io st d = (Inl e, st)"
  | (unserializable) "validate_draft d (ss_items st) = Inr ()" "enc_item S (next_item io st d) = None"
      "commit_item S io st d = (Inl SerializeFailed, st)"
  | (append_failed) line where "validate_draft d (ss_items st) = Inr ()"
      "enc_item S (next_item io st d) = Some line" "ci_append io \<noteq> AppendOk"
      "commit_item S io st d =
        (Inl AppendFailed, st\<lparr>ss_store := snd (store_append_line (ss_store st) line (ci_append io))\<rparr>)"
  | (committed) line where "validate_draft d (ss_items st) = Inr ()"
      "enc_item S (next_item io st d) = Some line" "ci_append io = AppendOk"
      "commit_item S io st d =
        (Inr (next_item io st d),
         st\<lparr>ss_items := ss_items st @ [next_item io st d], ss_next_seq := ss_next_seq st + 1,
            ss_store := (ss_store st)\<lparr>fs_log := fs_log (ss_store st) @ line @ [newline]\<rparr>\<rparr>)"
proof (cases "validate_draft d (ss_items st)")
  case (Inl e)
  then show thesis by (intro invalid [of e]) (simp_all add: commit_item_def)
next
  case (Inr u)
  note v = this
  show thesis
  proof (cases "enc_item S (next_item io st d)")
    case None
    with v show thesis by (intro unserializable) (simp_all add: commit_item_def next_item_def Let_def)
  next
    case (Some line)
    obtain ok fs where a: "store_append_line (ss_store st) line (ci_append io) = (ok, fs)"
      by (cases "store_append_line (ss_store st) line (ci_append io)")
    have ok: "ok \<longleftrightarrow> ci_append io = AppendOk" using store_append_line_cases [OF a] by blast
    show thesis
    proof (cases "ci_append io = AppendOk")
      case True
      with a have "fs = (ss_store st)\<lparr>fs_log := fs_log (ss_store st) @ line @ [newline]\<rparr>"
        by (simp add: store_append_line_def)
      with v Some a ok True show thesis
        by (intro committed [of line]) (simp_all add: commit_item_def next_item_def Let_def)
    next
      case False
      with v Some a ok show thesis
        by (intro append_failed [of line]) (simp_all add: commit_item_def next_item_def Let_def)
    qed
  qed
qed

lemma commit_item_log:
  "fst (commit_item S io st d) = Inr i \<Longrightarrow>
     i = next_item io st d \<and> ss_items (snd (commit_item S io st d)) = ss_items st @ [i]"
  "fst (commit_item S io st d) = Inl e \<Longrightarrow>
     ss_items (snd (commit_item S io st d)) = ss_items st"
  by (cases rule: commit_item_cases [of d st S io]; simp)+

lemma commit_item_header [simp]:
  "ss_header (snd (commit_item S io st d)) = ss_header st"
  by (cases rule: commit_item_cases [of d st S io]) simp_all

lemma commit_item_store [simp]:
  "fs_session_id (ss_store (snd (commit_item S io st d))) = fs_session_id (ss_store st)"
  "fs_meta (ss_store (snd (commit_item S io st d))) = fs_meta (ss_store st)"
  by (cases rule: commit_item_cases [of d st S io]; simp add: store_append_line_def split: prod.splits)+

lemma commit_item_ok: "store_ok st \<Longrightarrow> store_ok (snd (commit_item S io st d))"
proof (cases rule: commit_item_cases [of d st S io])
  case (committed line)
  assume ok: "store_ok st"
  have c: "is_ok (validate_draft_content d)" and t: "ss_items st = [] \<or> item_turn (last (ss_items st)) \<le> draft_turn d"
    using committed(1) validate_draft_ok_iff [of d "ss_items st"] by auto
  have "item_identity_ok (next_item io st d)"
    unfolding next_item_def by (rule freeze_identity_ok [OF c])
  with ok t committed(4) show ?thesis
    by (simp add: store_ok_def log_ok_snoc)
qed (auto simp: store_ok_def store_append_line_def split: prod.splits)

text \<open>A torn append leaves bytes of a line that no item stands for.\<close>

fun torn :: "append_outcome \<Rightarrow> bool" where
  "torn (WriteFailed k) = (0 < k)"
| "torn NewlineFailed = True"
| "torn _ = False"

lemma commit_item_in_step:
  assumes "file_in_step S st" and "\<not> torn (ci_append io)"
  shows "file_in_step S (snd (commit_item S io st d))"
proof (cases rule: commit_item_cases [of d st S io])
  case (committed line)
  with assms show ?thesis by (simp add: file_in_step_def log_line_def)
next
  case (append_failed line)
  with assms show ?thesis
    by (cases "ci_append io") (simp_all add: file_in_step_def store_append_line_def)
qed (use assms in simp_all)

section \<open>The store as a commit handler\<close>

lemma commit_event_cases:
  obtains (untouched) r where "commit_event S io st e = (r, st)"
      "(\<exists>t i. e = AssistantFinalized t i [] \<and> r = Inr None) \<or> (\<exists>err. r = Inl err)"
  | (item) d where "draft_of_event e = Inr (Some d)"
      "snd (commit_event S io st e) = snd (commit_item S io st d)"
      "fst (commit_event S io st e) =
        (case fst (commit_item S io st d) of Inl err \<Rightarrow> Inl err | Inr i \<Rightarrow> Inr (Some (ib_id (base i))))"
proof (cases "draft_of_event e")
  case (Inl err)
  then show thesis by (intro untouched [of "Inl err"]) (simp_all add: commit_event_def commit_from_event_def)
next
  case (Inr od)
  show thesis
  proof (cases od)
    case None
    with Inr have "\<exists>t i. e = AssistantFinalized t i []" by (cases e) (auto split: if_splits)
    with Inr None show thesis
      by (intro untouched [of "Inr None"]) (simp_all add: commit_event_def commit_from_event_def)
  next
    case (Some d)
    obtain r st' where "commit_item S io st d = (r, st')" by (cases "commit_item S io st d")
    with Inr Some show thesis
      by (intro item [of d]) (auto simp: commit_event_def commit_from_event_def split: sum.splits)
  qed
qed

lemma commit_event_ok: "store_ok st \<Longrightarrow> store_ok (snd (commit_event S io st e))"
  by (cases rule: commit_event_cases [of S io st e]) (simp_all add: commit_item_ok)

lemma commit_event_fail: "fst (commit_event S io st e) = Inl err \<Longrightarrow>
    ss_items (snd (commit_event S io st e)) = ss_items st"
  by (cases rule: commit_event_cases [of S io st e])
    (auto split: sum.splits dest: commit_item_log)

lemma commit_event_append: "fst (commit_event S io st e) = Inr i \<Longrightarrow>
    \<exists>new. ss_items (snd (commit_event S io st e)) = ss_items st @ new \<and> length new \<le> 1"
  by (cases rule: commit_event_cases [of S io st e])
    (auto split: sum.splits dest: commit_item_log)

interpretation sc: commit_handler "commit_event S io" ss_items store_ok for S io
proof unfold_locales
  fix s e r s'
  assume "store_ok s" "commit_event S io s e = (r, s')"
  then show "store_ok s'" using commit_event_ok [of s S io e] by simp
next
  fix s e err s'
  assume "commit_event S io s e = (Inl err, s')"
  then show "ss_items s' = ss_items s" using commit_event_fail [of S io s e] by simp
next
  fix s e i s'
  assume "commit_event S io s e = (Inr i, s')"
  then show "\<exists>new. ss_items s' = ss_items s @ new \<and> length new \<le> 1"
    using commit_event_append [of S io s e] by simp
qed

section \<open>Reading back what was written\<close>

text \<open>
  What is used of JSON on one value: the text is one non-blank line of UTF-8 that does not end
  in a carriage return, and parsing it gives the value back.
\<close>

definition item_codec :: "serde \<Rightarrow> session_item \<Rightarrow> bool" where
  "item_codec S item =
     (case enc_item S item of
        None \<Rightarrow> True
      | Some line \<Rightarrow>
          newline \<notin> set line \<and> strip_cr line = line \<and> valid_utf8 line \<and> \<not> is_blank line
          \<and> (case parse_json S line of None \<Rightarrow> False | Some v \<Rightarrow> dec_item S v = Some item))"

definition header_codec :: "serde \<Rightarrow> session_header \<Rightarrow> bool" where
  "header_codec S h =
     (case enc_header S h of
        None \<Rightarrow> True
      | Some raw \<Rightarrow> valid_utf8 raw \<and> dec_header S raw = Some h)"

lemma read_lines_codec:
  assumes "list_all (item_codec S) items" and "list_all (\<lambda>i. enc_item S i \<noteq> None) items"
    and "version \<noteq> 1"
  shows "read_lines S version n (buf_lines (log_bytes S items @ rest)) =
    (case read_lines S version (n + length items) (buf_lines rest) of
       Inl e \<Rightarrow> Inl e | Inr more_items \<Rightarrow> Inr (items @ more_items))"
  using assms(1,2)
proof (induction items arbitrary: n)
  case Nil
  then show ?case by (simp split: sum.split)
next
  case (Cons i items)
  then obtain line where l: "enc_item S i = Some line" by auto
  obtain v where c: "newline \<notin> set line" "strip_cr line = line" "valid_utf8 line" "\<not> is_blank line"
      "parse_json S line = Some v" "dec_item S v = Some i"
    using Cons.prems(1) l by (auto simp: item_codec_def split: option.splits)
  have "buf_lines (log_bytes S (i # items) @ rest) = line # buf_lines (log_bytes S items @ rest)"
    using buf_lines_line [OF c(1), of "log_bytes S items @ rest"] l c(2) by (simp add: log_line_def)
  moreover have "migrate_v1_tool_result version v = v"
    using assms(3) by (simp add: migrate_v1_tool_result_def)
  ultimately show ?case
    using c Cons.IH [of "Suc n"] Cons.prems by (simp split: sum.split)
qed

text \<open>A store that its own two files load back to.\<close>

definition header_on_disk :: "serde \<Rightarrow> name_lib \<Rightarrow> session_store \<Rightarrow> bool" where
  "header_on_disk S L st \<longleftrightarrow>
     enc_header S (ss_header st) = Some (fs_meta (ss_store st))
     \<and> sh_version (ss_header st) = session_header_version
     \<and> is_uuid L (sh_session_id (ss_header st))"

lemma store_load_in_step:
  assumes ok: "store_ok st" and step: "file_in_step S st" and h: "header_on_disk S L st"
    and codec: "header_codec S (ss_header st)" "list_all (item_codec S) (ss_items st)"
    and disk: "file_store_open L sd sid = Inr (ss_store st)"
  shows "store_load S L sd sid = Inr st"
proof -
  have rh: "read_header S (ss_store st) = Inr (ss_header st)"
    using h codec(1) ok by (simp add: read_header_def header_on_disk_def header_codec_def store_ok_def)
  have v: "sh_version (ss_header st) \<noteq> 1" "validate_header_version (sh_version (ss_header st)) = Inr ()"
    using h by (simp_all add: header_on_disk_def session_header_version_def validate_header_version_def)
  have "read_items S (ss_store st) (sh_version (ss_header st)) = Inr (ss_items st)"
    using read_lines_codec [OF codec(2) _ v(1), of 0 "[]"] step
    by (simp add: read_items_def file_in_step_def)
  moreover have "validate_loaded_items (ss_items st) (sh_session_id (ss_header st)) = Inr ()"
    using ok validate_loaded_items_ok [of "ss_items st" "sh_session_id (ss_header st)"]
    by (cases "validate_loaded_items (ss_items st) (sh_session_id (ss_header st))") (auto simp: store_ok_def)
  ultimately show ?thesis
    using disk rh v ok by (simp add: store_load_def store_ok_def)
qed

section \<open>Forks\<close>

lemma validate_fork_boundary_ok:
  "is_ok (validate_fork_boundary items i) \<longleftrightarrow>
     list_all (\<lambda>it. item_turn it \<noteq> item_turn (items ! i)) (drop (i + 1) items)"
  by (simp add: validate_fork_boundary_def list_all_iff list_ex_iff)

definition forked_item :: "string \<Rightarrow> nat \<Rightarrow> session_item \<Rightarrow> session_item" where
  "forked_item sid seq source = rebase_item source
     ((base source)\<lparr>ib_seq := word_of_nat seq, ib_session_id := sid\<rparr>)"

lemma forked_item_eq:
  "rebase_item source \<lparr>ib_id = ib_id (base source), ib_seq = word_of_nat seq, ib_session_id = sid,
            ib_turn = item_turn source, ib_at = ib_at (base source)\<rparr> = forked_item sid seq source"
  by (cases "base source") (simp add: forked_item_def)

lemma base_forked_item [simp]:
  "base (forked_item sid seq source) = (base source)\<lparr>ib_seq := word_of_nat seq, ib_session_id := sid\<rparr>"
  "item_identity_ok (forked_item sid seq source) = item_identity_ok source"
  by (simp_all add: forked_item_def)

lemma fork_items_ok:
  assumes "fork_items S sid outs seq sources fs = (Inr items, fs')"
  shows "items = map (\<lambda>(n, s). forked_item sid n s) (enumerate seq sources)
    \<and> fs' = fs\<lparr>fs_log := fs_log fs @ log_bytes S items\<rparr>
    \<and> list_all (\<lambda>i. enc_item S i \<noteq> None) items"
  using assms
proof (induction sources arbitrary: seq fs items)
  case Nil
  then show ?case by simp
next
  case (Cons s sources)
  from Cons.prems obtain line fs1 items1 where l: "enc_item S (forked_item sid seq s) = Some line"
    and a: "store_append_line fs line (outs seq) = (True, fs1)"
    and r: "fork_items S sid outs (seq + 1) sources fs1 = (Inr items1, fs')"
    and items: "items = forked_item sid seq s # items1"
    by (auto simp: Let_def forked_item_eq split: option.splits prod.splits bool.splits sum.splits)
  have "outs seq = AppendOk" using store_append_line_cases [OF a] by simp
  with a have "fs1 = fs\<lparr>fs_log := fs_log fs @ line @ [newline]\<rparr>" by (simp add: store_append_line_def)
  with Cons.IH [OF r] items l show ?case by (auto simp: log_line_def)
qed

lemma map_enumerate_forked:
  "map (\<lambda>i. ib_seq (base i)) (map (\<lambda>(n, s). forked_item sid n s) (enumerate k xs)) =
     map word_of_nat [k..<k + length xs]"
  "map item_turn (map (\<lambda>(n, s). forked_item sid n s) (enumerate k xs)) = map item_turn xs"
  by (induction xs arbitrary: k) (simp_all add: upt_conv_Cons del: upt_Suc)

lemma forked_log_ok:
  assumes "log_ok sid0 xs"
  shows "log_ok sid (map (\<lambda>(n, s). forked_item sid n s) (enumerate 0 xs))"
proof -
  have "list_all item_identity_ok xs" using assms by (auto simp: log_ok_def list_all_iff)
  moreover have "s \<in> set xs" if "(n, s) \<in> set (enumerate 0 xs)" for n s
    using that by (auto simp: in_set_enumerate_eq)
  ultimately show ?thesis
    using assms unfolding log_ok_def map_enumerate_forked
    by (auto simp: list_all_iff)
qed

lemma store_fork_cases:
  assumes "store_fork S L out outs sid st boundary = (Inr st', f)"
  obtains i raw where "position (\<lambda>item. ib_id (base item) = boundary) (ss_items st) = Some i"
    "list_all (\<lambda>it. item_turn it \<noteq> item_turn (ss_items st ! i)) (drop (i + 1) (ss_items st))"
    "is_uuid L sid" "enc_header S (ss_header st') = Some raw"
    "ss_header st' = \<lparr>sh_version = session_header_version, sh_session_id = sid,
        sh_cwd = sh_cwd (ss_header st), sh_parent = Some (sh_session_id (ss_header st)),
        sh_seed_len = word_of_nat (i + 1)\<rparr>"
    "ss_items st' = map (\<lambda>(n, s). forked_item sid n s) (enumerate 0 (take (i + 1) (ss_items st)))"
    "ss_next_seq st' = word_of_nat (i + 1)"
    "ss_store st' = \<lparr>fs_session_id = sid, fs_meta = raw, fs_log = log_bytes S (ss_items st')\<rparr>"
    "list_all (\<lambda>it. enc_item S it \<noteq> None) (ss_items st')"
    "f = Some (ss_store st')"
proof -
  from assms obtain i where i: "position (\<lambda>item. ib_id (base item) = boundary) (ss_items st) = Some i"
    and b: "is_ok (validate_fork_boundary (ss_items st) i)"
    by (auto simp: store_fork_def split: option.splits sum.splits)
  define h where "h = \<lparr>sh_version = session_header_version, sh_session_id = sid,
        sh_cwd = sh_cwd (ss_header st), sh_parent = Some (sh_session_id (ss_header st)),
        sh_seed_len = word_of_nat (i + 1) :: u64\<rparr>"
  from assms i obtain store items store' where c: "file_store_create S L out h = Inr store"
    and it: "fork_items S sid outs 0 (take (i + 1) (ss_items st)) store = (Inr items, store')"
    and st': "st' = \<lparr>ss_header = h, ss_items = items, ss_next_seq = word_of_nat (i + 1), ss_store = store'\<rparr>"
    and f: "f = Some store'"
    unfolding store_fork_def h_def [symmetric] Let_def
    by (auto simp: h_def split: option.splits sum.splits prod.splits)
  from c obtain raw where "is_uuid L sid" "enc_header S h = Some raw"
      "store = \<lparr>fs_session_id = sid, fs_meta = raw, fs_log = []\<rparr>"
    by (auto simp: file_store_create_def validate_session_id_def h_def split: if_splits option.splits)
  with fork_items_ok [OF it] st' f i b show thesis
    by (intro that [of i raw]) (auto simp: validate_fork_boundary_ok h_def)
qed

section \<open>Reachable stores\<close>

text \<open>
  The stores a program can hold: created, loaded, forked from another, or the result of a
  commit, successful or not. The flag says that no append on the way was torn.
\<close>

inductive reachable :: "serde \<Rightarrow> name_lib \<Rightarrow> bool \<Rightarrow> session_store \<Rightarrow> bool" for S L where
  created: "store_create S L out sid cwd = Inr st \<Longrightarrow> reachable S L True st"
| loaded: "store_load S L sd sid = Inr st \<Longrightarrow> reachable S L False st"
| committed: "reachable S L clean st \<Longrightarrow>
    reachable S L (clean \<and> \<not> torn (ci_append io)) (snd (commit_event S io st e))"
| forked: "reachable S L clean st \<Longrightarrow> store_fork S L out outs sid st b = (Inr st', f) \<Longrightarrow>
    reachable S L True st'"

lemma store_create_Some:
  assumes "store_create S L out sid cwd = Inr st"
  shows "store_ok st \<and> file_in_step S st \<and> header_on_disk S L st \<and> ss_items st = []"
  using assms
  by (auto simp: store_create_def Let_def file_store_create_def validate_session_id_def store_ok_def
      file_in_step_def header_on_disk_def split: option.splits if_splits sum.splits)

lemma store_load_ok:
  assumes "store_load S L sd sid = Inr st"
  shows "store_ok st"
proof -
  from assms obtain fs h items where "read_header S fs = Inr h"
    "is_ok (validate_loaded_items items (sh_session_id h))"
    "st = \<lparr>ss_header = h, ss_items = items, ss_next_seq = word_of_nat (length items), ss_store = fs\<rparr>"
    by (auto simp: store_load_def split: sum.splits)
  then show ?thesis
    by (auto simp: store_ok_def validate_loaded_items_ok read_header_def split: if_splits option.splits)
qed

lemma store_fork_ok:
  assumes "store_ok st" and "store_fork S L out outs sid st b = (Inr st', f)"
  shows "store_ok st' \<and> file_in_step S st' \<and> header_on_disk S L st'"
  using assms(2)
proof (cases rule: store_fork_cases)
  case (1 i raw)
  then have "i < length (ss_items st)" by (auto dest: position_Some)
  then have "length (ss_items st') = i + 1" using 1(6) by simp
  moreover have "log_ok sid (ss_items st')"
    using forked_log_ok [OF log_ok_take] assms(1) unfolding 1(6) store_ok_def by blast
  ultimately show ?thesis
    using 1(3-5,7-9) by (simp add: store_ok_def file_in_step_def header_on_disk_def)
qed

lemma commit_event_header [simp]:
  "ss_header (snd (commit_event S io st e)) = ss_header st"
  "fs_session_id (ss_store (snd (commit_event S io st e))) = fs_session_id (ss_store st)"
  "fs_meta (ss_store (snd (commit_event S io st e))) = fs_meta (ss_store st)"
  by (cases rule: commit_event_cases [of S io st e]; simp)+

lemma commit_event_in_step:
  "file_in_step S st \<Longrightarrow> \<not> torn (ci_append io) \<Longrightarrow> file_in_step S (snd (commit_event S io st e))"
  by (cases rule: commit_event_cases [of S io st e]) (simp_all add: commit_item_in_step)

lemma reachable_clean:
  "reachable S L clean st \<Longrightarrow>
     store_ok st \<and> (clean \<longrightarrow> file_in_step S st \<and> header_on_disk S L st)"
proof (induction rule: reachable.induct)
  case (created out sid cwd st)
  then show ?case using store_create_Some by blast
next
  case (loaded sd sid st)
  then show ?case using store_load_ok by blast
next
  case (committed clean st io e)
  then show ?case
    by (simp add: commit_event_ok commit_event_in_step) (simp add: header_on_disk_def)
next
  case (forked clean st out outs sid b st' f)
  then show ?case using store_fork_ok by blast
qed

section \<open>Properties\<close>

text \<open>
  C5: every store a program can hold is well formed: items numbered from 0 without gaps, all
  of its session, turns never decreasing, tool items with non-blank ids and names, and the
  next sequence number the length of the log. Failed and torn commits included.
\<close>

theorem reachable_store_ok:
  assumes "reachable S L clean st"
  shows "log_ok (sh_session_id (ss_header st)) (ss_items st)
    \<and> ss_next_seq st = word_of_nat (length (ss_items st))"
  using reachable_clean [OF assms] by (simp add: store_ok_def)

text \<open>
  C6: a session survives a restart. A store made by creation, commits and forks, whose appends
  each wrote a whole line or nothing, is loaded back from its two files as it was: same header,
  items and next sequence number.
\<close>

theorem load_restores_session:
  assumes "reachable S L True st"
    and "header_codec S (ss_header st)" and "list_all (item_codec S) (ss_items st)"
    and "file_store_open L sd sid = Inr (ss_store st)"
  shows "store_load S L sd sid = Inr st"
  using reachable_clean [OF assms(1)] by (intro store_load_in_step assms) auto

text \<open>
  C10: a commit is all or nothing in memory. It succeeds exactly when the draft is valid, the
  item serializes and the append went through; then it returns the frozen draft, numbered by
  the counter, and adds it at the end. On any failure items and counter are as before.
\<close>

theorem commit_item_atomic:
  "(let (r, st') = commit_item S io st d in
    is_ok r = (is_ok (validate_draft d (ss_items st))
      \<and> enc_item S (next_item io st d) \<noteq> None \<and> ci_append io = AppendOk)
    \<and> ss_header st' = ss_header st
    \<and> (if is_ok r then
         r = Inr (next_item io st d) \<and> ss_items st' = ss_items st @ [next_item io st d]
         \<and> ss_next_seq st' = ss_next_seq st + 1
         \<and> fs_log (ss_store st') = fs_log (ss_store st) @ log_line S (next_item io st d)
       else ss_items st' = ss_items st \<and> ss_next_seq st' = ss_next_seq st))"
  by (cases rule: commit_item_cases [of d st S io]) (simp_all add: log_line_def Let_def)

text \<open>
  C11: a fork at an item is the log up to that item under a new session id, renumbered and
  otherwise unchanged; it holds whole turns only, so every item left out is of a later turn;
  its header names the parent and the number of items taken over.
\<close>

theorem fork_is_renumbered_prefix:
  assumes "reachable S L clean st" and "store_fork S L out outs sid st b = (Inr st', f)"
  shows "\<exists>kept rest. ss_items st = kept @ rest \<and> kept \<noteq> [] \<and> ib_id (base (last kept)) = b
    \<and> ss_items st' = map (\<lambda>(n, s). forked_item sid n s) (enumerate 0 kept)
    \<and> list_all (\<lambda>i. item_turn (last kept) < item_turn i) rest
    \<and> sh_parent (ss_header st') = Some (sh_session_id (ss_header st))
    \<and> sh_seed_len (ss_header st') = word_of_nat (length kept)
    \<and> ss_next_seq st' = word_of_nat (length kept)"
  using assms(2)
proof (cases rule: store_fork_cases)
  case (1 i raw)
  from 1(1) have i: "i < length (ss_items st)" "ib_id (base (ss_items st ! i)) = b"
    by (auto dest: position_Some)
  let ?kept = "take (i + 1) (ss_items st)" and ?rest = "drop (i + 1) (ss_items st)"
  have last: "last ?kept = ss_items st ! i" using i(1) by (simp add: take_Suc_conv_app_nth)
  have "sorted (map item_turn (?kept @ ?rest))"
    using reachable_clean [OF assms(1)] by (simp add: store_ok_def log_ok_def)
  then have "\<forall>x \<in> set ?kept. \<forall>y \<in> set ?rest. item_turn x \<le> item_turn y"
    unfolding map_append sorted_append by simp
  moreover have "last ?kept \<in> set ?kept" using i(1) by (intro last_in_set) auto
  ultimately have "\<forall>y \<in> set ?rest. item_turn (last ?kept) \<le> item_turn y" by blast
  with 1(2) last have "list_all (\<lambda>i. item_turn (last ?kept) < item_turn i) ?rest"
    by (fastforce simp: list_all_iff order_le_less)
  with 1 i last show ?thesis
    by (intro exI [of _ ?kept] exI [of _ ?rest]) auto
qed

text \<open>
  the turn number handed to the next turn is above every turn of the log, and is refused
  only when the last turn is already the largest 64-bit number.
\<close>

theorem next_turn_fresh:
  assumes "reachable S L clean st"
  shows "(case next_turn st of
      Inr t \<Rightarrow> list_all (\<lambda>i. item_turn i < t) (ss_items st)
    | Inl e \<Rightarrow> e = TurnOverflow \<and> ss_items st \<noteq> [] \<and> unat (item_turn (last (ss_items st))) = 2 ^ 64 - 1)"
proof (cases "ss_items st = []")
  case True
  then show ?thesis by (simp add: next_turn_def)
next
  case False
  let ?l = "item_turn (last (ss_items st))"
  have "sorted (map item_turn (butlast (ss_items st) @ [last (ss_items st)]))"
    using reachable_clean [OF assms] False by (simp add: store_ok_def log_ok_def)
  then have "\<forall>i \<in> set (butlast (ss_items st)). item_turn i \<le> ?l"
    unfolding map_append sorted_append by simp
  moreover have "set (ss_items st) = insert (last (ss_items st)) (set (butlast (ss_items st)))"
    using False by (metis append_butlast_last_id list.simps(15) rotate1.simps(2) set_rotate1)
  ultimately have le: "\<forall>i \<in> set (ss_items st). item_turn i \<le> ?l" by auto
  show ?thesis
  proof (cases "?l = - 1")
    case True
    then have "unat ?l = 2 ^ 64 - 1" by (simp add: unsigned_minus_1_eq_mask mask_eq_exp_minus_1)
    with True False show ?thesis by (simp add: next_turn_def last_opt_def)
  next
    case ne: False
    have "unat (?l + 1) = Suc (unat ?l)" using ne by (rule unat_plus_1)
    then have "x < ?l + 1" if "x \<le> ?l" for x
      using that by (simp add: word_less_nat_alt word_le_nat_alt)
    with ne False le show ?thesis by (simp add: next_turn_def last_opt_def list_all_iff)
  qed
qed

text \<open>
  C23: a torn append is not repaired. When a commit fails after \<open>k\<close> bytes of its line and the next
  one succeeds, the log file holds the two run together on one line; unless that text happens to
  parse, the session can no longer be read, although the second commit was reported as done.
\<close>

theorem torn_append_corrupts_log:
  assumes "file_in_step S st" and "list_all (item_codec S) (ss_items st)" and "version \<noteq> 1"
    and "enc_item S (next_item io1 st d1) = Some line1"
    and "is_ok (validate_draft d1 (ss_items st))" and "ci_append io1 = WriteFailed k"
    and "snd (commit_item S io1 st d1) = st1"
    and "commit_item S io2 st1 d2 = (Inr item2, st2)" and "enc_item S item2 = Some line2"
    and "newline \<notin> set (take k line1 @ line2)" and "strip_cr (take k line1 @ line2) = take k line1 @ line2"
    and "\<not> is_blank (take k line1 @ line2)" and "parse_json S (take k line1 @ line2) = None"
  shows "ss_items st2 = ss_items st @ [item2]
    \<and> fs_log (ss_store st2) = log_bytes S (ss_items st) @ take k line1 @ line2 @ [newline]
    \<and> \<not> is_ok (read_items S (ss_store st2) version)"
proof -
  have st1: "st1 = st\<lparr>ss_store := (ss_store st)\<lparr>fs_log := fs_log (ss_store st) @ take k line1\<rparr>\<rparr>"
    using assms(4-7) by (cases rule: commit_item_cases [of d1 st S io1])
      (auto simp: store_append_line_def)
  have i2: "ss_items st2 = ss_items st1 @ [item2]"
    and log2: "fs_log (ss_store st2) = fs_log (ss_store st1) @ line2 @ [newline]"
    using assms(8,9) by (cases rule: commit_item_cases [of d2 st1 S io2]; auto)+
  have log: "fs_log (ss_store st2) = log_bytes S (ss_items st) @ (take k line1 @ line2) @ newline # []"
    using log2 st1 assms(1) by (simp add: file_in_step_def)
  have "buf_lines ((take k line1 @ line2) @ newline # []) = [take k line1 @ line2]"
    using buf_lines_line [OF assms(10), of "[]"] assms(11) by simp
  then have "\<not> is_ok (read_lines S version n (buf_lines ((take k line1 @ line2) @ newline # [])))" for n
    using assms(12,13) by simp
  then obtain err where err: "read_lines S version (0 + length (ss_items st))
      (buf_lines ((take k line1 @ line2) @ newline # [])) = Inl err"
    unfolding not_is_ok_iff by blast
  have "list_all (\<lambda>i. enc_item S i \<noteq> None) (ss_items st)"
    using assms(1) unfolding file_in_step_def by blast
  from read_lines_codec [OF assms(2) this assms(3), of 0 "(take k line1 @ line2) @ newline # []"]
  have "\<not> is_ok (read_items S (ss_store st2) version)"
    unfolding read_items_def log err by simp
  with i2 st1 log show ?thesis by simp
qed

section \<open>A session of one prompt\<close>

definition demo_lib :: name_lib where
  "demo_lib = \<lparr>is_uuid = (\<lambda>s. s \<noteq> []), is_date = (\<lambda>_. True)\<rparr>"

definition demo_header :: session_header where
  "demo_header = \<lparr>sh_version = 2, sh_session_id = ''s'', sh_cwd = ''/'', sh_parent = None, sh_seed_len = 0\<rparr>"

definition demo_item :: session_item where
  "demo_item = ItUser \<lparr>ib_id = ''a'', ib_seq = 0, ib_session_id = ''s'', ib_turn = 0, ib_at = ''t''\<rparr> ''hi''"

definition demo_serde :: serde where
  "demo_serde = \<lparr>enc_item = (\<lambda>_. Some ''{}''), parse_json = (\<lambda>s. if s = ''{}'' then Some JNull else None),
     dec_item = (\<lambda>_. Some demo_item), enc_header = (\<lambda>_. Some ''h''), dec_header = (\<lambda>_. Some demo_header)\<rparr>"

definition demo_io :: "string \<Rightarrow> append_outcome \<Rightarrow> commit_io" where
  "demo_io i out = \<lparr>ci_id = i, ci_at = ''t'', ci_append = out\<rparr>"

definition demo_start :: session_store where
  "demo_start = \<lparr>ss_header = demo_header, ss_items = [], ss_next_seq = 0,
     ss_store = \<lparr>fs_session_id = ''s'', fs_meta = ''h'', fs_log = []\<rparr>\<rparr>"

definition demo_store :: session_store where
  "demo_store = \<lparr>ss_header = demo_header, ss_items = [demo_item], ss_next_seq = 1,
     ss_store = \<lparr>fs_session_id = ''s'', fs_meta = ''h'', fs_log = ''{}'' @ [newline]\<rparr>\<rparr>"

definition demo_dir :: sessions_dir where
  "demo_dir = \<lparr>sd_list = Entries [Entry (Some ''d'')],
     sd_nodes = [(''d'', TopDir \<lparr>pt_list = Entries [],
       pt_nodes = [(''s.meta.json'', File \<lparr>fn_content = ''h'', fn_mtime = None\<rparr>),
                   (''s.log.jsonl'', File \<lparr>fn_content = ''{}'' @ [newline], fn_mtime = None\<rparr>)]\<rparr>)]\<rparr>"

lemmas demo_defs = demo_lib_def demo_header_def demo_item_def demo_serde_def demo_io_def
  demo_start_def demo_store_def demo_dir_def

lemma demo_start_reachable: "reachable demo_serde demo_lib True demo_start"
  by (rule reachable.created [of _ _ CreateOk "''s''" "''/''"])
    (simp add: demo_defs store_create_def file_store_create_def validate_session_id_def
      session_header_version_def Let_def)

lemma demo_commit: "commit_event demo_serde (demo_io ''a'' AppendOk) demo_start (UserPromptCommitted 0 ''hi'')
    = (Inr (Some ''a''), demo_store)"
  by (simp add: demo_defs commit_event_def commit_from_event_def commit_item_def validate_draft_def
      Let_def store_append_line_def)

lemma demo_store_reachable: "reachable demo_serde demo_lib True demo_store"
  using reachable.committed [OF demo_start_reachable, of "demo_io ''a'' AppendOk" "UserPromptCommitted 0 ''hi''"]
    demo_commit by (simp add: demo_io_def)

theorem reachable_store_ok_witness: "log_ok ''s'' [demo_item]"
  using reachable_store_ok [OF demo_store_reachable] by (simp add: demo_store_def demo_header_def)

theorem load_restores_session_witness: "store_load demo_serde demo_lib demo_dir ''s'' = Inr demo_store"
proof (rule load_restores_session [OF demo_store_reachable])
  show "header_codec demo_serde (ss_header demo_store)" by code_simp
  show "list_all (item_codec demo_serde) (ss_items demo_store)" by code_simp
  show "file_store_open demo_lib demo_dir ''s'' = Inr (ss_store demo_store)" by code_simp
qed

theorem next_turn_fresh_witness: "next_turn demo_store = Inr 1 \<and> item_turn demo_item < 1"
proof -
  have "next_turn demo_store = Inr 1" by code_simp
  with next_turn_fresh [OF demo_store_reachable] show ?thesis by (simp add: demo_store_def)
qed

theorem fork_is_renumbered_prefix_witness:
  "\<exists>st' f. store_fork demo_serde demo_lib CreateOk (\<lambda>_. AppendOk) ''t'' demo_store ''a'' = (Inr st', f)
     \<and> sh_parent (ss_header st') = Some ''s'' \<and> length (ss_items st') = 1"
proof -
  obtain st' f where f: "store_fork demo_serde demo_lib CreateOk (\<lambda>_. AppendOk) ''t'' demo_store ''a'' = (Inr st', f)"
    by (simp add: demo_defs store_fork_def validate_fork_boundary_def file_store_create_def
        validate_session_id_def Let_def store_append_line_def)
  obtain kept rest where "ss_items demo_store = kept @ rest" "kept \<noteq> []"
    "ss_items st' = map (\<lambda>(n, s). forked_item ''t'' n s) (enumerate 0 kept)"
    "sh_parent (ss_header st') = Some (sh_session_id (ss_header demo_store))"
    using fork_is_renumbered_prefix [OF demo_store_reachable f] by blast
  with f show ?thesis
    by (intro exI [of _ st'] exI [of _ f]) (auto simp: demo_store_def demo_header_def Cons_eq_append_conv)
qed

text \<open>A prompt torn after its first byte, sent again: the log reads \<open>{{}\<close>.\<close>

theorem torn_append_corrupts_log_witness:
  "let st1 = snd (commit_item demo_serde (demo_io ''a'' (WriteFailed 1)) demo_start (DrUser 0 ''hi''));
       st2 = snd (commit_item demo_serde (demo_io ''a'' AppendOk) st1 (DrUser 0 ''hi'')) in
   ss_items st2 = [demo_item] \<and> \<not> is_ok (read_items demo_serde (ss_store st2) 2)"
proof -
  let ?st1 = "demo_start\<lparr>ss_store := (ss_store demo_start)\<lparr>fs_log := ''{''\<rparr>\<rparr>"
  let ?st2 = "demo_store\<lparr>ss_store := (ss_store demo_store)\<lparr>fs_log := ''{{}'' @ [newline]\<rparr>\<rparr>"
  have 1: "snd (commit_item demo_serde (demo_io ''a'' (WriteFailed 1)) demo_start (DrUser 0 ''hi'')) = ?st1"
    by (simp add: demo_defs commit_item_def validate_draft_def Let_def store_append_line_def)
  have 2: "commit_item demo_serde (demo_io ''a'' AppendOk) ?st1 (DrUser 0 ''hi'') = (Inr demo_item, ?st2)"
    by (simp add: demo_defs commit_item_def validate_draft_def Let_def store_append_line_def)
  have "ss_items ?st2 = ss_items demo_start @ [demo_item]
      \<and> fs_log (ss_store ?st2) = log_bytes demo_serde (ss_items demo_start) @ take 1 ''{}'' @ ''{}'' @ [newline]
      \<and> \<not> is_ok (read_items demo_serde (ss_store ?st2) 2)"
  proof (rule torn_append_corrupts_log [OF _ _ _ _ _ _ 1 2])
    show "file_in_step demo_serde demo_start" by code_simp
    show "list_all (item_codec demo_serde) (ss_items demo_start)" by code_simp
    show "is_ok (validate_draft (DrUser 0 ''hi'') (ss_items demo_start))" by code_simp
    show "newline \<notin> set (take 1 ''{}'' @ ''{}'')" by code_simp
    show "strip_cr (take 1 ''{}'' @ ''{}'') = take 1 ''{}'' @ ''{}''" by code_simp
    show "\<not> is_blank (take 1 ''{}'' @ ''{}'')" by code_simp
  qed (simp_all add: demo_serde_def demo_io_def)
  with 1 2 show ?thesis by (simp add: Let_def demo_start_def)
qed

end
