(* ===== verification/Session_Query.thy ===== *)
theory Session_Query
  imports Session_Store
begin

text \<open>
  \<open>agent-core/src/session/query.rs\<close>: the read-only view of the persisted sessions, and the
  paging of a log backwards by whole turns.
\<close>

section \<open>Views\<close>

record session_summary =
  sy_session_id :: string
  sy_cwd :: string
  sy_last_turn :: "u64 option"
  sy_item_count :: nat

record session_snapshot =
  sp_summary :: session_summary
  sp_items :: "session_item list"

record turn_page =
  tp_summary :: session_summary
  tp_items :: "session_item list"
  tp_oldest_turn :: "u64 option"
  tp_has_older :: bool

definition summary :: "session_header \<Rightarrow> session_item list \<Rightarrow> session_summary" where
  "summary header items =
     \<lparr>sy_session_id = sh_session_id header, sy_cwd = sh_cwd header,
      sy_last_turn = map_option item_turn (last_opt items), sy_item_count = length items\<rparr>"

definition query_load :: "serde \<Rightarrow> name_lib \<Rightarrow> sessions_dir \<Rightarrow> string \<Rightarrow> session_error + session_snapshot" where
  "query_load S L sd sid =
     (case store_load S L sd sid of
        Inl e \<Rightarrow> Inl e
      | Inr st \<Rightarrow>
          Inr \<lparr>sp_summary = summary (ss_header st) (ss_items st), sp_items = ss_items st\<rparr>)"

definition map_with ::
  "name_lib \<Rightarrow> sessions_dir \<Rightarrow> (string \<Rightarrow> session_error + session_snapshot) \<Rightarrow>
   (session_snapshot \<Rightarrow> 'a) \<Rightarrow> session_error + 'a list" where
  "map_with L sd load project =
     (case session_ids L sd of
        Inl e \<Rightarrow> Inl e
      | Inr ids \<Rightarrow>
          collect_results
            (\<lambda>sid. case load sid of Inl e \<Rightarrow> Inl e | Inr snap \<Rightarrow> Inr (project snap)) ids)"

definition map_snapshots ::
  "serde \<Rightarrow> name_lib \<Rightarrow> sessions_dir \<Rightarrow> (session_snapshot \<Rightarrow> 'a) \<Rightarrow> session_error + 'a list" where
  "map_snapshots S L sd project = map_with L sd (query_load S L sd) project"

definition query_list :: "serde \<Rightarrow> name_lib \<Rightarrow> sessions_dir \<Rightarrow> session_error + session_summary list" where
  "query_list S L sd =
     (case map_snapshots S L sd sp_summary of
        Inl e \<Rightarrow> Inl e
      | Inr summaries \<Rightarrow> Inr (sort_key sy_session_id summaries))"

section \<open>Paging\<close>

definition before_cut :: "u64 option \<Rightarrow> u64 \<Rightarrow> bool" where
  "before_cut before_turn turn = (case before_turn of None \<Rightarrow> True | Some before \<Rightarrow> turn < before)"

text \<open>The loop over the items from the newest, with the turns selected so far.\<close>

fun select_turns :: "u64 option \<Rightarrow> nat \<Rightarrow> session_item list \<Rightarrow> u64 list \<Rightarrow> u64 list" where
  "select_turns before_turn limit [] selected = selected"
| "select_turns before_turn limit (item # items) selected =
     (let turn = item_turn item in
      if \<not> before_cut before_turn turn \<or> last_opt selected = Some turn
      then select_turns before_turn limit items selected
      else
        let selected' = selected @ [turn] in
        if length selected' = limit then selected'
        else select_turns before_turn limit items selected')"

definition page_of :: "session_snapshot \<Rightarrow> u64 option \<Rightarrow> nat \<Rightarrow> turn_page" where
  "page_of snap before_turn limit =
     (let selected = select_turns before_turn limit (rev (sp_items snap)) [];
          oldest = last_opt selected;
          items = (case oldest of
              None \<Rightarrow> []
            | Some o_turn \<Rightarrow>
                filter (\<lambda>item. o_turn \<le> item_turn item \<and> before_cut before_turn (item_turn item))
                  (sp_items snap));
          older = (case oldest of
              None \<Rightarrow> False
            | Some o_turn \<Rightarrow> list_ex (\<lambda>item. item_turn item < o_turn) (sp_items snap)) in
      \<lparr>tp_summary = sp_summary snap, tp_items = items, tp_oldest_turn = oldest, tp_has_older = older\<rparr>)"

definition turn_page_checked ::
  "session_snapshot \<Rightarrow> u64 option \<Rightarrow> nat \<Rightarrow> session_error + turn_page" where
  "turn_page_checked snap before_turn limit =
     (if limit = 0 then Inl ZeroPageLimit else Inr (page_of snap before_turn limit))"

definition load_turn_page ::
  "serde \<Rightarrow> name_lib \<Rightarrow> sessions_dir \<Rightarrow> string \<Rightarrow> u64 option \<Rightarrow> nat \<Rightarrow> session_error + turn_page" where
  "load_turn_page S L sd sid before_turn limit =
     (case query_load S L sd sid of
        Inl e \<Rightarrow> Inl e
      | Inr snap \<Rightarrow> turn_page_checked snap before_turn limit)"

section \<open>Which turns a page holds\<close>

fun new_turns :: "u64 option \<Rightarrow> u64 list \<Rightarrow> u64 list" where
  "new_turns l [] = []"
| "new_turns l (t # ts) = (if l = Some t then new_turns l ts else t # new_turns (Some t) ts)"

lemma new_turns_remdups: "new_turns (Some t) ts = tl (remdups_adj (t # ts))"
  by (induction ts arbitrary: t) auto

lemma new_turns_None: "new_turns None ts = remdups_adj ts"
  by (cases ts) (simp_all add: new_turns_remdups remdups_adj_Cons' remdups_adj_Cons split: list.splits)

lemma select_turns_eq:
  "length selected < limit \<Longrightarrow>
   select_turns before limit items selected =
     selected @ take (limit - length selected)
       (new_turns (last_opt selected) (filter (before_cut before) (map item_turn items)))"
proof (induction before limit items selected rule: select_turns.induct)
  case (2 before limit item items selected)
  show ?case
  proof (cases "\<not> before_cut before (item_turn item) \<or> last_opt selected = Some (item_turn item)")
    case True
    with 2 show ?thesis by auto
  next
    case False
    show ?thesis
    proof (cases "length selected + 1 = limit")
      case True
      with False show ?thesis by auto
    next
      case ne: False
      with "2.prems" have "length (selected @ [item_turn item]) < limit" by simp
      moreover have "limit - length selected = Suc (limit - Suc (length selected))"
        using "2.prems" by simp
      ultimately show ?thesis
        using "2.IH"(2) [OF refl False refl] False ne by (simp add: Let_def)
    qed
  qed
qed simp

definition eligible_turns :: "u64 option \<Rightarrow> session_item list \<Rightarrow> u64 list" where
  "eligible_turns before items = remdups_adj (filter (before_cut before) (map item_turn items))"

text \<open>The turns of a page, oldest first: the last \<open>limit\<close> turns before the cut.\<close>

definition page_turns :: "u64 option \<Rightarrow> nat \<Rightarrow> session_item list \<Rightarrow> u64 list" where
  "page_turns before limit items =
     (let ts = eligible_turns before items in drop (length ts - limit) ts)"

lemma select_turns_page:
  "0 < limit \<Longrightarrow> select_turns before limit (rev items) [] = rev (page_turns before limit items)"
  by (simp add: select_turns_eq new_turns_None page_turns_def eligible_turns_def rev_map [symmetric]
      rev_filter [symmetric] remdups_adj_rev Let_def take_rev)

lemma eligible_turns_props:
  assumes "sorted (map item_turn items)"
  shows "sorted (eligible_turns before items)" "distinct (eligible_turns before items)"
    "set (eligible_turns before items) = {t \<in> item_turn ` set items. before_cut before t}"
proof -
  have "sorted (filter (before_cut before) (map item_turn items))"
    using assms by (rule sorted_wrt_filter)
  then show "sorted (eligible_turns before items)" "distinct (eligible_turns before items)"
    by (simp_all add: eligible_turns_def sorted_remdups_adj sorted_distinct_remdups_adj)
  show "set (eligible_turns before items) = {t \<in> item_turn ` set items. before_cut before t}"
    by (auto simp: eligible_turns_def)
qed

lemma page_turns_split:
  assumes "sorted (map item_turn items)"
  obtains older where "eligible_turns before items = older @ page_turns before limit items"
    "\<forall>x \<in> set older. \<forall>y \<in> set (page_turns before limit items). x < y"
    "length older = length (eligible_turns before items) - limit"
proof
  let ?ts = "eligible_turns before items"
  show e: "?ts = take (length ?ts - limit) ?ts @ page_turns before limit items"
    by (simp add: page_turns_def Let_def)
  have "sorted (take (length ?ts - limit) ?ts @ page_turns before limit items)"
    "distinct (take (length ?ts - limit) ?ts @ page_turns before limit items)"
    unfolding e [symmetric] by (rule eligible_turns_props [OF assms])+
  then show "\<forall>x \<in> set (take (length ?ts - limit) ?ts). \<forall>y \<in> set (page_turns before limit items). x < y"
    unfolding sorted_append distinct_append by (auto simp: order_less_le)
qed simp

lemma in_page_turns:
  assumes s: "sorted (map item_turn items)" and ne: "page_turns before limit items \<noteq> []"
    and "i \<in> set items"
  shows "item_turn i \<in> set (page_turns before limit items) \<longleftrightarrow>
    hd (page_turns before limit items) \<le> item_turn i \<and> before_cut before (item_turn i)"
proof -
  let ?p = "page_turns before limit items"
  obtain older where o: "eligible_turns before items = older @ ?p"
    "\<forall>x \<in> set older. \<forall>y \<in> set ?p. x < y"
    by (rule page_turns_split [OF s, of before limit])
  have hd: "hd ?p \<in> set ?p" using ne by simp
  have set: "set older \<union> set ?p = {t \<in> item_turn ` set items. before_cut before t}"
    using eligible_turns_props(3) [OF s, of before] o(1) by simp
  have "sorted ?p" using eligible_turns_props(1) [OF s, of before] unfolding o(1) sorted_append by blast
  with ne have min: "\<forall>y \<in> set ?p. hd ?p \<le> y" by (cases ?p) auto
  show ?thesis
  proof
    assume "item_turn i \<in> set ?p"
    moreover from this have "item_turn i \<in> {t \<in> item_turn ` set items. before_cut before t}"
      unfolding set [symmetric] by simp
    ultimately show "hd ?p \<le> item_turn i \<and> before_cut before (item_turn i)" using min by simp
  next
    assume i: "hd ?p \<le> item_turn i \<and> before_cut before (item_turn i)"
    then have "item_turn i \<in> set older \<union> set ?p" using assms(3) unfolding set by simp
    moreover have "\<not> hd ?p \<le> item_turn i" if "item_turn i \<in> set older"
      using o(2) hd that by (auto simp: not_le)
    ultimately show "item_turn i \<in> set ?p" using i by blast
  qed
qed

lemma page_of_eq:
  assumes s: "sorted (map item_turn (sp_items snap))" and "0 < limit"
  shows "tp_oldest_turn (page_of snap before limit) =
      (case page_turns before limit (sp_items snap) of [] \<Rightarrow> None | t # _ \<Rightarrow> Some t)"
    and "tp_items (page_of snap before limit) =
      filter (\<lambda>i. item_turn i \<in> set (page_turns before limit (sp_items snap))) (sp_items snap)"
    and "tp_has_older (page_of snap before limit) \<longleftrightarrow>
      limit < length (eligible_turns before (sp_items snap))"
proof -
  let ?p = "page_turns before limit (sp_items snap)"
  have sel: "select_turns before limit (rev (sp_items snap)) [] = rev ?p"
    using assms(2) by (rule select_turns_page)
  show old: "tp_oldest_turn (page_of snap before limit) = (case ?p of [] \<Rightarrow> None | t # _ \<Rightarrow> Some t)"
    by (simp add: page_of_def Let_def sel split: list.split)
  obtain older where o: "eligible_turns before (sp_items snap) = older @ ?p"
    "\<forall>x \<in> set older. \<forall>y \<in> set ?p. x < y"
    "length older = length (eligible_turns before (sp_items snap)) - limit"
    using page_turns_split [OF s] by blast
  show "tp_items (page_of snap before limit) = filter (\<lambda>i. item_turn i \<in> set ?p) (sp_items snap)"
  proof (cases "?p = []")
    case True
    then show ?thesis by (simp add: page_of_def Let_def sel)
  next
    case False
    then have "tp_items (page_of snap before limit) =
        filter (\<lambda>i. hd ?p \<le> item_turn i \<and> before_cut before (item_turn i)) (sp_items snap)"
      by (cases ?p) (simp_all add: page_of_def Let_def sel)
    also have "\<dots> = filter (\<lambda>i. item_turn i \<in> set ?p) (sp_items snap)"
      by (rule filter_cong [OF refl]) (simp only: in_page_turns [OF s False])
    finally show ?thesis .
  qed
  show "tp_has_older (page_of snap before limit) \<longleftrightarrow> limit < length (eligible_turns before (sp_items snap))"
  proof (cases "?p = []")
    case True
    then have "length (eligible_turns before (sp_items snap)) = 0"
      using o(1,3) assms(2) by (cases "length (eligible_turns before (sp_items snap))") auto
    with True show ?thesis by (simp add: page_of_def Let_def sel)
  next
    case False
    have set: "set older \<union> set ?p = {t \<in> item_turn ` set (sp_items snap). before_cut before t}"
      using eligible_turns_props(3) [OF s, of before] o(1) by simp
    have hd: "hd ?p \<in> set ?p" using False by simp
    have older: "older \<noteq> [] \<longleftrightarrow> (\<exists>i \<in> set (sp_items snap). item_turn i < hd ?p)"
    proof
      assume "older \<noteq> []"
      then obtain x where x: "x \<in> set older" by (cases older) auto
      with o(2) hd have "x < hd ?p" by blast
      moreover have "x \<in> {t \<in> item_turn ` set (sp_items snap). before_cut before t}"
        unfolding set [symmetric] using x by simp
      ultimately show "\<exists>i \<in> set (sp_items snap). item_turn i < hd ?p" by auto
    next
      assume "\<exists>i \<in> set (sp_items snap). item_turn i < hd ?p"
      then obtain i where i: "i \<in> set (sp_items snap)" "item_turn i < hd ?p" by blast
      have "hd ?p \<in> {t \<in> item_turn ` set (sp_items snap). before_cut before t}"
        unfolding set [symmetric] using hd by simp
      then have "before_cut before (hd ?p)" by simp
      with i(2) have "before_cut before (item_turn i)"
        by (auto simp: before_cut_def split: option.splits)
      with i(1) have "item_turn i \<in> set older \<union> set ?p" unfolding set by simp
      moreover have "item_turn i \<notin> set ?p" using in_page_turns [OF s False i(1)] i(2) by auto
      ultimately show "older \<noteq> []" by auto
    qed
    have "tp_has_older (page_of snap before limit) \<longleftrightarrow> (\<exists>i \<in> set (sp_items snap). item_turn i < hd ?p)"
      using False by (cases ?p) (simp_all add: page_of_def Let_def sel list_ex_iff)
    also have "\<dots> \<longleftrightarrow> length older \<noteq> 0" using older by simp
    finally show ?thesis unfolding o(3) by auto
  qed
qed

text \<open>The client's walk back through a log: the next page is cut at the oldest turn of this one.\<close>

fun page_walk :: "nat \<Rightarrow> session_snapshot \<Rightarrow> u64 option \<Rightarrow> nat \<Rightarrow> turn_page list" where
  "page_walk 0 snap before limit = []"
| "page_walk (Suc n) snap before limit =
     (let p = page_of snap before limit in
      p # (if tp_has_older p then page_walk n snap (tp_oldest_turn p) limit else []))"

lemma sorted_filter_split:
  assumes "sorted (map f xs)" and "a \<le> b"
  shows "filter (\<lambda>i. f i < b) xs = filter (\<lambda>i. f i < a) xs @ filter (\<lambda>i. a \<le> f i \<and> f i < b) xs"
  using assms
proof (induction xs)
  case (Cons x xs)
  show ?case
  proof (cases "f x < a")
    case True
    with Cons show ?thesis by auto
  next
    case False
    with Cons.prems have "\<forall>y \<in> set xs. a \<le> f y" by auto
    then have "filter (\<lambda>i. f i < a) xs = []" by (auto simp: filter_empty_conv)
    with False Cons show ?thesis by auto
  qed
qed simp

lemma sorted_split_at:
  assumes "sorted (map f xs)"
  shows "xs = filter (\<lambda>i. f i < a) xs @ filter (\<lambda>i. a \<le> f i) xs"
  using assms
proof (induction xs)
  case (Cons x xs)
  show ?case
  proof (cases "f x < a")
    case True
    with Cons show ?thesis by auto
  next
    case False
    with Cons.prems have "\<forall>y \<in> set xs. a \<le> f y" by auto
    then have "filter (\<lambda>i. f i < a) xs = []" "filter (\<lambda>i. a \<le> f i) xs = xs"
      by (auto simp: filter_empty_conv)
    with False show ?thesis by simp
  qed
qed simp

lemma page_split:
  assumes s: "sorted (map item_turn (sp_items snap))" and "0 < limit"
    and o_turn: "tp_oldest_turn (page_of snap before limit) = Some t"
  shows "filter (\<lambda>i. before_cut before (item_turn i)) (sp_items snap) =
    filter (\<lambda>i. before_cut (Some t) (item_turn i)) (sp_items snap) @ tp_items (page_of snap before limit)"
    and "before_cut before t"
proof -
  let ?p = "page_turns before limit (sp_items snap)"
  from o_turn page_of_eq(1) [OF assms(1,2), of before] have p: "?p \<noteq> []" "hd ?p = t"
    by (cases ?p; simp)+
  have "set ?p \<subseteq> set (eligible_turns before (sp_items snap))"
    by (simp add: page_turns_def Let_def set_drop_subset)
  with p show cut: "before_cut before t"
    unfolding eligible_turns_props(3) [OF s] by (metis (no_types, lifting) list.set_sel(1) mem_Collect_eq subsetD)
  have items: "tp_items (page_of snap before limit) =
      filter (\<lambda>i. t \<le> item_turn i \<and> before_cut before (item_turn i)) (sp_items snap)"
    unfolding page_of_eq(2) [OF assms(1,2)]
    by (rule filter_cong [OF refl]) (simp only: in_page_turns [OF s p(1)] p(2))
  show "filter (\<lambda>i. before_cut before (item_turn i)) (sp_items snap) =
    filter (\<lambda>i. before_cut (Some t) (item_turn i)) (sp_items snap) @ tp_items (page_of snap before limit)"
  proof (cases before)
    case None
    with items sorted_split_at [OF s, of t] show ?thesis by (simp add: before_cut_def)
  next
    case (Some b)
    with cut have "t \<le> b" by (simp add: before_cut_def)
    with Some items sorted_filter_split [OF s] show ?thesis by (simp add: before_cut_def)
  qed
qed

lemma fewer_older_turns:
  assumes s: "sorted (map item_turn (sp_items snap))" and "0 < limit"
    and o_turn: "tp_oldest_turn (page_of snap before limit) = Some t"
  shows "card {u \<in> item_turn ` set (sp_items snap). before_cut (Some t) u}
    < card {u \<in> item_turn ` set (sp_items snap). before_cut before u}"
proof (rule psubset_card_mono)
  let ?p = "page_turns before limit (sp_items snap)"
  have "t \<in> set ?p" using o_turn page_of_eq(1) [OF assms(1,2), of before] by (cases ?p) auto
  then have "t \<in> set (eligible_turns before (sp_items snap))"
    by (auto simp: page_turns_def Let_def dest: in_set_dropD)
  then have "t \<in> {u \<in> item_turn ` set (sp_items snap). before_cut before u}"
    unfolding eligible_turns_props(3) [OF s] .
  then show "{u \<in> item_turn ` set (sp_items snap). before_cut (Some t) u}
      \<subset> {u \<in> item_turn ` set (sp_items snap). before_cut before u}"
    by (auto simp: before_cut_def split: option.splits)
qed simp

lemma page_walk_items:
  assumes s: "sorted (map item_turn (sp_items snap))" and l: "0 < limit"
  shows "card {u \<in> item_turn ` set (sp_items snap). before_cut before u} < n \<Longrightarrow>
    concat (rev (map tp_items (page_walk n snap before limit))) =
      filter (\<lambda>i. before_cut before (item_turn i)) (sp_items snap)"
proof (induction n arbitrary: before)
  case (Suc n)
  let ?page = "page_of snap before limit"
  let ?p = "page_turns before limit (sp_items snap)"
  show ?case
  proof (cases "tp_oldest_turn ?page")
    case None
    then have "?p = []" using page_of_eq(1) [OF s l, of before] by (cases ?p) auto
    then have "eligible_turns before (sp_items snap) = []"
      using l by (cases "length (eligible_turns before (sp_items snap))") (auto simp: page_turns_def Let_def)
    then have none: "{u \<in> item_turn ` set (sp_items snap). before_cut before u} = {}"
      unfolding eligible_turns_props(3) [OF s, symmetric] by simp
    then have "filter (\<lambda>i. before_cut before (item_turn i)) (sp_items snap) = []"
      by (auto simp: filter_empty_conv)
    with None show ?thesis by (simp add: page_of_def Let_def)
  next
    case (Some t)
    note split = page_split [OF s l Some]
    show ?thesis
    proof (cases "tp_has_older ?page")
      case True
      have "card {u \<in> item_turn ` set (sp_items snap). before_cut (Some t) u} < n"
        using fewer_older_turns [OF s l Some] Suc.prems by linarith
      from Suc.IH [OF this] True Some split(1) show ?thesis by (simp add: Let_def)
    next
      case False
      then have "filter (\<lambda>i. before_cut (Some t) (item_turn i)) (sp_items snap) = []"
        using Some by (auto simp: page_of_def Let_def before_cut_def filter_empty_conv list_ex_iff
            split: option.splits)
      with False split(1) show ?thesis by (simp add: Let_def)
    qed
  qed
qed simp

lemma query_load_sorted:
  assumes "query_load S L sd sid = Inr snap"
  shows "sorted (map item_turn (sp_items snap))"
proof -
  from assms obtain st where st: "store_load S L sd sid = Inr st" "sp_items snap = ss_items st"
    by (auto simp: query_load_def split: sum.splits)
  from store_load_ok [OF st(1)] st(2) show ?thesis by (simp add: store_ok_def log_ok_def)
qed

lemma query_load_id:
  assumes "query_load S L sd sid = Inr snap"
  shows "sy_session_id (sp_summary snap) = sid"
proof -
  from assms obtain st where st: "store_load S L sd sid = Inr st"
    "sp_summary snap = summary (ss_header st) (ss_items st)"
    by (auto simp: query_load_def split: sum.splits)
  from st(1) obtain fs where "file_store_open L sd sid = Inr fs" "read_header S fs = Inr (ss_header st)"
    by (auto simp: store_load_def split: sum.splits)
  then have "sh_session_id (ss_header st) = sid"
    by (auto simp: file_store_open_def read_header_def split: sum.splits if_splits option.splits)
  with st(2) show ?thesis by (simp add: summary_def)
qed

section \<open>Properties\<close>

text \<open>
  a page holds the newest \<open>limit\<close> turns before the cut, each of them whole, in log order;
  \<open>oldest_turn\<close> is the first of them and \<open>has_older\<close> says exactly whether a turn is left.
\<close>

theorem page_holds_newest_turns:
  assumes "query_load S L sd sid = Inr snap" and "0 < limit"
  shows "(let p = page_of snap before limit; ts = eligible_turns before (sp_items snap);
        newest = drop (length ts - limit) ts in
      sorted ts \<and> distinct ts \<and> set ts = {t \<in> item_turn ` set (sp_items snap). before_cut before t}
      \<and> tp_items p = filter (\<lambda>i. item_turn i \<in> set newest) (sp_items snap)
      \<and> tp_oldest_turn p = (case newest of [] \<Rightarrow> None | t # _ \<Rightarrow> Some t)
      \<and> tp_has_older p = (limit < length ts))"
  using page_of_eq [OF query_load_sorted [OF assms(1)] assms(2), of before]
    eligible_turns_props [OF query_load_sorted [OF assms(1)], of before]
  by (simp add: Let_def page_turns_def)

text \<open>
  C24: paging loses and repeats nothing. Walking back from the newest page, each cut at the
  oldest turn of the one before, ends after as many pages as there are items at most, and the
  pages put together are the whole log.
\<close>

theorem pages_partition_log:
  assumes "query_load S L sd sid = Inr snap" and "0 < limit"
  shows "concat (rev (map tp_items (page_walk (Suc (length (sp_items snap))) snap None limit))) = sp_items snap"
proof -
  have "card (item_turn ` set (sp_items snap)) \<le> length (sp_items snap)"
    by (metis card_length length_map set_map)
  then have "card {u \<in> item_turn ` set (sp_items snap). before_cut None u} < Suc (length (sp_items snap))"
    by (simp add: before_cut_def)
  from page_walk_items [OF query_load_sorted [OF assms(1)] assms(2) this] show ?thesis
    by (simp add: before_cut_def)
qed

text \<open>
  The list of sessions names every session once: its summaries are those of the ids the
  scan found, in their sorted order, each from the file of that id.
\<close>

theorem query_list_ids:
  assumes "query_list S L sd = Inr summaries"
  shows "session_ids L sd = Inr (map sy_session_id summaries)"
proof -
  from assms obtain raw where m: "map_snapshots S L sd sp_summary = Inr raw"
    "summaries = sort_key sy_session_id raw"
    by (auto simp: query_list_def split: sum.splits)
  from m(1) obtain ids where ids: "session_ids L sd = Inr ids"
    "collect_results (\<lambda>sid. case query_load S L sd sid of Inl e \<Rightarrow> Inl e | Inr snap \<Rightarrow> Inr (sp_summary snap)) ids = Inr raw"
    by (auto simp: map_snapshots_def map_with_def split: sum.splits)
  from ids(2) have "map sy_session_id raw = ids"
  proof (induction ids arbitrary: raw)
    case (Cons a ids)
    then show ?case by (auto dest: query_load_id split: sum.splits)
  qed simp
  moreover have "sorted ids" using ids(1)
    by (auto simp: session_ids_def sorted_remdups_adj split: listing.splits sum.splits)
  ultimately show ?thesis using ids(1) m(2) by (metis sort_key_id_if_sorted)
qed

section \<open>A log of three turns\<close>

definition turn_item :: "nat \<Rightarrow> u64 \<Rightarrow> session_item" where
  "turn_item n turn = ItUser \<lparr>ib_id = ''i'', ib_seq = word_of_nat n, ib_session_id = ''s'', ib_turn = turn,
     ib_at = ''t''\<rparr> ''hi''"

definition turns_serde :: serde where
  "turns_serde = demo_serde\<lparr>enc_item := (\<lambda>i. Some ''{}''),
     parse_json := (\<lambda>s. if s = ''a'' then Some (JStr ''a'') else if s = ''b'' then Some (JStr ''b'') else Some JNull),
     dec_item := (\<lambda>v. Some (if v = JStr ''a'' then turn_item 0 0 else if v = JStr ''b'' then turn_item 1 4 else turn_item 2 4))\<rparr>"

definition turns_dir :: sessions_dir where
  "turns_dir = \<lparr>sd_list = Entries [Entry (Some ''d'')],
     sd_nodes = [(''d'', TopDir \<lparr>pt_list = Entries [Entry (Some ''s.meta.json'')],
       pt_nodes = [(''s.meta.json'', File \<lparr>fn_content = ''h'', fn_mtime = None\<rparr>),
                   (''s.log.jsonl'', File \<lparr>fn_content = ''a'' @ [newline] @ ''b'' @ [newline] @ ''c'', fn_mtime = None\<rparr>)]\<rparr>)]\<rparr>"

definition turns_snapshot :: session_snapshot where
  "turns_snapshot = (let items = [turn_item 0 0, turn_item 1 4, turn_item 2 4] in
     \<lparr>sp_summary = summary demo_header items, sp_items = items\<rparr>)"

lemma turns_load: "query_load turns_serde demo_lib turns_dir ''s'' = Inr turns_snapshot"
  by code_simp

theorem page_holds_newest_turns_witness:
  "page_of turns_snapshot None 1 = \<lparr>tp_summary = sp_summary turns_snapshot,
     tp_items = [turn_item 1 4, turn_item 2 4], tp_oldest_turn = Some 4, tp_has_older = True\<rparr>
   \<and> tp_has_older (page_of turns_snapshot None 1) = (1 < length (eligible_turns None (sp_items turns_snapshot)))"
proof -
  have "page_of turns_snapshot None 1 = \<lparr>tp_summary = sp_summary turns_snapshot,
     tp_items = [turn_item 1 4, turn_item 2 4], tp_oldest_turn = Some 4, tp_has_older = True\<rparr>"
    by code_simp
  with page_holds_newest_turns [OF turns_load, of 1 None] show ?thesis by (simp add: Let_def)
qed

theorem pages_partition_log_witness:
  "length (page_walk 4 turns_snapshot None 1) = 2
   \<and> concat (rev (map tp_items (page_walk 4 turns_snapshot None 1))) = sp_items turns_snapshot"
proof -
  have "length (page_walk 4 turns_snapshot None 1) = 2" by code_simp
  moreover have "Suc (length (sp_items turns_snapshot)) = 4" by (simp add: turns_snapshot_def Let_def)
  ultimately show ?thesis using pages_partition_log [OF turns_load, of 1] by simp
qed

theorem query_list_ids_witness:
  "session_ids demo_lib turns_dir = Inr [''s''] \<and> is_ok (query_list turns_serde demo_lib turns_dir)"
proof -
  have l: "query_list turns_serde demo_lib turns_dir = Inr [sp_summary turns_snapshot]" by code_simp
  from query_list_ids [OF l] l show ?thesis
    by (simp add: turns_snapshot_def summary_def demo_header_def Let_def)
qed

end
