(* ===== verification/Ordered_Map.thy ===== *)
theory Ordered_Map
  imports Prelude "HOL-Library.Multiset"
begin

text \<open>
  The ordered maps of the Rust standard library (\<open>BTreeMap\<close>, and \<open>BTreeSet\<close> as a map to
  \<open>unit\<close>) as association lists with strictly increasing keys, so that iteration visits the
  keys in order as the code's loops do. The interface the components rely on is the locale
  \<open>ordered_map\<close>; its lemmas reach the components through the interpretation \<open>bt\<close> on the
  model's own operations.
\<close>

section \<open>The interface\<close>

locale ordered_map =
  fixes empty :: "'m"
    and insert :: "'k \<Rightarrow> 'v \<Rightarrow> 'm \<Rightarrow> 'm"
    and remove :: "'k \<Rightarrow> 'm \<Rightarrow> 'm"
    and get :: "'m \<Rightarrow> 'k \<Rightarrow> 'v option"
    and is_empty :: "'m \<Rightarrow> bool"
    and inv :: "'m \<Rightarrow> bool"
  assumes get_empty: "get empty = Map.empty"
    and get_insert: "inv m \<Longrightarrow> get (insert k v m) = (get m)(k \<mapsto> v)"
    and get_remove: "inv m \<Longrightarrow> get (remove k m) = (get m)(k := None)"
    and is_empty_iff: "inv m \<Longrightarrow> is_empty m \<longleftrightarrow> get m = Map.empty"
    and inv_empty: "inv empty"
    and inv_insert: "inv m \<Longrightarrow> inv (insert k v m)"
    and inv_remove: "inv m \<Longrightarrow> inv (remove k m)"
begin

lemma dom_insert: "inv m \<Longrightarrow> dom (get (insert k v m)) = Set.insert k (dom (get m))"
  by (simp add: get_insert)

lemma dom_remove: "inv m \<Longrightarrow> dom (get (remove k m)) = dom (get m) - {k}"
  by (auto simp: get_remove)

lemma insert_not_empty: "inv m \<Longrightarrow> \<not> is_empty (insert k v m)"
  by (auto simp: is_empty_iff get_insert inv_insert fun_eq_iff)

lemma empty_is_empty: "is_empty empty"
  by (simp add: is_empty_iff inv_empty get_empty)

lemma remove_insert_get:
  "inv m \<Longrightarrow> get m k = None \<Longrightarrow> get (remove k (insert k v m)) = get m"
  by (auto simp: get_remove get_insert inv_insert)

text \<open>Inserting a list of fresh, distinct keys is \<open>map_of\<close> on top of the map.\<close>

lemma get_fold_insert:
  assumes "inv m" and "distinct (List.map fst kvs)"
  shows "get (fold (\<lambda>(k, v). insert k v) kvs m) = get m ++ map_of kvs
    \<and> inv (fold (\<lambda>(k, v). insert k v) kvs m)"
  using assms
proof (induction kvs arbitrary: m)
  case Nil
  then show ?case by simp
next
  case (Cons kv kvs)
  obtain k v where kv: "kv = (k, v)" by (cases kv)
  have "get (fold (\<lambda>(k, v). insert k v) kvs (insert k v m)) = get (insert k v m) ++ map_of kvs
    \<and> inv (fold (\<lambda>(k, v). insert k v) kvs (insert k v m))"
    using Cons.prems kv by (intro Cons.IH) (auto simp: inv_insert)
  moreover have "k \<notin> dom (map_of kvs)"
    using Cons.prems(2) kv by (auto simp: dom_map_of_conv_image_fst)
  ultimately show ?case
    using Cons.prems(1) kv
    by (auto simp: get_insert fun_eq_iff map_add_def domIff split: option.splits)
qed

end

section \<open>The implementation: sorted association lists\<close>

type_synonym ('k, 'v) btree = "('k \<times> 'v) list"

fun bt_insert :: "'k::linorder \<Rightarrow> 'v \<Rightarrow> ('k, 'v) btree \<Rightarrow> ('k, 'v) btree" where
  "bt_insert k v [] = [(k, v)]"
| "bt_insert k v ((k', v') # m) =
     (if k < k' then (k, v) # (k', v') # m
      else if k = k' then (k, v) # m
      else (k', v') # bt_insert k v m)"

fun bt_remove :: "'k::linorder \<Rightarrow> ('k, 'v) btree \<Rightarrow> ('k, 'v) btree" where
  "bt_remove k [] = []"
| "bt_remove k ((k', v') # m) = (if k = k' then m else (k', v') # bt_remove k m)"

fun bt_get :: "('k, 'v) btree \<Rightarrow> 'k \<Rightarrow> 'v option" where
  "bt_get [] k = None"
| "bt_get ((k', v') # m) k = (if k = k' then Some v' else bt_get m k)"

definition bt_keys :: "('k, 'v) btree \<Rightarrow> 'k list" where
  "bt_keys m = map fst m"

definition bt_empty :: "('k, 'v) btree \<Rightarrow> bool" where
  "bt_empty m = (m = [])"

definition bt_inv :: "('k::linorder, 'v) btree \<Rightarrow> bool" where
  "bt_inv m = sorted_wrt (<) (map fst m)"

lemma bt_get_map_of: "bt_get m = map_of m"
proof
  fix k
  show "bt_get m k = map_of m k" by (induction m) auto
qed

lemma bt_inv_simps [simp]:
  "bt_inv []"
  "bt_inv ((k, v) # m) \<longleftrightarrow> (\<forall>k' \<in> fst ` set m. k < k') \<and> bt_inv m"
  by (auto simp: bt_inv_def)

lemma fst_set_bt_insert: "fst ` set (bt_insert k v m) = insert k (fst ` set m)"
  by (induction k v m rule: bt_insert.induct) auto

lemma bt_inv_insert: "bt_inv m \<Longrightarrow> bt_inv (bt_insert k v m)"
proof (induction k v m rule: bt_insert.induct)
  case (1 k v)
  then show ?case by simp
next
  case (2 k v k' v' m)
  then show ?case
    by (auto simp: fst_set_bt_insert)
qed

lemma bt_get_insert: "bt_get (bt_insert k v m) = (bt_get m)(k \<mapsto> v)"
proof
  fix j
  show "bt_get (bt_insert k v m) j = ((bt_get m)(k \<mapsto> v)) j"
    by (induction k v m rule: bt_insert.induct) auto
qed

lemma mset_bt_insert: "bt_get m k = None \<Longrightarrow> mset (bt_insert k v m) = add_mset (k, v) (mset m)"
  by (induction k v m rule: bt_insert.induct) (auto split: if_splits)

lemma mset_bt_remove: "bt_get m k = Some v \<Longrightarrow> mset m = add_mset (k, v) (mset (bt_remove k m))"
  by (induction k m rule: bt_remove.induct) (auto split: if_splits)

lemma fst_set_bt_remove: "fst ` set (bt_remove k m) \<subseteq> fst ` set m"
  by (induction k m rule: bt_remove.induct) auto

lemma bt_inv_remove: "bt_inv m \<Longrightarrow> bt_inv (bt_remove k m)"
proof (induction k m rule: bt_remove.induct)
  case (2 k k' v' m)
  then have "\<forall>j \<in> fst ` set (bt_remove k m). k' < j"
    using fst_set_bt_remove [of k m] by (auto dest!: subsetD)
  with 2 show ?case by (simp split: if_splits)
qed simp

lemma bt_get_None: "bt_get m k = None \<longleftrightarrow> k \<notin> fst ` set m"
proof (induction m)
  case Nil
  then show ?case by simp
next
  case (Cons kv m)
  then show ?case by (cases kv) (auto simp del: split_paired_Ex)
qed

lemma bt_get_remove: "bt_inv m \<Longrightarrow> bt_get (bt_remove k m) = (bt_get m)(k := None)"
proof (induction k m rule: bt_remove.induct)
  case (1 k)
  then show ?case by (auto simp: fun_eq_iff)
next
  case (2 k k' v' m)
  show ?case
  proof (cases "k = k'")
    case True
    with 2 have "bt_get m k = None" by (auto simp: bt_get_None)
    with True show ?thesis by (auto simp: fun_eq_iff)
  next
    case False
    with 2 show ?thesis by (auto simp: fun_eq_iff)
  qed
qed

interpretation bt: ordered_map "[]" bt_insert bt_remove bt_get bt_empty bt_inv
proof (unfold_locales, goal_cases)
  case 1
  then show ?case by (auto simp: fun_eq_iff)
next
  case (2 m k v)
  then show ?case by (simp add: bt_get_insert)
next
  case (3 m k)
  then show ?case by (rule bt_get_remove)
next
  case (4 m)
  then show ?case by (cases m) (auto simp: bt_empty_def fun_eq_iff)
next
  case 5
  then show ?case by simp
next
  case (6 m k v)
  then show ?case by (rule bt_inv_insert)
next
  case (7 m k)
  then show ?case by (rule bt_inv_remove)
qed

text \<open>Iteration is in strictly increasing key order.\<close>

lemma bt_keys_sorted: "bt_inv m \<Longrightarrow> sorted (bt_keys m) \<and> distinct (bt_keys m)"
  by (auto simp: bt_inv_def bt_keys_def strict_sorted_iff)

lemma bt_keys_dom: "set (bt_keys m) = dom (bt_get m)"
  by (auto simp: bt_keys_def bt_get_map_of dom_map_of_conv_image_fst)

lemmas bt_laws = bt.get_insert bt.get_remove bt.inv_insert bt.inv_remove bt.is_empty_iff
  bt.inv_empty bt.get_empty

end
