(* ===== verification/Context_Materialize.thy ===== *)
theory Context_Materialize
  imports Ordered_Map Session_Types
begin

text \<open>
  \<open>agent-core/src/context/materialize.rs\<close>: the Session Item Log turned into model messages by a
  small state machine over tool rounds. The text of a JSON result is a parameter.
\<close>

section \<open>The machine\<close>

datatype context_error =
    ItemBeforeRoundClosed string string
  | CallBeforeRoundClosed string string string
  | ResultWithoutCall string string
  | DuplicateCall string string
  | UnknownResult string
  | ResultNameMismatch string string string
  | DanglingRound string
  | CompactionUnsupported
  | ResultSerialize

type_synonym json_text = "json \<Rightarrow> string option"

type_synonym pending_calls = "(string, string) btree"

datatype phase =
    Idle
  | Calls "content_block list" pending_calls
  | Results "content_block list" pending_calls

definition pending_call_summary :: "pending_calls \<Rightarrow> string" where
  "pending_call_summary pending = join '', '' (map (\<lambda>(i, n). i @ ''/'' @ n) pending)"

fun ensure_idle :: "phase \<Rightarrow> string \<Rightarrow> context_error + unit" where
  "ensure_idle Idle kind = Inr ()"
| "ensure_idle (Calls _ pending) kind = Inl (ItemBeforeRoundClosed kind (pending_call_summary pending))"
| "ensure_idle (Results _ pending) kind = Inl (ItemBeforeRoundClosed kind (pending_call_summary pending))"

definition tool_use_block :: "tool_call \<Rightarrow> content_block" where
  "tool_use_block call = CbToolUse (call_id call) (call_name call) (call_input call)"

definition tool_result_block :: "json_text \<Rightarrow> tool_result \<Rightarrow> context_error + content_block" where
  "tool_result_block J result =
     (case res_content result of
        TcText text \<Rightarrow> Inr (CbToolResult (res_id result) (TrcText text))
      | TcJson v \<Rightarrow>
          (case J v of
             None \<Rightarrow> Inl ResultSerialize
           | Some text \<Rightarrow> Inr (CbToolResult (res_id result) (TrcText text))))"

definition add_pending_call :: "pending_calls \<Rightarrow> tool_call \<Rightarrow> context_error + pending_calls" where
  "add_pending_call pending call =
     (if bt_get pending (call_id call) \<noteq> None then Inl (DuplicateCall (call_id call) (call_name call))
      else Inr (bt_insert (call_id call) (call_name call) pending))"

definition validate_pending_result :: "pending_calls \<Rightarrow> tool_result \<Rightarrow> context_error + unit" where
  "validate_pending_result pending result =
     (case bt_get pending (res_id result) of
        None \<Rightarrow> Inl (UnknownResult (res_id result))
      | Some name \<Rightarrow>
          if name \<noteq> res_name result
          then Inl (ResultNameMismatch (res_id result) name (res_name result)) else Inr ())"

fun append_call :: "phase \<Rightarrow> tool_call \<Rightarrow> context_error + phase" where
  "append_call Idle call =
     (case add_pending_call [] call of
        Inl e \<Rightarrow> Inl e
      | Inr pending \<Rightarrow> Inr (Calls [tool_use_block call] pending))"
| "append_call (Calls blocks pending) call =
     (case add_pending_call pending call of
        Inl e \<Rightarrow> Inl e
      | Inr pending' \<Rightarrow> Inr (Calls (blocks @ [tool_use_block call]) pending'))"
| "append_call (Results _ pending) call =
     Inl (CallBeforeRoundClosed (call_id call) (call_name call) (pending_call_summary pending))"

definition user_blocks :: "content_block list \<Rightarrow> message" where
  "user_blocks blocks = \<lparr>msg_role = User, msg_content = McBlocks blocks\<rparr>"

definition assistant_blocks :: "content_block list \<Rightarrow> message" where
  "assistant_blocks blocks = \<lparr>msg_role = Assistant, msg_content = McBlocks blocks\<rparr>"

text \<open>\<open>append_result\<close>: the next phase and the messages it pushes.\<close>

fun append_result ::
  "json_text \<Rightarrow> phase \<Rightarrow> tool_result \<Rightarrow> message list \<Rightarrow> context_error + (phase \<times> message list)" where
  "append_result J Idle result messages = Inl (ResultWithoutCall (res_id result) (res_name result))"
| "append_result J (Calls blocks pending) result messages =
     (case validate_pending_result pending result of
        Inl e \<Rightarrow> Inl e
      | Inr _ \<Rightarrow>
          let messages = messages @ [assistant_blocks blocks];
              pending = bt_remove (res_id result) pending in
          case tool_result_block J result of
            Inl e \<Rightarrow> Inl e
          | Inr block \<Rightarrow>
              if bt_empty pending then Inr (Idle, messages @ [user_blocks [block]])
              else Inr (Results [block] pending, messages))"
| "append_result J (Results blocks pending) result messages =
     (case validate_pending_result pending result of
        Inl e \<Rightarrow> Inl e
      | Inr _ \<Rightarrow>
          let pending = bt_remove (res_id result) pending in
          case tool_result_block J result of
            Inl e \<Rightarrow> Inl e
          | Inr block \<Rightarrow>
              let blocks = blocks @ [block] in
              if bt_empty pending then Inr (Idle, messages @ [user_blocks blocks])
              else Inr (Results blocks pending, messages))"

fun materialize_item ::
  "json_text \<Rightarrow> phase \<Rightarrow> message list \<Rightarrow> session_item \<Rightarrow> context_error + (phase \<times> message list)" where
  "materialize_item J phase messages (ItUser _ text) =
     (case ensure_idle phase ''user message'' of
        Inl e \<Rightarrow> Inl e
      | Inr _ \<Rightarrow> Inr (phase, messages @ [\<lparr>msg_role = User, msg_content = McText text\<rparr>]))"
| "materialize_item J phase messages (ItAssistant _ blocks) =
     (case ensure_idle phase ''assistant message'' of
        Inl e \<Rightarrow> Inl e
      | Inr _ \<Rightarrow> Inr (phase, messages @ [assistant_blocks blocks]))"
| "materialize_item J phase messages (ItToolCall _ call) =
     (case append_call phase call of Inl e \<Rightarrow> Inl e | Inr phase' \<Rightarrow> Inr (phase', messages))"
| "materialize_item J phase messages (ItToolResult _ result) = append_result J phase result messages"
| "materialize_item J phase messages (ItCheckpoint _ _) = Inr (phase, messages)"
| "materialize_item J phase messages (ItCompaction _ _ _ _ _ _) = Inl CompactionUnsupported"

fun materialize_loop ::
  "json_text \<Rightarrow> phase \<Rightarrow> message list \<Rightarrow> session_item list \<Rightarrow> context_error + (phase \<times> message list)" where
  "materialize_loop J phase messages [] = Inr (phase, messages)"
| "materialize_loop J phase messages (item # items) =
     (case materialize_item J phase messages item of
        Inl e \<Rightarrow> Inl e
      | Inr (phase', messages') \<Rightarrow> materialize_loop J phase' messages' items)"

definition materialize :: "json_text \<Rightarrow> session_item list \<Rightarrow> context_error + message list" where
  "materialize J items =
     (case materialize_loop J Idle [] items of
        Inl e \<Rightarrow> Inl e
      | Inr (Idle, messages) \<Rightarrow> Inr messages
      | Inr (Calls _ pending, _) \<Rightarrow> Inl (DanglingRound (pending_call_summary pending))
      | Inr (Results _ pending, _) \<Rightarrow> Inl (DanglingRound (pending_call_summary pending)))"

section \<open>The specification\<close>

text \<open>
  A closed log and its messages. Between rounds stand user and assistant items, each a
  message of its own; a round is a run of calls with distinct ids followed by a run of
  results, one for each call under its id and name in any order, and becomes two messages.
\<close>

definition call_key :: "tool_call \<Rightarrow> string \<times> string" where
  "call_key c = (call_id c, call_name c)"

definition result_key :: "tool_result \<Rightarrow> string \<times> string" where
  "result_key r = (res_id r, res_name r)"

definition call_items :: "(item_base \<times> tool_call) list \<Rightarrow> session_item list" where
  "call_items cs = map (\<lambda>(b, c). ItToolCall b c) cs"

definition result_items :: "(item_base \<times> tool_result) list \<Rightarrow> session_item list" where
  "result_items rs = map (\<lambda>(b, r). ItToolResult b r) rs"

inductive closed_log :: "json_text \<Rightarrow> session_item list \<Rightarrow> message list \<Rightarrow> bool" for J where
  nil: "closed_log J [] []"
| user: "closed_log J items ms \<Longrightarrow>
    closed_log J (ItUser b text # items) (\<lparr>msg_role = User, msg_content = McText text\<rparr> # ms)"
| assistant: "closed_log J items ms \<Longrightarrow>
    closed_log J (ItAssistant b blocks # items) (assistant_blocks blocks # ms)"
| round: "cs \<noteq> [] \<Longrightarrow> distinct (map (\<lambda>(b, c). call_id c) cs) \<Longrightarrow>
    mset (map (\<lambda>(b, r). result_key r) rs) = mset (map (\<lambda>(b, c). call_key c) cs) \<Longrightarrow>
    list_all2 (\<lambda>(b, r) block. tool_result_block J r = Inr block) rs blocks \<Longrightarrow>
    closed_log J items ms \<Longrightarrow>
    closed_log J (call_items cs @ result_items rs @ items)
      (assistant_blocks (map (\<lambda>(b, c). tool_use_block c) cs) # user_blocks blocks # ms)"

fun is_checkpoint :: "session_item \<Rightarrow> bool" where
  "is_checkpoint (ItCheckpoint _ _) = True"
| "is_checkpoint _ = False"

section \<open>The machine follows the specification\<close>

lemma loop_append:
  "materialize_loop J p ms (xs @ ys) =
     (case materialize_loop J p ms xs of
        Inl e \<Rightarrow> Inl e | Inr (p', ms') \<Rightarrow> materialize_loop J p' ms' ys)"
  by (induction J p ms xs rule: materialize_loop.induct) (auto split: sum.split)

fun phase_inv :: "phase \<Rightarrow> bool" where
  "phase_inv Idle = True"
| "phase_inv (Calls _ pending) = bt_inv pending"
| "phase_inv (Results _ pending) = bt_inv pending"

lemma append_call_shape:
  "append_call p c = Inr p' \<Longrightarrow> phase_inv p \<Longrightarrow>
     (\<exists>bl pending. (p = Calls bl pending \<or> (p = Idle \<and> bl = [] \<and> pending = []))
        \<and> bt_get pending (call_id c) = None
        \<and> p' = Calls (bl @ [tool_use_block c]) (bt_insert (call_id c) (call_name c) pending))
     \<and> phase_inv p'"
  by (cases p) (auto simp: add_pending_call_def bt_laws split: if_splits)

lemma append_result_shape:
  "append_result J p r ms = Inr (p', ms') \<Longrightarrow> phase_inv p \<Longrightarrow>
     (\<exists>bl pending block pre.
        (p = Results bl pending \<and> pre = [] \<or> (\<exists>cbl. p = Calls cbl pending \<and> bl = [] \<and> pre = [assistant_blocks cbl]))
        \<and> bt_get pending (res_id r) = Some (res_name r) \<and> tool_result_block J r = Inr block
        \<and> (if bt_remove (res_id r) pending = [] then p' = Idle \<and> ms' = ms @ pre @ [user_blocks (bl @ [block])]
           else p' = Results (bl @ [block]) (bt_remove (res_id r) pending) \<and> ms' = ms @ pre))
     \<and> phase_inv p'"
  by (cases p) (auto simp: validate_pending_result_def Let_def bt_empty_def bt_laws
      split: if_splits option.splits sum.splits)

text \<open>What may still follow in each phase, and the messages it will give.\<close>

fun rest_ok :: "json_text \<Rightarrow> phase \<Rightarrow> session_item list \<Rightarrow> message list \<Rightarrow> bool" where
  "rest_ok J Idle items ms = closed_log J items ms"
| "rest_ok J (Calls bl pending) items ms =
     (\<exists>cs rs blocks its ms'. items = call_items cs @ result_items rs @ its
        \<and> distinct (map (\<lambda>(b, c). call_id c) cs)
        \<and> (\<forall>(b, c) \<in> set cs. bt_get pending (call_id c) = None)
        \<and> mset (map (\<lambda>(b, r). result_key r) rs) = mset pending + mset (map (\<lambda>(b, c). call_key c) cs)
        \<and> list_all2 (\<lambda>(b, r) block. tool_result_block J r = Inr block) rs blocks
        \<and> closed_log J its ms'
        \<and> ms = assistant_blocks (bl @ map (\<lambda>(b, c). tool_use_block c) cs) # user_blocks blocks # ms')"
| "rest_ok J (Results bl pending) items ms =
     (\<exists>rs blocks its ms'. items = result_items rs @ its
        \<and> mset (map (\<lambda>(b, r). result_key r) rs) = mset pending
        \<and> list_all2 (\<lambda>(b, r) block. tool_result_block J r = Inr block) rs blocks
        \<and> closed_log J its ms'
        \<and> ms = user_blocks (bl @ blocks) # ms')"

lemma rest_ok_call:
  assumes "append_call p c = Inr p'" and "phase_inv p" and "rest_ok J p' items ms"
  shows "rest_ok J p (ItToolCall b c # items) ms"
proof -
  obtain bl pending where p: "p = Calls bl pending \<or> (p = Idle \<and> bl = [] \<and> pending = [])"
    and fresh: "bt_get pending (call_id c) = None"
    and p': "p' = Calls (bl @ [tool_use_block c]) (bt_insert (call_id c) (call_name c) pending)"
    using append_call_shape [OF assms(1,2)] by blast
  have inv: "bt_inv pending" using p assms(2) by auto
  from assms(3) p' obtain cs rs blocks its ms' where
    r: "items = call_items cs @ result_items rs @ its" "distinct (map (\<lambda>(b, c). call_id c) cs)"
      "\<forall>(b, c') \<in> set cs. bt_get (bt_insert (call_id c) (call_name c) pending) (call_id c') = None"
      "mset (map (\<lambda>(b, r). result_key r) rs) =
        mset (bt_insert (call_id c) (call_name c) pending) + mset (map (\<lambda>(b, c). call_key c) cs)"
      "list_all2 (\<lambda>(b, r) block. tool_result_block J r = Inr block) rs blocks" "closed_log J its ms'"
      "ms = assistant_blocks ((bl @ [tool_use_block c]) @ map (\<lambda>(b, c). tool_use_block c) cs) # user_blocks blocks # ms'"
    by auto
  let ?cs = "(b, c) # cs"
  have new: "\<forall>(b, c') \<in> set cs. call_id c' \<noteq> call_id c \<and> bt_get pending (call_id c') = None"
    using r(3) inv by (auto simp: bt_laws split: if_splits)
  have items: "ItToolCall b c # items = call_items ?cs @ result_items rs @ its"
    using r(1) by (simp add: call_items_def)
  have d: "distinct (map (\<lambda>(b, c). call_id c) ?cs)" using r(2) new by auto
  have m: "mset (map (\<lambda>(b, r). result_key r) rs) = mset pending + mset (map (\<lambda>(b, c). call_key c) ?cs)"
    using r(4) by (simp add: mset_bt_insert [OF fresh] call_key_def)
  have ms: "ms = assistant_blocks (bl @ map (\<lambda>(b, c). tool_use_block c) ?cs) # user_blocks blocks # ms'"
    using r(7) by simp
  from p show ?thesis
  proof
    assume p: "p = Calls bl pending"
    have "\<forall>(b, c') \<in> set ?cs. bt_get pending (call_id c') = None" using new fresh by auto
    then show ?thesis unfolding p rest_ok.simps
      by (intro exI [of _ ?cs] exI [of _ rs] exI [of _ blocks] exI [of _ its] exI [of _ ms'] conjI
          items d m r(5,6) ms)
  next
    assume "p = Idle \<and> bl = [] \<and> pending = []"
    with closed_log.round [OF _ d _ r(5,6)] m ms items show ?thesis by simp
  qed
qed

lemma rest_ok_result:
  assumes "append_result J p r acc = Inr (p', acc @ new)" and "phase_inv p" and "rest_ok J p' items ms"
  shows "rest_ok J p (ItToolResult b r # items) (new @ ms)"
proof -
  obtain bl pending block pre where
    p: "p = Results bl pending \<and> pre = [] \<or> (\<exists>cbl. p = Calls cbl pending \<and> bl = [] \<and> pre = [assistant_blocks cbl])"
    and get: "bt_get pending (res_id r) = Some (res_name r)" and block: "tool_result_block J r = Inr block"
    and p': "if bt_remove (res_id r) pending = [] then p' = Idle \<and> acc @ new = acc @ pre @ [user_blocks (bl @ [block])]
           else p' = Results (bl @ [block]) (bt_remove (res_id r) pending) \<and> acc @ new = acc @ pre"
    using append_result_shape [OF assms(1,2)] by blast
  obtain rs blocks its ms' where q: "items = result_items rs @ its"
    "mset (map (\<lambda>(b, r). result_key r) rs) = mset (bt_remove (res_id r) pending)"
    "list_all2 (\<lambda>(b, r) block. tool_result_block J r = Inr block) rs blocks"
    "closed_log J its ms'" "new @ ms = pre @ user_blocks (bl @ block # blocks) # ms'"
  proof (cases "bt_remove (res_id r) pending = []")
    case True
    with p' assms(3) show thesis by (intro that [of "[]" items "[]" ms]) (auto simp: result_items_def)
  next
    case False
    with p' assms(3) show thesis using that by auto
  qed
  let ?rs = "(b, r) # rs"
  have items: "ItToolResult b r # items = result_items ?rs @ its"
    using q(1) by (simp add: result_items_def)
  have m: "mset (map (\<lambda>(b, r). result_key r) ?rs) = mset pending"
    using q(2) mset_bt_remove [OF get] by (simp add: result_key_def)
  have l: "list_all2 (\<lambda>(b, r) block. tool_result_block J r = Inr block) ?rs (block # blocks)"
    using q(3) block by simp
  from p show ?thesis
  proof
    assume "p = Results bl pending \<and> pre = []"
    with q(5) have p: "p = Results bl pending" "new @ ms = user_blocks (bl @ (block # blocks)) # ms'" by auto
    show ?thesis unfolding p(1) rest_ok.simps
      by (intro exI [of _ ?rs] exI [of _ "block # blocks"] exI [of _ its] exI [of _ ms'] conjI
          items m l q(4) p(2))
  next
    assume "\<exists>cbl. p = Calls cbl pending \<and> bl = [] \<and> pre = [assistant_blocks cbl]"
    then obtain cbl where c: "p = Calls cbl pending" "bl = []" "pre = [assistant_blocks cbl]" by blast
    have "ItToolResult b r # items = call_items [] @ result_items ?rs @ its"
      using items by (simp add: call_items_def)
    with m l q(4,5) c(2,3) show ?thesis
      unfolding c(1) rest_ok.simps
      by (intro exI [of _ "[]"] exI [of _ ?rs] exI [of _ "block # blocks"] exI [of _ its] exI [of _ ms'])
        simp
  qed
qed

lemma ensure_idle_ok: "ensure_idle p kind = Inr u \<Longrightarrow> p = Idle"
  by (cases p) auto

lemma item_messages:
  "materialize_item J p acc i = Inr (p', acc') \<Longrightarrow> \<exists>new. acc' = acc @ new"
  "materialize_item J p acc i = Inr (p', acc') \<Longrightarrow> phase_inv p \<Longrightarrow> phase_inv p'"
  by (cases i; cases p;
      auto simp: validate_pending_result_def Let_def add_pending_call_def bt_laws
        split: sum.splits option.splits if_splits)+

lemma rest_ok_item:
  assumes "materialize_item J p acc i = Inr (p', acc @ new)" and "phase_inv p"
    and "\<not> is_checkpoint i" and "rest_ok J p' items ms"
  shows "rest_ok J p (i # items) (new @ ms)"
proof (cases i)
  case (ItUser b prompt)
  with assms(1) ensure_idle_ok [of p "''user message''"] have "p = Idle" "p' = Idle"
    "new = [\<lparr>msg_role = User, msg_content = McText prompt\<rparr>]" by (auto split: sum.splits)
  with ItUser assms(4) show ?thesis by (simp add: closed_log.user)
next
  case (ItAssistant b blocks)
  with assms(1) ensure_idle_ok [of p "''assistant message''"] have "p = Idle" "p' = Idle"
    "new = [assistant_blocks blocks]" by (auto split: sum.splits)
  with ItAssistant assms(4) show ?thesis by (simp add: closed_log.assistant)
next
  case (ItToolCall b c)
  with assms(1) have c: "append_call p c = Inr p'" "new = []" by (auto split: sum.splits)
  from rest_ok_call [OF c(1) assms(2,4)] ItToolCall c(2) show ?thesis by simp
next
  case (ItToolResult b r)
  with assms(1) have "append_result J p r acc = Inr (p', acc @ new)" by simp
  from rest_ok_result [OF this assms(2,4)] ItToolResult show ?thesis by simp
qed (use assms in auto)

lemma loop_sound:
  "materialize_loop J p acc items = Inr (Idle, acc') \<Longrightarrow> phase_inv p \<Longrightarrow>
   list_all (\<lambda>i. \<not> is_checkpoint i) items \<Longrightarrow> \<exists>ms. acc' = acc @ ms \<and> rest_ok J p items ms"
proof (induction items arbitrary: p acc)
  case Nil
  then show ?case by (simp add: closed_log.nil)
next
  case (Cons i items)
  from Cons.prems(1) obtain p' acc1 where i: "materialize_item J p acc i = Inr (p', acc1)"
    and l: "materialize_loop J p' acc1 items = Inr (Idle, acc')" by (auto split: sum.splits)
  obtain new where new: "acc1 = acc @ new" using item_messages(1) [OF i] by blast
  from Cons.IH [OF l item_messages(2) [OF i Cons.prems(2)]] Cons.prems(3)
  obtain ms where "acc' = acc1 @ ms" "rest_ok J p' items ms" by auto
  with rest_ok_item [of J p acc i p' new items ms] i new Cons.prems(2,3) show ?case
    by (intro exI [of _ "new @ ms"]) simp
qed

lemma calls_run:
  assumes "distinct (map (\<lambda>(b, c). call_id c) cs)" and "bt_inv pending"
    and "\<forall>(b, c) \<in> set cs. bt_get pending (call_id c) = None"
  shows "\<exists>pending'. materialize_loop J (Calls bl pending) acc (call_items cs) =
      Inr (Calls (bl @ map (\<lambda>(b, c). tool_use_block c) cs) pending', acc)
    \<and> bt_inv pending' \<and> mset pending' = mset pending + mset (map (\<lambda>(b, c). call_key c) cs)"
  using assms
proof (induction cs arbitrary: bl pending)
  case Nil
  then show ?case by (simp add: call_items_def)
next
  case (Cons bc cs)
  obtain b c where bc: "bc = (b, c)" by (cases bc)
  let ?p = "bt_insert (call_id c) (call_name c) pending"
  have fresh: "bt_get pending (call_id c) = None" using Cons.prems(3) bc by auto
  have "\<forall>(b, c') \<in> set cs. bt_get ?p (call_id c') = None"
    using Cons.prems bc by (force simp: bt_laws)
  moreover have "bt_inv ?p" using Cons.prems(2) by (simp add: bt_laws)
  moreover have "distinct (map (\<lambda>(b, c). call_id c) cs)" using Cons.prems(1) by simp
  ultimately obtain pending' where "materialize_loop J (Calls (bl @ [tool_use_block c]) ?p) acc (call_items cs) =
      Inr (Calls ((bl @ [tool_use_block c]) @ map (\<lambda>(b, c). tool_use_block c) cs) pending', acc)"
    "bt_inv pending'" "mset pending' = mset ?p + mset (map (\<lambda>(b, c). call_key c) cs)"
    using Cons.IH by meson
  with fresh bc show ?case
    by (intro exI [of _ pending'])
      (simp add: call_items_def add_pending_call_def mset_bt_insert [OF fresh] call_key_def)
qed

lemma mset_key_get: "bt_inv m \<Longrightarrow> (k, v) \<in># mset m \<Longrightarrow> bt_get m k = Some v"
  by (auto simp: bt_get_map_of bt_inv_def strict_sorted_iff)

lemma results_run:
  assumes "mset (map (\<lambda>(b, r). result_key r) rs) = mset pending" and "bt_inv pending" and "rs \<noteq> []"
    and "list_all2 (\<lambda>(b, r) block. tool_result_block J r = Inr block) rs blocks"
  shows "materialize_loop J (Results bl pending) acc (result_items rs) =
      Inr (Idle, acc @ [user_blocks (bl @ blocks)])"
  using assms
proof (induction rs arbitrary: bl pending blocks)
  case (Cons br rs)
  obtain b r where br: "br = (b, r)" by (cases br)
  from Cons.prems(4) br obtain block blocks' where bs: "blocks = block # blocks'"
    "tool_result_block J r = Inr block"
    "list_all2 (\<lambda>(b, r) block. tool_result_block J r = Inr block) rs blocks'"
    by (auto simp: list_all2_Cons1)
  have "(res_id r, res_name r) \<in># mset pending"
    using Cons.prems(1) [symmetric] br by (simp add: result_key_def)
  then have get: "bt_get pending (res_id r) = Some (res_name r)"
    by (rule mset_key_get [OF Cons.prems(2)])
  let ?p = "bt_remove (res_id r) pending"
  have m: "mset (map (\<lambda>(b, r). result_key r) rs) = mset ?p"
    using Cons.prems(1) mset_bt_remove [OF get] br by (simp add: result_key_def)
  show ?case
  proof (cases "rs = []")
    case True
    with m have "?p = []" by simp
    with True br bs get show ?thesis
      by (simp add: result_items_def validate_pending_result_def Let_def bt_empty_def)
  next
    case False
    then have "?p \<noteq> []" using m by auto
    with Cons.IH [OF m _ False bs(3), of "bl @ [block]"] Cons.prems(2) br bs get show ?thesis
      by (simp add: result_items_def validate_pending_result_def Let_def bt_empty_def bt_laws)
  qed
qed simp

lemma first_result:
  "append_result J (Calls bl pending) r acc = append_result J (Results [] pending) r (acc @ [assistant_blocks bl])"
  by (simp add: Let_def split: sum.split)

lemma calls_then_results:
  "rs \<noteq> [] \<Longrightarrow> materialize_loop J (Calls bl pending) acc (result_items rs) =
     materialize_loop J (Results [] pending) (acc @ [assistant_blocks bl]) (result_items rs)"
  by (cases rs) (auto simp: result_items_def first_result simp del: append_result.simps)

lemma first_call: "append_call Idle c = append_call (Calls [] []) c"
  by (simp split: sum.split)

lemma idle_call: "cs \<noteq> [] \<Longrightarrow>
   materialize_loop J Idle acc (call_items cs) = materialize_loop J (Calls [] []) acc (call_items cs)"
  by (cases cs) (auto simp: call_items_def first_call simp del: append_call.simps)

lemma round_run:
  assumes "cs \<noteq> []" "distinct (map (\<lambda>(b, c). call_id c) cs)"
    "mset (map (\<lambda>(b, r). result_key r) rs) = mset (map (\<lambda>(b, c). call_key c) cs)"
    "list_all2 (\<lambda>(b, r) block. tool_result_block J r = Inr block) rs blocks"
  shows "materialize_loop J Idle acc (call_items cs @ result_items rs) =
    Inr (Idle, acc @ [assistant_blocks (map (\<lambda>(b, c). tool_use_block c) cs), user_blocks blocks])"
proof -
  obtain pending where p: "materialize_loop J (Calls [] []) acc (call_items cs) =
      Inr (Calls (map (\<lambda>(b, c). tool_use_block c) cs) pending, acc)"
    "bt_inv pending" "mset pending = mset (map (\<lambda>(b, c). call_key c) cs)"
    using calls_run [OF assms(2), of "[]" J "[]" acc] by auto
  have "rs \<noteq> []" using assms(1,3) by auto
  with results_run [of rs pending J blocks "[]"] p assms(3,4) show ?thesis
    by (simp add: loop_append idle_call [OF assms(1)] calls_then_results)
qed

lemma loop_complete:
  "closed_log J items ms \<Longrightarrow> materialize_loop J Idle acc items = Inr (Idle, acc @ ms)"
proof (induction arbitrary: acc rule: closed_log.induct)
  case (round cs rs blocks items ms)
  have "materialize_loop J Idle acc ((call_items cs @ result_items rs) @ items) = Inr (Idle,
     (acc @ [assistant_blocks (map (\<lambda>(b, c). tool_use_block c) cs), user_blocks blocks]) @ ms)"
    unfolding loop_append [of J Idle acc "call_items cs @ result_items rs"] round_run [OF round(1-4)]
    using round.IH by simp
  then show ?case by simp
qed simp_all

lemma loop_skips_checkpoints:
  "materialize_loop J p acc (filter (\<lambda>i. \<not> is_checkpoint i) items) = materialize_loop J p acc items"
proof (induction items arbitrary: p acc)
  case (Cons i items)
  then show ?case by (cases i) (auto split: sum.split)
qed simp

lemma materialize_iff_loop:
  "materialize J items = Inr ms \<longleftrightarrow> materialize_loop J Idle [] items = Inr (Idle, ms)"
  by (auto simp: materialize_def split: sum.splits phase.splits)

lemma closed_log_iff:
  "materialize_loop J Idle [] items = Inr (Idle, ms) \<longleftrightarrow>
     closed_log J (filter (\<lambda>i. \<not> is_checkpoint i) items) ms"
proof
  assume "materialize_loop J Idle [] items = Inr (Idle, ms)"
  then have "materialize_loop J Idle [] (filter (\<lambda>i. \<not> is_checkpoint i) items) = Inr (Idle, ms)"
    by (simp only: loop_skips_checkpoints)
  from loop_sound [OF this] show "closed_log J (filter (\<lambda>i. \<not> is_checkpoint i) items) ms"
    by (auto simp: list_all_iff)
next
  assume "closed_log J (filter (\<lambda>i. \<not> is_checkpoint i) items) ms"
  from loop_complete [OF this, of "[]"] show "materialize_loop J Idle [] items = Inr (Idle, ms)"
    by (simp only: loop_skips_checkpoints append_Nil)
qed

lemma materialize_append:
  assumes "materialize J xs = Inr ms" and "materialize_loop J Idle ms ys = Inr (Idle, ms')"
  shows "materialize J (xs @ ys) = Inr ms'"
  using assms by (simp add: materialize_iff_loop loop_append)

text \<open>The blocks of a message, and the pairing a provider asks for.\<close>

fun message_blocks :: "message_content \<Rightarrow> content_block list" where
  "message_blocks (McText _) = []"
| "message_blocks (McBlocks bs) = bs"

abbreviation blocks_of :: "message \<Rightarrow> content_block list" where
  "blocks_of m \<equiv> message_blocks (msg_content m)"

fun calls_answered :: "message list \<Rightarrow> bool" where
  "calls_answered [] = True"
| "calls_answered [m] = (tool_use_ids (blocks_of m) = [] \<and> tool_result_ids (blocks_of m) = [])"
| "calls_answered (m # m' # ms) =
     (if tool_use_ids (blocks_of m) = []
      then tool_result_ids (blocks_of m) = [] \<and> calls_answered (m' # ms)
      else msg_role m = Assistant \<and> msg_role m' = User
        \<and> distinct (tool_use_ids (blocks_of m))
        \<and> mset (tool_result_ids (blocks_of m')) = mset (tool_use_ids (blocks_of m))
        \<and> tool_use_ids (blocks_of m') = [] \<and> calls_answered ms)"

fun assistant_has_text_only :: "session_item \<Rightarrow> bool" where
  "assistant_has_text_only (ItAssistant _ blocks) = list_all is_text_block blocks"
| "assistant_has_text_only _ = True"

lemma calls_answered_plain:
  "tool_use_ids (blocks_of m) = [] \<Longrightarrow> tool_result_ids (blocks_of m) = [] \<Longrightarrow> calls_answered ms \<Longrightarrow>
   calls_answered (m # ms)"
  by (cases ms) auto

lemma tool_use_block_ids:
  "tool_use_ids (map (\<lambda>(b, c). tool_use_block c) cs) = map (\<lambda>(b, c). call_id c) cs"
  by (induction cs) (auto simp: tool_use_block_def)

lemma tool_result_block_ids:
  "list_all2 (\<lambda>(b, r) block. tool_result_block J r = Inr block) rs blocks \<Longrightarrow>
   tool_result_ids blocks = map (\<lambda>(b, r). res_id r) rs \<and> tool_use_ids blocks = []"
proof (induction rule: list_all2_induct)
  case (Cons br rs block blocks)
  obtain b r where "br = (b, r)" by (cases br)
  with Cons show ?case
    by (auto simp: tool_result_block_def split: tool_content.splits option.splits)
qed simp

lemma closed_log_answered:
  "closed_log J items ms \<Longrightarrow> list_all assistant_has_text_only items \<Longrightarrow> calls_answered ms"
proof (induction rule: closed_log.induct)
  case (assistant items ms b blocks)
  then show ?case
    by (intro calls_answered_plain) (auto simp: assistant_blocks_def dest: text_blocks_no_tools)
next
  case (round cs rs blocks items ms)
  have "mset (map fst (map (\<lambda>(b, r). result_key r) rs)) = mset (map fst (map (\<lambda>(b, c). call_key c) cs))"
    by (simp only: mset_map [of fst] round(3))
  then have ids: "mset (map (\<lambda>(b, r). res_id r) rs) = mset (map (\<lambda>(b, c). call_id c) cs)"
    by (simp add: comp_def case_prod_unfold result_key_def call_key_def)
  have ne: "map (\<lambda>(b, c). call_id c) cs \<noteq> []" using round(1) by simp
  have "calls_answered ms" using round.IH round.prems by simp
  then show ?case
    using round(2) ids ne tool_result_block_ids [OF round(4)]
    by (simp add: assistant_blocks_def user_blocks_def tool_use_block_ids)
qed (auto intro: calls_answered_plain)

section \<open>Properties\<close>

text \<open>
  C7: the log is turned into messages exactly when it is closed. With checkpoints left out, it
  must be user and assistant items and whole tool rounds, each a run of calls with distinct ids
  and one result per call under the same id and name, in any order; the messages are one per
  item and two per round, in log order. Everything else is refused.
\<close>

theorem materialize_exact:
  "materialize J items = Inr ms \<longleftrightarrow> closed_log J (filter (\<lambda>i. \<not> is_checkpoint i) items) ms"
  by (simp add: materialize_iff_loop closed_log_iff)

text \<open>
  C8: what the provider gets is well paired: every message with tool-use blocks is an assistant
  message with distinct ids, the next one is a user message that answers each id once, and no
  tool result stands anywhere else. Assumed: assistant items hold text blocks only. The validation
  of a draft refuses any other at commit time; the reader of a stored log does not check it, so a
  log edited by hand is outside the claim.
\<close>

theorem materialized_calls_answered:
  assumes "materialize J items = Inr ms" and "list_all assistant_has_text_only items"
  shows "calls_answered ms"
proof (rule closed_log_answered)
  show "closed_log J (filter (\<lambda>i. \<not> is_checkpoint i) items) ms"
    using assms(1) by (simp add: materialize_iff_loop closed_log_iff)
  show "list_all assistant_has_text_only (filter (\<lambda>i. \<not> is_checkpoint i) items)"
    using assms(2) by (auto simp: list_all_iff)
qed

section \<open>A round of two calls\<close>

definition round_base :: item_base where
  "round_base = \<lparr>ib_id = ''i'', ib_seq = 0, ib_session_id = ''s'', ib_turn = 0, ib_at = ''t''\<rparr>"

definition round_items :: "session_item list" where
  "round_items =
    [ItUser round_base ''go'', ItAssistant round_base [CbText ''ok''],
     ItToolCall round_base \<lparr>call_id = ''a'', call_name = ''read'', call_input = JNull\<rparr>,
     ItToolCall round_base \<lparr>call_id = ''b'', call_name = ''read'', call_input = JNull\<rparr>,
     ItCheckpoint round_base ''c'',
     ItToolResult round_base \<lparr>res_id = ''b'', res_name = ''read'', res_status = Succeeded, res_content = TcText ''2''\<rparr>,
     ItToolResult round_base \<lparr>res_id = ''a'', res_name = ''read'', res_status = Succeeded, res_content = TcText ''1''\<rparr>]"

definition round_messages :: "message list" where
  "round_messages = [\<lparr>msg_role = User, msg_content = McText ''go''\<rparr>, assistant_blocks [CbText ''ok''],
     assistant_blocks [CbToolUse ''a'' ''read'' JNull, CbToolUse ''b'' ''read'' JNull],
     user_blocks [CbToolResult ''b'' (TrcText ''2''), CbToolResult ''a'' (TrcText ''1'')]]"

theorem materialized_calls_answered_witness:
  "materialize (\<lambda>_. None) round_items = Inr round_messages \<and> calls_answered round_messages"
proof -
  have m: "materialize (\<lambda>_. None) round_items = Inr round_messages" by code_simp
  have "list_all assistant_has_text_only round_items" by code_simp
  with m materialized_calls_answered [OF m] show ?thesis by blast
qed

end
