(* ===== verification/Profile_Config.thy ===== *)
theory Profile_Config
  imports Protocol
begin

unbundle bit_operations_syntax

text \<open>
  \<open>agent-core/src/llm/adapter_family.rs\<close> and \<open>llm/profile_config\<close>: the four wire families,
  their feature sets as 64-bit flags, and the merging of partial overrides with the clamp to
  what protocol and vendor allow.
\<close>

section \<open>Families\<close>

datatype adapter_family = OpenAiChatCompletions | OpenAiResponses | AnthropicMessages | GoogleGenerativeAi

fun family_as_str :: "adapter_family \<Rightarrow> string" where
  "family_as_str OpenAiChatCompletions = ''openai-chat-completions''"
| "family_as_str OpenAiResponses = ''openai-responses''"
| "family_as_str AnthropicMessages = ''anthropic-messages''"
| "family_as_str GoogleGenerativeAi = ''google-generative-ai''"

text \<open>\<open>to_ascii_lowercase\<close>\<close>

definition ascii_lower :: "string \<Rightarrow> string" where
  "ascii_lower s = map (\<lambda>c. if 65 \<le> byte c \<and> byte c \<le> 90 then char_of (byte c + 32) else c) s"

definition family_parse :: "string \<Rightarrow> adapter_family option" where
  "family_parse value =
     (let v = ascii_lower (trim value) in
      if v = ''openai-chat-completions'' \<or> v = ''openai_chat_completions'' then Some OpenAiChatCompletions
      else if v = ''openai-responses'' \<or> v = ''openai_responses'' then Some OpenAiResponses
      else if v = ''anthropic-messages'' \<or> v = ''anthropic_messages'' then Some AnthropicMessages
      else if v = ''google-generative-ai'' \<or> v = ''google_generative_ai'' then Some GoogleGenerativeAi
      else None)"

section \<open>Feature sets\<close>

type_synonym feature_set = u64

text \<open>The named flags by bit number, \<open>1 << k\<close>, in the order of their declaration.\<close>

definition flag :: "nat \<Rightarrow> feature_set" where
  "flag k = push_bit k 1"

definition named_flags :: "nat list" where
  "named_flags = [0, 1, 2, 3, 8, 9, 10, 11, 16]"

definition f_contains :: "feature_set \<Rightarrow> feature_set \<Rightarrow> bool" where
  "f_contains s f = (s AND f = f)"

definition f_minus :: "feature_set \<Rightarrow> feature_set \<Rightarrow> feature_set" where
  "f_minus s t = s AND NOT t"

text \<open>\<open>iter\<close>: the named flags that the set contains, then what is left of other bits.\<close>

definition f_iter :: "feature_set \<Rightarrow> feature_set list" where
  "f_iter s =
     (let named = filter (\<lambda>f. f_contains s f) (map flag named_flags);
          rest = fold (\<lambda>f r. f_minus r f) named s in
      named @ (if rest = 0 then [] else [rest]))"

definition clamp_to :: "feature_set \<Rightarrow> feature_set \<Rightarrow> feature_set" where
  "clamp_to s ceiling = s AND ceiling"

record protocol_capabilities =
  pc_family :: adapter_family
  pc_features :: feature_set

definition common_features :: feature_set where
  "common_features = flag 0 OR flag 1 OR flag 2 OR flag 3"

definition capabilities_for :: "adapter_family \<Rightarrow> protocol_capabilities" where
  "capabilities_for family =
     \<lparr>pc_family = family,
      pc_features = (case family of
          OpenAiChatCompletions \<Rightarrow> common_features
        | OpenAiResponses \<Rightarrow> common_features OR flag 8 OR flag 9 OR flag 10 OR flag 11
        | AnthropicMessages \<Rightarrow> common_features OR flag 16
        | GoogleGenerativeAi \<Rightarrow> common_features)\<rparr>"

section \<open>Feature patches\<close>

record feature_patch =
  fp_streaming :: "bool option"
  fp_tools :: "bool option"
  fp_thinking :: "bool option"
  fp_vision :: "bool option"
  fp_responses_store :: "bool option"
  fp_responses_previous_id :: "bool option"
  fp_responses_conversation :: "bool option"
  fp_responses_websocket :: "bool option"
  fp_anthropic_prompt_cache :: "bool option"

definition patch_is_empty :: "feature_patch \<Rightarrow> bool" where
  "patch_is_empty p \<longleftrightarrow>
     fp_streaming p = None \<and> fp_tools p = None \<and> fp_thinking p = None \<and> fp_vision p = None
     \<and> fp_responses_store p = None \<and> fp_responses_previous_id p = None
     \<and> fp_responses_conversation p = None \<and> fp_responses_websocket p = None
     \<and> fp_anthropic_prompt_cache p = None"

fun apply_flag :: "nat \<Rightarrow> bool option \<Rightarrow> feature_set \<Rightarrow> feature_set" where
  "apply_flag k (Some True) enabled = enabled OR flag k"
| "apply_flag k (Some False) enabled = f_minus enabled (flag k)"
| "apply_flag k None enabled = enabled"

definition patch_apply_to :: "feature_patch \<Rightarrow> feature_set \<Rightarrow> feature_set" where
  "patch_apply_to p base =
     (let enabled = apply_flag 0 (fp_streaming p) base;
          enabled = apply_flag 1 (fp_tools p) enabled;
          enabled = apply_flag 2 (fp_thinking p) enabled;
          enabled = apply_flag 3 (fp_vision p) enabled;
          enabled = apply_flag 8 (fp_responses_store p) enabled;
          enabled = apply_flag 9 (fp_responses_previous_id p) enabled;
          enabled = apply_flag 10 (fp_responses_conversation p) enabled;
          enabled = apply_flag 11 (fp_responses_websocket p) enabled;
          enabled = apply_flag 16 (fp_anthropic_prompt_cache p) enabled in
      enabled)"

definition patch_from_feature_set :: "feature_set \<Rightarrow> feature_patch" where
  "patch_from_feature_set s =
     \<lparr>fp_streaming = Some (f_contains s (flag 0)), fp_tools = Some (f_contains s (flag 1)),
      fp_thinking = Some (f_contains s (flag 2)), fp_vision = Some (f_contains s (flag 3)),
      fp_responses_store = Some (f_contains s (flag 8)),
      fp_responses_previous_id = Some (f_contains s (flag 9)),
      fp_responses_conversation = Some (f_contains s (flag 10)),
      fp_responses_websocket = Some (f_contains s (flag 11)),
      fp_anthropic_prompt_cache = Some (f_contains s (flag 16))\<rparr>"

section \<open>Wire profiles\<close>

record wire_decode_config =
  wd_output_text_path :: "string option"
  wd_reasoning_delta_field :: "string option"

record wire_http_config =
  wh_prefer_websocket :: "bool option"

record wire_profile_config =
  wp_decode :: wire_decode_config
  wp_http :: wire_http_config

record wire_profile_patch =
  wpp_decode :: "wire_decode_config option"
  wpp_http :: "wire_http_config option"

definition wire_default :: wire_profile_config where
  "wire_default =
     \<lparr>wp_decode = \<lparr>wd_output_text_path = None, wd_reasoning_delta_field = None\<rparr>,
      wp_http = \<lparr>wh_prefer_websocket = None\<rparr>\<rparr>"

definition merge_into :: "wire_profile_patch \<Rightarrow> wire_profile_config \<Rightarrow> wire_profile_config" where
  "merge_into patch b =
     (let b = (case wpp_decode patch of
          None \<Rightarrow> b
        | Some d \<Rightarrow>
            let b = (case wd_output_text_path d of None \<Rightarrow> b
                | Some path \<Rightarrow> b\<lparr>wp_decode := (wp_decode b)\<lparr>wd_output_text_path := Some path\<rparr>\<rparr>) in
            (case wd_reasoning_delta_field d of None \<Rightarrow> b
                | Some field \<Rightarrow> b\<lparr>wp_decode := (wp_decode b)\<lparr>wd_reasoning_delta_field := Some field\<rparr>\<rparr>)) in
      case wpp_http patch of
        None \<Rightarrow> b
      | Some h \<Rightarrow>
          (case wh_prefer_websocket h of None \<Rightarrow> b
             | Some prefer \<Rightarrow> b\<lparr>wp_http := (wp_http b)\<lparr>wh_prefer_websocket := Some prefer\<rparr>\<rparr>))"

definition merge_wire_from_patch :: "wire_profile_config \<Rightarrow> wire_profile_patch \<Rightarrow> wire_profile_config" where
  "merge_wire_from_patch b patch = merge_into patch b"

section \<open>Resolved profiles\<close>

datatype openai_thinking_extension = NoExtension | ChatTemplateKwargs

datatype adapter_options =
    OptOpenAiChat openai_thinking_extension
  | OptOpenAiResponses
  | OptAnthropicMessages bool
  | OptGoogleGenerativeAi

record resolved_profile =
  rp_protocol :: adapter_family
  rp_capabilities :: protocol_capabilities
  rp_features :: feature_set
  rp_wire :: wire_profile_config
  rp_options :: adapter_options

fun default_options_for :: "adapter_family \<Rightarrow> adapter_options" where
  "default_options_for OpenAiChatCompletions = OptOpenAiChat NoExtension"
| "default_options_for OpenAiResponses = OptOpenAiResponses"
| "default_options_for AnthropicMessages = OptAnthropicMessages False"
| "default_options_for GoogleGenerativeAi = OptGoogleGenerativeAi"

definition profile_for_protocol :: "adapter_family \<Rightarrow> feature_set \<Rightarrow> resolved_profile" where
  "profile_for_protocol protocol features =
     \<lparr>rp_protocol = protocol, rp_capabilities = capabilities_for protocol, rp_features = features,
      rp_wire = wire_default, rp_options = default_options_for protocol\<rparr>"

section \<open>Merging\<close>

datatype clamp_reason = ExceedsProtocolCapabilities | ExceedsVendorCeiling

record clamp_diagnostic =
  cd_feature :: feature_set
  cd_reason :: clamp_reason

definition merge_feature_config :: "feature_set \<Rightarrow> feature_patch option \<Rightarrow> feature_set" where
  "merge_feature_config base patch =
     (case patch of
        Some p \<Rightarrow> if \<not> patch_is_empty p then patch_apply_to p base else base
      | None \<Rightarrow> base)"

definition clamp_features ::
  "adapter_family \<Rightarrow> feature_set \<Rightarrow> feature_set \<Rightarrow> feature_set \<times> clamp_diagnostic list" where
  "clamp_features protocol enabled vendor_ceiling =
     (let capabilities = capabilities_for protocol;
          allowed = pc_features capabilities AND vendor_ceiling;
          clamped = enabled AND allowed;
          removed = f_minus enabled clamped;
          diagnostics = map (\<lambda>feature.
              \<lparr>cd_feature = feature,
               cd_reason = (if \<not> f_contains (pc_features capabilities) feature
                            then ExceedsProtocolCapabilities else ExceedsVendorCeiling)\<rparr>)
            (f_iter removed) in
      (clamped, diagnostics))"

section \<open>Bits\<close>

lemma bit_flag: "bit (flag k) n \<longleftrightarrow> n = k \<and> n < 64"
  by (auto simp: flag_def bit_exp_iff)

lemma word_bits_eq: "(\<And>n. n < 64 \<Longrightarrow> bit (x :: u64) n = bit y n) \<Longrightarrow> x = y"
  by (rule bit_word_eqI) simp

lemma f_contains_flag: "k < 64 \<Longrightarrow> f_contains s (flag k) \<longleftrightarrow> bit s k"
proof
  assume "k < 64" "f_contains s (flag k)"
  then have "bit (s AND flag k) k = bit (flag k) k" by (simp add: f_contains_def)
  then show "bit s k" using \<open>k < 64\<close> by (simp add: bit_and_iff bit_flag)
next
  assume "k < 64" "bit s k"
  then show "f_contains s (flag k)"
    unfolding f_contains_def by (intro word_bits_eq) (auto simp: bit_and_iff bit_flag)
qed

lemma bit_f_minus: "bit (f_minus s t) n \<longleftrightarrow> bit s n \<and> \<not> bit t n"
  by (auto simp: f_minus_def bit_and_iff bit_not_iff dest: bit_imp_le_length)

lemma bit_apply_flag:
  "k < 64 \<Longrightarrow> bit (apply_flag k v s) n = (if n = k then (case v of None \<Rightarrow> bit s n | Some x \<Rightarrow> x) else bit s n)"
  by (cases "(k, v, s)" rule: apply_flag.cases) (auto simp: bit_or_iff bit_flag bit_f_minus)

text \<open>The setting of a patch for a flag.\<close>

fun patch_field :: "feature_patch \<Rightarrow> nat \<Rightarrow> bool option" where
  "patch_field p n =
     (if n = 0 then fp_streaming p else if n = 1 then fp_tools p else if n = 2 then fp_thinking p
      else if n = 3 then fp_vision p else if n = 8 then fp_responses_store p
      else if n = 9 then fp_responses_previous_id p else if n = 10 then fp_responses_conversation p
      else if n = 11 then fp_responses_websocket p else if n = 16 then fp_anthropic_prompt_cache p
      else None)"

lemma bit_patch_apply:
  "bit (patch_apply_to p s) n = (case patch_field p n of None \<Rightarrow> bit s n | Some x \<Rightarrow> x)"
  unfolding patch_apply_to_def Let_def by (simp add: bit_apply_flag split: option.split)

lemma bit_fold_minus: "bit (fold (\<lambda>f r. f_minus r f) fs s) n \<longleftrightarrow> bit s n \<and> (\<forall>f \<in> set fs. \<not> bit f n)"
  by (induction fs arbitrary: s) (auto simp: bit_f_minus)

definition only_named :: "feature_set \<Rightarrow> bool" where
  "only_named s \<longleftrightarrow> s AND NOT (fold (OR) (map flag named_flags) 0) = 0"

lemma bit_fold_or: "bit (fold (OR) fs (s :: u64)) n \<longleftrightarrow> bit s n \<or> (\<exists>f \<in> set fs. bit f n)"
  by (induction fs arbitrary: s) (auto simp: bit_or_iff)

lemma only_named_bit: "only_named s \<Longrightarrow> bit s n \<Longrightarrow> n \<in> set named_flags"
proof -
  assume "only_named s" "bit s n"
  then have "n < 64" by (auto dest: bit_imp_le_length)
  have "\<not> bit (s AND NOT (fold (OR) (map flag named_flags) 0)) n"
    using \<open>only_named s\<close> by (simp add: only_named_def)
  with \<open>bit s n\<close> \<open>n < 64\<close> show "n \<in> set named_flags"
    by (auto simp: bit_and_iff bit_not_iff bit_fold_or bit_flag)
qed

lemma named_flags_small: "k \<in> set named_flags \<Longrightarrow> k < 64"
  by (auto simp: named_flags_def)

lemma f_iter_named:
  assumes "only_named s"
  shows "f_iter s = map flag (filter (\<lambda>k. bit s k) named_flags)"
proof -
  have f: "filter (\<lambda>f. f_contains s f) (map flag named_flags) = map flag (filter (\<lambda>k. bit s k) named_flags)"
    by (simp add: filter_map comp_def named_flags_def f_contains_flag)
  have "fold (\<lambda>f r. f_minus r f) (map flag (filter (\<lambda>k. bit s k) named_flags)) s = 0"
    by (rule word_bits_eq)
      (auto simp: bit_fold_minus bit_flag dest: only_named_bit [OF assms])
  with f show ?thesis by (simp add: f_iter_def Let_def)
qed

section \<open>Properties\<close>

text \<open>
  A patch sets exactly the flags it mentions. After merging the user's and then the host's
  patch, each flag has the host's value if the host set it, else the user's, else the default;
  bits outside the nine named flags stay as they were.
\<close>

theorem merged_feature_bits:
  "bit (merge_feature_config (merge_feature_config base user) host) n =
     (case Option.bind host (\<lambda>p. patch_field p n) of
        Some v \<Rightarrow> v
      | None \<Rightarrow> (case Option.bind user (\<lambda>p. patch_field p n) of Some v \<Rightarrow> v | None \<Rightarrow> bit base n))"
proof -
  have "patch_field p n = None" if "patch_is_empty p" for p
    using that by (simp add: patch_is_empty_def)
  then have "bit (merge_feature_config s patch) n =
      (case Option.bind patch (\<lambda>p. patch_field p n) of Some v \<Rightarrow> v | None \<Rightarrow> bit s n)" for s patch
    by (auto simp: merge_feature_config_def bit_patch_apply simp del: patch_field.simps split: option.split)
  then show ?thesis by (simp split: option.split)
qed

text \<open>
  The explicit patch of a feature set says all there is to say about it: applied to any base
  it leaves the named flags as they are in the set.
\<close>

theorem patch_roundtrip:
  "map (bit (patch_apply_to (patch_from_feature_set s) base)) named_flags = map (bit s) named_flags"
  by (simp add: named_flags_def bit_patch_apply patch_from_feature_set_def f_contains_flag)

text \<open>
  the clamp never enables what protocol or vendor forbids and removes nothing else, and it
  reports each removed flag once, in declaration order, blaming the protocol when the protocol
  lacks it and the vendor otherwise.
\<close>

theorem clamp_features_exact:
  assumes "only_named enabled"
  shows "(let (clamped, diagnostics) = clamp_features protocol enabled ceiling;
        caps = pc_features (capabilities_for protocol);
        gone = filter (\<lambda>k. bit enabled k \<and> \<not> (bit caps k \<and> bit ceiling k)) named_flags in
      (\<forall>n. bit clamped n = (bit enabled n \<and> bit caps n \<and> bit ceiling n))
      \<and> map cd_feature diagnostics = map flag gone
      \<and> map cd_reason diagnostics =
          map (\<lambda>k. if bit caps k then ExceedsVendorCeiling else ExceedsProtocolCapabilities) gone)"
proof -
  let ?caps = "pc_features (capabilities_for protocol)"
  let ?removed = "f_minus enabled (enabled AND (?caps AND ceiling))"
  have bits: "bit ?removed n \<longleftrightarrow> bit enabled n \<and> \<not> (bit ?caps n \<and> bit ceiling n)" for n
    by (auto simp: bit_f_minus bit_and_iff)
  have "only_named ?removed"
    unfolding only_named_def
  proof (rule word_bits_eq)
    fix n :: nat assume "n < 64"
    then show "bit (?removed AND NOT (fold (OR) (map flag named_flags) 0)) n = bit (0 :: u64) n"
      using only_named_bit [OF assms, of n]
      by (auto simp: bit_and_iff bit_not_iff bit_fold_or bit_flag bit_f_minus)
  qed
  from f_iter_named [OF this] have
    it: "f_iter ?removed = map flag (filter (\<lambda>k. bit enabled k \<and> \<not> (bit ?caps k \<and> bit ceiling k)) named_flags)"
    by (simp only: bits)
  show ?thesis
    by (auto simp: clamp_features_def Let_def it bit_and_iff f_contains_flag named_flags_small)
qed

theorem clamp_features_exact_witness:
  "map cd_reason (snd (clamp_features OpenAiChatCompletions (flag 0 OR flag 3 OR flag 8) (flag 0)))
     = [ExceedsVendorCeiling, ExceedsProtocolCapabilities]"
proof -
  have n: "only_named (flag 0 OR flag 3 OR flag 8)" by code_simp
  show ?thesis using clamp_features_exact [OF n, of OpenAiChatCompletions "flag 0"]
    by (simp add: Let_def case_prod_unfold named_flags_def capabilities_for_def common_features_def
        bit_or_iff bit_flag)
qed

end
