(* ===== verification/Model_Input.thy ===== *)
theory Model_Input
  imports Profile_Config Tools
begin

text \<open>
  \<open>agent-core/src/model_input\<close>: the call configuration of a turn and the assembly of one
  provider-neutral request.
\<close>

record llm_call_config =
  lc_protocol :: adapter_family
  lc_profile :: resolved_profile
  lc_model :: string
  lc_base_url :: string
  lc_api_key :: string
  lc_max_tokens :: u32
  lc_thinking_level :: "thinking_level option"
  lc_session_id :: "string option"
  lc_previous_response_id :: "string option"

definition tool_schema_of :: "tool \<Rightarrow> tool_schema" where
  "tool_schema_of t =
     \<lparr>schema_name = spec_name (tool_spec t), schema_description = spec_description (tool_spec t),
      schema_input = spec_input_schema (tool_spec t)\<rparr>"

definition compile :: "llm_call_config \<Rightarrow> string \<Rightarrow> message list \<Rightarrow> registry \<Rightarrow> model_request" where
  "compile config system_prompt messages registry =
     \<lparr>rq_model = lc_model config, rq_system = system_prompt, rq_messages = messages,
      rq_tools = map tool_schema_of (reg_tools registry),
      rq_max_tokens = lc_max_tokens config, rq_thinking_level = lc_thinking_level config,
      rq_session_id = lc_session_id config,
      rq_previous_response_id = lc_previous_response_id config\<rparr>"

end
