(* ===== verification/Tool_Runtime.thy ===== *)
theory Tool_Runtime
  imports Tools Ordered_Map
begin

text \<open>
  \<open>agent-core/src/loop/tool_runtime.rs\<close>: the permissions beside the tool registry, and the path
  of one call through cancellation, lookup, validation, permission and approval to the
  executor. What the token, the approval handler and the executor answer is an argument
  (record \<open>call_env\<close>); in a \<open>select!\<close> with the token, \<open>None\<close> means that the token won.
\<close>

section \<open>The runtime\<close>

datatype tool_permission = Allow | Ask

type_synonym permission_map = "(string, tool_permission) btree"

datatype tool_approval = Approved | ApprovalDenied string | ApprovalCancelled

datatype runtime_error =
    PermissionKeysMismatch "string list" "string list"
  | ApprovalHandlerRequired

record tool_runtime =
  rt_registry :: registry
  rt_permissions :: permission_map
  rt_approval :: bool

text \<open>\<open>collect::<BTreeSet<_>>()\<close> of a list of names.\<close>

definition name_set :: "string list \<Rightarrow> (string, unit) btree" where
  "name_set names = fold (\<lambda>n. bt_insert n ()) names []"

definition runtime_new :: "registry \<Rightarrow> permission_map \<Rightarrow> bool \<Rightarrow> runtime_error + tool_runtime" where
  "runtime_new registry permissions approval =
     (let registry_names = name_set (map tool_name (reg_tools registry));
          permission_names = name_set (bt_keys permissions) in
      if registry_names \<noteq> permission_names then
        Inl (PermissionKeysMismatch (bt_keys registry_names) (bt_keys permission_names))
      else if list_ex (\<lambda>(_, p). p = Ask) permissions \<and> \<not> approval then Inl ApprovalHandlerRequired
      else Inr \<lparr>rt_registry = registry, rt_permissions = permissions, rt_approval = approval\<rparr>)"

section \<open>One call\<close>

datatype call_error = ApprovalFailed string | ExecutionFailed tool_error

datatype tool_call_outcome =
    OcResult tool_result
  | OcAbort tool_result "call_error option"

record call_env =
  ce_cancelled_first :: bool
  ce_approval :: "tool_call \<Rightarrow> (string + tool_approval) option"
  ce_cancelled_last :: bool
  ce_execute :: "executor_ref \<Rightarrow> tool_call \<Rightarrow> string \<Rightarrow> (string + tool_result) option"

definition cancelled_result :: "tool_call \<Rightarrow> tool_cancellation \<Rightarrow> string \<Rightarrow> tool_result" where
  "cancelled_result call reason text = with_status call (ToolCancelled reason) (TcText text)"

text \<open>The second half of \<open>execute_call\<close>: the last look at the token, then the executor.\<close>

definition run_executor :: "tool \<Rightarrow> call_env \<Rightarrow> tool_call \<Rightarrow> string \<Rightarrow> tool_call_outcome" where
  "run_executor tool env call working_dir =
     (if ce_cancelled_last env then
        OcAbort (cancelled_result call TcancelUser ''tool call cancelled before execution'') None
      else case ce_execute env (tool_executor tool) call working_dir of
        None \<Rightarrow> OcAbort (outcome_unknown call (TcText ''tool execution outcome is unknown'')) None
      | Some reply \<Rightarrow>
          (case tool_execute call reply of
             Inr result \<Rightarrow> OcResult result
           | Inl e \<Rightarrow>
               OcAbort (outcome_unknown call (TcText ''tool execution outcome is unknown''))
                 (Some (ExecutionFailed e))))"

text \<open>The approval step: \<open>None\<close> to go on, else the outcome it ends with.\<close>

definition approve_call :: "tool_runtime \<Rightarrow> call_env \<Rightarrow> tool_call \<Rightarrow> tool_call_outcome option" where
  "approve_call rt env call =
     (if \<not> rt_approval rt then
        Some (OcResult (with_status call Denied (TcText ''tool approval is unavailable'')))
      else case ce_approval env call of
        None \<Rightarrow> Some (OcAbort (cancelled_result call TcancelUser ''tool approval cancelled'') None)
      | Some (Inr Approved) \<Rightarrow> None
      | Some (Inr (ApprovalDenied reason)) \<Rightarrow> Some (OcResult (with_status call Denied (TcText reason)))
      | Some (Inr ApprovalCancelled) \<Rightarrow>
          Some (OcAbort (cancelled_result call TcancelUser ''tool approval cancelled'') None)
      | Some (Inl e) \<Rightarrow>
          Some (OcAbort (cancelled_result call TcancelDisposed ''tool approval handler failed'')
            (Some (ApprovalFailed e))))"

definition execute_call :: "tool_runtime \<Rightarrow> call_env \<Rightarrow> tool_call \<Rightarrow> string \<Rightarrow> tool_call_outcome" where
  "execute_call rt env call working_dir =
     (if ce_cancelled_first env then
        OcAbort (cancelled_result call TcancelUser ''tool call cancelled before execution'') None
      else case resolve (rt_registry rt) (call_name call) of
        None \<Rightarrow>
          OcResult (with_status call UnknownTool (TcText (''unknown tool: '' @ call_name call)))
      | Some tool \<Rightarrow>
          (case validate_input (rt_registry rt) tool call of
             Some message \<Rightarrow> OcResult (with_status call InvalidArguments (TcText message))
           | None \<Rightarrow>
               (case bt_get (rt_permissions rt) (call_name call) of
                  None \<Rightarrow>
                    OcResult (with_status call Denied (TcText ''tool permission is not configured''))
                | Some Allow \<Rightarrow> run_executor tool env call working_dir
                | Some Ask \<Rightarrow>
                    (case approve_call rt env call of
                       Some outcome \<Rightarrow> outcome
                     | None \<Rightarrow> run_executor tool env call working_dir))))"

section \<open>Lemmas\<close>

fun outcome_result :: "tool_call_outcome \<Rightarrow> tool_result" where
  "outcome_result (OcResult r) = r"
| "outcome_result (OcAbort r _) = r"

lemma name_set_get:
  "bt_get (name_set names) n = (if n \<in> set names then Some () else None) \<and> bt_inv (name_set names)"
proof -
  have "bt_inv m \<Longrightarrow> bt_get (fold (\<lambda>n. bt_insert n ()) names m) n =
      (if n \<in> set names then Some () else bt_get m n) \<and> bt_inv (fold (\<lambda>n. bt_insert n ()) names m)" for m
    by (induction names arbitrary: m) (auto simp: bt_laws)
  from this [of "[]"] show ?thesis by (simp add: name_set_def)
qed

lemma bt_unit_eq:
  fixes m m' :: "('k::linorder, unit) btree"
  assumes "bt_inv m" "bt_inv m'" "dom (bt_get m) = dom (bt_get m')"
  shows "m = m'"
proof -
  have "map fst m = map fst m'"
    using assms by (intro sorted_distinct_set_unique)
      (auto simp: bt_inv_def strict_sorted_iff bt_get_map_of dom_map_of_conv_image_fst)
  moreover have "map snd m = map snd m'"
    using arg_cong [OF calculation, of length] by (simp add: list_eq_iff_nth_eq)
  ultimately show ?thesis by (metis zip_map_fst_snd)
qed

lemma name_set_eq_iff: "name_set xs = name_set ys \<longleftrightarrow> set xs = set ys"
proof
  assume e: "name_set xs = name_set ys"
  have "n \<in> set xs \<longleftrightarrow> n \<in> set ys" for n
    using name_set_get [of xs n] name_set_get [of ys n] e by (auto split: if_splits)
  then show "set xs = set ys" by blast
next
  assume "set xs = set ys"
  then show "name_set xs = name_set ys"
    using name_set_get [of xs] name_set_get [of ys]
    by (intro bt_unit_eq) (auto simp: dom_def split: if_splits)
qed

lemma execute_call_identity:
  "res_id (outcome_result (execute_call rt env call wd)) = call_id call
   \<and> res_name (outcome_result (execute_call rt env call wd)) = call_name call"
  by (auto simp: execute_call_def run_executor_def approve_call_def cancelled_result_def
      dest: tool_execute_ok
      split: option.splits sum.splits tool_permission.splits tool_approval.splits)

text \<open>What must hold before the executor is started.\<close>

definition authorized :: "tool_runtime \<Rightarrow> call_env \<Rightarrow> tool_call \<Rightarrow> bool" where
  "authorized rt env call \<longleftrightarrow>
     \<not> ce_cancelled_first env \<and> \<not> ce_cancelled_last env
     \<and> (case resolve (rt_registry rt) (call_name call) of
          None \<Rightarrow> False
        | Some tool \<Rightarrow> validate_input (rt_registry rt) tool call = None)
     \<and> (case bt_get (rt_permissions rt) (call_name call) of
          None \<Rightarrow> False
        | Some Allow \<Rightarrow> True
        | Some Ask \<Rightarrow> rt_approval rt \<and> ce_approval env call = Some (Inr Approved))"

fun cancelled_status :: "tool_status \<Rightarrow> bool" where
  "cancelled_status (ToolCancelled _) = True"
| "cancelled_status _ = False"

section \<open>Properties\<close>

text \<open>
  A runtime is built exactly when the permission map names the registered tools, no more and
  no fewer, and an approval handler is there if any of them asks.
\<close>

theorem runtime_new_ok_iff:
  "is_ok (runtime_new registry permissions approval) \<longleftrightarrow>
     tool_name ` set (reg_tools registry) = fst ` set permissions
     \<and> \<not> (Ask \<in> snd ` set permissions \<and> \<not> approval)"
proof -
  have "list_ex (\<lambda>(_, p). p = Ask) permissions \<longleftrightarrow> Ask \<in> snd ` set permissions"
    by (force simp: list_ex_iff)
  then show ?thesis by (auto simp: runtime_new_def Let_def name_set_eq_iff bt_keys_def)
qed

text \<open>
  C9: no tool runs without authorization. Only for a registered tool with valid arguments that is
  allowed, or was approved, and with the token untouched does the outcome depend on the
  executor, and then it is the executor's own reply, checked; in every other case the executor
  could be any function, and the status is none that an executor may give.
\<close>

theorem executor_needs_authorization:
  "(if authorized rt env call then
      (case ce_execute env (tool_executor (the (resolve (rt_registry rt) (call_name call)))) call wd of
         None \<Rightarrow> execute_call rt env call wd =
           OcAbort (outcome_unknown call (TcText ''tool execution outcome is unknown'')) None
       | Some reply \<Rightarrow>
           (case tool_execute call reply of
              Inr r \<Rightarrow> execute_call rt env call wd = OcResult r
            | Inl e \<Rightarrow> execute_call rt env call wd =
                OcAbort (outcome_unknown call (TcText ''tool execution outcome is unknown''))
                  (Some (ExecutionFailed e))))
    else execute_call rt (env\<lparr>ce_execute := f\<rparr>) call wd = execute_call rt env call wd
      \<and> \<not> executor_status (res_status (outcome_result (execute_call rt env call wd))))"
  by (auto simp: authorized_def execute_call_def run_executor_def approve_call_def cancelled_result_def
      split: option.splits sum.splits tool_permission.splits tool_approval.splits)

text \<open>
  every call gets one result under its own id and name, whatever the tool answered. A plain
  outcome is never a cancellation, and an aborted one is a cancellation or an unknown outcome.
\<close>

theorem execute_call_result:
  "(let outcome = execute_call rt env call wd; r = outcome_result outcome in
    res_id r = call_id call \<and> res_name r = call_name call
    \<and> (case outcome of
         OcResult _ \<Rightarrow> \<not> cancelled_status (res_status r)
       | OcAbort _ _ \<Rightarrow> cancelled_status (res_status r) \<or> res_status r = OutcomeUnknown))"
proof -
  have "\<not> cancelled_status (res_status r)" if "tool_execute call reply = Inr r" for reply r
    using tool_execute_ok [OF that] by (cases "res_status r") auto
  then show ?thesis
    using execute_call_identity [of rt env call wd]
    by (auto simp: Let_def execute_call_def run_executor_def approve_call_def cancelled_result_def
        split: option.splits sum.splits tool_permission.splits tool_approval.splits)
qed

end
