(* ===== verification/Turn_Control.thy ===== *)
theory Turn_Control
  imports Tools Ordered_Map
begin

text \<open>
  The pure parts of \<open>agent-core/src/loop\<close>: the classification of a model response
  (\<open>response.rs\<close>), the retry delays (\<open>retry.rs\<close>), the bounds of a turn (\<open>turn.rs\<close>).
\<close>

section \<open>Responses\<close>

datatype response_error =
    BadToolCall tool_error
  | DuplicateToolUse string
  | UnexpectedToolResult
  | ToolUseWithoutCalls
  | TerminalWithCalls

datatype response_action =
    Terminal "content_block list"
  | ToolRound "content_block list" "tool_call list"

text \<open>The loop over the blocks with the blocks, the calls and the ids so far.\<close>

fun classify_blocks ::
  "content_block list \<Rightarrow> content_block list \<Rightarrow> tool_call list \<Rightarrow> (string, unit) btree \<Rightarrow>
   response_error + content_block list \<times> tool_call list" where
  "classify_blocks [] blocks calls ids = Inr (blocks, calls)"
| "classify_blocks (CbText t # bs) blocks calls ids = classify_blocks bs (blocks @ [CbText t]) calls ids"
| "classify_blocks (CbThinking t # bs) blocks calls ids =
     classify_blocks bs (blocks @ [CbThinking t]) calls ids"
| "classify_blocks (CbToolUse i n v # bs) blocks calls ids =
     (case tool_call_new i n v of
        Inl e \<Rightarrow> Inl (BadToolCall e)
      | Inr call \<Rightarrow>
          if bt_get ids (call_id call) \<noteq> None then Inl (DuplicateToolUse (call_id call))
          else classify_blocks bs blocks (calls @ [call]) (bt_insert (call_id call) () ids))"
| "classify_blocks (CbToolResult _ _ # bs) blocks calls ids = Inl UnexpectedToolResult"

definition classify_response :: "model_response \<Rightarrow> response_error + response_action" where
  "classify_response response =
     (case classify_blocks (rs_content response) [] [] [] of
        Inl e \<Rightarrow> Inl e
      | Inr (assistant, calls) \<Rightarrow>
          if rs_stop_reason response = StopToolUse then
            (if calls = [] then Inl ToolUseWithoutCalls else Inr (ToolRound assistant calls))
          else if calls \<noteq> [] then Inl TerminalWithCalls
          else Inr (Terminal assistant))"

section \<open>Retries and bounds\<close>

text \<open>In milliseconds.\<close>

definition retry_delay :: "u32 \<Rightarrow> nat" where
  "retry_delay retry_index = (if retry_index = 0 then 500 else if retry_index = 1 then 1000 else 2000)"

record turn_policy =
  tpl_max_steps :: u32
  tpl_max_llm_retries :: u32

datatype policy_error = MaxStepsZero | MaxRetriesTooLarge

definition policy_new :: "u32 \<Rightarrow> policy_error + turn_policy" where
  "policy_new max_steps =
     (if max_steps = 0 then Inl MaxStepsZero
      else Inr \<lparr>tpl_max_steps = max_steps, tpl_max_llm_retries = 3\<rparr>)"

definition policy_validate :: "turn_policy \<Rightarrow> policy_error + unit" where
  "policy_validate p =
     (if tpl_max_steps p = 0 then Inl MaxStepsZero
      else if tpl_max_llm_retries p > 3 then Inl MaxRetriesTooLarge else Inr ())"

section \<open>What classification accepts\<close>

fun block_call :: "content_block \<Rightarrow> tool_call option" where
  "block_call (CbToolUse i n v) = Some \<lparr>call_id = i, call_name = n, call_input = v\<rparr>"
| "block_call _ = None"

definition block_calls :: "content_block list \<Rightarrow> tool_call list" where
  "block_calls bs = List.map_filter block_call bs"

definition call_ok :: "tool_call \<Rightarrow> bool" where
  "call_ok c \<longleftrightarrow> \<not> is_blank (call_id c) \<and> \<not> is_blank (call_name c)"

lemma block_calls_simps [simp]:
  "block_calls [] = []"
  "block_calls (CbText t # bs) = block_calls bs" "block_calls (CbThinking t # bs) = block_calls bs"
  "block_calls (CbToolUse i n v # bs) = \<lparr>call_id = i, call_name = n, call_input = v\<rparr> # block_calls bs"
  "block_calls (CbToolResult i c # bs) = block_calls bs"
  by (simp_all add: block_calls_def map_filter_simps)

lemma classify_blocks_spec:
  assumes "bt_inv ids" and "distinct (map call_id calls)" and "dom (bt_get ids) = call_id ` set calls"
  shows "(if list_all (\<lambda>b. \<not> is_tool_result b) bs \<and> list_all call_ok (block_calls bs)
        \<and> distinct (map call_id (calls @ block_calls bs))
      then classify_blocks bs blocks calls ids =
        Inr (blocks @ filter is_text_block bs, calls @ block_calls bs)
      else \<not> is_ok (classify_blocks bs blocks calls ids))"
  using assms
proof (induction bs blocks calls ids rule: classify_blocks.induct)
  case (4 i n v bs blocks calls ids)
  let ?c = "\<lparr>call_id = i, call_name = n, call_input = v\<rparr>"
  show ?case
  proof (cases "call_ok ?c")
    case False
    then have "\<not> is_ok (tool_call_new i n v)" by (auto simp: call_ok_def tool_call_new_def)
    with False show ?thesis by (auto simp: not_is_ok_iff)
  next
    case True
    then have new: "tool_call_new i n v = Inr ?c" by (auto simp: call_ok_def tool_call_new_def)
    show ?thesis
    proof (cases "i \<in> call_id ` set calls")
      case dup: True
      then have "i \<in> dom (bt_get ids)" using "4.prems"(3) by simp
      then have "bt_get ids i \<noteq> None" by blast
      with new dup show ?thesis by auto
    next
      case fresh: False
      then have none: "bt_get ids i = None" using "4.prems"(3) by (metis domIff)
      have "\<not> bt_get ids (call_id ?c) \<noteq> None" using none by simp
      note IH = "4.IH" [OF new this]
      have "bt_inv (bt_insert (call_id ?c) () ids)" using "4.prems"(1) by (simp add: bt_laws)
      moreover have "distinct (map call_id (calls @ [?c]))" using "4.prems"(2) fresh by simp
      moreover have "dom (bt_get (bt_insert (call_id ?c) () ids)) = call_id ` set (calls @ [?c])"
        using bt.dom_insert [OF "4.prems"(1), of i "()"] "4.prems"(3) by simp
      ultimately have "if list_all (\<lambda>b. \<not> is_tool_result b) bs \<and> list_all call_ok (block_calls bs)
          \<and> distinct (map call_id ((calls @ [?c]) @ block_calls bs))
        then classify_blocks bs blocks (calls @ [?c]) (bt_insert i () ids) =
          Inr (blocks @ filter is_text_block bs, (calls @ [?c]) @ block_calls bs)
        else \<not> is_ok (classify_blocks bs blocks (calls @ [?c]) (bt_insert i () ids))"
        using IH by (simp cong: if_cong)
      with new none True show ?thesis by (simp cong: if_cong)
    qed
  qed
qed auto

lemma classify_response_cases:
  "(let cs = block_calls (rs_content r) in
    if list_all (\<lambda>b. \<not> is_tool_result b) (rs_content r) \<and> list_all call_ok cs
       \<and> distinct (map call_id cs) \<and> (rs_stop_reason r = StopToolUse) = (cs \<noteq> [])
    then classify_response r = Inr (if cs = [] then Terminal (filter is_text_block (rs_content r))
        else ToolRound (filter is_text_block (rs_content r)) cs)
    else \<not> is_ok (classify_response r))"
proof -
  have "dom (bt_get ([] :: (string, unit) btree)) = call_id ` set []" by (auto simp: dom_def)
  from classify_blocks_spec [OF _ _ this, of "rs_content r" "[]"] show ?thesis
    by (auto simp: classify_response_def Let_def not_is_ok_iff split: if_splits)
qed

text \<open>What the loop relies on in a tool round.\<close>

lemma classify_toolround:
  assumes "classify_response r = Inr (ToolRound blocks calls)"
  shows "calls \<noteq> []" "distinct (map call_id calls)" "list_all call_ok calls" "list_all is_text_block blocks"
proof -
  have "calls \<noteq> [] \<and> distinct (map call_id calls) \<and> list_all call_ok calls \<and> list_all is_text_block blocks"
    using classify_response_cases [of r] assms by (auto simp: Let_def list_all_iff split: if_splits)
  then show "calls \<noteq> []" "distinct (map call_id calls)" "list_all call_ok calls" "list_all is_text_block blocks"
    by blast+
qed

lemma classify_terminal:
  "classify_response r = Inr (Terminal blocks) \<Longrightarrow> list_all is_text_block blocks"
  using classify_response_cases [of r] by (auto simp: Let_def list_all_iff split: if_splits)

section \<open>Properties\<close>

text \<open>
  a response is accepted exactly when it holds no tool result, its tool uses have non-blank
  ids and names and distinct ids, and it stopped for tool use just when there are any. Then the
  text and thinking blocks and the calls come out in the order of the response, nothing dropped.
\<close>

theorem classify_response_exact:
  "(let cs = block_calls (rs_content r) in
    if list_all (\<lambda>b. \<not> is_tool_result b) (rs_content r) \<and> list_all call_ok cs
       \<and> distinct (map call_id cs) \<and> (rs_stop_reason r = StopToolUse) = (cs \<noteq> [])
    then classify_response r = Inr (if cs = [] then Terminal (filter is_text_block (rs_content r))
        else ToolRound (filter is_text_block (rs_content r)) cs)
    else \<not> is_ok (classify_response r))"
  by (rule classify_response_cases)

end
