(* ===== verification/Response_Builder.thy ===== *)
theory Response_Builder
  imports Protocol "HOL-Library.Sublist"
begin

text \<open>
  \<open>agent-core/src/llm/response_builder.rs\<close> and \<open>llm/provider.rs\<close>: the fold of the stream
  events of one model call into a \<open>ModelResponse\<close>. The builder is a record threaded through
  \<open>apply_event\<close>; a rejected event still leaves the mutations made before the rejection, so
  the function returns the state together with the result.
\<close>

section \<open>State\<close>

datatype open_part_kind = OpText u32 | OpThinking u32

record open_tool =
  ot_id :: string
  ot_name :: string
  ot_input_json :: string
  ot_finished :: "(string \<times> json) option"

record builder =
  bd_model :: "string option"
  bd_content :: "content_block list"
  bd_open_part :: "open_part_kind option"
  bd_open_text :: string
  bd_open_thinking :: string
  bd_open_tools :: "open_tool list"
  bd_stop_reason :: "stop_reason option"
  bd_usage :: "usage option"
  bd_response_id :: "string option"
  bd_finished :: bool

definition builder_new :: "string \<Rightarrow> builder" where
  "builder_new model =
     \<lparr>bd_model = Some model, bd_content = [], bd_open_part = None, bd_open_text = [],
      bd_open_thinking = [], bd_open_tools = [], bd_stop_reason = None, bd_usage = None,
      bd_response_id = None, bd_finished = False\<rparr>"

section \<open>Operations\<close>

definition unrecoverable :: "string \<Rightarrow> llm_error" where
  "unrecoverable m = RequestFailed Unrecoverable m"

text \<open>\<open>open_part.take()\<close> and, when its buffer holds text, the push of the finished block.\<close>

definition flush_open_part :: "builder \<Rightarrow> builder" where
  "flush_open_part b =
     (let b' = b\<lparr>bd_open_part := None\<rparr> in
      case bd_open_part b of
        Some (OpText _) \<Rightarrow>
          if bd_open_text b \<noteq> [] then
            b'\<lparr>bd_content := bd_content b @ [CbText (bd_open_text b)], bd_open_text := []\<rparr>
          else b'
      | Some (OpThinking _) \<Rightarrow>
          if bd_open_thinking b \<noteq> [] then
            b'\<lparr>bd_content := bd_content b @ [CbThinking (bd_open_thinking b)],
               bd_open_thinking := []\<rparr>
          else b'
      | None \<Rightarrow> b')"

definition ensure_text_part :: "u32 \<Rightarrow> builder \<Rightarrow> builder" where
  "ensure_text_part i b =
     (let needs_flush = (case bd_open_part b of Some (OpText j) \<Rightarrow> j \<noteq> i | _ \<Rightarrow> True) in
      if needs_flush then (flush_open_part b)\<lparr>bd_open_part := Some (OpText i)\<rparr> else b)"

definition ensure_thinking_part :: "u32 \<Rightarrow> builder \<Rightarrow> builder" where
  "ensure_thinking_part i b =
     (let needs_flush = (case bd_open_part b of Some (OpThinking j) \<Rightarrow> j \<noteq> i | _ \<Rightarrow> True) in
      if needs_flush then (flush_open_part b)\<lparr>bd_open_part := Some (OpThinking i)\<rparr> else b)"

text \<open>
  The loop of \<open>flush_finished_tools\<close>: finished tools leave the front of the queue as
  \<open>ToolUse\<close> blocks, until the front tool is unfinished or the queue is empty.
\<close>

fun flush_tools :: "content_block list \<Rightarrow> open_tool list \<Rightarrow> content_block list \<times> open_tool list" where
  "flush_tools c [] = (c, [])"
| "flush_tools c (t # ts) =
     (case ot_finished t of
        None \<Rightarrow> (c, t # ts)
      | Some (name, input) \<Rightarrow> flush_tools (c @ [CbToolUse (ot_id t) name input]) ts)"

definition flush_finished_tools :: "builder \<Rightarrow> builder" where
  "flush_finished_tools b =
     (let (c, ts) = flush_tools (bd_content b) (bd_open_tools b) in
      b\<lparr>bd_content := c, bd_open_tools := ts\<rparr>)"

text \<open>\<open>open_tools.iter_mut().find(id)\<close>, the update of the tool found.\<close>

fun update_tool :: "string \<Rightarrow> (open_tool \<Rightarrow> open_tool) \<Rightarrow> open_tool list \<Rightarrow> open_tool list" where
  "update_tool i f [] = []"
| "update_tool i f (t # ts) = (if ot_id t = i then f t # ts else t # update_tool i f ts)"

definition find_tool :: "string \<Rightarrow> open_tool list \<Rightarrow> open_tool option" where
  "find_tool i ts = find (\<lambda>t. ot_id t = i) ts"

definition builder_pending_block :: "builder \<Rightarrow> pending_block option" where
  "builder_pending_block b =
     (case find (\<lambda>t. ot_finished t = None) (bd_open_tools b) of
        Some t \<Rightarrow> Some (PbToolUse (ot_id t) (ot_name t) (ot_input_json t))
      | None \<Rightarrow>
          (case bd_open_part b of
             Some (OpText _) \<Rightarrow>
               if bd_open_text b \<noteq> [] then Some (PbText (bd_open_text b)) else None
           | Some (OpThinking _) \<Rightarrow>
               if bd_open_thinking b \<noteq> [] then Some (PbThinking (bd_open_thinking b)) else None
           | None \<Rightarrow> None))"

definition snapshot_of :: "builder \<Rightarrow> snapshot" where
  "snapshot_of b =
     \<lparr>sn_content = bd_content b, sn_pending = builder_pending_block b,
      sn_stop_reason = bd_stop_reason b, sn_usage = bd_usage b, sn_model = bd_model b\<rparr>"

text \<open>The match of \<open>apply\<close> on one event of an unfinished stream.\<close>

fun apply_open :: "builder \<Rightarrow> stream_event \<Rightarrow> (llm_error + unit) \<times> builder" where
  "apply_open b (TextPart i t) =
     (let b' = ensure_text_part i b in
      (Inr (), b'\<lparr>bd_open_text := bd_open_text b' @ t\<rparr>))"
| "apply_open b (ThinkingPart i t) =
     (let b' = ensure_thinking_part i b in
      (Inr (), b'\<lparr>bd_open_thinking := bd_open_thinking b' @ t\<rparr>))"
| "apply_open b (ToolUseStarted i n) =
     (let b' = flush_open_part b in
      if \<exists>t \<in> set (bd_open_tools b'). ot_id t = i then
        (Inl (unrecoverable (''duplicate ToolUseStarted for '' @ i)), b')
      else
        (Inr (), b'\<lparr>bd_open_tools := bd_open_tools b' @
           [\<lparr>ot_id = i, ot_name = n, ot_input_json = [], ot_finished = None\<rparr>]\<rparr>))"
| "apply_open b (ToolUsePart i j) =
     (case find_tool i (bd_open_tools b) of
        None \<Rightarrow> (Inl (unrecoverable (''ToolUsePart without ToolUseStarted for '' @ i)), b)
      | Some t \<Rightarrow>
          if ot_finished t \<noteq> None then
            (Inl (unrecoverable (''ToolUsePart after ToolUseFinished for '' @ i)), b)
          else
            (Inr (), b\<lparr>bd_open_tools :=
               update_tool i (\<lambda>t. t\<lparr>ot_input_json := ot_input_json t @ j\<rparr>) (bd_open_tools b)\<rparr>))"
| "apply_open b (ToolUseFinished i n v) =
     (case find_tool i (bd_open_tools b) of
        None \<Rightarrow> (Inl (unrecoverable (''ToolUseFinished without ToolUseStarted for '' @ i)), b)
      | Some t \<Rightarrow>
          if ot_finished t \<noteq> None then
            (Inl (unrecoverable (''duplicate ToolUseFinished for '' @ i)), b)
          else
            (Inr (), flush_finished_tools (b\<lparr>bd_open_tools :=
               update_tool i (\<lambda>t. t\<lparr>ot_finished := Some (n, v)\<rparr>) (bd_open_tools b)\<rparr>)))"
| "apply_open b (Finished sr u rid) =
     (let b' = flush_open_part b in
      if bd_open_tools b' \<noteq> [] then
        (Inl (unrecoverable ''Finished with unfinished tool use''), b')
      else
        (Inr (), b'\<lparr>bd_stop_reason := Some sr, bd_usage := u, bd_response_id := rid,
                     bd_finished := True\<rparr>))"

definition apply_event :: "builder \<Rightarrow> stream_event \<Rightarrow> (llm_error + snapshot) \<times> builder" where
  "apply_event b e =
     (if bd_finished b then (Inl (unrecoverable ''stream already finished''), b)
      else case apply_open b e of
        (Inl err, b') \<Rightarrow> (Inl err, b')
      | (Inr _, b') \<Rightarrow> (Inr (snapshot_of b'), b'))"

definition finish :: "builder \<Rightarrow> llm_error + model_response" where
  "finish b =
     (if \<not> bd_finished b then Inl (unrecoverable ''stream ended without Finished'')
      else case bd_stop_reason b of
        None \<Rightarrow> Inl (unrecoverable ''Finished without stop_reason'')
      | Some sr \<Rightarrow>
          Inr \<lparr>rs_content = bd_content b, rs_stop_reason = sr, rs_usage = bd_usage b,
               rs_model = bd_model b, rs_response_id = bd_response_id b\<rparr>)"

section \<open>The fold of a provider stream\<close>

text \<open>
  \<open>run_model_call_with_updates\<close>: an item of the stream is an event or the provider's error;
  \<open>upd\<close> is the callback on snapshots, threading the caller's state. The stream is the list
  of its items until it ends.
\<close>

fun fold_stream ::
  "builder \<Rightarrow> (llm_error + stream_event) list \<Rightarrow> (snapshot \<Rightarrow> 's \<Rightarrow> 's) \<Rightarrow> 's \<Rightarrow>
   (llm_error + builder) \<times> 's" where
  "fold_stream b [] upd s = (Inr b, s)"
| "fold_stream b (Inl err # items) upd s = (Inl err, s)"
| "fold_stream b (Inr e # items) upd s =
     (case apply_event b e of
        (Inl err, _) \<Rightarrow> (Inl err, s)
      | (Inr snap, b') \<Rightarrow> fold_stream b' items upd (upd snap s))"

definition run_model_call_with_updates ::
  "string \<Rightarrow> (llm_error + stream_event) list \<Rightarrow> (snapshot \<Rightarrow> 's \<Rightarrow> 's) \<Rightarrow> 's \<Rightarrow>
   (llm_error + model_response) \<times> 's" where
  "run_model_call_with_updates model items upd s =
     (case fold_stream (builder_new model) items upd s of
        (Inl err, s') \<Rightarrow> (Inl err, s')
      | (Inr b, s') \<Rightarrow> (finish b, s'))"

definition run_model_call ::
  "string \<Rightarrow> (llm_error + stream_event) list \<Rightarrow> llm_error + model_response" where
  "run_model_call model items = fst (run_model_call_with_updates model items (\<lambda>_ s. s) ())"

text \<open>\<open>complete\<close> is an alias of \<open>run_model_call\<close>.\<close>

definition complete_call ::
  "string \<Rightarrow> (llm_error + stream_event) list \<Rightarrow> llm_error + model_response" where
  "complete_call model items = run_model_call model items"

section \<open>Frame facts\<close>

lemma flush_open_part_frame [simp]:
  "bd_open_tools (flush_open_part b) = bd_open_tools b"
  "bd_finished (flush_open_part b) = bd_finished b"
  "bd_stop_reason (flush_open_part b) = bd_stop_reason b"
  "bd_model (flush_open_part b) = bd_model b"
  "bd_open_part (flush_open_part b) = None"
  by (auto simp: flush_open_part_def Let_def split: option.splits open_part_kind.splits)

lemma ensure_part_frame [simp]:
  "bd_open_tools (ensure_text_part i b) = bd_open_tools b"
  "bd_open_tools (ensure_thinking_part i b) = bd_open_tools b"
  "bd_finished (ensure_text_part i b) = bd_finished b"
  "bd_finished (ensure_thinking_part i b) = bd_finished b"
  "bd_stop_reason (ensure_text_part i b) = bd_stop_reason b"
  "bd_stop_reason (ensure_thinking_part i b) = bd_stop_reason b"
  "bd_open_part (ensure_text_part i b) = Some (OpText i)"
  "bd_open_part (ensure_thinking_part i b) = Some (OpThinking i)"
  by (auto simp: ensure_text_part_def ensure_thinking_part_def Let_def
           split: option.splits open_part_kind.splits if_splits)

lemma flush_finished_tools_frame [simp]:
  "bd_finished (flush_finished_tools b) = bd_finished b"
  "bd_stop_reason (flush_finished_tools b) = bd_stop_reason b"
  "bd_open_part (flush_finished_tools b) = bd_open_part b"
  "bd_open_text (flush_finished_tools b) = bd_open_text b"
  "bd_open_thinking (flush_finished_tools b) = bd_open_thinking b"
  by (auto simp: flush_finished_tools_def split: prod.splits)

text \<open>The block a finished tool of the queue becomes.\<close>

definition tool_block :: "open_tool \<Rightarrow> content_block" where
  "tool_block t =
     (case ot_finished t of Some (n, v) \<Rightarrow> CbToolUse (ot_id t) n v | None \<Rightarrow> CbToolUse (ot_id t) (ot_name t) JNull)"

lemma is_tool_use_tool_block [simp]: "is_tool_use (tool_block t)" "\<not> is_text_block (tool_block t)"
  by (auto simp: tool_block_def split: option.splits)

lemma flush_tools_split:
  "flush_tools c ts = (c', ts') \<Longrightarrow>
   \<exists>pre. ts = pre @ ts' \<and> (\<forall>t \<in> set pre. ot_finished t \<noteq> None) \<and> c' = c @ map tool_block pre
     \<and> (ts' = [] \<or> ot_finished (hd ts') = None)"
proof (induction c ts rule: flush_tools.induct)
  case (1 c)
  then show ?case by simp
next
  case (2 c t ts)
  show ?case
  proof (cases "ot_finished t")
    case None
    with 2 show ?thesis by auto
  next
    case (Some nv)
    obtain n v where nv: "nv = (n, v)" by (cases nv)
    have "flush_tools (c @ [CbToolUse (ot_id t) n v]) ts = (c', ts')"
      using "2.prems" Some nv by simp
    then obtain pre where "ts = pre @ ts'" and "\<forall>t \<in> set pre. ot_finished t \<noteq> None"
        and "c' = (c @ [CbToolUse (ot_id t) n v]) @ map tool_block pre"
        and "ts' = [] \<or> ot_finished (hd ts') = None"
      using "2.IH" [OF Some nv [symmetric]] nv by blast
    with Some nv show ?thesis by (intro exI [of _ "t # pre"]) (simp add: tool_block_def)
  qed
qed

lemma find_tool_simps [simp]:
  "find_tool i [] = None"
  "find_tool i (t # ts) = (if ot_id t = i then Some t else find_tool i ts)"
  by (simp_all add: find_tool_def)

lemma find_tool_None: "find_tool i ts = None \<longleftrightarrow> i \<notin> ot_id ` set ts"
  by (induction ts) auto

lemma find_tool_Some: "find_tool i ts = Some t \<Longrightarrow> t \<in> set ts \<and> ot_id t = i"
  by (induction ts) (auto split: if_splits)

lemma find_tool_distinct:
  "distinct (map ot_id ts) \<Longrightarrow> t \<in> set ts \<Longrightarrow> find_tool (ot_id t) ts = Some t"
  by (induction ts) (auto simp: image_iff)

lemma update_tool_ids:
  "(\<And>t. ot_id (f t) = ot_id t) \<Longrightarrow> map ot_id (update_tool i f ts) = map ot_id ts"
  by (induction ts) auto

section \<open>Invariant\<close>

text \<open>
  Text is buffered only under an open text part, thinking only under an open thinking part;
  the queued tools have distinct ids and an unfinished front; a finished builder has a stop
  reason, and nothing open.
\<close>

definition builder_inv :: "builder \<Rightarrow> bool" where
  "builder_inv b \<longleftrightarrow>
     (bd_open_text b \<noteq> [] \<longrightarrow> (\<exists>i. bd_open_part b = Some (OpText i)))
     \<and> (bd_open_thinking b \<noteq> [] \<longrightarrow> (\<exists>i. bd_open_part b = Some (OpThinking i)))
     \<and> distinct (map ot_id (bd_open_tools b))
     \<and> (bd_open_tools b \<noteq> [] \<longrightarrow> ot_finished (hd (bd_open_tools b)) = None)
     \<and> (bd_finished b \<longleftrightarrow> bd_stop_reason b \<noteq> None)
     \<and> (bd_finished b \<longrightarrow> bd_open_tools b = [] \<and> bd_open_part b = None)"

lemma builder_inv_new: "builder_inv (builder_new m)"
  by (simp add: builder_inv_def builder_new_def)

lemma flush_open_part_buffers:
  "builder_inv b \<Longrightarrow>
   bd_open_text (flush_open_part b) = [] \<and> bd_open_thinking (flush_open_part b) = []"
  unfolding builder_inv_def
  by (cases "bd_open_part b"; cases "the (bd_open_part b)")
     (fastforce simp: flush_open_part_def Let_def)+

lemma builder_inv_flush: "builder_inv b \<Longrightarrow> builder_inv (flush_open_part b)"
  using flush_open_part_buffers [of b] by (simp add: builder_inv_def)

lemma builder_inv_text:
  assumes "builder_inv b" and "\<not> bd_finished b"
  shows "builder_inv ((ensure_text_part i b)\<lparr>bd_open_text := bd_open_text (ensure_text_part i b) @ t\<rparr>)"
proof (cases "bd_open_part b = Some (OpText i)")
  case True
  with assms show ?thesis by (auto simp: builder_inv_def ensure_text_part_def)
next
  case False
  then have "ensure_text_part i b = (flush_open_part b)\<lparr>bd_open_part := Some (OpText i)\<rparr>"
    by (auto simp: ensure_text_part_def Let_def split: option.splits open_part_kind.splits)
  with assms flush_open_part_buffers [OF assms(1)] show ?thesis by (simp add: builder_inv_def)
qed

lemma builder_inv_thinking:
  assumes "builder_inv b" and "\<not> bd_finished b"
  shows "builder_inv ((ensure_thinking_part i b)
           \<lparr>bd_open_thinking := bd_open_thinking (ensure_thinking_part i b) @ t\<rparr>)"
proof (cases "bd_open_part b = Some (OpThinking i)")
  case True
  with assms show ?thesis by (auto simp: builder_inv_def ensure_thinking_part_def)
next
  case False
  then have "ensure_thinking_part i b = (flush_open_part b)\<lparr>bd_open_part := Some (OpThinking i)\<rparr>"
    by (auto simp: ensure_thinking_part_def Let_def split: option.splits open_part_kind.splits)
  with assms flush_open_part_buffers [OF assms(1)] show ?thesis by (simp add: builder_inv_def)
qed

lemma builder_inv_flush_tools:
  assumes "builder_inv b" and "\<not> bd_finished b" and "distinct (map ot_id ts)"
  shows "builder_inv (flush_finished_tools (b\<lparr>bd_open_tools := ts\<rparr>))"
proof -
  obtain c' ts' where f: "flush_tools (bd_content b) ts = (c', ts')" by fastforce
  then obtain pre where "ts = pre @ ts'" and "ts' = [] \<or> ot_finished (hd ts') = None"
    using flush_tools_split by blast
  with assms f show ?thesis by (auto simp: builder_inv_def flush_finished_tools_def)
qed

lemma update_part_hd:
  "ts \<noteq> [] \<Longrightarrow> ot_finished (hd (update_tool i (\<lambda>t. t\<lparr>ot_input_json := g t\<rparr>) ts)) = ot_finished (hd ts)"
  by (cases ts) auto

lemma update_tool_Nil [simp]: "update_tool i f ts = [] \<longleftrightarrow> ts = []"
  by (cases ts) auto

lemma apply_open_inv:
  assumes "builder_inv b" and "\<not> bd_finished b"
  shows "builder_inv (snd (apply_open b e))"
proof (cases e)
  case (TextPart i t)
  with assms show ?thesis by (simp add: Let_def builder_inv_text)
next
  case (ThinkingPart i t)
  with assms show ?thesis by (simp add: Let_def builder_inv_thinking)
next
  case (ToolUseStarted i n)
  with builder_inv_flush [OF assms(1)] assms show ?thesis
    by (cases "bd_open_tools b") (auto simp: Let_def builder_inv_def hd_append)
next
  case (ToolUsePart i j)
  with assms show ?thesis
    by (auto simp: builder_inv_def update_tool_ids update_part_hd split: option.splits)
next
  case (ToolUseFinished i n v)
  have "distinct (map ot_id (update_tool i (\<lambda>t. t\<lparr>ot_finished := Some (n, v)\<rparr>) (bd_open_tools b)))"
    using assms(1) by (simp add: builder_inv_def update_tool_ids)
  with ToolUseFinished assms show ?thesis
    by (auto simp: builder_inv_flush_tools split: option.splits)
next
  case (Finished sr u rid)
  with builder_inv_flush [OF assms(1)] assms show ?thesis
    by (auto simp: Let_def builder_inv_def)
qed

lemma apply_event_cases:
  obtains (fin) "bd_finished b" "apply_event b e = (Inl (unrecoverable ''stream already finished''), b)"
  | (err) x b' where "\<not> bd_finished b" "apply_open b e = (Inl x, b')" "apply_event b e = (Inl x, b')"
  | (ok) b' where "\<not> bd_finished b" "apply_open b e = (Inr (), b')"
      "apply_event b e = (Inr (snapshot_of b'), b')"
proof (cases "bd_finished b")
  case True
  then show ?thesis by (intro fin) (simp_all add: apply_event_def)
next
  case False
  obtain r b' where r: "apply_open b e = (r, b')" by (cases "apply_open b e")
  show ?thesis
  proof (cases r)
    case (Inl x)
    show ?thesis by (rule err [of x b']) (use False r Inl in \<open>simp_all add: apply_event_def\<close>)
  next
    case (Inr u)
    show ?thesis by (rule ok [of b']) (use False r Inr in \<open>simp_all add: apply_event_def\<close>)
  qed
qed

lemma apply_event_inv: "builder_inv b \<Longrightarrow> builder_inv (snd (apply_event b e))"
  using apply_open_inv [of b e] by (cases rule: apply_event_cases [of b e]) auto

section \<open>Runs over event lists\<close>

fun run_events :: "builder \<Rightarrow> stream_event list \<Rightarrow> llm_error + builder" where
  "run_events b [] = Inr b"
| "run_events b (e # es) =
     (case apply_event b e of (Inl err, _) \<Rightarrow> Inl err | (Inr _, b') \<Rightarrow> run_events b' es)"

lemma fold_stream_run_events: "fst (fold_stream b (map Inr es) upd s) = run_events b es"
proof (induction es arbitrary: b s)
  case Nil
  then show ?case by simp
next
  case (Cons e es)
  then show ?case by (cases rule: apply_event_cases [of b e]) simp_all
qed

lemma run_model_call_events:
  "run_model_call m (map Inr es) =
     (case run_events (builder_new m) es of Inl err \<Rightarrow> Inl err | Inr b \<Rightarrow> finish b)"
  using fold_stream_run_events [of "builder_new m" es "\<lambda>_ s. s" "()"]
  by (auto simp: run_model_call_def run_model_call_with_updates_def split: prod.splits sum.splits)

lemma run_events_ConsE:
  assumes "run_events b (e # es) = Inr b'"
  obtains b1 where "\<not> bd_finished b" "apply_open b e = (Inr (), b1)" "run_events b1 es = Inr b'"
proof (cases rule: apply_event_cases [of b e])
  case fin
  with assms show ?thesis by simp
next
  case (err x b1)
  with assms show ?thesis by simp
next
  case (ok b1)
  with assms show ?thesis by (intro that [of b1]) simp_all
qed

lemma run_events_inv: "run_events b es = Inr b' \<Longrightarrow> builder_inv b \<Longrightarrow> builder_inv b'"
proof (induction es arbitrary: b)
  case Nil
  then show ?case by simp
next
  case (Cons e es)
  from Cons.prems(1) obtain b1 where "\<not> bd_finished b" "apply_open b e = (Inr (), b1)"
    "run_events b1 es = Inr b'" by (rule run_events_ConsE)
  with Cons.IH [of b1] apply_open_inv [OF Cons.prems(2), of e] show ?case by simp
qed

lemma finish_ok_iff: "builder_inv b \<Longrightarrow> is_ok (finish b) \<longleftrightarrow> bd_finished b"
  by (auto simp: finish_def builder_inv_def)

lemma finish_content: "finish b = Inr r \<Longrightarrow> rs_content r = bd_content b \<and> bd_finished b"
  by (auto simp: finish_def split: if_splits option.splits)

lemma run_model_callE:
  assumes "run_model_call m (map Inr es) = Inr r"
  obtains b where "run_events (builder_new m) es = Inr b" "builder_inv b" "bd_finished b"
    "rs_content r = bd_content b"
proof -
  from assms obtain b where b: "run_events (builder_new m) es = Inr b" "finish b = Inr r"
    by (auto simp: run_model_call_events split: sum.splits)
  with that [of b] run_events_inv [OF b(1) builder_inv_new] finish_content [OF b(2)]
  show ?thesis by simp
qed

section \<open>What the content of a response is\<close>

text \<open>
  The tool-use blocks a stream denotes: one per \<open>ToolUseStarted\<close>, in the order of the starts,
  with the name and input of the first \<open>ToolUseFinished\<close> of that id after it.
\<close>

fun find_finish :: "string \<Rightarrow> stream_event list \<Rightarrow> (string \<times> json) option" where
  "find_finish i [] = None"
| "find_finish i (ToolUseFinished j n v # es) = (if i = j then Some (n, v) else find_finish i es)"
| "find_finish i (_ # es) = find_finish i es"

fun tool_blocks :: "stream_event list \<Rightarrow> content_block list" where
  "tool_blocks [] = []"
| "tool_blocks (ToolUseStarted i n # es) =
     (case find_finish i es of Some (m, v) \<Rightarrow> [CbToolUse i m v] | None \<Rightarrow> []) @ tool_blocks es"
| "tool_blocks (_ # es) = tool_blocks es"

text \<open>
  The text and thinking blocks a stream denotes: maximal runs of deltas of one kind and one
  block index, cut by the start of a tool use, without the empty ones.
\<close>

fun emit_part :: "open_part_kind option \<Rightarrow> string \<Rightarrow> content_block list" where
  "emit_part (Some (OpText _)) s = (if s = [] then [] else [CbText s])"
| "emit_part (Some (OpThinking _)) s = (if s = [] then [] else [CbThinking s])"
| "emit_part None s = []"

fun part_blocks :: "open_part_kind option \<Rightarrow> string \<Rightarrow> stream_event list \<Rightarrow> content_block list" where
  "part_blocks k s [] = emit_part k s"
| "part_blocks k s (TextPart i t # es) =
     (if k = Some (OpText i) then part_blocks k (s @ t) es
      else emit_part k s @ part_blocks (Some (OpText i)) t es)"
| "part_blocks k s (ThinkingPart i t # es) =
     (if k = Some (OpThinking i) then part_blocks k (s @ t) es
      else emit_part k s @ part_blocks (Some (OpThinking i)) t es)"
| "part_blocks k s (ToolUseStarted _ _ # es) = emit_part k s @ part_blocks None [] es"
| "part_blocks k s (ToolUsePart _ _ # es) = part_blocks k s es"
| "part_blocks k s (ToolUseFinished _ _ _ # es) = part_blocks k s es"
| "part_blocks k s (Finished _ _ _ # es) = emit_part k s @ part_blocks None [] es"

definition open_buffer :: "builder \<Rightarrow> string" where
  "open_buffer b =
     (case bd_open_part b of
        Some (OpText _) \<Rightarrow> bd_open_text b | Some (OpThinking _) \<Rightarrow> bd_open_thinking b | None \<Rightarrow> [])"

lemma flush_content: "bd_content (flush_open_part b) = bd_content b @ emit_part (bd_open_part b) (open_buffer b)"
  by (auto simp: flush_open_part_def open_buffer_def Let_def
           split: option.splits open_part_kind.splits)

lemma emit_part_kinds [simp]:
  "filter is_tool_use (emit_part k s) = []"
  "filter is_text_block (emit_part k s) = emit_part k s"
  by (cases "(k, s)" rule: emit_part.cases; simp)+

lemma ensure_content:
  "bd_content (ensure_text_part i b) =
     bd_content b @ (if bd_open_part b = Some (OpText i) then [] else emit_part (bd_open_part b) (open_buffer b))"
  "bd_content (ensure_thinking_part i b) =
     bd_content b @ (if bd_open_part b = Some (OpThinking i) then [] else emit_part (bd_open_part b) (open_buffer b))"
  by (auto simp: ensure_text_part_def ensure_thinking_part_def Let_def flush_content
           split: option.splits open_part_kind.splits)

lemma ensure_buffers:
  assumes "builder_inv b"
  shows "bd_open_text (ensure_text_part i b) = (if bd_open_part b = Some (OpText i) then open_buffer b else [])"
    and "bd_open_thinking (ensure_thinking_part i b) = (if bd_open_part b = Some (OpThinking i) then open_buffer b else [])"
  using flush_open_part_buffers [OF assms]
  by (auto simp: ensure_text_part_def ensure_thinking_part_def Let_def open_buffer_def
           split: option.splits open_part_kind.splits)

lemma flush_finished_tools_text:
  "filter is_text_block (bd_content (flush_finished_tools b)) = filter is_text_block (bd_content b)"
proof -
  obtain c' ts' where f: "flush_tools (bd_content b) (bd_open_tools b) = (c', ts')" by fastforce
  then obtain pre where "c' = bd_content b @ map tool_block pre" using flush_tools_split by blast
  with f show ?thesis by (simp add: flush_finished_tools_def comp_def)
qed

lemma run_events_text_blocks:
  assumes "run_events b es = Inr b'" and "builder_inv b" and "bd_finished b'"
  shows "filter is_text_block (bd_content b') =
    filter is_text_block (bd_content b) @ part_blocks (bd_open_part b) (open_buffer b) es"
  using assms
proof (induction es arbitrary: b)
  case Nil
  then show ?case by (simp add: builder_inv_def)
next
  case (Cons e es)
  from Cons.prems(1) obtain b1 where nf: "\<not> bd_finished b" and ap: "apply_open b e = (Inr (), b1)"
    and run: "run_events b1 es = Inr b'" by (rule run_events_ConsE)
  have inv1: "builder_inv b1" using apply_open_inv [OF Cons.prems(2) nf, of e] ap by simp
  note IH = Cons.IH [OF run inv1 Cons.prems(3)]
  note bufs = ensure_buffers [OF Cons.prems(2)]
  show ?case
  proof (cases e)
    case (TextPart i t)
    with ap have "b1 = (ensure_text_part i b)\<lparr>bd_open_text := bd_open_text (ensure_text_part i b) @ t\<rparr>"
      by (simp add: Let_def)
    with IH TextPart bufs show ?thesis by (simp add: ensure_content open_buffer_def)
  next
    case (ThinkingPart i t)
    with ap have "b1 = (ensure_thinking_part i b)
        \<lparr>bd_open_thinking := bd_open_thinking (ensure_thinking_part i b) @ t\<rparr>"
      by (simp add: Let_def)
    with IH ThinkingPart bufs show ?thesis by (simp add: ensure_content open_buffer_def)
  next
    case (ToolUseStarted i n)
    with ap have "bd_content b1 = bd_content (flush_open_part b) \<and> bd_open_part b1 = None"
      by (auto simp: Let_def split: if_splits)
    with IH ToolUseStarted show ?thesis by (simp add: flush_content open_buffer_def)
  next
    case (ToolUsePart i j)
    with ap have "bd_content b1 = bd_content b \<and> bd_open_part b1 = bd_open_part b \<and> open_buffer b1 = open_buffer b"
      by (auto simp: open_buffer_def split: option.splits if_splits open_part_kind.splits)
    with IH ToolUsePart show ?thesis by simp
  next
    case (ToolUseFinished i n v)
    with ap have "filter is_text_block (bd_content b1) = filter is_text_block (bd_content b)
        \<and> bd_open_part b1 = bd_open_part b \<and> open_buffer b1 = open_buffer b"
      by (auto simp: open_buffer_def flush_finished_tools_text
               split: option.splits if_splits open_part_kind.splits)
    with IH ToolUseFinished show ?thesis by simp
  next
    case (Finished sr u rid)
    with ap have "bd_content b1 = bd_content (flush_open_part b) \<and> bd_open_part b1 = None"
      by (auto simp: Let_def split: if_splits)
    with IH Finished show ?thesis by (simp add: flush_content open_buffer_def)
  qed
qed

definition open_block :: "stream_event list \<Rightarrow> open_tool \<Rightarrow> content_block list" where
  "open_block es t =
     (case ot_finished t of
        Some (n, v) \<Rightarrow> [CbToolUse (ot_id t) n v]
      | None \<Rightarrow> (case find_finish (ot_id t) es of Some (n, v) \<Rightarrow> [CbToolUse (ot_id t) n v] | None \<Rightarrow> []))"

lemma open_block_finished: "ot_finished t \<noteq> None \<Longrightarrow> open_block es t = [tool_block t]"
  by (auto simp: open_block_def tool_block_def)

lemma concat_open_block_finished:
  "\<forall>t \<in> set pre. ot_finished t \<noteq> None \<Longrightarrow> concat (map (open_block es) pre) = map tool_block pre"
  by (induction pre) (auto simp: open_block_finished)

lemma open_block_part: "open_block es (t\<lparr>ot_input_json := j\<rparr>) = open_block es t"
  by (simp add: open_block_def cong: option.case_cong)

lemma concat_open_block_update:
  "(\<And>t. open_block es (f t) = open_block es t) \<Longrightarrow>
   concat (map (open_block es) (update_tool i f ts)) = concat (map (open_block es) ts)"
  by (induction ts) auto

lemma open_block_other:
  "(\<And>i n v. e \<noteq> ToolUseFinished i n v) \<Longrightarrow> open_block (e # es) t = open_block es t"
  by (cases e) (auto simp: open_block_def cong: option.case_cong)

lemma concat_open_block_other:
  "(\<And>i n v. e \<noteq> ToolUseFinished i n v) \<Longrightarrow>
   concat (map (open_block (e # es)) ts) = concat (map (open_block es) ts)"
  by (induction ts) (auto simp: open_block_other)

lemma open_block_finish_self:
  "ot_finished t = None \<Longrightarrow>
   open_block (ToolUseFinished (ot_id t) n v # es) t = [CbToolUse (ot_id t) n v]"
  "open_block es (t\<lparr>ot_finished := Some (n, v)\<rparr>) = [CbToolUse (ot_id t) n v]"
  by (simp_all add: open_block_def)

lemma concat_open_block_finish:
  assumes "distinct (map ot_id ts)" and "find_tool i ts = Some t" and "ot_finished t = None"
  shows "concat (map (open_block (ToolUseFinished i n v # es)) ts) =
    concat (map (open_block es) (update_tool i (\<lambda>t. t\<lparr>ot_finished := Some (n, v)\<rparr>) ts))"
  using assms
proof (induction ts)
  case Nil
  then show ?case by simp
next
  case (Cons u us)
  have same: "open_block (ToolUseFinished i n v # es) w = open_block es w" if "ot_id w \<noteq> i" for w
    using that by (auto simp: open_block_def cong: option.case_cong)
  show ?case
  proof (cases "ot_id u = i")
    case True
    then have "\<forall>w \<in> set us. ot_id w \<noteq> i" using Cons.prems(1) by (force simp: image_iff)
    then have "concat (map (open_block (ToolUseFinished i n v # es)) us) = concat (map (open_block es) us)"
      by (metis (no_types, lifting) map_cong same)
    with True Cons.prems open_block_finish_self show ?thesis by auto
  next
    case False
    with Cons same show ?thesis by simp
  qed
qed

lemma run_events_finished: "run_events b es = Inr b' \<Longrightarrow> bd_finished b \<Longrightarrow> es = []"
  by (cases es) (auto simp: apply_event_def)

lemma run_events_tool_blocks:
  assumes "run_events b es = Inr b'" and "builder_inv b" and "bd_finished b'"
  shows "filter is_tool_use (bd_content b') =
    filter is_tool_use (bd_content b) @ concat (map (open_block es) (bd_open_tools b)) @ tool_blocks es"
  using assms
proof (induction es arbitrary: b)
  case Nil
  then show ?case by (simp add: builder_inv_def)
next
  case (Cons e es)
  from Cons.prems(1) obtain b1 where nf: "\<not> bd_finished b" and ap: "apply_open b e = (Inr (), b1)"
    and run: "run_events b1 es = Inr b'" by (rule run_events_ConsE)
  have inv1: "builder_inv b1" using apply_open_inv [OF Cons.prems(2) nf, of e] ap by simp
  note IH = Cons.IH [OF run inv1 Cons.prems(3)]
  show ?case
  proof (cases e)
    case (TextPart i t)
    with ap IH show ?thesis by (auto simp: Let_def ensure_content concat_open_block_other)
  next
    case (ThinkingPart i t)
    with ap IH show ?thesis by (auto simp: Let_def ensure_content concat_open_block_other)
  next
    case (ToolUseStarted i n)
    with ap IH show ?thesis
      by (auto simp: Let_def flush_content concat_open_block_other open_block_def [of es "\<lparr>ot_id = i, ot_name = n, ot_input_json = [], ot_finished = None\<rparr>"] split: if_splits option.splits)
  next
    case (ToolUsePart i j)
    with ap IH show ?thesis
      by (auto simp: concat_open_block_other concat_open_block_update open_block_part
               split: option.splits if_splits)
  next
    case (ToolUseFinished i n v)
    let ?ts = "update_tool i (\<lambda>t. t\<lparr>ot_finished := Some (n, v)\<rparr>) (bd_open_tools b)"
    obtain c' ts' where f: "flush_tools (bd_content b) ?ts = (c', ts')" by fastforce
    then obtain pre where pre: "?ts = pre @ ts'" "\<forall>t \<in> set pre. ot_finished t \<noteq> None"
      "c' = bd_content b @ map tool_block pre" using flush_tools_split by blast
    from ap ToolUseFinished obtain t where t: "find_tool i (bd_open_tools b) = Some t" "ot_finished t = None"
      and b1: "b1 = flush_finished_tools (b\<lparr>bd_open_tools := ?ts\<rparr>)"
      by (auto simp del: not_None_eq split: option.splits if_splits)
    have "concat (map (open_block (e # es)) (bd_open_tools b)) = concat (map (open_block es) ?ts)"
      using concat_open_block_finish [OF _ t] Cons.prems(2) ToolUseFinished by (simp add: builder_inv_def)
    with pre have "concat (map (open_block (e # es)) (bd_open_tools b)) =
        map tool_block pre @ concat (map (open_block es) ts')"
      by (simp add: concat_open_block_finished)
    with IH b1 f pre ToolUseFinished show ?thesis
      by (simp add: flush_finished_tools_def comp_def)
  next
    case (Finished sr u rid)
    with ap have b1: "bd_finished b1" "bd_content b1 = bd_content (flush_open_part b)" "bd_open_tools b = []"
        "bd_open_tools b1 = []"
      by (auto simp: Let_def split: if_splits)
    with run_events_finished [OF run] IH Finished show ?thesis by (simp add: flush_content)
  qed
qed

section \<open>Which streams are accepted\<close>

fun is_finish_event :: "stream_event \<Rightarrow> bool" where
  "is_finish_event (Finished _ _ _) = True"
| "is_finish_event _ = False"

fun event_tool_id :: "stream_event \<Rightarrow> string option" where
  "event_tool_id (ToolUseStarted i _) = Some i"
| "event_tool_id (ToolUsePart i _) = Some i"
| "event_tool_id (ToolUseFinished i _ _) = Some i"
| "event_tool_id _ = None"

definition tool_events :: "string \<Rightarrow> stream_event list \<Rightarrow> stream_event list" where
  "tool_events i es = filter (\<lambda>e. event_tool_id e = Some i) es"

lemma tool_events_simps [simp]:
  "tool_events i [] = []"
  "tool_events i (e # es) = (if event_tool_id e = Some i then e # tool_events i es else tool_events i es)"
  by (simp_all add: tool_events_def)

text \<open>The life of one tool id: \<open>ToolUseStarted\<close>, then parts, then \<open>ToolUseFinished\<close>.\<close>

datatype tool_phase = Fresh | Running | Closed

fun lifecycle :: "tool_phase \<Rightarrow> stream_event list \<Rightarrow> bool" where
  "lifecycle p [] = (p \<noteq> Running)"
| "lifecycle Fresh (ToolUseStarted _ _ # es) = lifecycle Running es"
| "lifecycle Running (ToolUsePart _ _ # es) = lifecycle Running es"
| "lifecycle Running (ToolUseFinished _ _ _ # es) = lifecycle Closed es"
| "lifecycle _ (_ # es) = False"

text \<open>
  The documented contract of a provider stream: exactly one \<open>Finished\<close>, last, and every
  tool id goes through its life once.
\<close>

definition conforming :: "stream_event list \<Rightarrow> bool" where
  "conforming es \<longleftrightarrow>
     es \<noteq> [] \<and> is_finish_event (last es) \<and> list_all (\<lambda>e. \<not> is_finish_event e) (butlast es)
     \<and> list_all (\<lambda>e. case event_tool_id e of None \<Rightarrow> True
                      | Some i \<Rightarrow> lifecycle Fresh (tool_events i (butlast es))) (butlast es)"

lemma conforming_lifecycle:
  assumes "conforming es"
  shows "lifecycle Fresh (tool_events i (butlast es))"
proof (cases "tool_events i (butlast es)")
  case Nil
  then show ?thesis by simp
next
  case (Cons e rest)
  then have "e \<in> set (butlast es)" and "event_tool_id e = Some i"
    by (auto simp: tool_events_def filter_eq_Cons_iff)
  with assms show ?thesis by (auto simp: conforming_def list_all_iff split: option.splits)
qed

definition run_ids :: "builder \<Rightarrow> string set" where
  "run_ids b = ot_id ` {t \<in> set (bd_open_tools b). ot_finished t = None}"

definition phase_of :: "builder \<Rightarrow> string set \<Rightarrow> string \<Rightarrow> tool_phase" where
  "phase_of b K i = (if i \<in> run_ids b then Running else if i \<in> K then Closed else Fresh)"

lemma set_update_tool_finish:
  assumes "distinct (map ot_id ts)" and "find_tool i ts = Some t"
  shows "set (update_tool i f ts) = insert (f t) (set ts - {t})"
  using assms
proof (induction ts)
  case Nil
  then show ?case by simp
next
  case (Cons u us)
  show ?case
  proof (cases "ot_id u = i")
    case True
    with Cons.prems show ?thesis by (auto simp: image_iff)
  next
    case False
    with Cons.prems have f: "find_tool i us = Some t" by simp
    then have "t \<noteq> u" using False find_tool_Some by metis
    with Cons.IH [OF _ f] Cons.prems False show ?thesis by auto
  qed
qed

lemma flush_finished_tools_set:
  assumes "flush_tools c ts = (c', ts')"
  shows "set ts' \<subseteq> set ts"
    and "{t \<in> set ts'. ot_finished t = None} = {t \<in> set ts. ot_finished t = None}"
proof -
  obtain pre where "ts = pre @ ts'" and "\<forall>t \<in> set pre. ot_finished t \<noteq> None"
    using flush_tools_split [OF assms] by blast
  then show "set ts' \<subseteq> set ts"
    and "{t \<in> set ts'. ot_finished t = None} = {t \<in> set ts. ot_finished t = None}" by auto
qed

lemma run_ids_running_find:
  assumes "builder_inv b" and "i \<in> run_ids b"
  obtains t where "find_tool i (bd_open_tools b) = Some t" "ot_finished t = None"
proof -
  from assms(2) obtain t where t: "t \<in> set (bd_open_tools b)" "ot_finished t = None" "ot_id t = i"
    by (auto simp: run_ids_def)
  with assms(1) that show ?thesis using find_tool_distinct [of "bd_open_tools b" t]
    by (simp add: builder_inv_def)
qed

lemma phase_of_cong: "run_ids b1 = run_ids b \<Longrightarrow> phase_of b1 K i = phase_of b K i"
  by (simp add: phase_of_def)

lemma lifecycle_Running_iff [simp]:
  "lifecycle p (ToolUseStarted i n # es) \<longleftrightarrow> p = Fresh \<and> lifecycle Running es"
  "lifecycle p (ToolUsePart i j # es) \<longleftrightarrow> p = Running \<and> lifecycle Running es"
  "lifecycle p (ToolUseFinished i n v # es) \<longleftrightarrow> p = Running \<and> lifecycle Closed es"
  by (cases p; simp)+

lemma apply_part_run_ids:
  assumes inv: "builder_inv b" and run: "i \<in> run_ids b"
  obtains b1 where "apply_open b (ToolUsePart i j) = (Inr (), b1)" "run_ids b1 = run_ids b"
    "\<And>t. t \<in> set (bd_open_tools b1) \<Longrightarrow> ot_finished t \<noteq> None \<Longrightarrow> t \<in> set (bd_open_tools b)"
proof -
  obtain t where t: "find_tool i (bd_open_tools b) = Some t" "ot_finished t = None"
    using run_ids_running_find [OF inv run] .
  let ?f = "\<lambda>t. t\<lparr>ot_input_json := ot_input_json t @ j\<rparr>"
  let ?b1 = "b\<lparr>bd_open_tools := update_tool i ?f (bd_open_tools b)\<rparr>"
  have s: "set (update_tool i ?f (bd_open_tools b)) = insert (?f t) (set (bd_open_tools b) - {t})"
    using set_update_tool_finish [OF _ t(1)] inv by (simp add: builder_inv_def)
  show ?thesis
  proof (rule that [of ?b1])
    show "apply_open b (ToolUsePart i j) = (Inr (), ?b1)" using t by simp
    show "run_ids ?b1 = run_ids b"
    proof -
      have "{u \<in> set (bd_open_tools ?b1). ot_finished u = None} =
          insert (?f t) ({u \<in> set (bd_open_tools b). ot_finished u = None} - {t})"
        using s t(2) by auto
      moreover have "{u \<in> set (bd_open_tools b). ot_finished u = None} =
          insert t ({u \<in> set (bd_open_tools b). ot_finished u = None} - {t})"
        using t(2) find_tool_Some [OF t(1)] by auto
      ultimately show ?thesis unfolding run_ids_def by (metis (no_types, lifting) image_insert open_tool.select_convs(1) open_tool.simps(1) open_tool.surjective open_tool.update_convs(3))
    qed
    show "u \<in> set (bd_open_tools b)" if "u \<in> set (bd_open_tools ?b1)" "ot_finished u \<noteq> None" for u
      using that s t(2) by auto
  qed
qed

lemma apply_finish_run_ids:
  assumes inv: "builder_inv b" and nf: "\<not> bd_finished b" and run: "i \<in> run_ids b"
  obtains b1 where "apply_open b (ToolUseFinished i n v) = (Inr (), b1)"
    "run_ids b1 = run_ids b - {i}"
    "\<And>t. t \<in> set (bd_open_tools b1) \<Longrightarrow> ot_finished t \<noteq> None \<Longrightarrow> ot_id t = i \<or> t \<in> set (bd_open_tools b)"
proof -
  obtain t where t: "find_tool i (bd_open_tools b) = Some t" "ot_finished t = None"
    using run_ids_running_find [OF inv run] .
  let ?f = "\<lambda>t. t\<lparr>ot_finished := Some (n, v)\<rparr>"
  let ?ts = "update_tool i ?f (bd_open_tools b)"
  let ?b1 = "flush_finished_tools (b\<lparr>bd_open_tools := ?ts\<rparr>)"
  obtain c' ts' where f: "flush_tools (bd_content b) ?ts = (c', ts')" by fastforce
  have s: "set ?ts = insert (?f t) (set (bd_open_tools b) - {t})"
    using set_update_tool_finish [OF _ t(1)] inv by (simp add: builder_inv_def)
  have tools1: "bd_open_tools ?b1 = ts'" using f by (simp add: flush_finished_tools_def)
  have d: "distinct (map ot_id (bd_open_tools b))" using inv by (simp add: builder_inv_def)
  have uniq: "u = t" if "u \<in> set (bd_open_tools b)" "ot_id u = i" for u
    using find_tool_distinct [OF d that(1)] that(2) t(1) by simp
  note ti = find_tool_Some [OF t(1)]
  have "?f t \<noteq> t"
  proof
    assume "?f t = t"
    then have "ot_finished (?f t) = None" using t(2) by (rule ssubst)
    then show False by simp
  qed
  with s t(2) have none: "{u \<in> set ?ts. ot_finished u = None} = {u \<in> set (bd_open_tools b). ot_finished u = None} - {t}"
    by auto
  have "run_ids ?b1 = ot_id ` ({u \<in> set (bd_open_tools b). ot_finished u = None} - {t})"
    using flush_finished_tools_set(2) [OF f] tools1 none by (simp add: run_ids_def)
  also have "\<dots> = run_ids b - {i}" using uniq ti by (auto simp: run_ids_def)
  finally have r: "run_ids ?b1 = run_ids b - {i}" .
  show ?thesis
  proof (rule that [of ?b1])
    show "apply_open b (ToolUseFinished i n v) = (Inr (), ?b1)" using t by simp
    show "run_ids ?b1 = run_ids b - {i}" by (rule r)
    show "ot_id u = i \<or> u \<in> set (bd_open_tools b)" if "u \<in> set (bd_open_tools ?b1)" for u
      using that s ti tools1 flush_finished_tools_set(1) [OF f] by auto
  qed
qed

lemma run_conforming:
  assumes "builder_inv b" and "\<not> bd_finished b"
    and "\<forall>e \<in> set pre. \<not> is_finish_event e"
    and "\<And>i. lifecycle (phase_of b K i) (tool_events i pre)"
    and "\<And>t. t \<in> set (bd_open_tools b) \<Longrightarrow> ot_finished t \<noteq> None \<Longrightarrow> ot_id t \<in> K"
  shows "\<exists>b'. run_events b (pre @ [Finished sr u rid]) = Inr b' \<and> bd_finished b'"
  using assms
proof (induction pre arbitrary: b K)
  case Nil
  have "i \<notin> run_ids b" for i using Nil.prems(4) [of i] by (auto simp: phase_of_def)
  then have "run_ids b = {}" by blast
  then have "bd_open_tools b = []"
    using Nil.prems(1) hd_in_set [of "bd_open_tools b"] by (fastforce simp: run_ids_def builder_inv_def)
  with Nil.prems(2) show ?case by (simp add: apply_event_def Let_def)
next
  case (Cons e pre)
  note life = Cons.prems(4)
  have step: "\<exists>b'. run_events b ((e # pre) @ [Finished sr u rid]) = Inr b' \<and> bd_finished b'"
    if ap: "apply_open b e = (Inr (), b1)" and nf1: "\<not> bd_finished b1"
      and life1: "\<And>i. lifecycle (phase_of b1 L i) (tool_events i pre)"
      and L: "\<And>t. t \<in> set (bd_open_tools b1) \<Longrightarrow> ot_finished t \<noteq> None \<Longrightarrow> ot_id t \<in> L" for b1 L
  proof -
    have "builder_inv b1" using apply_open_inv [OF Cons.prems(1,2), of e] ap by simp
    from Cons.IH [OF this nf1 _ life1 L] Cons.prems(3)
    have "\<exists>b'. run_events b1 (pre @ [Finished sr u rid]) = Inr b' \<and> bd_finished b'" by simp
    with ap Cons.prems(2) show ?thesis by (simp add: apply_event_def)
  qed
  have text_step: "\<exists>b'. run_events b ((e # pre) @ [Finished sr u rid]) = Inr b' \<and> bd_finished b'"
    if "apply_open b e = (Inr (), b1)" and same: "bd_open_tools b1 = bd_open_tools b"
      "bd_finished b1 = bd_finished b" and no: "event_tool_id e = None" for b1
  proof (rule step [OF that(1)])
    have "run_ids b1 = run_ids b" by (simp add: run_ids_def same)
    then show "lifecycle (phase_of b1 K i) (tool_events i pre)" for i
      using life [of i] no by (simp add: phase_of_def)
  qed (use same Cons.prems in auto)
  show ?case
  proof (cases e)
    case (TextPart i t)
    then obtain b1 where ap: "apply_open b e = (Inr (), b1)"
      and same: "bd_open_tools b1 = bd_open_tools b" "bd_finished b1 = bd_finished b"
      by (simp add: Let_def)
    show ?thesis by (rule text_step [OF ap same]) (simp add: TextPart)
  next
    case (ThinkingPart i t)
    then obtain b1 where ap: "apply_open b e = (Inr (), b1)"
      and same: "bd_open_tools b1 = bd_open_tools b" "bd_finished b1 = bd_finished b"
      by (simp add: Let_def)
    show ?thesis by (rule text_step [OF ap same]) (simp add: ThinkingPart)
  next
    case (ToolUseStarted i n)
    with life [of i] have fresh: "phase_of b K i = Fresh" and run: "lifecycle Running (tool_events i pre)"
      by auto
    then have nm: "i \<notin> run_ids b" "i \<notin> K" by (auto simp: phase_of_def split: if_splits)
    have no: "ot_id t \<noteq> i" if "t \<in> set (bd_open_tools b)" for t
      using nm Cons.prems(5) [OF that] that by (cases "ot_finished t = None") (auto simp: run_ids_def)
    show ?thesis
    proof (rule step [where L = K])
      fix j
      let ?b1 = "(flush_open_part b)\<lparr>bd_open_tools := bd_open_tools b @
          [\<lparr>ot_id = i, ot_name = n, ot_input_json = [], ot_finished = None\<rparr>]\<rparr>"
      have "run_ids ?b1 = insert i (run_ids b)" by (force simp: run_ids_def)
      then show "lifecycle (phase_of ?b1 K j) (tool_events j pre)"
        using life [of j] run ToolUseStarted
        by (cases "j = i") (simp_all add: phase_of_def split: if_splits)
    qed (use ToolUseStarted Cons.prems no in \<open>auto simp: Let_def\<close>)
  next
    case (ToolUsePart i j)
    with life [of i] have "i \<in> run_ids b" and run: "lifecycle Running (tool_events i pre)"
      by (auto simp: phase_of_def split: if_splits)
    then obtain b1 where b1: "apply_open b e = (Inr (), b1)" "run_ids b1 = run_ids b"
      "\<And>t. t \<in> set (bd_open_tools b1) \<Longrightarrow> ot_finished t \<noteq> None \<Longrightarrow> t \<in> set (bd_open_tools b)"
      using apply_part_run_ids [OF Cons.prems(1)] ToolUsePart by metis
    have "lifecycle (phase_of b1 K k) (tool_events k pre)" for k
      using life [of k] run ToolUsePart b1(2) \<open>i \<in> run_ids b\<close>
      by (cases "k = i") (auto simp: phase_of_def split: if_splits)
    moreover have "\<not> bd_finished b1" using b1(1) ToolUsePart Cons.prems(2)
      by (auto split: option.splits if_splits)
    ultimately show ?thesis using step [OF b1(1)] b1(3) Cons.prems(5) by blast
  next
    case (ToolUseFinished i n v)
    with life [of i] have "i \<in> run_ids b" and run: "lifecycle Closed (tool_events i pre)"
      by (auto simp: phase_of_def split: if_splits)
    then obtain b1 where b1: "apply_open b e = (Inr (), b1)" "run_ids b1 = run_ids b - {i}"
      "\<And>t. t \<in> set (bd_open_tools b1) \<Longrightarrow> ot_finished t \<noteq> None \<Longrightarrow> ot_id t = i \<or> t \<in> set (bd_open_tools b)"
      using apply_finish_run_ids [OF Cons.prems(1,2)] ToolUseFinished by metis
    have "lifecycle (phase_of b1 (insert i K) k) (tool_events k pre)" for k
      using life [of k] run ToolUseFinished b1(2)
      by (cases "k = i") (auto simp: phase_of_def split: if_splits)
    moreover have "\<not> bd_finished b1" using b1(1) ToolUseFinished Cons.prems(2)
      by (auto split: option.splits if_splits)
    ultimately show ?thesis using step [OF b1(1), of "insert i K"] b1(3) Cons.prems(5) by blast
  next
    case (Finished sr u rid)
    with Cons.prems(3) show ?thesis by simp
  qed
qed

lemma conforming_accepted: "conforming es \<Longrightarrow> is_ok (run_model_call m (map Inr es))"
proof -
  assume c: "conforming es"
  then have "es \<noteq> []" and fin: "is_finish_event (last es)"
    and pre: "\<forall>e \<in> set (butlast es). \<not> is_finish_event e"
    by (auto simp: conforming_def list_all_iff)
  from fin obtain sr u rid where l: "last es = Finished sr u rid" by (cases "last es") auto
  have "\<exists>b'. run_events (builder_new m) (butlast es @ [Finished sr u rid]) = Inr b' \<and> bd_finished b'"
  proof (rule run_conforming [where K = "{}", OF builder_inv_new _ pre])
    show "\<not> bd_finished (builder_new m)" by (simp add: builder_new_def)
    show "lifecycle (phase_of (builder_new m) {} i) (tool_events i (butlast es))" for i
      using conforming_lifecycle [OF c] by (simp add: phase_of_def run_ids_def builder_new_def)
  qed (simp add: builder_new_def)
  then obtain b where b: "run_events (builder_new m) es = Inr b" "bd_finished b"
    using append_butlast_last_id [OF \<open>es \<noteq> []\<close>] l by auto
  moreover have "builder_inv b" using run_events_inv [OF b(1) builder_inv_new] .
  ultimately show ?thesis using finish_ok_iff [of b] by (simp add: run_model_call_events)
qed

text \<open>Conversely an accepted stream ends with its only \<open>Finished\<close>.\<close>

lemma run_events_finish_last:
  assumes "run_events b es = Inr b'" and "\<not> bd_finished b" and "bd_finished b'"
  shows "es \<noteq> [] \<and> is_finish_event (last es) \<and> (\<forall>e \<in> set (butlast es). \<not> is_finish_event e)"
  using assms
proof (induction es arbitrary: b)
  case Nil
  then show ?case by simp
next
  case (Cons e es)
  from Cons.prems(1) obtain b1 where nf: "\<not> bd_finished b" and ap: "apply_open b e = (Inr (), b1)"
    and run: "run_events b1 es = Inr b'" by (rule run_events_ConsE)
  show ?case
  proof (cases "bd_finished b1")
    case True
    with run_events_finished [OF run] have "es = []" by simp
    moreover have "is_finish_event e"
      using True ap nf by (cases e) (auto simp: Let_def split: option.splits if_splits)
    ultimately show ?thesis by simp
  next
    case False
    with Cons.IH [OF run False Cons.prems(3)] ap show ?thesis
      by (cases e) (auto simp: Let_def split: if_splits)
  qed
qed

text \<open>The committed content of the snapshots only grows.\<close>

lemma apply_open_content: "\<exists>bs. bd_content (snd (apply_open b e)) = bd_content b @ bs"
proof (cases e)
  case (ToolUseFinished i n v)
  let ?ts = "update_tool i (\<lambda>t. t\<lparr>ot_finished := Some (n, v)\<rparr>) (bd_open_tools b)"
  obtain c' ts' where f: "flush_tools (bd_content b) ?ts = (c', ts')" by fastforce
  then obtain pre where "c' = bd_content b @ map tool_block pre" using flush_tools_split by blast
  with f ToolUseFinished show ?thesis by (auto simp: flush_finished_tools_def split: option.splits)
qed (auto simp: Let_def ensure_content flush_content split: option.splits)

lemma apply_event_content: "\<exists>bs. bd_content (snd (apply_event b e)) = bd_content b @ bs"
  using apply_open_content [of b e] by (cases rule: apply_event_cases [of b e]) auto

section \<open>Properties of the fold\<close>

text \<open>The text a list of blocks shows, and the text a stream delivers.\<close>

fun text_of_blocks :: "content_block list \<Rightarrow> string" where
  "text_of_blocks [] = []"
| "text_of_blocks (CbText t # bs) = t @ text_of_blocks bs"
| "text_of_blocks (_ # bs) = text_of_blocks bs"

fun text_deltas :: "stream_event list \<Rightarrow> string" where
  "text_deltas [] = []"
| "text_deltas (TextPart _ t # es) = t @ text_deltas es"
| "text_deltas (_ # es) = text_deltas es"

lemma text_of_blocks_append [simp]: "text_of_blocks (xs @ ys) = text_of_blocks xs @ text_of_blocks ys"
  by (induction xs rule: text_of_blocks.induct) auto

lemma text_of_emit_part:
  "text_of_blocks (emit_part k s) = (case k of Some (OpText _) \<Rightarrow> s | _ \<Rightarrow> [])"
  by (cases "(k, s)" rule: emit_part.cases) auto

lemma text_of_part_blocks:
  "text_of_blocks (part_blocks k s es) = (case k of Some (OpText _) \<Rightarrow> s | _ \<Rightarrow> []) @ text_deltas es"
  by (induction k s es rule: part_blocks.induct) (auto simp: text_of_emit_part split: option.splits open_part_kind.splits)

lemma text_of_blocks_filter: "text_of_blocks (filter is_text_block bs) = text_of_blocks bs"
  by (induction bs rule: text_of_blocks.induct) auto

lemma new_builder_blocks:
  "filter f (bd_content (builder_new m)) = []" "bd_open_tools (builder_new m) = []"
  "bd_open_part (builder_new m) = None" "open_buffer (builder_new m) = []" "\<not> bd_finished (builder_new m)"
  by (simp_all add: builder_new_def open_buffer_def)

text \<open>
  C12: the content of a completed model call is exactly what its stream denotes. The tool-use
  blocks are one per started tool, in the order of the starts, with the finished name and
  input; the text and thinking blocks are the maximal runs of deltas of one block; and the
  visible text is the concatenation of all text deltas: nothing is lost, duplicated or
  reordered.
\<close>

theorem response_content:
  assumes "run_model_call m (map Inr es) = Inr r"
  shows "filter is_tool_use (rs_content r) = tool_blocks es
    \<and> filter is_text_block (rs_content r) = part_blocks None [] es
    \<and> text_of_blocks (rs_content r) = text_deltas es"
proof -
  obtain b where b: "run_events (builder_new m) es = Inr b" "bd_finished b" "rs_content r = bd_content b"
    using run_model_callE [OF assms] by metis
  have parts: "filter is_text_block (rs_content r) = part_blocks None [] es"
    using run_events_text_blocks [OF b(1) builder_inv_new b(2)] b(3) by (simp add: new_builder_blocks)
  have "text_of_blocks (rs_content r) = text_of_blocks (part_blocks None [] es)"
    using parts text_of_blocks_filter [of "rs_content r"] by simp
  with parts show ?thesis
    using run_events_tool_blocks [OF b(1) builder_inv_new b(2)] b(3)
    by (simp add: new_builder_blocks text_of_part_blocks)
qed

definition demo_stream :: "stream_event list" where
  "demo_stream =
     [TextPart 0 ''a'', ToolUseStarted ''t1'' ''read'', ToolUseStarted ''t2'' ''grep'',
      ToolUsePart ''t2'' ''{}'', ToolUseFinished ''t2'' ''grep'' (JObj []), TextPart 0 ''b'',
      ToolUseFinished ''t1'' ''read'' (JObj []), TextPart 0 ''c'',
      Finished StopToolUse None None]"

lemma demo_stream_run:
  "run_model_call ''m'' (map Inr demo_stream) =
     Inr \<lparr>rs_content = [CbText ''a'', CbToolUse ''t1'' ''read'' (JObj []),
                       CbToolUse ''t2'' ''grep'' (JObj []), CbText ''bc''],
          rs_stop_reason = StopToolUse, rs_usage = None, rs_model = Some ''m'',
          rs_response_id = None\<rparr>"
  by code_simp

theorem response_content_witness:
  "\<exists>r. run_model_call ''m'' (map Inr demo_stream) = Inr r
    \<and> text_of_blocks (rs_content r) = ''abc'' \<and> length (filter is_tool_use (rs_content r)) = 2"
  using response_content [OF demo_stream_run] demo_stream_run
  by (simp add: demo_stream_def)

text \<open>
  every stream that keeps the documented provider contract (exactly one \<open>Finished\<close>, last;
  each tool id started, then parts, then finished, once, ids interleaved in any way) is
  folded into a response: the builder rejects no conforming stream.
\<close>

theorem conforming_stream_accepted:
  assumes "conforming es"
  shows "\<exists>r. run_model_call m (map Inr es) = Inr r"
  using conforming_accepted [OF assms, of m] by (simp add: is_ok_iff)

theorem conforming_stream_accepted_witness:
  "conforming demo_stream \<and> (\<exists>r. run_model_call ''m'' (map Inr demo_stream) = Inr r)"
proof -
  have c: "conforming demo_stream" by code_simp
  show ?thesis using c conforming_stream_accepted [OF c] by blast
qed

text \<open>
  a call that returns a response consumed a stream with exactly one \<open>Finished\<close>, and it was
  the last item; a stream that ends without it, or goes on after it, is an error.
\<close>

theorem accepted_stream_finished_last:
  assumes "run_model_call m (map Inr es) = Inr r"
  shows "es \<noteq> [] \<and> is_finish_event (last es) \<and> (\<forall>e \<in> set (butlast es). \<not> is_finish_event e)"
proof -
  obtain b where "run_events (builder_new m) es = Inr b" "bd_finished b"
    using run_model_callE [OF assms] by metis
  then show ?thesis using run_events_finish_last new_builder_blocks(5) by blast
qed

theorem accepted_stream_finished_last_witness:
  "is_finish_event (last demo_stream) \<and> list_all (\<lambda>e. \<not> is_finish_event e) (butlast demo_stream)"
  using accepted_stream_finished_last [OF demo_stream_run] by (simp add: list_all_iff)

lemma fold_stream_snapshots:
  assumes "fold_stream b items (\<lambda>sn acc. acc @ [sn]) acc = (Inr b', sns)"
    and "sorted_wrt prefix (map sn_content acc)"
    and "\<forall>sn \<in> set acc. prefix (sn_content sn) (bd_content b)"
  shows "sorted_wrt prefix (map sn_content sns) \<and> (\<forall>sn \<in> set sns. prefix (sn_content sn) (bd_content b'))"
  using assms
proof (induction items arbitrary: b acc)
  case Nil
  then show ?case by simp
next
  case (Cons item items)
  show ?case
  proof (cases item)
    case (Inl err)
    with Cons.prems show ?thesis by simp
  next
    case (Inr e)
    show ?thesis
    proof (cases rule: apply_event_cases [of b e])
      case fin
      with Inr Cons.prems show ?thesis by simp
    next
      case (err x b1)
      with Inr Cons.prems show ?thesis by simp
    next
      case (ok b1)
      obtain bs where "bd_content b1 = bd_content b @ bs" using apply_event_content [of b e] ok by auto
      then have "\<forall>sn \<in> set acc. prefix (sn_content sn) (bd_content b1)"
        using Cons.prems(3) by (metis prefix_prefix)
      with Cons.prems(2) have "sorted_wrt prefix (map sn_content (acc @ [snapshot_of b1]))
          \<and> (\<forall>sn \<in> set (acc @ [snapshot_of b1]). prefix (sn_content sn) (bd_content b1))"
        by (auto simp: sorted_wrt_append snapshot_of_def)
      with Cons.IH [of b1 "acc @ [snapshot_of b1]"] ok Inr Cons.prems(1) show ?thesis by simp
    qed
  qed
qed

text \<open>
  the snapshots shown during a call are append-only: the committed content of each is a
  prefix of that of every later one and of the final response.
\<close>

theorem snapshots_append_only:
  assumes "run_model_call_with_updates m items (\<lambda>sn acc. acc @ [sn]) [] = (Inr r, sns)"
  shows "sorted_wrt prefix (map sn_content sns) \<and> (\<forall>sn \<in> set sns. prefix (sn_content sn) (rs_content r))"
proof -
  from assms obtain b where "fold_stream (builder_new m) items (\<lambda>sn acc. acc @ [sn]) [] = (Inr b, sns)"
    and "finish b = Inr r"
    by (auto simp: run_model_call_with_updates_def split: prod.splits sum.splits)
  with fold_stream_snapshots [of "builder_new m" items "[]" b sns] finish_content [of b r]
  show ?thesis by simp
qed

theorem snapshots_append_only_witness:
  "\<exists>r sns. run_model_call_with_updates ''m'' [Inr (TextPart 0 ''a''), Inr (Finished EndTurn None None)]
      (\<lambda>sn acc. acc @ [sn]) [] = (Inr r, sns)
    \<and> length sns = 2 \<and> prefix (sn_content (hd sns)) (rs_content r) \<and> rs_content r = [CbText ''a'']"
proof -
  let ?items = "[Inr (TextPart 0 ''a''), Inr (Finished EndTurn None None)]"
  obtain r sns where run: "run_model_call_with_updates ''m'' ?items (\<lambda>sn acc. acc @ [sn]) [] = (Inr r, sns)"
    and l: "length sns = 2" and c: "rs_content r = [CbText ''a'']"
    by (simp add: run_model_call_with_updates_def builder_new_def apply_event_def Let_def
        ensure_text_part_def flush_open_part_def finish_def)
  have "hd sns \<in> set sns" using l by (cases sns) auto
  with snapshots_append_only [OF run] run l c show ?thesis by blast
qed

end
