(* ===== verification/Agent_Loop.thy ===== *)
theory Agent_Loop
  imports Session_Store Context_Materialize Model_Input Tool_Runtime Turn_Control Response_Builder
begin

text \<open>
  \<open>agent-core/src/loop/agent_loop.rs\<close>: one turn of the agent, from the user's prompt through
  model calls with retries and tool rounds to the final response. The world outside (token,
  provider stream, approval, tools, fresh ids, file appends) is the record \<open>loop_env\<close>: its
  answers may depend on a tick that grows with every question, so nothing is assumed of them.
\<close>

section \<open>State and world\<close>

record loop_state =
  ls_session :: session_store
  ls_events :: dispatcher
  ls_tick :: nat
  ls_slept :: "nat list"

text \<open>
  \<open>en_cut\<close> is the race of a model call with the token: \<open>Some k\<close> if the token fires while the
  call waits after \<open>k\<close> items. A reply \<open>None\<close> of an approval or a tool means that the token won.
\<close>

record loop_env =
  en_serde :: serde
  en_json :: json_text
  en_cancelled :: "nat \<Rightarrow> bool"
  en_io :: "nat \<Rightarrow> commit_io"
  en_uuid :: "nat \<Rightarrow> string"
  en_stream :: "nat \<Rightarrow> model_request \<Rightarrow> (llm_error + stream_event) list"
  en_cut :: "nat \<Rightarrow> nat option"
  en_approval :: "nat \<Rightarrow> tool_call \<Rightarrow> (string + tool_approval) option"
  en_execute :: "nat \<Rightarrow> executor_ref \<Rightarrow> tool_call \<Rightarrow> string \<Rightarrow> (string + tool_result) option"

datatype loop_error =
    LePolicy policy_error
  | LeEmptyText
  | LeTurnCancelled
  | LeRetryCancelled
  | LeSession session_error
  | LeContext context_error
  | LeLlm llm_error
  | LeResponse response_error
  | LeNoResponse
  | LeExhaustedAfterRound
  | LeExhausted
  | LeToolCancelled
  | LeCall call_error
  | LeResultCommit session_error "session_error list" "loop_error option"
  | LeCleanup loop_error "session_error list"

type_synonym 'a loop_m = "loop_state \<Rightarrow> (loop_error + 'a) \<times> loop_state"

definition lreturn :: "'a \<Rightarrow> 'a loop_m" where
  "lreturn x st = (Inr x, st)"

definition lthrow :: "loop_error \<Rightarrow> 'a loop_m" where
  "lthrow e st = (Inl e, st)"

text \<open>The \<open>?\<close> operator: an error ends the caller with the state as it is.\<close>

definition lbind :: "'a loop_m \<Rightarrow> ('a \<Rightarrow> 'b loop_m) \<Rightarrow> 'b loop_m" where
  "lbind m f st = (case m st of (Inl e, st') \<Rightarrow> (Inl e, st') | (Inr x, st') \<Rightarrow> f x st')"

definition advance :: "nat \<Rightarrow> loop_state \<Rightarrow> loop_state" where
  "advance n st = st\<lparr>ls_tick := ls_tick st + n\<rparr>"

section \<open>Small steps\<close>

definition emit_event :: "loop_env \<Rightarrow> turn_event \<Rightarrow> loop_state \<Rightarrow> (session_error + unit) \<times> loop_state" where
  "emit_event env e st =
     (case emit (commit_event (en_serde env) (en_io env (ls_tick st))) (ls_events st) (ls_session st) e of
        (r, events, session) \<Rightarrow>
          (r, advance 1 (st\<lparr>ls_session := session, ls_events := events\<rparr>)))"

definition emit_or_fail :: "loop_env \<Rightarrow> turn_event \<Rightarrow> unit loop_m" where
  "emit_or_fail env e st =
     (case emit_event env e st of
        (Inl err, st') \<Rightarrow> (Inl (LeSession err), st')
      | (Inr _, st') \<Rightarrow> (Inr (), st'))"

definition ensure_not_cancelled :: "loop_env \<Rightarrow> unit loop_m" where
  "ensure_not_cancelled env st =
     (if en_cancelled env (ls_tick st) then (Inl LeTurnCancelled, advance 1 st)
      else (Inr (), advance 1 st))"

text \<open>The sleep of a retry; one that the token cut short is not recorded.\<close>

definition wait_for_retry :: "loop_env \<Rightarrow> nat \<Rightarrow> unit loop_m" where
  "wait_for_retry env delay st =
     (if en_cancelled env (ls_tick st) then (Inl LeRetryCancelled, advance 1 st)
      else (Inr (), advance 1 (st\<lparr>ls_slept := ls_slept st @ [delay]\<rparr>)))"

definition materialize_session :: "loop_env \<Rightarrow> message list loop_m" where
  "materialize_session env st =
     (case materialize (en_json env) (ss_items (ls_session st)) of
        Inl e \<Rightarrow> (Inl (LeContext e), st)
      | Inr messages \<Rightarrow> (Inr messages, st))"

definition fresh_turn :: "u64 loop_m" where
  "fresh_turn st =
     (case next_turn (ls_session st) of Inl e \<Rightarrow> (Inl (LeSession e), st) | Inr t \<Rightarrow> (Inr t, st))"

definition fresh_id :: "loop_env \<Rightarrow> string loop_m" where
  "fresh_id env st = (Inr (en_uuid env (ls_tick st)), advance 1 st)"

section \<open>One model call\<close>

text \<open>
  The biased \<open>select!\<close>: the call is polled before the token, so the token wins only while the
  call waits; the items before were folded and their updates emitted, and an error among them
  is the call's result.
\<close>

definition model_call ::
  "loop_env \<Rightarrow> model_request \<Rightarrow> (snapshot \<Rightarrow> loop_state \<Rightarrow> loop_state) \<Rightarrow> loop_state \<Rightarrow>
   (llm_error + model_response) \<times> loop_state" where
  "model_call env request upd st =
     (let items = en_stream env (ls_tick st) request;
          st1 = advance 1 st in
      case en_cut env (ls_tick st) of
        Some k \<Rightarrow>
          if k \<le> length items then
            (case fold_stream (builder_new (rq_model request)) (take k items) upd st1 of
               (Inl err, st2) \<Rightarrow> (Inl err, st2)
             | (Inr _, st2) \<Rightarrow> (Inl (Cancelled CancelUser), st2))
          else run_model_call_with_updates (rq_model request) items upd st1
      | None \<Rightarrow> run_model_call_with_updates (rq_model request) items upd st1)"

definition message_update ::
  "loop_env \<Rightarrow> u64 \<Rightarrow> u32 \<Rightarrow> string \<Rightarrow> snapshot \<Rightarrow> loop_state \<Rightarrow> loop_state" where
  "message_update env turn step cid snap st =
     snd (emit_event env (MessageUpdate turn step cid snap) st)"

fun call_outcome :: "llm_error \<Rightarrow> llm_call_outcome" where
  "call_outcome (RequestFailed kind _) = CallFailed (FailRequest kind)"
| "call_outcome (Cancelled reason) = CallCancelled reason"

fun recoverable :: "llm_error \<Rightarrow> bool" where
  "recoverable (RequestFailed Recoverable _) = True"
| "recoverable _ = False"

definition call_model ::
  "loop_env \<Rightarrow> u64 \<Rightarrow> u32 \<Rightarrow> model_request \<Rightarrow> string \<Rightarrow> (llm_error + model_response) loop_m" where
  "call_model env turn step request cid st =
     (case model_call env request (message_update env turn step cid) st of (answer, st') \<Rightarrow> (Inr answer, st'))"

text \<open>The match on the result of an attempt; \<open>again\<close> is the rest of the loop after the sleep.\<close>

definition after_call ::
  "loop_env \<Rightarrow> u64 \<Rightarrow> u32 \<Rightarrow> string \<Rightarrow> u32 \<Rightarrow> u32 \<Rightarrow>
   (model_response \<times> response_action \<times> string) option loop_m \<Rightarrow> llm_error + model_response \<Rightarrow>
   (model_response \<times> response_action \<times> string) option loop_m" where
  "after_call env turn step cid attempt max_retries again answer =
     (case answer of
        Inr result \<Rightarrow>
          (case classify_response result of
             Inl err \<Rightarrow>
               lbind (emit_or_fail env (LlmCallEnded turn step cid (CallFailed InvalidResponse)))
                 (\<lambda>_. lthrow (LeResponse err))
           | Inr action \<Rightarrow>
               lbind (emit_or_fail env (LlmCallEnded turn step cid
                   (CallSucceeded (rs_stop_reason result) (rs_usage result))))
                 (\<lambda>_. lreturn (Some (result, action, cid))))
      | Inl err \<Rightarrow>
          lbind (emit_or_fail env (LlmCallEnded turn step cid (call_outcome err)))
            (\<lambda>_. if recoverable err \<and> attempt < max_retries
                 then lbind (wait_for_retry env (retry_delay attempt)) (\<lambda>_. again)
                 else lthrow (LeLlm err)))"

text \<open>The loop over the attempts \<open>0..=max_llm_retries\<close>.\<close>

fun llm_attempts ::
  "loop_env \<Rightarrow> u64 \<Rightarrow> u32 \<Rightarrow> model_request \<Rightarrow> u32 \<Rightarrow> u32 list \<Rightarrow>
   (model_response \<times> response_action \<times> string) option loop_m" where
  "llm_attempts env turn step request max_retries [] = lreturn None"
| "llm_attempts env turn step request max_retries (attempt # attempts) =
     lbind (ensure_not_cancelled env) (\<lambda>_.
     lbind (fresh_id env) (\<lambda>cid.
     lbind (emit_or_fail env (LlmCallStarted turn step cid)) (\<lambda>_.
     lbind (call_model env turn step request cid)
       (after_call env turn step cid attempt max_retries
          (llm_attempts env turn step request max_retries attempts)))))"

section \<open>One tool round\<close>

fun commit_calls :: "loop_env \<Rightarrow> u64 \<Rightarrow> tool_call list \<Rightarrow> unit loop_m" where
  "commit_calls env turn [] = lreturn ()"
| "commit_calls env turn (call # calls) =
     lbind (emit_or_fail env (ToolCallRecorded turn call)) (\<lambda>_. commit_calls env turn calls)"

definition parent_result :: "tool_call \<Rightarrow> tool_result" where
  "parent_result call =
     with_status call (ToolCancelled TcancelParent) (TcText ''parent tool call was cancelled'')"

fun commit_parent_results ::
  "loop_env \<Rightarrow> u64 \<Rightarrow> tool_call list \<Rightarrow> loop_state \<Rightarrow> session_error list \<times> loop_state" where
  "commit_parent_results env turn [] st = ([], st)"
| "commit_parent_results env turn (call # calls) st =
     (case emit_event env (ToolResultRecorded turn (parent_result call)) st of
        (r, st1) \<Rightarrow>
          (case commit_parent_results env turn calls st1 of
             (errors, st2) \<Rightarrow> (case r of Inl e \<Rightarrow> e # errors | Inr _ \<Rightarrow> errors, st2)))"

text \<open>What the token, the handler and the tools will say to the call made now.\<close>

definition call_env_at :: "loop_env \<Rightarrow> nat \<Rightarrow> call_env" where
  "call_env_at env t =
     \<lparr>ce_cancelled_first = en_cancelled env t, ce_approval = en_approval env t,
      ce_cancelled_last = en_cancelled env (t + 1), ce_execute = en_execute env t\<rparr>"

fun outcome_error :: "tool_call_outcome \<Rightarrow> loop_error option" where
  "outcome_error (OcResult _) = None"
| "outcome_error (OcAbort _ None) = Some LeToolCancelled"
| "outcome_error (OcAbort _ (Some e)) = Some (LeCall e)"

fun process_tool_round ::
  "loop_env \<Rightarrow> tool_runtime \<Rightarrow> u64 \<Rightarrow> string \<Rightarrow> tool_call list \<Rightarrow> loop_state \<Rightarrow> loop_error option \<times> loop_state" where
  "process_tool_round env rt turn working_dir [] st = (None, st)"
| "process_tool_round env rt turn working_dir (call # calls) st =
     (let outcome = execute_call rt (call_env_at env (ls_tick st)) call working_dir;
          error = outcome_error outcome in
      case emit_event env (ToolResultRecorded turn (outcome_result outcome)) (advance 2 st) of
        (Inl commit_error, st1) \<Rightarrow>
          (case commit_parent_results env turn calls st1 of
             (errors, st2) \<Rightarrow> (Some (LeResultCommit commit_error errors error), st2))
      | (Inr _, st1) \<Rightarrow>
          (case error of
             None \<Rightarrow> process_tool_round env rt turn working_dir calls st1
           | Some err \<Rightarrow>
               (case commit_parent_results env turn calls st1 of
                  (errors, st2) \<Rightarrow>
                    (Some (if errors = [] then err else LeCleanup err errors), st2))))"

definition run_tool_round ::
  "loop_env \<Rightarrow> tool_runtime \<Rightarrow> u64 \<Rightarrow> string \<Rightarrow> tool_call list \<Rightarrow> unit loop_m" where
  "run_tool_round env rt turn working_dir calls st =
     (case process_tool_round env rt turn working_dir calls st of
        (Some err, st1) \<Rightarrow> (Inl err, st1)
      | (None, st1) \<Rightarrow> (Inr (), st1))"

section \<open>The turn\<close>

record turn_input =
  ti_text :: string
  ti_config :: llm_call_config
  ti_system_prompt :: string
  ti_policy :: turn_policy

definition attempt_numbers :: "u32 \<Rightarrow> u32 list" where
  "attempt_numbers max_retries = map word_of_nat [0..<unat max_retries + 1]"

definition step_numbers :: "u32 \<Rightarrow> u32 list" where
  "step_numbers max_steps = map word_of_nat [0..<unat max_steps]"

text \<open>The continuity hint of the next step: the id of the last response that had one.\<close>

definition continue_from :: "model_response \<Rightarrow> llm_call_config \<Rightarrow> llm_call_config" where
  "continue_from response config =
     (case rs_response_id response of
        None \<Rightarrow> config
      | Some rid \<Rightarrow> config\<lparr>lc_previous_response_id := Some rid\<rparr>)"

fun step_loop ::
  "loop_env \<Rightarrow> tool_runtime \<Rightarrow> string \<Rightarrow> turn_policy \<Rightarrow> u64 \<Rightarrow> string \<Rightarrow> u32 list \<Rightarrow> llm_call_config \<Rightarrow>
   model_response loop_m" where
  "step_loop env rt sys policy turn working_dir [] config = lthrow LeExhausted"
| "step_loop env rt sys policy turn working_dir (step # steps) config =
     lbind (ensure_not_cancelled env) (\<lambda>_.
     lbind (materialize_session env) (\<lambda>messages.
     lbind (llm_attempts env turn step (compile config sys messages (rt_registry rt))
         (tpl_max_llm_retries policy) (attempt_numbers (tpl_max_llm_retries policy))) (\<lambda>answer.
     (case answer of
        None \<Rightarrow> lthrow LeNoResponse
      | Some (response, Terminal blocks, cid) \<Rightarrow>
          lbind (emit_or_fail env (AssistantFinalized turn cid blocks)) (\<lambda>_.
          lbind (emit_or_fail env (TurnEnded turn)) (\<lambda>_. lreturn response))
      | Some (response, ToolRound blocks calls, cid) \<Rightarrow>
          lbind (emit_or_fail env (AssistantFinalized turn cid blocks)) (\<lambda>_.
          lbind (commit_calls env turn calls) (\<lambda>_.
          lbind (run_tool_round env rt turn working_dir calls) (\<lambda>_.
          if step + 1 = tpl_max_steps policy
          then lbind (emit_or_fail env (TurnEnded turn)) (\<lambda>_. lthrow LeExhaustedAfterRound)
          else step_loop env rt sys policy turn working_dir steps (continue_from response config))))))))"

definition validate_input_policy :: "turn_input \<Rightarrow> unit loop_m" where
  "validate_input_policy inp =
     (case policy_validate (ti_policy inp) of
        Inl e \<Rightarrow> lthrow (LePolicy e)
      | Inr _ \<Rightarrow> if ti_text inp = [] then lthrow LeEmptyText else lreturn ())"

text \<open>The loop over the steps, in the working directory of the session.\<close>

definition run_steps :: "loop_env \<Rightarrow> tool_runtime \<Rightarrow> turn_input \<Rightarrow> u64 \<Rightarrow> model_response loop_m" where
  "run_steps env rt inp turn st =
     step_loop env rt (ti_system_prompt inp) (ti_policy inp) turn (sh_cwd (ss_header (ls_session st)))
       (step_numbers (tpl_max_steps (ti_policy inp))) (ti_config inp) st"

definition run_turn :: "loop_env \<Rightarrow> tool_runtime \<Rightarrow> turn_input \<Rightarrow> model_response loop_m" where
  "run_turn env rt inp =
     lbind (validate_input_policy inp) (\<lambda>_.
     lbind (ensure_not_cancelled env) (\<lambda>_.
     lbind (materialize_session env) (\<lambda>_.
     lbind fresh_turn (\<lambda>turn.
     lbind (ensure_not_cancelled env) (\<lambda>_.
     lbind (emit_or_fail env (TurnStarted turn)) (\<lambda>_.
     lbind (ensure_not_cancelled env) (\<lambda>_.
     lbind (emit_or_fail env (UserPromptCommitted turn (ti_text inp))) (\<lambda>_.
     run_steps env rt inp turn))))))))"

end
