(* ===== verification/Turn_Proofs.thy ===== *)
theory Turn_Proofs
  imports Agent_Loop
begin

text \<open>
  What a turn of the agent loop guarantees: the budget of model calls and sleeps and the shape
  of the events the hooks see, the shape of the items a turn adds, and that the log stays closed
  unless the turn reports a commit that failed; whatever the world answers.
\<close>

section \<open>Reasoning about steps\<close>

text \<open>The weakest precondition of a step: \<open>Q\<close> holds of its result and the state it leaves.\<close>

definition wp :: "'a loop_m \<Rightarrow> (loop_error + 'a \<Rightarrow> loop_state \<Rightarrow> bool) \<Rightarrow> loop_state \<Rightarrow> bool" where
  "wp m Q st = Q (fst (m st)) (snd (m st))"

lemma wp_lreturn [simp]: "wp (lreturn x) Q st = Q (Inr x) st"
  by (simp add: wp_def lreturn_def)

lemma wp_lthrow [simp]: "wp (lthrow e) Q st = Q (Inl e) st"
  by (simp add: wp_def lthrow_def)

lemma wp_lbind:
  "wp (lbind m f) Q st =
     wp m (\<lambda>r st'. case r of Inl e \<Rightarrow> Q (Inl e) st' | Inr x \<Rightarrow> wp (f x) Q st') st"
  by (auto simp: wp_def lbind_def split: prod.split sum.split)

lemma wp_mono: "wp m Q st \<Longrightarrow> (\<And>r st'. Q r st' \<Longrightarrow> Q' r st') \<Longrightarrow> wp m Q' st"
  by (simp add: wp_def)

text \<open>A step, then what follows: the form in which the rules are applied.\<close>

lemma wp_lbindI:
  assumes "wp m R st" and "\<And>e st'. R (Inl e) st' \<Longrightarrow> Q (Inl e) st'"
    and "\<And>x st'. R (Inr x) st' \<Longrightarrow> wp (f x) Q st'"
  shows "wp (lbind m f) Q st"
  unfolding wp_lbind by (rule wp_mono [OF assms(1)]) (auto intro: assms(2,3) split: sum.split)

section \<open>What a step may do to hooks and log\<close>

abbreviation items :: "loop_state \<Rightarrow> session_item list" where
  "items st \<equiv> ss_items (ls_session st)"

text \<open>The events the first hook saw.\<close>

definition seen :: "loop_state \<Rightarrow> turn_event list" where
  "seen st = map (\<lambda>(i, c, e). e) (filter (\<lambda>(i, c, e). i = 0) (dp_seen (ls_events st)))"

abbreviation hooked :: "loop_state \<Rightarrow> bool" where
  "hooked st \<equiv> dp_hooks (ls_events st) \<noteq> []"

lemma seen_after_commit:
  assumes "dp_hooks d \<noteq> []"
  shows "map (\<lambda>(i, c, e). e) (filter (\<lambda>(i, c, e). i = 0) (dp_seen (after_commit d e))) =
    map (\<lambda>(i, c, e). e) (filter (\<lambda>(i, c, e). i = 0) (dp_seen d)) @ [e]"
proof -
  have "filter (\<lambda>(i, c, e'). i = 0) (map (\<lambda>j. (j, dp_trace d, e)) [0..<length (dp_hooks d)]) = [(0, dp_trace d, e)]"
    using assms by (cases "dp_hooks d") (auto simp: upt_conv_Cons filter_map comp_def simp del: upt_Suc)
  then show ?thesis by (simp add: after_commit_seen)
qed

lemma emit_event_frame:
  "dp_hooks (ls_events (snd (emit_event env e st))) = dp_hooks (ls_events st)"
  "ls_slept (snd (emit_event env e st)) = ls_slept st"
  "ss_header (ls_session (snd (emit_event env e st))) = ss_header (ls_session st)"
  by (auto simp: emit_event_def advance_def emit_def Let_def split: prod.splits sum.splits if_splits)
    (metis commit_event_header(1) snd_conv)+

lemma emit_event_seen:
  assumes "hooked st"
  shows "seen (snd (emit_event env e st)) =
    seen st @ (if is_ok (fst (emit_event env e st)) then [e] else [])"
proof (cases "is_committable e")
  case False
  then show ?thesis using assms
    by (simp add: emit_event_def emit_observational advance_def seen_def seen_after_commit)
next
  case True
  obtain r s' where "commit_event (en_serde env) (en_io env (ls_tick st)) (ls_session st) e = (r, s')"
    by (cases "commit_event (en_serde env) (en_io env (ls_tick st)) (ls_session st) e")
  with True assms show ?thesis
    by (cases r) (simp_all add: emit_event_def emit_committable advance_def seen_def seen_after_commit)
qed

lemma emit_event_observational:
  assumes "\<not> is_committable e"
  shows "fst (emit_event env e st) = Inr ()" "ls_session (snd (emit_event env e st)) = ls_session st"
  using assms by (simp_all add: emit_event_def emit_observational advance_def)

lemma emit_event_session:
  assumes "is_committable e"
  shows "ls_session (snd (emit_event env e st)) =
      snd (commit_event (en_serde env) (en_io env (ls_tick st)) (ls_session st) e)"
    and "is_ok (fst (emit_event env e st)) =
      is_ok (fst (commit_event (en_serde env) (en_io env (ls_tick st)) (ls_session st) e))"
  using assms by (auto simp: emit_event_def emit_committable advance_def Let_def split: prod.splits sum.splits)

lemma emit_event_store: "store_ok (ls_session st) \<Longrightarrow> store_ok (ls_session (snd (emit_event env e st)))"
  using sc.emit_inv [of "ls_session st" "en_serde env" "en_io env (ls_tick st)" "ls_events st" e]
  by (auto simp: emit_event_def advance_def split: prod.split)

lemma wp_emit_or_fail:
  "wp (emit_or_fail env e) Q st =
     (case emit_event env e st of
        (Inl err, st') \<Rightarrow> Q (Inl (LeSession err)) st' | (Inr _, st') \<Rightarrow> Q (Inr ()) st')"
  by (auto simp: wp_def emit_or_fail_def split: prod.split sum.split)

section \<open>The shape of a run in events\<close>

text \<open>
  A model call as the hooks see it: started, updates of its own, ended. \<open>calls_seen n es\<close> says
  that \<open>es\<close> is \<open>n\<close> of them one after the other.
\<close>

fun llm_event :: "turn_event \<Rightarrow> bool" where
  "llm_event (LlmCallStarted _ _ _) = True"
| "llm_event (LlmCallEnded _ _ _ _) = True"
| "llm_event (MessageUpdate _ _ _ _) = True"
| "llm_event _ = False"

fun update_of :: "u64 \<Rightarrow> u32 \<Rightarrow> string \<Rightarrow> turn_event \<Rightarrow> bool" where
  "update_of turn step cid (MessageUpdate t s c _) = (t = turn \<and> s = step \<and> c = cid)"
| "update_of turn step cid _ = False"

inductive calls_seen :: "nat \<Rightarrow> turn_event list \<Rightarrow> bool" where
  none: "calls_seen 0 []"
| call: "calls_seen n es \<Longrightarrow> list_all (update_of turn step cid) us \<Longrightarrow>
    calls_seen (Suc n) (LlmCallStarted turn step cid # us @ LlmCallEnded turn step cid outcome # es)"

lemma calls_seen_append: "calls_seen m xs \<Longrightarrow> calls_seen n ys \<Longrightarrow> calls_seen (m + n) (xs @ ys)"
  by (induction rule: calls_seen.induct) (auto intro: calls_seen.intros)

text \<open>
  The budget of a stretch of the run: the model calls the hooks see, each complete, and the
  milliseconds slept.
\<close>

definition ran :: "nat \<Rightarrow> nat \<Rightarrow> loop_state \<Rightarrow> loop_state \<Rightarrow> bool" where
  "ran n ms st st' \<longleftrightarrow>
     (hooked st \<longrightarrow> hooked st'
        \<and> (\<exists>es m. seen st' = seen st @ es \<and> calls_seen m (filter llm_event es) \<and> m \<le> n))
     \<and> (\<exists>ds. ls_slept st' = ls_slept st @ ds \<and> sum_list ds \<le> ms)"

lemma ran_trans: "ran n ms st st' \<Longrightarrow> ran n' ms' st' st'' \<Longrightarrow> ran (n + n') (ms + ms') st st''"
  unfolding ran_def
  by (auto simp: add_mono intro: calls_seen_append)
    (metis (no_types, lifting) add_mono append.assoc calls_seen_append filter_append)+

lemma ran_refl [simp]: "ran 0 0 st st"
  by (simp add: ran_def calls_seen.none exI [of _ "[]"])

lemma ran_mono: "ran n ms st st' \<Longrightarrow> n \<le> n' \<Longrightarrow> ms \<le> ms' \<Longrightarrow> ran n' ms' st st'"
  unfolding ran_def by (meson order_trans)

lemma ran_advance [simp]: "ran 0 0 st (advance k st)"
  by (simp add: ran_def advance_def seen_def calls_seen.none exI [of _ "[]"])

lemma advance_session [simp]: "ls_session (advance k st) = ls_session st"
  by (simp add: advance_def)

lemma ran_emit: "\<not> llm_event e \<Longrightarrow> ran 0 0 st (snd (emit_event env e st))"
  unfolding ran_def
  by (auto simp: emit_event_frame emit_event_seen calls_seen.none
      intro!: exI [of _ "if is_ok (fst (emit_event env e st)) then [e] else []"])

lemma ran_step: "ran n ms st st' \<Longrightarrow> ran 0 0 st' st'' \<Longrightarrow> ran n ms st st''"
  using ran_trans [of n ms st st' 0 0 st''] by simp

section \<open>Model calls\<close>

text \<open>While a call streams, only updates of that call reach the hooks.\<close>

definition streamed :: "u64 \<Rightarrow> u32 \<Rightarrow> string \<Rightarrow> loop_state \<Rightarrow> loop_state \<Rightarrow> bool" where
  "streamed turn step cid st st' \<longleftrightarrow>
     ls_session st' = ls_session st \<and> ls_slept st' = ls_slept st
     \<and> (hooked st \<longrightarrow> hooked st' \<and> (\<exists>us. seen st' = seen st @ us \<and> list_all (update_of turn step cid) us))"

lemma streamed_refl [simp]: "streamed turn step cid st st"
  by (simp add: streamed_def)

lemma streamed_trans:
  "streamed turn step cid st st' \<Longrightarrow> streamed turn step cid st' st'' \<Longrightarrow> streamed turn step cid st st''"
  by (auto simp: streamed_def)

lemma streamed_advance [simp]: "streamed turn step cid st (advance k st)"
  by (simp add: streamed_def advance_def seen_def)

lemma streamed_update: "streamed turn step cid st (message_update env turn step cid snap st)"
  by (simp add: streamed_def message_update_def emit_event_observational emit_event_frame emit_event_seen)

lemma streamed_fold:
  "streamed turn step cid st (snd (fold_stream b es (message_update env turn step cid) st))"
proof (induction b es "message_update env turn step cid" st rule: fold_stream.induct)
  case (3 b e es st)
  then show ?case
    by (auto split: prod.split sum.split intro: streamed_trans [OF streamed_update])
qed simp_all

lemma model_call_state:
  "\<exists>b es. snd (model_call env request upd st) = snd (fold_stream b es upd (advance 1 st))"
proof -
  have run: "snd (run_model_call_with_updates m es upd st') = snd (fold_stream (builder_new m) es upd st')"
    for m es st'
    by (auto simp: run_model_call_with_updates_def split: prod.split sum.split)
  show ?thesis
  proof (cases "en_cut env (ls_tick st)")
    case None
    then have "snd (model_call env request upd st) =
        snd (fold_stream (builder_new (rq_model request)) (en_stream env (ls_tick st) request) upd (advance 1 st))"
      by (simp add: model_call_def run)
    then show ?thesis by blast
  next
    case (Some k)
    have "snd (model_call env request upd st) =
        snd (fold_stream (builder_new (rq_model request))
          (if k \<le> length (en_stream env (ls_tick st) request) then take k (en_stream env (ls_tick st) request)
           else en_stream env (ls_tick st) request) upd (advance 1 st))"
      using Some by (auto simp: model_call_def Let_def run split: prod.split sum.split)
    then show ?thesis by blast
  qed
qed

lemma streamed_model_call:
  "streamed turn step cid st (snd (model_call env request (message_update env turn step cid) st))"
  using model_call_state [of env request "message_update env turn step cid" st]
    streamed_trans [OF streamed_advance streamed_fold] by metis

lemma ran_call:
  assumes "streamed turn step cid (snd (emit_event env (LlmCallStarted turn step cid) st)) st1"
    and "st2 = snd (emit_event env (LlmCallEnded turn step cid outcome) st1)"
  shows "ran 1 0 st st2"
proof -
  let ?st0 = "snd (emit_event env (LlmCallStarted turn step cid) st)"
  have slept: "ls_slept st2 = ls_slept st"
    using assms by (simp add: streamed_def emit_event_frame)
  have "hooked st \<longrightarrow> hooked st2 \<and> (\<exists>us. list_all (update_of turn step cid) us
      \<and> seen st2 = seen st @ LlmCallStarted turn step cid # us @ [LlmCallEnded turn step cid outcome])"
    using assms by (auto simp: streamed_def emit_event_frame emit_event_seen emit_event_observational)
  moreover have "calls_seen 1 (filter llm_event (LlmCallStarted turn step cid # us @ [LlmCallEnded turn step cid outcome]))"
    if "list_all (update_of turn step cid) us" for us
  proof -
    have "llm_event e" if "update_of turn step cid e" for e using that by (cases e) auto
    then have "filter llm_event us = us" using that by (simp add: list_all_iff)
    with calls_seen.call [OF calls_seen.none that, of outcome] show ?thesis by simp
  qed
  ultimately show ?thesis unfolding ran_def using slept by (fastforce simp del: filter.simps)
qed

lemma ran_sleep: "ran 0 d st (snd (wait_for_retry env d st))"
  by (auto simp: ran_def wait_for_retry_def advance_def seen_def calls_seen.none
      intro: exI [of _ "[]"] exI [of _ "[d]"])

lemma wp_ensure:
  "wp (ensure_not_cancelled env) Q st =
     Q (if en_cancelled env (ls_tick st) then Inl LeTurnCancelled else Inr ()) (advance 1 st)"
  by (simp add: wp_def ensure_not_cancelled_def)

lemma wp_fresh_id: "wp (fresh_id env) Q st = Q (Inr (en_uuid env (ls_tick st))) (advance 1 st)"
  by (simp add: wp_def fresh_id_def)

lemma wp_emit_observational:
  "\<not> is_committable e \<Longrightarrow> wp (emit_or_fail env e) Q st = Q (Inr ()) (snd (emit_event env e st))"
  using emit_event_observational(1) [of e env st]
  by (cases "emit_event env e st") (simp add: wp_emit_or_fail)

definition answer_ok :: "(model_response \<times> response_action \<times> string) option \<Rightarrow> bool" where
  "answer_ok a = (case a of None \<Rightarrow> True | Some (response, action, cid) \<Rightarrow> classify_response response = Inr action)"

lemma wp_call_model:
  "wp (call_model env turn step request cid) Q st =
     (case model_call env request (message_update env turn step cid) st of (a, st') \<Rightarrow> Q (Inr a) st')"
  by (simp add: wp_def call_model_def split: prod.split)

text \<open>What holds when a run of attempts ends: \<open>n\<close> calls and \<open>ms\<close> milliseconds at most.\<close>

definition attempts_post ::
  "nat \<Rightarrow> nat \<Rightarrow> bool \<Rightarrow> loop_state \<Rightarrow> loop_error + (model_response \<times> response_action \<times> string) option \<Rightarrow>
   loop_state \<Rightarrow> bool" where
  "attempts_post n ms may_end st r st' \<longleftrightarrow>
     ls_session st' = ls_session st \<and> ran n ms st st'
     \<and> (case r of Inr a \<Rightarrow> answer_ok a \<and> (a = None \<longrightarrow> may_end) | Inl _ \<Rightarrow> True)"

definition retry_ms :: "u32 \<Rightarrow> u32 list \<Rightarrow> nat" where
  "retry_ms max_retries as = sum_list (map retry_delay (filter (\<lambda>a. a < max_retries) as))"

lemma wp_wait: "wp (wait_for_retry env d) Q st = Q (fst (wait_for_retry env d st)) (snd (wait_for_retry env d st))"
  by (simp add: wp_def)

lemma after_call_wp:
  assumes st4: "\<And>oc. ls_session (snd (emit_event env (LlmCallEnded turn step cid oc) st4)) = ls_session st
      \<and> ran 1 0 st (snd (emit_event env (LlmCallEnded turn step cid oc) st4))"
    and again: "\<And>st5. wp again (attempts_post n (retry_ms max_retries as) (as = [] \<or> last as < max_retries) st5) st5"
  shows "wp (after_call env turn step cid a max_retries again answer)
    (attempts_post (Suc n) (retry_ms max_retries (a # as)) (last (a # as) < max_retries) st) st4"
proof -
  have end1: "attempts_post (Suc n) ms b st r (snd (emit_event env (LlmCallEnded turn step cid oc) st4))"
    if "case r of Inr x \<Rightarrow> answer_ok x \<and> x \<noteq> None | Inl _ \<Rightarrow> True" for ms b r oc
    using st4 [of oc] that ran_mono [of 1 0 st _ "Suc n" ms]
    by (auto simp: attempts_post_def split: sum.splits)
  show ?thesis
  proof (cases answer)
    case (Inr result)
    then show ?thesis
      by (cases "classify_response result")
        (auto simp: after_call_def wp_lbind wp_emit_observational answer_ok_def intro!: end1)
  next
    case (Inl err)
    show ?thesis
    proof (cases "recoverable err \<and> a < max_retries")
      case False
      with Inl show ?thesis
        by (auto simp: after_call_def wp_lbind wp_emit_observational intro!: end1)
    next
      case True
      let ?st5 = "snd (emit_event env (LlmCallEnded turn step cid (call_outcome err)) st4)"
      let ?st6 = "snd (wait_for_retry env (retry_delay a) ?st5)"
      have r6: "ran 1 (retry_delay a) st ?st6" using ran_trans [OF conjunct2 [OF st4] ran_sleep] by simp
      have s6: "ls_session ?st6 = ls_session st" using st4 by (simp add: wait_for_retry_def)
      have ms: "retry_ms max_retries (a # as) = retry_delay a + retry_ms max_retries as"
        using True by (simp add: retry_ms_def)
      have "wp again (attempts_post (Suc n) (retry_ms max_retries (a # as)) (last (a # as) < max_retries) st) ?st6"
        by (rule wp_mono [OF again])
          (use s6 ran_trans [OF r6] True ms in \<open>auto simp: attempts_post_def split: sum.splits if_splits\<close>)
      moreover have "attempts_post (Suc n) (retry_ms max_retries (a # as)) (last (a # as) < max_retries) st (Inl e) ?st6" for e
        using s6 ran_mono [OF r6] ms by (simp add: attempts_post_def)
      ultimately show ?thesis
        using Inl True
        by (simp add: after_call_def wp_lbind wp_emit_observational wp_wait del: last.simps split: sum.split)
    qed
  qed
qed

lemma llm_attempts_wp:
  "wp (llm_attempts env turn step request max_retries as)
     (attempts_post (length as) (retry_ms max_retries as) (as = [] \<or> last as < max_retries) st) st"
proof (induction as arbitrary: st)
  case Nil
  then show ?case by (simp add: attempts_post_def answer_ok_def retry_ms_def)
next
  case (Cons a as)
  let ?st1 = "advance 1 st"
  let ?cid = "en_uuid env (ls_tick ?st1)"
  let ?st3 = "snd (emit_event env (LlmCallStarted turn step ?cid) (advance 1 ?st1))"
  obtain answer st4 where call: "model_call env request (message_update env turn step ?cid) ?st3 = (answer, st4)"
    by (cases "model_call env request (message_update env turn step ?cid) ?st3")
  have str: "streamed turn step ?cid ?st3 st4"
    using streamed_model_call [of turn step ?cid ?st3 env request] call by simp
  have "ls_session (snd (emit_event env (LlmCallEnded turn step ?cid oc) st4)) = ls_session st
      \<and> ran 1 0 st (snd (emit_event env (LlmCallEnded turn step ?cid oc) st4))" for oc
  proof
    show "ls_session (snd (emit_event env (LlmCallEnded turn step ?cid oc) st4)) = ls_session st"
      using str by (simp add: streamed_def emit_event_observational)
    have "ran (0 + 0 + 1) (0 + 0 + 0) st (snd (emit_event env (LlmCallEnded turn step ?cid oc) st4))"
      by (rule ran_trans [OF ran_trans [OF ran_advance ran_advance] ran_call [OF str refl]])
    then show "ran 1 0 st (snd (emit_event env (LlmCallEnded turn step ?cid oc) st4))" by simp
  qed
  from after_call_wp [OF this Cons.IH]
  have rest: "wp (after_call env turn step ?cid a max_retries (llm_attempts env turn step request max_retries as) answer)
    (attempts_post (Suc (length as)) (retry_ms max_retries (a # as)) (last (a # as) < max_retries) st) st4" .
  have "attempts_post (Suc (length as)) (retry_ms max_retries (a # as)) (last (a # as) < max_retries) st (Inl e) ?st1" for e
    using ran_mono [OF ran_advance [of st 1]] by (simp add: attempts_post_def)
  with rest call show ?case
    by (simp add: wp_lbind wp_ensure wp_fresh_id wp_emit_observational wp_call_model del: last.simps)
qed

section \<open>The items of a turn\<close>

text \<open>The errors that report an item that could not be committed.\<close>

fun commit_failed :: "loop_error + 'a \<Rightarrow> bool" where
  "commit_failed (Inl (LeSession _)) = True"
| "commit_failed (Inl (LeResultCommit _ _ _)) = True"
| "commit_failed (Inl (LeCleanup _ _)) = True"
| "commit_failed _ = False"

definition turn_ok :: "u64 \<Rightarrow> loop_state \<Rightarrow> bool" where
  "turn_ok turn st \<longleftrightarrow> items st = [] \<or> item_turn (last (items st)) \<le> turn"

lemma turn_ok_append:
  assumes "turn_ok turn st" "items st' = items st @ new" "list_all (\<lambda>i. item_turn i = turn) new"
  shows "turn_ok turn st'"
proof (cases "new = []")
  case False
  then have "last new \<in> set new" by simp
  with assms False show ?thesis by (auto simp: turn_ok_def list_all_iff)
qed (use assms in \<open>simp add: turn_ok_def\<close>)

text \<open>A valid draft is committed, or the commit fails and the log is as it was.\<close>

lemma emit_commits:
  assumes "turn_ok (draft_turn d) st"
    and "draft_of_event e = Inr (Some d)" and "is_committable e" and "is_ok (validate_draft_content d)"
  obtains (committed) b where "ib_turn b = draft_turn d" "fst (emit_event env e st) = Inr ()"
      "items (snd (emit_event env e st)) = items st @ [freeze_item d b]"
    | (lost) err where "fst (emit_event env e st) = Inl err" "items (snd (emit_event env e st)) = items st"
proof -
  let ?S = "en_serde env" and ?io = "en_io env (ls_tick st)" and ?s = "ls_session st"
  have "is_ok (validate_draft d (ss_items ?s))"
    using assms(1,4) by (simp add: validate_draft_ok_iff turn_ok_def)
  then have v: "validate_draft d (ss_items ?s) = Inr ()" by (auto simp: is_ok_iff)
  have commit: "is_ok (fst (commit_event ?S ?io ?s e)) = is_ok (fst (commit_item ?S ?io ?s d))"
      "snd (commit_event ?S ?io ?s e) = snd (commit_item ?S ?io ?s d)"
    using assms(2) by (auto simp: commit_event_def commit_from_event_def split: prod.splits sum.splits)
  note sess = emit_event_session [OF assms(3), of env st, unfolded commit]
  show thesis
  proof (cases "is_ok (fst (commit_item ?S ?io ?s d))")
    case True
    then have "ss_items (snd (commit_item ?S ?io ?s d)) = ss_items ?s @ [next_item ?io ?s d]"
      by (cases rule: commit_item_cases [of d ?s ?S ?io]) auto
    moreover have "is_ok (fst (emit_event env e st))" using sess(2) True by (auto simp: is_ok_iff)
    ultimately show thesis
      using sess(1) by (intro committed [of "base (next_item ?io ?s d)"]) (auto simp: next_item_def is_ok_iff)
  next
    case False
    then have "ss_items (snd (commit_item ?S ?io ?s d)) = ss_items ?s"
      by (cases rule: commit_item_cases [of d ?s ?S ?io]) auto
    moreover from False have "\<not> is_ok (fst (emit_event env e st))"
      using sess(2) by (auto simp: is_ok_iff not_is_ok_iff)
    ultimately show thesis using sess(1) by (auto simp: not_is_ok_iff intro: lost)
  qed
qed

definition at_turn :: "u64 \<Rightarrow> (item_base \<times> 'a) list \<Rightarrow> bool" where
  "at_turn turn bs = list_all (\<lambda>(b, x). ib_turn b = turn) bs"

lemma at_turn_simps [simp]:
  "at_turn turn []" "at_turn turn ((b, x) # bs) \<longleftrightarrow> ib_turn b = turn \<and> at_turn turn bs"
  "at_turn turn (xs @ ys) \<longleftrightarrow> at_turn turn xs \<and> at_turn turn ys"
  by (simp_all add: at_turn_def)

lemma at_turn_items [simp]:
  "at_turn turn cs \<Longrightarrow> list_all (\<lambda>i. item_turn i = turn) (call_items cs)"
  "at_turn turn rs \<Longrightarrow> list_all (\<lambda>i. item_turn i = turn) (result_items rs)"
  by (auto simp: at_turn_def call_items_def result_items_def list_all_iff)

lemma call_items_Cons [simp]:
  "call_items [] = []" "call_items ((b, c) # cs) = ItToolCall b c # call_items cs"
  "result_items [] = []" "result_items ((b, r) # rs) = ItToolResult b r # result_items rs"
  by (simp_all add: call_items_def result_items_def)

text \<open>
  The calls are committed in order, up to the first that fails; results under the ids and names of calls, in
  call order, maybe not for all of them.
\<close>

lemma commit_calls_wp:
  "turn_ok turn st \<Longrightarrow> list_all call_ok calls \<Longrightarrow>
    wp (commit_calls env turn calls) (\<lambda>r st'. \<exists>cs. prefix (map snd cs) calls \<and> at_turn turn cs
      \<and> items st' = items st @ call_items cs \<and> (if r = Inr () then map snd cs = calls else commit_failed r)) st"
proof (induction calls arbitrary: st)
  case Nil
  then show ?case by (simp add: exI [of _ "[]"])
next
  case (Cons c calls)
  let ?e = "ToolCallRecorded turn c" and ?st1 = "snd (emit_event env (ToolCallRecorded turn c) st)"
  have ok: "is_ok (validate_draft_content (DrToolCall turn c))" using Cons.prems(2) by (simp add: call_ok_def)
  have t: "turn_ok (draft_turn (DrToolCall turn c)) st" using Cons.prems(1) by simp
  have e: "draft_of_event ?e = Inr (Some (DrToolCall turn c))" "is_committable ?e" by simp_all
  from t e ok show ?case
  proof (cases rule: emit_commits [where env = env])
    case (committed b)
    then have b: "ib_turn b = turn" "items ?st1 = items st @ [ItToolCall b c]" by simp_all
    have t1: "turn_ok turn ?st1" using turn_ok_append [OF Cons.prems(1) b(2)] b(1) by simp
    have c: "list_all call_ok calls" using Cons.prems(2) by simp
    have "wp (commit_calls env turn calls) (\<lambda>r st'. \<exists>cs. prefix (map snd cs) (c # calls) \<and> at_turn turn cs
        \<and> items st' = items st @ call_items cs \<and> (if r = Inr () then map snd cs = c # calls else commit_failed r)) ?st1"
    proof (rule wp_mono [OF Cons.IH [OF t1 c]])
      fix r st'
      assume "\<exists>cs. prefix (map snd cs) calls \<and> at_turn turn cs \<and> items st' = items ?st1 @ call_items cs
        \<and> (if r = Inr () then map snd cs = calls else commit_failed r)"
      then obtain cs where "prefix (map snd cs) calls" "at_turn turn cs" "items st' = items ?st1 @ call_items cs"
        "if r = Inr () then map snd cs = calls else commit_failed r" by blast
      with b show "\<exists>cs. prefix (map snd cs) (c # calls) \<and> at_turn turn cs \<and> items st' = items st @ call_items cs
          \<and> (if r = Inr () then map snd cs = c # calls else commit_failed r)"
        by (intro exI [of _ "(b, c) # cs"]) (auto split: if_splits)
    qed
    with committed(2) show ?thesis by (cases "emit_event env ?e st") (simp add: wp_lbind wp_emit_or_fail)
  next
    case (lost err)
    then show ?thesis
      by (cases "emit_event env ?e st") (auto simp: wp_lbind wp_emit_or_fail intro: exI [of _ "[]"])
  qed
qed

text \<open>A result under the identity of a valid call.\<close>

lemma emit_result:
  assumes "turn_ok turn st" "call_ok c" "result_key r = call_key c"
  obtains (committed) b where "ib_turn b = turn" "fst (emit_event env (ToolResultRecorded turn r) st) = Inr ()"
      "items (snd (emit_event env (ToolResultRecorded turn r) st)) = items st @ [ItToolResult b r]"
    | (lost) err where "fst (emit_event env (ToolResultRecorded turn r) st) = Inl err"
      "items (snd (emit_event env (ToolResultRecorded turn r) st)) = items st"
proof -
  have ok: "is_ok (validate_draft_content (DrToolResult turn r))"
    using assms(2,3) by (simp add: call_ok_def result_key_def call_key_def)
  have t: "turn_ok (draft_turn (DrToolResult turn r)) st" using assms(1) by simp
  have e: "draft_of_event (ToolResultRecorded turn r) = Inr (Some (DrToolResult turn r))"
    "is_committable (ToolResultRecorded turn r)" by simp_all
  from t e ok show thesis
    by (cases rule: emit_commits [where env = env]) (use committed lost in auto)
qed

definition answers :: "u64 \<Rightarrow> tool_call list \<Rightarrow> (item_base \<times> tool_result) list \<Rightarrow> bool" where
  "answers turn calls rs \<longleftrightarrow> at_turn turn rs \<and> map (\<lambda>(b, r). result_key r) rs = map call_key calls"

definition answers_some :: "u64 \<Rightarrow> tool_call list \<Rightarrow> (item_base \<times> tool_result) list \<Rightarrow> bool" where
  "answers_some turn calls rs \<longleftrightarrow> at_turn turn rs \<and> subseq (map (\<lambda>(b, r). result_key r) rs) (map call_key calls)"

lemma answers_some_Cons:
  "ib_turn b = turn \<Longrightarrow> result_key r = call_key c \<Longrightarrow> answers_some turn calls rs \<Longrightarrow>
    answers_some turn (c # calls) ((b, r) # rs)"
  "answers_some turn calls rs \<Longrightarrow> answers_some turn (c # calls) rs"
  "ib_turn b = turn \<Longrightarrow> result_key r = call_key c \<Longrightarrow> answers turn calls rs \<Longrightarrow> answers turn (c # calls) ((b, r) # rs)"
  "answers turn calls rs \<Longrightarrow> answers_some turn calls rs" "answers turn [] []"
  by (auto simp: answers_some_def answers_def)

text \<open>What a stretch of result commits leaves; \<open>fine\<close> says that none of them failed.\<close>

definition results_left :: "u64 \<Rightarrow> tool_call list \<Rightarrow> bool \<Rightarrow> loop_state \<Rightarrow> loop_state \<Rightarrow> bool" where
  "results_left turn calls fine st st' \<longleftrightarrow>
     (\<exists>rs. answers_some turn calls rs \<and> (fine \<longrightarrow> answers turn calls rs) \<and> items st' = items st @ result_items rs)"

lemma results_left_simps:
  "results_left turn [] fine st st"
  "ib_turn b = turn \<Longrightarrow> result_key r = call_key c \<Longrightarrow> items st1 = items st @ [ItToolResult b r] \<Longrightarrow>
    results_left turn calls fine st1 st' \<Longrightarrow> results_left turn (c # calls) fine st st'"
  "items st1 = items st \<Longrightarrow> results_left turn calls fine st1 st' \<Longrightarrow> \<not> fine' \<Longrightarrow>
    results_left turn (c # calls) fine' st st'"
proof -
  show "results_left turn [] fine st st"
    by (auto simp: results_left_def answers_def answers_some_def intro!: exI [of _ "[]"])
next
  assume b: "ib_turn b = turn" "result_key r = call_key c" "items st1 = items st @ [ItToolResult b r]"
    and "results_left turn calls fine st1 st'"
  then obtain rs where "answers_some turn calls rs" "fine \<longrightarrow> answers turn calls rs"
    "items st' = items st1 @ result_items rs" by (auto simp: results_left_def)
  with b show "results_left turn (c # calls) fine st st'"
    unfolding results_left_def
    by (intro exI [of _ "(b, r) # rs"]) (simp add: answers_some_Cons(1,3))
next
  assume "items st1 = items st" "results_left turn calls fine st1 st'" "\<not> fine'"
  then show "results_left turn (c # calls) fine' st st'"
    unfolding results_left_def by (auto intro: answers_some_Cons(2))
qed

lemma results_left_mono: "results_left turn calls fine st st' \<Longrightarrow> (fine' \<Longrightarrow> fine) \<Longrightarrow> results_left turn calls fine' st st'"
  by (auto simp: results_left_def)

lemma parent_results:
  "turn_ok turn st \<Longrightarrow> list_all call_ok calls \<Longrightarrow>
    results_left turn calls (fst (commit_parent_results env turn calls st) = []) st
      (snd (commit_parent_results env turn calls st))"
proof (induction calls arbitrary: st)
  case Nil
  then show ?case by (simp add: results_left_simps)
next
  case (Cons c calls)
  let ?e = "ToolResultRecorded turn (parent_result c)"
  let ?st1 = "snd (emit_event env ?e st)"
  have key: "result_key (parent_result c) = call_key c"
    by (simp add: result_key_def call_key_def parent_result_def)
  have c: "call_ok c" "list_all call_ok calls" using Cons.prems(2) by simp_all
  from Cons.prems(1) c(1) key show ?case
  proof (cases rule: emit_result [where env = env])
    case (committed b)
    have "turn_ok turn ?st1" using turn_ok_append [OF Cons.prems(1) committed(3)] committed(1) by simp
    from results_left_simps(2) [OF committed(1) key committed(3) Cons.IH [OF this c(2)]] committed(2)
    show ?thesis by (auto split: prod.split sum.split)
  next
    case (lost err)
    have "turn_ok turn ?st1" using Cons.prems(1) lost(2) by (simp add: turn_ok_def)
    from results_left_simps(3) [OF lost(2) Cons.IH [OF this c(2)], of False c] lost(1)
    show ?thesis by (auto split: prod.split sum.split)
  qed
qed

abbreviation round_fine :: "loop_error option \<Rightarrow> bool" where
  "round_fine e \<equiv> (case e of None \<Rightarrow> True | Some err \<Rightarrow> \<not> commit_failed (Inl err :: loop_error + unit))"

lemma outcome_error_fine: "outcome_error oc = Some err \<Longrightarrow> \<not> commit_failed (Inl err :: loop_error + unit)"
  by (cases oc rule: outcome_error.cases) auto

lemma tool_round_items:
  "turn_ok turn st \<Longrightarrow> list_all call_ok calls \<Longrightarrow>
    results_left turn calls (round_fine (fst (process_tool_round env rt turn wd calls st))) st
      (snd (process_tool_round env rt turn wd calls st))"
proof (induction calls arbitrary: st)
  case Nil
  then show ?case by (simp add: results_left_simps)
next
  case (Cons c calls)
  let ?o = "execute_call rt (call_env_at env (ls_tick st)) c wd"
  let ?r = "outcome_result ?o"
  let ?st1 = "snd (emit_event env (ToolResultRecorded turn ?r) (advance 2 st))"
  have key: "result_key ?r = call_key c"
    using execute_call_identity [of rt "call_env_at env (ls_tick st)" c wd]
    by (simp add: result_key_def call_key_def)
  have c: "call_ok c" "list_all call_ok calls" using Cons.prems(2) by simp_all
  have t: "turn_ok turn (advance 2 st)" using Cons.prems(1) by (simp add: turn_ok_def)
  from t c(1) key show ?case
  proof (cases rule: emit_result [where env = env])
    case (committed b)
    then have st1: "items ?st1 = items st @ [ItToolResult b ?r]" by simp
    have t1: "turn_ok turn ?st1" using turn_ok_append [OF Cons.prems(1) st1] committed(1) by simp
    note add = results_left_simps(2) [OF committed(1) key st1]
    show ?thesis
    proof (cases "outcome_error ?o")
      case None
      with add [OF Cons.IH [OF t1 c(2)]] committed(2) show ?thesis by (auto simp: Let_def split: prod.split sum.split)
    next
      case (Some err)
      with add [OF parent_results [OF t1 c(2), of env]] committed(2) outcome_error_fine [OF Some] show ?thesis
        by (auto simp: Let_def split: prod.split sum.split elim: results_left_mono)
    qed
  next
    case (lost err)
    then have st1: "items ?st1 = items st" by simp
    have t1: "turn_ok turn ?st1" using Cons.prems(1) st1 by (simp add: turn_ok_def)
    from results_left_simps(3) [OF st1 parent_results [OF t1 c(2), of env], of False c] lost(1)
    show ?thesis by (auto simp: Let_def split: prod.split sum.split)
  qed
qed

text \<open>
  What a turn adds after the prompt: at most one item of text per response, and for each tool
  round the calls and then one result per call, in call order, under its id and name.
\<close>

definition assistant_item :: "u64 \<Rightarrow> content_block list \<Rightarrow> session_item list \<Rightarrow> bool" where
  "assistant_item turn blocks is \<longleftrightarrow>
     list_all is_text_block blocks
     \<and> (if blocks = [] then is = [] else \<exists>b. ib_turn b = turn \<and> is = [ItAssistant b blocks])"

inductive step_items :: "u64 \<Rightarrow> nat \<Rightarrow> session_item list \<Rightarrow> bool" where
  stopped: "step_items turn 0 []"
| final: "assistant_item turn blocks as \<Longrightarrow> step_items turn 0 as"
| tool_round: "assistant_item turn blocks as \<Longrightarrow> map snd cs \<noteq> [] \<Longrightarrow> at_turn turn cs \<Longrightarrow>
    distinct (map call_id (map snd cs)) \<Longrightarrow> answers turn (map snd cs) rs \<Longrightarrow>
    step_items turn n is \<Longrightarrow>
    step_items turn (Suc n) (as @ call_items cs @ result_items rs @ is)"

text \<open>
  The last round of a turn in which a commit failed: a part of the calls, or all calls and results for
  some of them.
\<close>

definition open_round :: "u64 \<Rightarrow> session_item list \<Rightarrow> bool" where
  "open_round turn is \<longleftrightarrow>
     (\<exists>blocks as calls cs rs. assistant_item turn blocks as \<and> distinct (map call_id calls) \<and> at_turn turn cs
       \<and> prefix (map snd cs) calls \<and> answers_some turn calls rs \<and> (rs \<noteq> [] \<longrightarrow> map snd cs = calls)
       \<and> is = as @ call_items cs @ result_items rs)"

text \<open>Rounds, and what a result of the turn says about the last of them.\<close>

definition turn_items :: "u64 \<Rightarrow> nat \<Rightarrow> loop_error + 'a \<Rightarrow> session_item list \<Rightarrow> bool" where
  "turn_items turn k r is \<longleftrightarrow>
     step_items turn k is
     \<or> commit_failed r \<and> (\<exists>rounds tail. step_items turn k rounds \<and> open_round turn tail \<and> is = rounds @ tail)"

lemma step_items_turn: "step_items turn n is \<Longrightarrow> list_all (\<lambda>i. item_turn i = turn) is"
  by (induction rule: step_items.induct)
    (auto simp: assistant_item_def answers_def split: if_splits)

lemma assistant_closed:
  "assistant_item turn blocks as \<Longrightarrow> \<exists>ms. materialize_loop J Idle acc as = Inr (Idle, ms)"
  by (auto simp: assistant_item_def split: if_splits)

lemma tool_result_blocks:
  assumes "\<forall>v. J v \<noteq> None"
  shows "\<exists>blocks. list_all2 (\<lambda>(b, r) block. tool_result_block J r = Inr block) rs blocks"
proof (induction rs)
  case Nil
  then show ?case by (simp add: exI [of _ "[]"])
next
  case (Cons br rs)
  obtain b r where br: "br = (b, r)" by (cases br)
  have "\<exists>block. tool_result_block J r = Inr block"
    using assms by (auto simp: tool_result_block_def simp del: not_None_eq split: tool_content.split option.split)
  with Cons br show ?case by (auto simp: list_all2_Cons1)
qed

lemma step_items_closed:
  assumes J: "\<forall>v. J v \<noteq> None"
  shows "step_items turn n is \<Longrightarrow> \<exists>ms. materialize_loop J Idle acc is = Inr (Idle, ms)"
proof (induction arbitrary: acc rule: step_items.induct)
  case (stopped turn)
  then show ?case by simp
next
  case (final turn blocks as)
  then show ?case by (rule assistant_closed)
next
  case (tool_round turn blocks as cs rs n "is")
  obtain ms1 where a: "materialize_loop J Idle acc as = Inr (Idle, ms1)"
    using assistant_closed [OF tool_round(1)] by blast
  obtain bls where bls: "list_all2 (\<lambda>(b, r) block. tool_result_block J r = Inr block) rs bls"
    using tool_result_blocks [OF J] by blast
  have "mset (map (\<lambda>(b, r). result_key r) rs) = mset (map (\<lambda>(b, c). call_key c) cs)"
    using tool_round(5) by (simp add: answers_def comp_def case_prod_unfold)
  moreover have "distinct (map (\<lambda>(b, c). call_id c) cs)"
    using tool_round(4) by (simp add: comp_def case_prod_unfold)
  ultimately obtain ms2 where r: "materialize_loop J Idle ms1 (call_items cs @ result_items rs) = Inr (Idle, ms2)"
    using round_run [of cs rs J bls ms1] tool_round(2) bls by auto
  obtain ms3 where "materialize_loop J Idle ms2 is = Inr (Idle, ms3)" using tool_round.IH by blast
  then have "materialize_loop J Idle acc (as @ (call_items cs @ result_items rs) @ is) = Inr (Idle, ms3)"
    by (simp only: loop_append [of J Idle acc as] a loop_append [of J Idle ms1 "call_items cs @ result_items rs"] r
        sum.case prod.case)
  then show ?case by auto
qed

section \<open>The step loop\<close>

lemma wp_materialize:
  "wp (materialize_session env) Q st =
     (case materialize (en_json env) (items st) of
        Inl e \<Rightarrow> Q (Inl (LeContext e)) st | Inr ms \<Rightarrow> Q (Inr ms) st)"
  by (simp add: wp_def materialize_session_def split: sum.split)

lemma wp_tool_round:
  "wp (run_tool_round env rt turn wd calls) Q st =
     (case process_tool_round env rt turn wd calls st of
        (Some err, st') \<Rightarrow> Q (Inl err) st' | (None, st') \<Rightarrow> Q (Inr ()) st')"
  by (auto simp: wp_def run_tool_round_def split: prod.split option.split)

lemma emit_assistant:
  assumes "turn_ok turn st" "list_all is_text_block blocks"
  obtains (committed) as where "fst (emit_event env (AssistantFinalized turn cid blocks) st) = Inr ()"
      "assistant_item turn blocks as"
      "items (snd (emit_event env (AssistantFinalized turn cid blocks) st)) = items st @ as"
    | (lost) err where "fst (emit_event env (AssistantFinalized turn cid blocks) st) = Inl err"
      "items (snd (emit_event env (AssistantFinalized turn cid blocks) st)) = items st"
proof (cases "blocks = []")
  case True
  have "is_ok (fst (emit_event env (AssistantFinalized turn cid blocks) st))"
    "items (snd (emit_event env (AssistantFinalized turn cid blocks) st)) = items st"
    using emit_event_session [of "AssistantFinalized turn cid blocks" env st] True
    by (simp_all add: commit_event_def commit_from_event_def)
  with True show thesis by (intro committed [of "[]"]) (auto simp: assistant_item_def is_ok_iff)
next
  case False
  let ?e = "AssistantFinalized turn cid blocks"
  have ok: "is_ok (validate_draft_content (DrAssistant turn blocks))"
    using assms(2) False by (simp add: validate_assistant_blocks_ok)
  have t: "turn_ok (draft_turn (DrAssistant turn blocks)) st" using assms(1) by simp
  have e: "draft_of_event ?e = Inr (Some (DrAssistant turn blocks))" "is_committable ?e" using False by simp_all
  from t e ok show thesis
  proof (cases rule: emit_commits [where env = env])
    case (committed b)
    with False assms(2) show thesis
      by (intro that(1) [of "[ItAssistant b blocks]"]) (auto simp: assistant_item_def)
  qed (rule lost)
qed

text \<open>What the loop over the steps leaves, relative to the state it started in.\<close>

definition steps_post ::
  "u64 \<Rightarrow> nat \<Rightarrow> loop_state \<Rightarrow> loop_error + model_response \<Rightarrow> loop_state \<Rightarrow> bool" where
  "steps_post turn n st r st' \<longleftrightarrow> (\<exists>k is. k \<le> n \<and> turn_items turn k r is \<and> items st' = items st @ is)"

lemma steps_post_stop: "items st' = items st \<Longrightarrow> steps_post turn n st r st'"
  by (auto simp: steps_post_def turn_items_def intro!: exI [of _ 0] step_items.stopped)

text \<open>A failed commit in a round ends the steps.\<close>

lemma steps_post_broken:
  assumes "commit_failed r" "open_round turn is" "items st' = items st @ is"
  shows "steps_post turn n st r st'"
  unfolding steps_post_def turn_items_def
  by (intro exI [of _ 0] exI [of _ "is"] conjI disjI2 exI [of _ "[]"]) (use assms step_items.stopped in auto)

lemma open_round_start: "assistant_item turn blocks as \<Longrightarrow> at_turn turn cs \<Longrightarrow> prefix (map snd cs) calls \<Longrightarrow>
    distinct (map call_id calls) \<Longrightarrow> open_round turn (as @ call_items cs)"
  unfolding open_round_def
  by (intro exI [of _ blocks] exI [of _ as] exI [of _ calls] exI [of _ cs] exI [of _ "[]"])
    (auto simp: answers_some_def)

lemma open_round_empty: "open_round turn []"
  using open_round_start [of turn "[]" "[]" "[]" "[]"] by (simp add: assistant_item_def)

lemma steps_post_round:
  assumes as: "assistant_item turn blocks as" and calls: "calls \<noteq> []" "distinct (map call_id calls)"
    and cs: "map snd cs = calls" "at_turn turn cs" and rs: "answers turn calls rs"
    and st2: "items st2 = items st @ as @ call_items cs @ result_items rs"
    and post: "steps_post turn n st2 r st'"
  shows "steps_post turn (Suc n) st r st'"
proof -
  have more: "step_items turn (Suc k) (as @ call_items cs @ result_items rs @ is)" if "step_items turn k is" for k "is"
    using step_items.tool_round [OF as _ cs(2) _ _ that] calls rs cs(1) by simp
  from post obtain k "is" where k: "k \<le> n" "turn_items turn k r is" "items st' = items st2 @ is"
    by (auto simp: steps_post_def)
  have "turn_items turn (Suc k) r (as @ call_items cs @ result_items rs @ is)"
    using k(2) unfolding turn_items_def by (metis append.assoc more)
  with k(1,3) st2 show ?thesis
    unfolding steps_post_def by (intro exI [of _ "Suc k"] exI conjI) auto
qed

text \<open>The tool-round branch of a step, up to the decision whether to go on.\<close>

lemma tool_round_wp:
  assumes t: "turn_ok turn st" and same: "items st = items st0"
    and cls: "classify_response resp = Inr (ToolRound blocks calls)"
    and go_on: "\<And>st'. turn_ok turn st' \<Longrightarrow> (\<And>r st''. steps_post turn n st' r st'' \<Longrightarrow> steps_post turn (Suc n) st0 r st'') \<Longrightarrow>
      wp rest (steps_post turn (Suc n) st0) st'"
  shows "wp (lbind (emit_or_fail env (AssistantFinalized turn cid blocks)) (\<lambda>_.
          lbind (commit_calls env turn calls) (\<lambda>_.
          lbind (run_tool_round env rt turn wd calls) (\<lambda>_. rest)))) (steps_post turn (Suc n) st0) st"
proof -
  note calls = classify_toolround [OF cls]
  let ?e = "AssistantFinalized turn cid blocks"
  let ?st1 = "snd (emit_event env (AssistantFinalized turn cid blocks) st)"
  from t calls(4) show ?thesis
  proof (cases rule: emit_assistant [where env = env and cid = cid])
    case (committed as)
    note as = committed(2,3)
    have "list_all (\<lambda>i. item_turn i = turn) as"
      using step_items_turn [OF step_items.final [OF as(1)]] .
    then have t1: "turn_ok turn ?st1" using turn_ok_append [OF t as(2)] by blast
    have inner: "wp (lbind (commit_calls env turn calls) (\<lambda>_. lbind (run_tool_round env rt turn wd calls) (\<lambda>_. rest)))
        (steps_post turn (Suc n) st0) ?st1"
    proof (rule wp_lbindI [OF commit_calls_wp [OF t1 calls(3)]])
      fix err st2
      assume "\<exists>cs. prefix (map snd cs) calls \<and> at_turn turn cs \<and> items st2 = items ?st1 @ call_items cs
        \<and> (if Inl err = Inr () then map snd cs = calls else commit_failed (Inl err :: loop_error + unit))"
      then obtain cs where cs: "prefix (map snd cs) calls" "at_turn turn cs" "items st2 = items ?st1 @ call_items cs"
        "commit_failed (Inl err :: loop_error + unit)" by auto
      have "commit_failed (Inl err :: loop_error + model_response)" using cs(4) by (cases err) simp_all
      from steps_post_broken [OF this open_round_start [OF as(1) cs(2,1) calls(2)]] cs(3) as(2) same
      show "steps_post turn (Suc n) st0 (Inl err) st2" by simp
    next
      fix u st2
      assume "\<exists>cs. prefix (map snd cs) calls \<and> at_turn turn cs \<and> items st2 = items ?st1 @ call_items cs
        \<and> (if Inr u = Inr () then map snd cs = calls else commit_failed (Inr u :: loop_error + unit))"
      then obtain cs where cs: "map snd cs = calls" "at_turn turn cs" "items st2 = items ?st1 @ call_items cs" by auto
      have t2: "turn_ok turn st2" using turn_ok_append [OF t1 cs(3)] cs(2) by simp
      obtain e st3 where pr: "process_tool_round env rt turn wd calls st2 = (e, st3)" by fastforce
      obtain rs where rs: "answers_some turn calls rs" "round_fine e \<Longrightarrow> answers turn calls rs"
        "items st3 = items st2 @ result_items rs"
        using tool_round_items [OF t2 calls(3), of env rt wd] pr by (auto simp: results_left_def)
      have t3: "turn_ok turn st3" using turn_ok_append [OF t2 rs(3)] rs(1) by (simp add: answers_some_def)
      have st3: "items st3 = items st0 @ as @ call_items cs @ result_items rs"
        using rs(3) cs(3) as(2) same by simp
      note next_round = steps_post_round [OF as(1) calls(1,2) cs(1,2) rs(2) st3]
      show "wp (lbind (run_tool_round env rt turn wd calls) (\<lambda>_. rest)) (steps_post turn (Suc n) st0) st2"
      proof (cases "round_fine e")
        case True
        have "steps_post turn (Suc n) st0 r st3" for r
          by (rule next_round [OF True]) (rule steps_post_stop [OF refl])
        moreover have "wp rest (steps_post turn (Suc n) st0) st3" by (rule go_on [OF t3 next_round [OF True]])
        ultimately show ?thesis using pr by (simp add: wp_lbind wp_tool_round split: option.split)
      next
        case False
        then obtain err where err: "e = Some err" "commit_failed (Inl err :: loop_error + unit)"
          by (auto split: option.splits)
        have failed: "commit_failed (Inl err :: loop_error + model_response)" using err(2) by (cases err) simp_all
        have "open_round turn (as @ call_items cs @ result_items rs)"
          unfolding open_round_def using as(1) calls(2) cs rs(1) by blast
        from steps_post_broken [OF failed this st3] err(1) pr show ?thesis
          by (simp add: wp_lbind wp_tool_round)
      qed
    qed
    with committed(1) show ?thesis
      by (cases "emit_event env ?e st") (simp add: wp_lbind wp_emit_or_fail)
  next
    case (lost err)
    have "steps_post turn (Suc n) st0 (Inl (LeSession err)) ?st1"
      by (rule steps_post_stop) (use lost(2) same in simp)
    with lost(1) show ?thesis
      by (cases "emit_event env ?e st") (simp add: wp_lbind wp_emit_or_fail)
  qed
qed

lemma terminal_wp:
  assumes t: "turn_ok turn st" and same: "items st = items st0"
    and cls: "classify_response resp = Inr (Terminal blocks)"
  shows "wp (lbind (emit_or_fail env (AssistantFinalized turn cid blocks)) (\<lambda>_.
          lbind (emit_or_fail env (TurnEnded turn)) (\<lambda>_. lreturn response))) (steps_post turn n st0) st"
proof -
  let ?e = "AssistantFinalized turn cid blocks"
  let ?st1 = "snd (emit_event env (AssistantFinalized turn cid blocks) st)"
  let ?st2 = "snd (emit_event env (TurnEnded turn) ?st1)"
  from t classify_terminal [OF cls] show ?thesis
  proof (cases rule: emit_assistant [where env = env and cid = cid])
    case (committed as)
    have "items ?st2 = items st0 @ as" using committed(3) same by (simp add: emit_event_observational)
    then have "steps_post turn n st0 r ?st2" for r
      unfolding steps_post_def turn_items_def
      by (intro exI [of _ 0] exI [of _ as] conjI disjI1 step_items.final [OF committed(2)]) auto
    with committed(1) show ?thesis
      by (cases "emit_event env ?e st")
        (simp add: wp_lbind wp_emit_or_fail [of _ ?e] wp_emit_observational)
  next
    case (lost err)
    have "steps_post turn n st0 (Inl (LeSession err)) ?st1"
      by (rule steps_post_stop) (use lost(2) same in simp)
    with lost(1) show ?thesis
      by (cases "emit_event env ?e st") (simp add: wp_lbind wp_emit_or_fail [of _ ?e])
  qed
qed

lemma step_loop_items:
  "turn_ok turn st \<Longrightarrow>
    wp (step_loop env rt sys policy turn wd steps config) (steps_post turn (length steps) st) st"
proof (induction steps arbitrary: st config)
  case Nil
  then show ?case by (simp add: steps_post_stop)
next
  case (Cons s steps)
  have attempts: "wp (llm_attempts env turn s request max_retries as) (\<lambda>r st'.
      items st' = items st \<and> (case r of Inr a \<Rightarrow> answer_ok a | Inl _ \<Rightarrow> True)) (advance 1 st)"
    for request max_retries as
    by (rule wp_mono [OF llm_attempts_wp]) (auto simp: attempts_post_def split: sum.splits)
  let ?P = "steps_post turn (length (s # steps)) st"
  have answer: "wp (case answer of
        None \<Rightarrow> lthrow LeNoResponse
      | Some (response, Terminal blocks, cid) \<Rightarrow>
          lbind (emit_or_fail env (AssistantFinalized turn cid blocks)) (\<lambda>_.
          lbind (emit_or_fail env (TurnEnded turn)) (\<lambda>_. lreturn response))
      | Some (response, ToolRound blocks calls, cid) \<Rightarrow>
          lbind (emit_or_fail env (AssistantFinalized turn cid blocks)) (\<lambda>_.
          lbind (commit_calls env turn calls) (\<lambda>_.
          lbind (run_tool_round env rt turn wd calls) (\<lambda>_.
          if s + 1 = tpl_max_steps policy
          then lbind (emit_or_fail env (TurnEnded turn)) (\<lambda>_. lthrow LeExhaustedAfterRound)
          else step_loop env rt sys policy turn wd steps (continue_from response config))))) ?P st'"
    if same: "items st' = items st" and ok: "answer_ok answer" for answer st'
  proof -
    have t': "turn_ok turn st'" using Cons.prems same by (simp add: turn_ok_def)
    show ?thesis
    proof (cases answer)
      case None
      then show ?thesis using same by (simp add: steps_post_stop)
    next
      case (Some a)
      obtain response action cid where a: "a = (response, action, cid)" by (cases a)
      show ?thesis
      proof (cases action)
        case (Terminal blocks)
        with ok Some a have "classify_response response = Inr (Terminal blocks)" by (simp add: answer_ok_def)
        from terminal_wp [OF t' same this] show ?thesis using Some a Terminal by simp
      next
        case (ToolRound blocks calls)
        with ok Some a have cls: "classify_response response = Inr (ToolRound blocks calls)"
          by (simp add: answer_ok_def)
        have "wp (if s + 1 = tpl_max_steps policy
            then lbind (emit_or_fail env (TurnEnded turn)) (\<lambda>_. lthrow LeExhaustedAfterRound)
            else step_loop env rt sys policy turn wd steps (continue_from response config))
            (steps_post turn (Suc (length steps)) st) st1"
          if "turn_ok turn st1"
            and up: "\<And>r st''. steps_post turn (length steps) st1 r st'' \<Longrightarrow> steps_post turn (Suc (length steps)) st r st''"
          for st1
        proof (cases "s + 1 = tpl_max_steps policy")
          case True
          have "steps_post turn (length steps) st1 (Inl LeExhaustedAfterRound) (snd (emit_event env (TurnEnded turn) st1))"
            by (rule steps_post_stop) (simp add: emit_event_observational)
          from up [OF this] True show ?thesis by (simp add: wp_lbind wp_emit_observational)
        next
          case False
          with wp_mono [OF Cons.IH [OF that(1), of "continue_from response config"] up] show ?thesis
            by (simp only: if_False)
        qed
        from tool_round_wp [OF t' same cls this, where cid = cid and rt = rt and wd = wd]
        show ?thesis unfolding Some a ToolRound option.case prod.case response_action.case list.size
          by (simp only: add_Suc_right add_0_right)
      qed
    qed
  qed
  show ?case
    unfolding step_loop.simps
  proof (rule wp_lbindI [where R = "\<lambda>r st1. st1 = advance 1 st"], goal_cases)
    case (3 u st1)
    show ?case
    proof (rule wp_lbindI [where R = "\<lambda>r st2. st2 = advance 1 st"], goal_cases)
      case (3 ms st2)
      show ?case unfolding 3
      proof (rule wp_lbindI [OF attempts], goal_cases)
        case (2 a st3)
        show ?case by (rule answer) (use 2 in simp_all)
      qed (simp add: steps_post_stop)
    qed (simp_all add: wp_materialize 3 steps_post_stop split: sum.split)
  qed (simp_all add: wp_ensure steps_post_stop)
qed

section \<open>The budget of a turn\<close>

lemma commit_calls_ran: "wp (commit_calls env turn calls) (\<lambda>r st'. ran 0 0 st st') st"
proof (induction calls arbitrary: st)
  case (Cons c calls)
  let ?e = "ToolCallRecorded turn c"
  have r1: "ran 0 0 st (snd (emit_event env ?e st))" by (rule ran_emit) simp
  have "wp (commit_calls env turn calls) (\<lambda>r st'. ran 0 0 st st') (snd (emit_event env ?e st))"
    by (rule wp_mono [OF Cons.IH]) (rule ran_step [OF r1])
  with r1 show ?case
    by (cases "emit_event env ?e st") (simp add: wp_lbind wp_emit_or_fail split: sum.split)
qed simp

lemma parent_results_ran: "ran 0 0 st (snd (commit_parent_results env turn calls st))"
proof (induction calls arbitrary: st)
  case (Cons c calls)
  have r1: "ran 0 0 st (snd (emit_event env (ToolResultRecorded turn (parent_result c)) st))"
    by (rule ran_emit) simp
  show ?case using ran_step [OF r1 Cons.IH]
    by (auto split: prod.split)
qed simp

lemma tool_round_ran: "ran 0 0 st (snd (process_tool_round env rt turn wd calls st))"
proof (induction calls arbitrary: st)
  case (Cons c calls)
  let ?o = "execute_call rt (call_env_at env (ls_tick st)) c wd"
  let ?st1 = "snd (emit_event env (ToolResultRecorded turn (outcome_result ?o)) (advance 2 st))"
  have r1: "ran 0 0 st ?st1" by (rule ran_step [OF ran_advance ran_emit]) simp
  have "ran 0 0 st (snd (process_tool_round env rt turn wd calls ?st1))" by (rule ran_step [OF r1 Cons.IH])
  moreover have "ran 0 0 st (snd (commit_parent_results env turn calls ?st1))"
    by (rule ran_step [OF r1 parent_results_ran])
  ultimately show ?case
    by (auto simp: Let_def split: prod.split sum.split option.split)
qed simp

lemma emit_ran: "\<not> llm_event e \<Longrightarrow> wp (emit_or_fail env e) (\<lambda>r st'. ran 0 0 st st') st"
  using ran_emit [of e st env] by (cases "emit_event env e st") (simp add: wp_emit_or_fail split: sum.split)

text \<open>Steps with budgets compose by adding the budgets.\<close>

lemma ran_lbindI:
  assumes "wp m (\<lambda>r st'. ran n ms st st') st" and "\<And>x st'. wp (f x) (\<lambda>r st''. ran n' ms' st' st'') st'"
  shows "wp (lbind m f) (\<lambda>r st'. ran (n + n') (ms + ms') st st') st"
proof (rule wp_lbindI [OF assms(1)])
  fix e st' assume "ran n ms st st'"
  then show "ran (n + n') (ms + ms') st st'" by (rule ran_mono) simp_all
next
  fix x st' assume "ran n ms st st'"
  from ran_trans [OF this] show "wp (f x) (\<lambda>r st''. ran (n + n') (ms + ms') st st'') st'"
    by (rule wp_mono [OF assms(2)])
qed

lemma ran0_lbindI:
  "wp m (\<lambda>r st'. ran 0 0 st st') st \<Longrightarrow> (\<And>x st'. wp (f x) (\<lambda>r st''. ran n ms st' st'') st') \<Longrightarrow>
   wp (lbind m f) (\<lambda>r st'. ran n ms st st') st"
  using ran_lbindI [of m 0 0 st f n ms] by simp

lemma ensure_ran: "wp (ensure_not_cancelled env) (\<lambda>r st'. ran 0 0 st st') st"
  by (simp add: wp_ensure)

lemma materialize_ran: "wp (materialize_session env) (\<lambda>r st'. ran 0 0 st st') st"
  by (simp add: wp_materialize split: sum.split)

lemma retry_ms_bound:
  assumes "max_retries \<le> 3"
  shows "retry_ms max_retries (attempt_numbers max_retries) \<le> 3500" "unat max_retries \<le> 3"
proof -
  have le: "unat max_retries \<le> 3" using assms by (simp add: word_le_nat_alt)
  have w: "max_retries = word_of_nat k" if "unat max_retries = k" for k using that by auto
  have "max_retries = 0 \<or> max_retries = 1 \<or> max_retries = 2 \<or> max_retries = 3"
    using le w [of 0] w [of 1] w [of 2] w [of 3] by fastforce
  moreover have "retry_ms 0 (attempt_numbers 0) = 0" "retry_ms 1 (attempt_numbers 1) = 500"
    "retry_ms 2 (attempt_numbers 2) = 1500" "retry_ms 3 (attempt_numbers 3) = 3500"
    by code_simp+
  ultimately show "retry_ms max_retries (attempt_numbers max_retries) \<le> 3500" by auto
  show "unat max_retries \<le> 3" by (rule le)
qed

lemma step_loop_ran:
  assumes "tpl_max_llm_retries policy \<le> 3"
  shows "wp (step_loop env rt sys policy turn wd steps config)
    (\<lambda>r st'. ran (length steps * 4) (length steps * 3500) st st') st"
proof (induction steps arbitrary: st config)
  case (Cons s steps)
  let ?n = "length steps * 4" and ?ms = "length steps * 3500"
  let ?m = "tpl_max_llm_retries policy"
  have att: "wp (llm_attempts env turn s request ?m (attempt_numbers ?m)) (\<lambda>r st'. ran 4 3500 st st') st"
    for request st
  proof (rule wp_mono [OF llm_attempts_wp])
    fix r st' assume "attempts_post (length (attempt_numbers ?m)) (retry_ms ?m (attempt_numbers ?m))
      (attempt_numbers ?m = [] \<or> last (attempt_numbers ?m) < ?m) st r st'"
    then have "ran (length (attempt_numbers ?m)) (retry_ms ?m (attempt_numbers ?m)) st st'"
      by (simp add: attempts_post_def)
    then show "ran 4 3500 st st'"
      by (rule ran_mono) (use retry_ms_bound [OF assms] in \<open>simp_all add: attempt_numbers_def\<close>)
  qed
  have ended: "wp (lbind (emit_or_fail env (TurnEnded turn)) f) (\<lambda>r st'. ran ?n ?ms st st') st"
    if "\<And>x st'. wp (f x) (\<lambda>r st''. ran ?n ?ms st' st'') st'" for f :: "unit \<Rightarrow> model_response loop_m" and st
    by (rule ran0_lbindI [OF emit_ran that]) simp
  have ret: "wp (lreturn x) (\<lambda>r st'. ran ?n ?ms st st') st" "wp (lthrow e) (\<lambda>r st'. ran ?n ?ms st st') st"
    for x :: model_response and e st
    using ran_mono [OF ran_refl] by simp_all
  have round: "wp (run_tool_round env rt turn wd calls) (\<lambda>r st'. ran 0 0 st st') st" for calls st
    using tool_round_ran [of st env rt turn wd calls]
    by (cases "process_tool_round env rt turn wd calls st") (simp add: wp_tool_round split: option.split)
  have "ran (4 + ?n) (3500 + ?ms) = ran (length (s # steps) * 4) (length (s # steps) * 3500)" by simp
  moreover have "wp (step_loop env rt sys policy turn wd (s # steps) config)
      (\<lambda>r st'. ran (4 + ?n) (3500 + ?ms) st st') st"
    unfolding step_loop.simps
    by (intro ran0_lbindI [OF ensure_ran] ran0_lbindI [OF materialize_ran] ran_lbindI [OF att])
      (auto simp del: length_Cons split: option.split response_action.split
        intro!: ret ran_mono [OF ran_refl] ended Cons.IH ran0_lbindI [OF emit_ran] ran0_lbindI [OF commit_calls_ran] ran0_lbindI [OF round])
  ultimately show ?case by simp
qed simp

end
