(* ===== verification/Turn_Properties.thy ===== *)
theory Turn_Properties
  imports Turn_Proofs
begin

text \<open>
  A whole turn, from the checks of its input to the response: what it may cost, what it leaves
  in the log on every exit, and what a returned response means; with two concrete turns.
\<close>

section \<open>The whole turn\<close>

lemma wp_validate_input_policy:
  "wp (validate_input_policy inp) Q st =
     (case policy_validate (ti_policy inp) of
        Inl e \<Rightarrow> Q (Inl (LePolicy e)) st
      | Inr _ \<Rightarrow> if ti_text inp = [] then Q (Inl LeEmptyText) st else Q (Inr ()) st)"
  by (simp add: validate_input_policy_def split: sum.split)

lemma wp_fresh_turn:
  "wp fresh_turn Q st =
     (case next_turn (ls_session st) of Inl e \<Rightarrow> Q (Inl (LeSession e)) st | Inr t \<Rightarrow> Q (Inr t) st)"
  by (simp add: wp_def fresh_turn_def split: sum.split)

lemma length_step_numbers [simp]: "length (step_numbers n) = unat n"
  by (simp add: step_numbers_def)

lemma policy_validate_retries: "policy_validate p = Inr u \<Longrightarrow> tpl_max_llm_retries p \<le> 3"
  by (simp add: policy_validate_def not_less split: if_splits)

lemma run_turn_ran:
  "wp (run_turn env rt inp) (\<lambda>r st'. ran (unat (tpl_max_steps (ti_policy inp)) * 4)
     (unat (tpl_max_steps (ti_policy inp)) * 3500) st st') st"
proof (cases "policy_validate (ti_policy inp)")
  case (Inl e)
  then show ?thesis
    using ran_mono [OF ran_refl] by (simp add: run_turn_def wp_lbind wp_validate_input_policy)
next
  case (Inr u)
  have fresh: "wp fresh_turn (\<lambda>r st'. ran 0 0 st st') st" for st
    by (simp add: wp_fresh_turn split: sum.split)
  have input: "wp (validate_input_policy inp) (\<lambda>r st'. ran 0 0 st st') st"
    by (simp add: wp_validate_input_policy split: sum.split)
  have loop: "wp (run_steps env rt inp turn)
     (\<lambda>r st'. ran (unat (tpl_max_steps (ti_policy inp)) * 4)
       (unat (tpl_max_steps (ti_policy inp)) * 3500) st st') st" for st turn
    using step_loop_ran [OF policy_validate_retries [OF Inr], of env rt "ti_system_prompt inp" turn
        "sh_cwd (ss_header (ls_session st))" "step_numbers (tpl_max_steps (ti_policy inp))" "ti_config inp" st]
    by (simp add: wp_def run_steps_def)
  show ?thesis
    unfolding run_turn_def
    by (intro ran0_lbindI [OF input] ran0_lbindI [OF ensure_ran] ran0_lbindI [OF materialize_ran]
        ran0_lbindI [OF fresh] ran0_lbindI [OF emit_ran] loop) simp_all
qed

lemma next_turn_ok: "next_turn (ls_session st) = Inr turn \<Longrightarrow> turn_ok turn st"
  by (auto simp: next_turn_def turn_ok_def last_opt_def word_le_nat_alt unat_plus_1 split: if_splits)

text \<open>What a turn leaves in the log.\<close>

definition turn_post :: "turn_input \<Rightarrow> loop_state \<Rightarrow> loop_error + model_response \<Rightarrow> loop_state \<Rightarrow> bool" where
  "turn_post inp st r st' \<longleftrightarrow> items st' = items st
     \<or> (\<exists>turn b k is. next_turn (ls_session st) = Inr turn \<and> ib_turn b = turn
          \<and> k \<le> unat (tpl_max_steps (ti_policy inp)) \<and> turn_items turn k r is
          \<and> items st' = items st @ ItUser b (ti_text inp) # is)"

lemma turn_post_same: "items st' = items st \<Longrightarrow> turn_post inp st r st'"
  by (simp add: turn_post_def)

lemma prompt_wp:
  assumes turn: "next_turn (ls_session st0) = Inr turn"
    and same: "ls_session st = ls_session st0" and ne: "ti_text inp \<noteq> []"
  shows "wp (lbind (emit_or_fail env (UserPromptCommitted turn (ti_text inp))) (\<lambda>_. run_steps env rt inp turn))
     (turn_post inp st0) st"
proof -
  have t: "turn_ok turn st" using next_turn_ok [OF turn] same by (simp add: turn_ok_def)
  let ?e = "UserPromptCommitted turn (ti_text inp)"
  let ?st1 = "snd (emit_event env ?e st)"
  have t0: "turn_ok (draft_turn (DrUser turn (ti_text inp))) st"
    "draft_of_event ?e = Inr (Some (DrUser turn (ti_text inp)))" "is_committable ?e"
    "is_ok (validate_draft_content (DrUser turn (ti_text inp)))" using t ne by simp_all
  then show ?thesis
  proof (cases rule: emit_commits [where env = env])
    case (committed b)
    then have b: "ib_turn b = turn" "items ?st1 = items st @ [ItUser b (ti_text inp)]" by simp_all
    have "turn_ok turn ?st1" using turn_ok_append [OF t b(2)] b(1) by simp
    from step_loop_items [OF this]
    have "wp (step_loop env rt (ti_system_prompt inp) (ti_policy inp) turn (sh_cwd (ss_header (ls_session ?st1)))
        (step_numbers (tpl_max_steps (ti_policy inp))) (ti_config inp)) (turn_post inp st0) ?st1"
    proof (rule wp_mono)
      fix r st' assume "steps_post turn (length (step_numbers (tpl_max_steps (ti_policy inp)))) ?st1 r st'"
      then show "turn_post inp st0 r st'"
        using b turn same unfolding turn_post_def steps_post_def by auto
    qed
    with committed(2) show ?thesis
      by (cases "emit_event env ?e st") (simp add: wp_lbind wp_emit_or_fail, simp add: wp_def run_steps_def)
  next
    case (lost err)
    then show ?thesis
      by (cases "emit_event env ?e st") (simp add: wp_lbind wp_emit_or_fail turn_post_same same)
  qed
qed

lemma run_turn_items: "wp (run_turn env rt inp) (turn_post inp st) st"
proof -
  note steps = wp_validate_input_policy wp_ensure wp_materialize wp_fresh_turn wp_emit_observational
  have go: "wp (lbind (emit_or_fail env (UserPromptCommitted turn (ti_text inp))) (\<lambda>_. run_steps env rt inp turn))
      (turn_post inp st) st1"
    if "next_turn (ls_session st) = Inr turn" "ti_text inp \<noteq> []" "ls_session st1 = ls_session st" for turn st1
    using prompt_wp [OF that(1,3,2)] .
  have same: "ls_session st1 = ls_session st \<Longrightarrow> turn_post inp st r st1" for r st1
    by (simp add: turn_post_same)
  show ?thesis
    unfolding run_turn_def
    by (simp add: wp_lbind [of "validate_input_policy inp"] wp_lbind [of "ensure_not_cancelled env"]
      wp_lbind [of "materialize_session env"] wp_lbind [of fresh_turn] wp_lbind [of "emit_or_fail env (TurnStarted t)" for t]
      steps split: sum.split) (auto simp: same emit_event_observational intro!: go)
qed

section \<open>A returned response\<close>

text \<open>What holds when a step succeeds; a failure asks nothing.\<close>

definition on_ok :: "('a \<Rightarrow> loop_state \<Rightarrow> bool) \<Rightarrow> loop_error + 'a \<Rightarrow> loop_state \<Rightarrow> bool" where
  "on_ok Q r st = (case r of Inl _ \<Rightarrow> True | Inr x \<Rightarrow> Q x st)"

lemma on_ok_simps [simp]: "on_ok Q (Inl e) st" "on_ok Q (Inr x) st = Q x st"
  by (simp_all add: on_ok_def)

lemma wp_on_ok_lbind:
  assumes "wp m (on_ok (\<lambda>x st'. wp (f x) (on_ok Q) st')) st"
  shows "wp (lbind m f) (on_ok Q) st"
  by (rule wp_lbindI [OF assms]) auto

lemma wp_on_ok_then:
  assumes "\<And>x st'. wp (f x) (on_ok Q) st'"
  shows "wp (lbind m f) (on_ok Q) st"
  by (rule wp_on_ok_lbind) (auto simp: wp_def on_ok_def assms [unfolded wp_def on_ok_def] split: sum.split)

text \<open>The last thing a successful turn wrote and showed.\<close>

definition finished_with :: "u64 \<Rightarrow> model_response \<Rightarrow> loop_state \<Rightarrow> bool" where
  "finished_with turn response st \<longleftrightarrow>
     (\<exists>blocks. classify_response response = Inr (Terminal blocks)
        \<and> (blocks = [] \<or> items st \<noteq> [] \<and> (\<exists>b. ib_turn b = turn \<and> last (items st) = ItAssistant b blocks))
        \<and> (dp_hooks (ls_events st) = [] \<or> seen st \<noteq> [] \<and> last (seen st) = TurnEnded turn))"

lemma emit_assistant_last:
  assumes "fst (emit_event env (AssistantFinalized turn cid blocks) st) = Inr u"
  shows "blocks = [] \<or> items (snd (emit_event env (AssistantFinalized turn cid blocks) st)) \<noteq> []
    \<and> (\<exists>b. ib_turn b = turn
        \<and> last (items (snd (emit_event env (AssistantFinalized turn cid blocks) st))) = ItAssistant b blocks)"
proof (cases "blocks = []")
  case False
  let ?e = "AssistantFinalized turn cid blocks"
  let ?S = "en_serde env" and ?io = "en_io env (ls_tick st)" and ?s = "ls_session st"
  let ?d = "DrAssistant turn blocks"
  have ok: "is_ok (fst (commit_event ?S ?io ?s ?e))"
    using emit_event_session(2) [of ?e env st] assms by (simp add: is_ok_iff)
  then have "is_ok (fst (commit_item ?S ?io ?s ?d))"
    using False by (auto simp: commit_event_def commit_from_event_def split: prod.splits sum.splits)
  then have "ss_items (snd (commit_item ?S ?io ?s ?d)) = ss_items ?s @ [next_item ?io ?s ?d]"
    by (cases rule: commit_item_cases [of ?d ?s ?S ?io]) auto
  moreover have "snd (commit_event ?S ?io ?s ?e) = snd (commit_item ?S ?io ?s ?d)"
    using False by (auto simp: commit_event_def commit_from_event_def split: prod.splits sum.splits)
  ultimately have "items (snd (emit_event env ?e st)) = items st @ [next_item ?io ?s ?d]"
    using emit_event_session(1) [of ?e env st] by simp
  then show ?thesis by (simp add: next_item_def)
qed simp

lemma emit_turn_ended:
  "items (snd (emit_event env (TurnEnded turn) st)) = items st"
  "dp_hooks (ls_events (snd (emit_event env (TurnEnded turn) st))) = []
    \<or> seen (snd (emit_event env (TurnEnded turn) st)) \<noteq> []
      \<and> last (seen (snd (emit_event env (TurnEnded turn) st))) = TurnEnded turn"
  by (auto simp: emit_event_observational emit_event_frame emit_event_seen)

lemma terminal_finishes:
  assumes "classify_response response = Inr (Terminal blocks)"
  shows "wp (lbind (emit_or_fail env (AssistantFinalized turn cid blocks)) (\<lambda>_.
          lbind (emit_or_fail env (TurnEnded turn)) (\<lambda>_. lreturn response))) (on_ok (finished_with turn)) st"
proof (rule wp_on_ok_lbind)
  let ?st1 = "snd (emit_event env (AssistantFinalized turn cid blocks) st)"
  have "finished_with turn response (snd (emit_event env (TurnEnded turn) ?st1))"
    if "fst (emit_event env (AssistantFinalized turn cid blocks) st) = Inr u" for u
    unfolding finished_with_def emit_turn_ended(1)
    by (intro exI [of _ blocks] conjI assms emit_assistant_last [OF that] emit_turn_ended(2))
  then show "wp (emit_or_fail env (AssistantFinalized turn cid blocks)) (on_ok (\<lambda>u st'.
      wp (lbind (emit_or_fail env (TurnEnded turn)) (\<lambda>_. lreturn response)) (on_ok (finished_with turn)) st')) st"
    by (cases "emit_event env (AssistantFinalized turn cid blocks) st")
      (simp add: wp_emit_or_fail [of _ "AssistantFinalized turn cid blocks"] wp_lbind wp_emit_observational
        split: sum.split)
qed

lemma step_loop_finishes:
  "wp (step_loop env rt sys policy turn wd steps config) (on_ok (finished_with turn)) st"
proof (induction steps arbitrary: st config)
  case (Cons s steps)
  have attempts: "wp (llm_attempts env turn s request max_retries as) (on_ok (\<lambda>a st'. answer_ok a)) st"
    for request max_retries as st
    by (rule wp_mono [OF llm_attempts_wp]) (auto simp: attempts_post_def on_ok_def split: sum.splits)
  have rest: "wp (lbind (emit_or_fail env (AssistantFinalized turn cid blocks)) (\<lambda>_.
          lbind (commit_calls env turn calls) (\<lambda>_.
          lbind (run_tool_round env rt turn wd calls) (\<lambda>_.
          if s + 1 = tpl_max_steps policy
          then lbind (emit_or_fail env (TurnEnded turn)) (\<lambda>_. lthrow LeExhaustedAfterRound)
          else step_loop env rt sys policy turn wd steps config')))) (on_ok (finished_with turn)) st"
    for cid blocks calls config' st
    by (intro wp_on_ok_then) (auto intro: Cons.IH wp_on_ok_then)
  show ?case
    unfolding step_loop.simps
    by (rule wp_on_ok_then, rule wp_on_ok_then, rule wp_on_ok_lbind, rule wp_mono [OF attempts])
      (auto simp: answer_ok_def on_ok_def split: sum.split option.split response_action.split prod.split
        split del: if_split intro!: terminal_finishes rest)
qed simp

lemma run_turn_finishes:
  "wp (run_turn env rt inp) (on_ok (\<lambda>response st'.
     \<exists>turn. next_turn (ls_session st) = Inr turn \<and> finished_with turn response st')) st"
proof (cases "next_turn (ls_session st)")
  case (Inl e)
  have "wp (validate_input_policy inp) (\<lambda>r st'. ls_session st' = ls_session st) st"
    by (simp add: wp_validate_input_policy split: sum.split)
  then show ?thesis
    by (simp add: run_turn_def wp_lbind wp_validate_input_policy wp_ensure wp_materialize wp_fresh_turn Inl
        split: sum.split)
next
  case (Inr turn)
  have rest: "wp (lbind (ensure_not_cancelled env) (\<lambda>_.
     lbind (emit_or_fail env (TurnStarted turn)) (\<lambda>_.
     lbind (ensure_not_cancelled env) (\<lambda>_.
     lbind (emit_or_fail env (UserPromptCommitted turn (ti_text inp))) (\<lambda>_.
     run_steps env rt inp turn))))) (on_ok (finished_with turn)) st1"
    for st1
    by (intro wp_on_ok_then) (use step_loop_finishes in \<open>simp add: wp_def run_steps_def\<close>)
  then show ?thesis
    by (simp add: run_turn_def wp_lbind [of "validate_input_policy inp"]
        wp_lbind [of "ensure_not_cancelled env" "\<lambda>_. lbind (materialize_session env) f" for f]
        wp_lbind [of "materialize_session env"] wp_lbind [of fresh_turn]
        wp_validate_input_policy wp_ensure wp_materialize wp_fresh_turn Inr split: sum.split)
qed

section \<open>Properties of a turn\<close>

text \<open>
  C1: whatever happens in a turn (errors, cancellation, denied or failing tools, appends that fail at any point,
  the last step), either nothing was added to the log, or exactly the prompt under the next turn number and then
  rounds: at most one text item, the tool calls of one response with distinct ids, one result per call in call
  order under its id and name; no more rounds than the step limit. Only when the turn reports a failed commit
  may a round be left open at the end: calls without results, or results for some of the calls, still in order.
\<close>

theorem turn_log_shape:
  assumes "run_turn env rt inp st = (r, st')"
  shows "items st' = items st
    \<or> (\<exists>turn b k is. next_turn (ls_session st) = Inr turn \<and> ib_turn b = turn
         \<and> k \<le> unat (tpl_max_steps (ti_policy inp))
         \<and> (step_items turn k is
            \<or> commit_failed r \<and> (\<exists>rounds tail. step_items turn k rounds \<and> open_round turn tail \<and> is = rounds @ tail))
         \<and> items st' = items st @ ItUser b (ti_text inp) # is)"
  using run_turn_items [of env rt inp st] assms by (simp add: wp_def turn_post_def turn_items_def)

text \<open>
  C2: a turn leaves the session usable unless it reports a failed commit: if the log could be turned into a
  request before, it can be after, on every other exit; no call stays without its result. JSON results need a
  text, which \<open>serde_json::to_string\<close> has for every value.
\<close>

theorem turn_keeps_log_closed:
  assumes "\<forall>v. en_json env v \<noteq> None" and "materialize (en_json env) (items st) = Inr ms"
    and "run_turn env rt inp st = (r, st')" and "\<not> commit_failed r"
  shows "is_ok (materialize (en_json env) (items st'))"
proof -
  have "turn_post inp st r st'" using run_turn_items [of env rt inp st] assms(3) by (simp add: wp_def)
  then consider "items st' = items st"
    | turn b k "is" where "step_items turn k is" "items st' = items st @ ItUser b (ti_text inp) # is"
    using assms(4) unfolding turn_post_def turn_items_def by blast
  then show ?thesis
  proof cases
    case 1
    with assms(2) show ?thesis by simp
  next
    case 2
    obtain ms' where "materialize_loop (en_json env) Idle (ms @ [\<lparr>msg_role = User, msg_content = McText (ti_text inp)\<rparr>]) is = Inr (Idle, ms')"
      using step_items_closed [OF assms(1) 2(1)] by blast
    then have "materialize_loop (en_json env) Idle ms (ItUser b (ti_text inp) # is) = Inr (Idle, ms')" by simp
    from materialize_append [OF assms(2) this] 2(2) show ?thesis by simp
  qed
qed

text \<open>
  a log with a call that has no result ends the session: every later turn stops before it starts, with the
  error of the materialization, and changes nothing. A single failed append of a tool result leaves such a log.
\<close>

theorem open_log_blocks_turns:
  assumes "materialize (en_json env) (items st) = Inl e" and "policy_validate (ti_policy inp) = Inr ()"
    and "ti_text inp \<noteq> []" and "run_turn env rt inp st = (r, st')"
  shows "(r = Inl LeTurnCancelled \<or> r = Inl (LeContext e)) \<and> items st' = items st"
proof -
  have "wp (run_turn env rt inp) (\<lambda>r st'. (r = Inl LeTurnCancelled \<or> r = Inl (LeContext e)) \<and> items st' = items st) st"
    using assms(1-3)
    by (simp add: run_turn_def wp_lbind [of "validate_input_policy inp"]
        wp_lbind [of "ensure_not_cancelled env" "\<lambda>_. lbind (materialize_session env) f" for f]
        wp_lbind [of "materialize_session env"] wp_validate_input_policy wp_ensure wp_materialize)
  with assms(4) show ?thesis by (simp add: wp_def)
qed

text \<open>
  C4: whatever the provider, the tools and the storage answer, one turn starts at most four
  model calls per allowed step, each ended before the next begins with only its own updates
  between, and sleeps at most 3.5 seconds per step between retries.
\<close>

theorem turn_call_budget:
  assumes "hooked st" and "run_turn env rt inp st = (r, st')"
  shows "\<exists>es m ds. seen st' = seen st @ es \<and> calls_seen m (filter llm_event es)
    \<and> m \<le> 4 * unat (tpl_max_steps (ti_policy inp))
    \<and> ls_slept st' = ls_slept st @ ds \<and> sum_list ds \<le> 3500 * unat (tpl_max_steps (ti_policy inp))"
  using run_turn_ran [of env rt inp st] assms by (simp add: wp_def ran_def mult.commute)

text \<open>
  C3: a turn that returns a response returns a terminal one, its text was committed as the last
  item of the log under the turn's number, and the end of the turn was the last event.
\<close>

theorem turn_success:
  assumes "run_turn env rt inp st = (Inr response, st')"
  shows "\<exists>turn blocks. next_turn (ls_session st) = Inr turn
    \<and> classify_response response = Inr (Terminal blocks)
    \<and> (blocks = [] \<or> items st' \<noteq> [] \<and> (\<exists>b. ib_turn b = turn \<and> last (items st') = ItAssistant b blocks))
    \<and> (dp_hooks (ls_events st') = [] \<or> seen st' \<noteq> [] \<and> last (seen st') = TurnEnded turn)"
  using run_turn_finishes [of env rt inp st] assms by (simp add: wp_def finished_with_def)

section \<open>Two concrete turns\<close>

text \<open>
  A model that asks for a tool nobody registered, sees the refusal and then answers; and one
  that is always busy. The providers are not ready at tick 0.
\<close>

definition asks_tool :: "nat \<Rightarrow> model_request \<Rightarrow> (llm_error + stream_event) list" where
  "asks_tool t request =
     (if t = 0 then []
      else if length (rq_messages request) = 1 then
        [Inr (ToolUseStarted ''u'' ''g''), Inr (ToolUseFinished ''u'' ''g'' (JObj [])),
         Inr (Finished StopToolUse None None)]
      else [Inr (TextPart 0 ''ok''), Inr (Finished EndTurn None None)])"

definition busy :: "nat \<Rightarrow> model_request \<Rightarrow> (llm_error + stream_event) list" where
  "busy t request = (if t = 0 then [] else [Inl (RequestFailed Recoverable ''busy'')])"

definition turn_env :: "(nat \<Rightarrow> model_request \<Rightarrow> (llm_error + stream_event) list) \<Rightarrow> loop_env" where
  "turn_env stream = \<lparr>en_serde = demo_serde, en_json = (\<lambda>_. Some ''{}''), en_cancelled = (\<lambda>_. False),
     en_io = (\<lambda>_. demo_io ''i'' AppendOk), en_uuid = (\<lambda>_. ''c''), en_stream = stream,
     en_cut = (\<lambda>_. None), en_approval = (\<lambda>_ _. None), en_execute = (\<lambda>_ _ _ _. None)\<rparr>"

definition tool_env :: loop_env where "tool_env = turn_env asks_tool"

definition busy_env :: loop_env where "busy_env = turn_env busy"

definition turn_runtime :: tool_runtime where
  "turn_runtime = \<lparr>rt_registry = \<lparr>reg_tools = [], reg_validators = []\<rparr>, rt_permissions = [], rt_approval = False\<rparr>"

definition turn_request :: turn_input where
  "turn_request = \<lparr>ti_text = ''hi'',
     ti_config = \<lparr>lc_protocol = OpenAiResponses, lc_profile = profile_for_protocol OpenAiResponses 0, lc_model = ''m'',
       lc_base_url = [], lc_api_key = [], lc_max_tokens = 100, lc_thinking_level = None, lc_session_id = None,
       lc_previous_response_id = None\<rparr>,
     ti_system_prompt = [], ti_policy = \<lparr>tpl_max_steps = 2, tpl_max_llm_retries = 0\<rparr>\<rparr>"

definition busy_request :: turn_input where
  "busy_request = turn_request\<lparr>ti_policy := \<lparr>tpl_max_steps = 1, tpl_max_llm_retries = 1\<rparr>\<rparr>"

definition turn_start :: loop_state where
  "turn_start = \<lparr>ls_session = demo_start,
     ls_events = dispatcher_new [\<lambda>_ _. None] \<lparr>tr_run_id = ''r'', tr_session_id = ''s'', tr_turn = 0, tr_step = 0,
       tr_llm_call_id = None, tr_tool_use_id = None, tr_session_item_id = None\<rparr>,
     ls_tick = 0, ls_slept = []\<rparr>"

definition tool_turn :: "(loop_error + model_response) \<times> loop_state" where
  "tool_turn = run_turn tool_env turn_runtime turn_request turn_start"

definition busy_turn :: "(loop_error + model_response) \<times> loop_state" where
  "busy_turn = run_turn busy_env turn_runtime busy_request turn_start"

lemma turn_start_facts:
  "items turn_start = []" "next_turn (ls_session turn_start) = Inr 0" "hooked turn_start"
  "seen turn_start = []" "ls_slept turn_start = []"
  "unat (tpl_max_steps (ti_policy turn_request)) = 2" "ti_text turn_request = ''hi''"
  "unat (tpl_max_steps (ti_policy busy_request)) = 1"
  by (simp_all add: turn_start_def turn_request_def busy_request_def demo_start_def dispatcher_new_def seen_def next_turn_def)

lemma tool_turn_run: "run_turn tool_env turn_runtime turn_request turn_start = (fst tool_turn, snd tool_turn)"
  by (simp add: tool_turn_def)

lemma busy_turn_run: "run_turn busy_env turn_runtime busy_request turn_start = (fst busy_turn, snd busy_turn)"
  by (simp add: busy_turn_def)

text \<open>Evaluated call by value: a step is not looked at before the step before it has a value.\<close>

fun after :: "('a \<Rightarrow> 'b loop_m) \<Rightarrow> (loop_error + 'a) \<times> loop_state \<Rightarrow> (loop_error + 'b) \<times> loop_state" where
  "after f (Inl e, st) = (Inl e, st)"
| "after f (Inr x, st) = f x st"

lemma lbind_after [code]: "lbind m f st = after f (m st)"
  by (simp add: lbind_def split: prod.split sum.split)

lemma busy_turn_slept: "ls_slept (snd busy_turn) = [500]"
  by code_simp

definition turn_view :: "(loop_error + model_response) \<times> loop_state \<Rightarrow>
    nat \<times> session_item \<times> (loop_error + content_block list \<times> (response_error + response_action))" where
  "turn_view r = (length (items (snd r)), last (items (snd r)),
     map_sum id (\<lambda>m. (rs_content m, classify_response m)) (fst r))"

lemma tool_turn_view:
  "turn_view tool_turn =
   (4, ItAssistant \<lparr>ib_id = ''i'', ib_seq = 3, ib_session_id = ''s'', ib_turn = 0, ib_at = ''t''\<rparr> [CbText ''ok''],
    Inr ([CbText ''ok''], Inr (Terminal [CbText ''ok''])))"
  by code_simp

lemma tool_turn_fine: "\<not> commit_failed (fst tool_turn)"
  using tool_turn_view by (cases "fst tool_turn") (auto simp: turn_view_def)

theorem turn_log_shape_witness:
  "\<exists>b k is. ib_turn b = 0 \<and> k \<le> 2 \<and> length is = 3 \<and> step_items 0 k is
     \<and> items (snd tool_turn) = ItUser b ''hi'' # is"
proof -
  have "length (items (snd tool_turn)) = 4" using tool_turn_view by (simp add: turn_view_def)
  with turn_log_shape [OF tool_turn_run] tool_turn_fine turn_start_facts show ?thesis by fastforce
qed

theorem turn_keeps_log_closed_witness:
  "is_ok (materialize (\<lambda>_. Some ''{}'') (items (snd tool_turn)))"
proof -
  have j: "en_json tool_env = (\<lambda>_. Some ''{}'')" by (simp add: tool_env_def turn_env_def)
  have m: "materialize (en_json tool_env) (items turn_start) = Inr []"
    using turn_start_facts(1) by (simp add: materialize_def)
  from turn_keeps_log_closed [OF _ m tool_turn_run tool_turn_fine] j show ?thesis by simp
qed

theorem turn_call_budget_witness:
  "\<exists>m. calls_seen m (filter llm_event (seen (snd busy_turn))) \<and> m \<le> 4 \<and> ls_slept (snd busy_turn) = [500]"
  using turn_call_budget [OF turn_start_facts(3) busy_turn_run] turn_start_facts busy_turn_slept by auto

theorem turn_success_witness:
  "\<exists>response b. fst tool_turn = Inr response \<and> classify_response response = Inr (Terminal [CbText ''ok''])
     \<and> last (items (snd tool_turn)) = ItAssistant b [CbText ''ok''] \<and> ib_turn b = 0"
proof -
  obtain response where r: "fst tool_turn = Inr response"
    using tool_turn_view by (cases "fst tool_turn") (auto simp: turn_view_def)
  have run: "run_turn tool_env turn_runtime turn_request turn_start = (Inr response, snd tool_turn)"
    using tool_turn_run r by simp
  from turn_success [OF run] turn_start_facts(2) tool_turn_view r show ?thesis by (auto simp: turn_view_def)
qed

text \<open>The append of the tool result fails, once: the call stays open and no later turn runs.\<close>

definition torn_env :: loop_env where
  "torn_env = tool_env\<lparr>en_io := (\<lambda>t. demo_io ''i'' (if t = 18 then WriteFailed 0 else AppendOk))\<rparr>"

definition torn_turn :: "(loop_error + model_response) \<times> loop_state" where
  "torn_turn = run_turn torn_env turn_runtime turn_request turn_start"

lemma torn_turn_view:
  "commit_failed (fst torn_turn) \<and> \<not> is_ok (materialize (\<lambda>_. Some ''{}'') (items (snd torn_turn)))"
  by code_simp

theorem open_log_blocks_turns_witness:
  "commit_failed (fst torn_turn) \<and>
   (\<exists>e. fst (run_turn tool_env turn_runtime turn_request (snd torn_turn)) \<in> {Inl LeTurnCancelled, Inl (LeContext e)})"
proof -
  have j: "en_json tool_env = (\<lambda>_. Some ''{}'')" by (simp add: tool_env_def turn_env_def)
  obtain e where e: "materialize (en_json tool_env) (items (snd torn_turn)) = Inl e"
    using torn_turn_view unfolding j not_is_ok_iff by blast
  have p: "policy_validate (ti_policy turn_request) = Inr ()" "ti_text turn_request \<noteq> []"
    by (simp_all add: turn_request_def policy_validate_def)
  obtain r st' where run: "run_turn tool_env turn_runtime turn_request (snd torn_turn) = (r, st')" by fastforce
  from open_log_blocks_turns [OF e p run] run torn_turn_view show ?thesis by auto
qed

end
