(* ===== verification/Request_Encoders.thy ===== *)
theory Request_Encoders
  imports Context_Materialize Profile_Config Response_Builder
begin

text \<open>
  \<open>agent-core/src/llm/normalize\<close>, outbound: a provider-neutral request as the body of each of the
  four wire families. A body is a record of what is serialised; tags that are constants of a type
  (\<open>"type": "function"\<close>, \<open>"type": "text"\<close>) are left to the record. A message is accepted by every
  family exactly when its blocks fit its role (\<open>typed_message\<close>).
\<close>

section \<open>Shared parts\<close>

text \<open>
  What the encoders take from outside: \<open>serde_json::to_string\<close> with the message of its error,
  and the \<open>Debug\<close> form of a content block.
\<close>

record encoder_lib =
  el_to_string :: "json \<Rightarrow> string + string"
  el_debug :: "content_block \<Rightarrow> string"

definition validate_request :: "model_request \<Rightarrow> llm_error + unit" where
  "validate_request request =
     (if is_blank (rq_model request) then Inl (unrecoverable ''model must not be empty'')
      else if rq_messages request = [] then Inl (unrecoverable ''messages must not be empty'')
      else if rq_max_tokens request = 0 then Inl (unrecoverable ''max_tokens must be greater than zero'')
      else Inr ())"

definition system_misplaced :: llm_error where
  "system_misplaced = unrecoverable ''system messages belong in ModelRequest.system, not messages[]''"

definition invalid_block :: "encoder_lib \<Rightarrow> string \<Rightarrow> content_block \<Rightarrow> llm_error" where
  "invalid_block L role block = unrecoverable (''invalid '' @ role @ '' block: '' @ el_debug L block)"

fun block_text :: "content_block \<Rightarrow> string" where
  "block_text (CbText t) = t"
| "block_text _ = []"

fun tool_result_to_string :: "tool_result_content \<Rightarrow> string" where
  "tool_result_to_string (TrcText t) = t"
| "tool_result_to_string (TrcBlocks blocks) = concat (map block_text blocks)"

definition serialize_input :: "encoder_lib \<Rightarrow> json \<Rightarrow> llm_error + string" where
  "serialize_input L input =
     (case el_to_string L input of
        Inl e \<Rightarrow> Inl (unrecoverable (''tool input serialize: '' @ e))
      | Inr s \<Rightarrow> Inr s)"

section \<open>Handoff\<close>

text \<open>\<open>sanitize_messages_for_handoff\<close>: blocks are dropped, and what becomes empty goes with them.\<close>

fun sanitize_block :: "bool \<Rightarrow> content_block \<Rightarrow> content_block option"
and sanitize_blocks :: "bool \<Rightarrow> content_block list \<Rightarrow> content_block list"
and sanitize_content :: "bool \<Rightarrow> tool_result_content \<Rightarrow> tool_result_content option" where
  "sanitize_block strip (CbThinking t) = (if strip then None else Some (CbThinking t))"
| "sanitize_block strip (CbToolResult i content) =
     (case sanitize_content strip content of None \<Rightarrow> None | Some c \<Rightarrow> Some (CbToolResult i c))"
| "sanitize_block strip (CbText t) = Some (CbText t)"
| "sanitize_block strip (CbToolUse i n v) = Some (CbToolUse i n v)"
| "sanitize_blocks strip [] = []"
| "sanitize_blocks strip (b # bs) =
     (case sanitize_block strip b of None \<Rightarrow> sanitize_blocks strip bs | Some b' \<Rightarrow> b' # sanitize_blocks strip bs)"
| "sanitize_content strip (TrcText t) = Some (TrcText t)"
| "sanitize_content strip (TrcBlocks nested) =
     (let nested' = sanitize_blocks strip nested in if nested' = [] then None else Some (TrcBlocks nested'))"

definition sanitize_message :: "bool \<Rightarrow> message \<Rightarrow> message option" where
  "sanitize_message strip m =
     (case msg_content m of
        McText t \<Rightarrow> Some m
      | McBlocks blocks \<Rightarrow>
          let blocks' = sanitize_blocks strip blocks in
          if blocks' = [] then None else Some (m\<lparr>msg_content := McBlocks blocks'\<rparr>))"

definition sanitize_messages_for_handoff :: "bool \<Rightarrow> message list \<Rightarrow> message list" where
  "sanitize_messages_for_handoff strip messages =
     (if \<not> strip then messages else List.map_filter (sanitize_message strip) messages)"

section \<open>OpenAI Chat Completions\<close>

record chat_tool_call =
  ct_id :: string
  ct_name :: string
  ct_arguments :: string

record chat_message =
  cm_role :: string
  cm_content :: "string option"
  cm_reasoning :: "string option"
  cm_tool_calls :: "chat_tool_call list option"
  cm_tool_call_id :: "string option"

definition plain_chat :: "string \<Rightarrow> string \<Rightarrow> chat_message" where
  "plain_chat role t =
     \<lparr>cm_role = role, cm_content = Some t, cm_reasoning = None, cm_tool_calls = None, cm_tool_call_id = None\<rparr>"

definition chat_flush_user_text :: "string list \<Rightarrow> chat_message list \<Rightarrow> chat_message list" where
  "chat_flush_user_text parts out = (if parts = [] then out else out @ [plain_chat ''user'' (concat parts)])"

text \<open>The loop over the blocks of a user message, with the text parts and the output so far.\<close>

fun chat_user_blocks ::
  "encoder_lib \<Rightarrow> content_block list \<Rightarrow> string list \<Rightarrow> chat_message list \<Rightarrow> llm_error + chat_message list" where
  "chat_user_blocks L [] parts out = Inr (chat_flush_user_text parts out)"
| "chat_user_blocks L (CbText t # bs) parts out = chat_user_blocks L bs (parts @ [t]) out"
| "chat_user_blocks L (CbToolResult i content # bs) parts out =
     chat_user_blocks L bs []
       (chat_flush_user_text parts out @
        [\<lparr>cm_role = ''tool'', cm_content = Some (tool_result_to_string content), cm_reasoning = None,
          cm_tool_calls = None, cm_tool_call_id = Some i\<rparr>])"
| "chat_user_blocks L (b # bs) parts out = Inl (invalid_block L ''user'' b)"

definition chat_encode_user :: "encoder_lib \<Rightarrow> message_content \<Rightarrow> chat_message list \<Rightarrow> llm_error + chat_message list" where
  "chat_encode_user L content out =
     (case content of
        McText t \<Rightarrow> Inr (out @ [plain_chat ''user'' t])
      | McBlocks blocks \<Rightarrow> chat_user_blocks L blocks [] out)"

fun chat_assistant_blocks ::
  "encoder_lib \<Rightarrow> content_block list \<Rightarrow> string \<Rightarrow> string \<Rightarrow> chat_tool_call list \<Rightarrow>
   llm_error + string \<times> string \<times> chat_tool_call list" where
  "chat_assistant_blocks L [] t r calls = Inr (t, r, calls)"
| "chat_assistant_blocks L (CbText part # bs) t r calls = chat_assistant_blocks L bs (t @ part) r calls"
| "chat_assistant_blocks L (CbThinking thinking # bs) t r calls = chat_assistant_blocks L bs t (r @ thinking) calls"
| "chat_assistant_blocks L (CbToolUse i n input # bs) t r calls =
     (case serialize_input L input of
        Inl e \<Rightarrow> Inl e
      | Inr args \<Rightarrow> chat_assistant_blocks L bs t r (calls @ [\<lparr>ct_id = i, ct_name = n, ct_arguments = args\<rparr>]))"
| "chat_assistant_blocks L (CbToolResult i c # bs) t r calls = Inl (invalid_block L ''assistant'' (CbToolResult i c))"

definition chat_encode_assistant ::
  "encoder_lib \<Rightarrow> message_content \<Rightarrow> chat_message list \<Rightarrow> llm_error + chat_message list" where
  "chat_encode_assistant L content out =
     (case content of
        McText t \<Rightarrow> Inr (out @ [plain_chat ''assistant'' t])
      | McBlocks blocks \<Rightarrow>
          (case chat_assistant_blocks L blocks [] [] [] of
             Inl e \<Rightarrow> Inl e
           | Inr (t, r, calls) \<Rightarrow>
               Inr (out @ [\<lparr>cm_role = ''assistant'', cm_content = (if t = [] then None else Some t),
                 cm_reasoning = (if r = [] then None else Some r),
                 cm_tool_calls = (if calls = [] then None else Some calls), cm_tool_call_id = None\<rparr>])))"

definition chat_encode_message :: "encoder_lib \<Rightarrow> message \<Rightarrow> chat_message list \<Rightarrow> llm_error + chat_message list" where
  "chat_encode_message L m out =
     (case msg_role m of
        User \<Rightarrow> chat_encode_user L (msg_content m) out
      | Assistant \<Rightarrow> chat_encode_assistant L (msg_content m) out
      | System \<Rightarrow> Inl system_misplaced)"

text \<open>\<open>for message in messages { encode_message(message, &mut out)?; }\<close>\<close>

fun encode_each :: "('m \<Rightarrow> 'o list \<Rightarrow> llm_error + 'o list) \<Rightarrow> 'm list \<Rightarrow> 'o list \<Rightarrow> llm_error + 'o list" where
  "encode_each f [] out = Inr out"
| "encode_each f (m # ms) out = (case f m out of Inl e \<Rightarrow> Inl e | Inr out' \<Rightarrow> encode_each f ms out')"

definition chat_encode_messages :: "encoder_lib \<Rightarrow> message list \<Rightarrow> llm_error + chat_message list" where
  "chat_encode_messages L messages = encode_each (chat_encode_message L) messages []"

definition encode_thinking_extensions :: "model_request \<Rightarrow> openai_thinking_extension \<Rightarrow> bool option" where
  "encode_thinking_extensions request extension =
     (if rq_thinking_level request \<in> {Some ThinkLow, Some ThinkMedium, Some ThinkHigh} then
        (case extension of ChatTemplateKwargs \<Rightarrow> Some True | NoExtension \<Rightarrow> None)
      else None)"

text \<open>The definition of a tool, the same fields in both OpenAI dialects.\<close>

record function_definition =
  fd_name :: string
  fd_description :: string
  fd_parameters :: json

definition encode_tools :: "tool_schema list \<Rightarrow> function_definition list" where
  "encode_tools tools =
     map (\<lambda>t. \<lparr>fd_name = schema_name t, fd_description = schema_description t, fd_parameters = schema_input t\<rparr>) tools"

definition optional_tools :: "tool_schema list \<Rightarrow> function_definition list option" where
  "optional_tools tools = (if tools = [] then None else Some (encode_tools tools))"

record chat_request_body =
  cb_model :: string
  cb_messages :: "chat_message list"
  cb_tools :: "function_definition list option"
  cb_max_tokens :: u32
  cb_stream :: bool
  cb_enable_thinking :: "bool option"

definition chat_encode_request ::
  "encoder_lib \<Rightarrow> model_request \<Rightarrow> openai_thinking_extension \<Rightarrow> llm_error + chat_request_body" where
  "chat_encode_request L request extension =
     (case validate_request request of
        Inl e \<Rightarrow> Inl e
      | Inr _ \<Rightarrow>
          (case chat_encode_messages L (rq_messages request) of
             Inl e \<Rightarrow> Inl e
           | Inr messages \<Rightarrow>
               Inr \<lparr>cb_model = rq_model request,
                    cb_messages = (if rq_system request = [] then [] else [plain_chat ''system'' (rq_system request)]) @ messages,
                    cb_tools = optional_tools (rq_tools request),
                    cb_max_tokens = rq_max_tokens request, cb_stream = True,
                    cb_enable_thinking = encode_thinking_extensions request extension\<rparr>))"

section \<open>OpenAI Responses\<close>

definition responses_flush_user_text :: "string list \<Rightarrow> json list \<Rightarrow> json list" where
  "responses_flush_user_text parts xs =
     (if parts = [] then xs
      else xs @ [JObj [(''role'', JStr ''user''), (''content'', JStr (concat parts))]])"

fun responses_user_blocks ::
  "encoder_lib \<Rightarrow> content_block list \<Rightarrow> string list \<Rightarrow> json list \<Rightarrow> llm_error + json list" where
  "responses_user_blocks L [] parts xs = Inr (responses_flush_user_text parts xs)"
| "responses_user_blocks L (CbText t # bs) parts xs = responses_user_blocks L bs (parts @ [t]) xs"
| "responses_user_blocks L (CbToolResult i content # bs) parts xs =
     responses_user_blocks L bs []
       (responses_flush_user_text parts xs @
        [JObj [(''type'', JStr ''function_call_output''), (''call_id'', JStr i),
               (''output'', JStr (tool_result_to_string content))]])"
| "responses_user_blocks L (b # bs) parts xs = Inl (invalid_block L ''user'' b)"

definition responses_encode_user :: "encoder_lib \<Rightarrow> message_content \<Rightarrow> llm_error + json" where
  "responses_encode_user L content =
     (case content of
        McText t \<Rightarrow> Inr (JObj [(''role'', JStr ''user''), (''content'', JStr t)])
      | McBlocks blocks \<Rightarrow>
          (case responses_user_blocks L blocks [] [] of
             Inl e \<Rightarrow> Inl e
           | Inr [single] \<Rightarrow> Inr single
           | Inr xs \<Rightarrow> Inr (JObj [(''role'', JStr ''user''), (''content'', JArr xs)])))"

fun responses_assistant_blocks ::
  "encoder_lib \<Rightarrow> content_block list \<Rightarrow> string \<Rightarrow> json list \<Rightarrow> llm_error + string \<times> json list" where
  "responses_assistant_blocks L [] t xs = Inr (t, xs)"
| "responses_assistant_blocks L (CbText part # bs) t xs = responses_assistant_blocks L bs (t @ part) xs"
| "responses_assistant_blocks L (CbThinking _ # bs) t xs = responses_assistant_blocks L bs t xs"
| "responses_assistant_blocks L (CbToolUse i n input # bs) t xs =
     (case serialize_input L input of
        Inl e \<Rightarrow> Inl e
      | Inr args \<Rightarrow>
          responses_assistant_blocks L bs t
            (xs @ [JObj [(''type'', JStr ''function_call''), (''call_id'', JStr i), (''name'', JStr n), (''arguments'', JStr args)]]))"
| "responses_assistant_blocks L (CbToolResult i c # bs) t xs = Inl (invalid_block L ''assistant'' (CbToolResult i c))"

definition responses_encode_assistant :: "encoder_lib \<Rightarrow> message_content \<Rightarrow> llm_error + json" where
  "responses_encode_assistant L content =
     (case content of
        McText t \<Rightarrow> Inr (JObj [(''role'', JStr ''assistant''), (''content'', JStr t)])
      | McBlocks blocks \<Rightarrow>
          (case responses_assistant_blocks L blocks [] [] of
             Inl e \<Rightarrow> Inl e
           | Inr (t, xs) \<Rightarrow>
               Inr (JObj [(''role'', JStr ''assistant''),
                 (''content'', JArr ((if t = [] then [] else [JObj [(''type'', JStr ''output_text''), (''text'', JStr t)]]) @ xs))])))"

definition responses_encode_message :: "encoder_lib \<Rightarrow> message \<Rightarrow> llm_error + json" where
  "responses_encode_message L m =
     (case msg_role m of
        User \<Rightarrow> responses_encode_user L (msg_content m)
      | Assistant \<Rightarrow> responses_encode_assistant L (msg_content m)
      | System \<Rightarrow> Inl system_misplaced)"

definition responses_encode_input :: "encoder_lib \<Rightarrow> model_request \<Rightarrow> llm_error + json" where
  "responses_encode_input L request =
     (case collect_results (responses_encode_message L) (rq_messages request) of
        Inl e \<Rightarrow> Inl e
      | Inr xs \<Rightarrow>
          Inr (JArr ((if rq_system request = [] then []
                      else [JObj [(''role'', JStr ''developer''), (''content'', JStr (rq_system request))]]) @ xs)))"

record responses_request_body =
  rb_model :: string
  rb_input :: json
  rb_stream :: bool
  rb_max_output_tokens :: u32
  rb_store :: "bool option"
  rb_previous_response_id :: "string option"
  rb_tools :: "function_definition list option"

definition responses_encode_request ::
  "encoder_lib \<Rightarrow> model_request \<Rightarrow> bool \<Rightarrow> bool \<Rightarrow> llm_error + responses_request_body" where
  "responses_encode_request L request store_enabled previous_id_enabled =
     (case validate_request request of
        Inl e \<Rightarrow> Inl e
      | Inr _ \<Rightarrow>
          (case responses_encode_input L request of
             Inl e \<Rightarrow> Inl e
           | Inr input \<Rightarrow>
               Inr \<lparr>rb_model = rq_model request, rb_input = input, rb_stream = True,
                    rb_max_output_tokens = rq_max_tokens request,
                    rb_store = (if store_enabled then Some True else None),
                    rb_previous_response_id = (if previous_id_enabled then rq_previous_response_id request else None),
                    rb_tools = optional_tools (rq_tools request)\<rparr>))"

section \<open>Anthropic Messages\<close>

record anthropic_message =
  am_role :: string
  am_content :: json

text \<open>The \<open>Debug\<close> name of a role.\<close>

fun role_debug :: "role \<Rightarrow> string" where
  "role_debug User = ''User''"
| "role_debug Assistant = ''Assistant''"
| "role_debug System = ''System''"

definition anthropic_encode_block :: "encoder_lib \<Rightarrow> role \<Rightarrow> content_block \<Rightarrow> llm_error + json" where
  "anthropic_encode_block L role block =
     (case block of
        CbText t \<Rightarrow> Inr (JObj [(''type'', JStr ''text''), (''text'', JStr t)])
      | CbThinking t \<Rightarrow>
          if role = Assistant then Inr (JObj [(''type'', JStr ''thinking''), (''thinking'', JStr t)])
          else Inl (invalid_block L (role_debug role) block)
      | CbToolUse i n input \<Rightarrow>
          if role = Assistant
          then Inr (JObj [(''type'', JStr ''tool_use''), (''id'', JStr i), (''name'', JStr n), (''input'', input)])
          else Inl (invalid_block L (role_debug role) block)
      | CbToolResult i content \<Rightarrow>
          if role = User
          then Inr (JObj [(''type'', JStr ''tool_result''), (''tool_use_id'', JStr i),
                          (''content'', JStr (tool_result_to_string content))])
          else Inl (invalid_block L (role_debug role) block))"

definition anthropic_encode_content :: "encoder_lib \<Rightarrow> role \<Rightarrow> message_content \<Rightarrow> llm_error + json" where
  "anthropic_encode_content L role content =
     (case content of
        McText t \<Rightarrow> Inr (JStr t)
      | McBlocks blocks \<Rightarrow>
          (case collect_results (anthropic_encode_block L role) blocks of Inl e \<Rightarrow> Inl e | Inr xs \<Rightarrow> Inr (JArr xs)))"

definition anthropic_encode_message :: "encoder_lib \<Rightarrow> message \<Rightarrow> llm_error + anthropic_message" where
  "anthropic_encode_message L m =
     (case msg_role m of
        System \<Rightarrow> Inl system_misplaced
      | role \<Rightarrow>
          (case anthropic_encode_content L role (msg_content m) of
             Inl e \<Rightarrow> Inl e
           | Inr c \<Rightarrow> Inr \<lparr>am_role = (if role = User then ''user'' else ''assistant''), am_content = c\<rparr>))"

definition encode_thinking :: "thinking_level option \<Rightarrow> u32 option" where
  "encode_thinking level =
     (case level of
        Some ThinkLow \<Rightarrow> Some 1024
      | Some ThinkMedium \<Rightarrow> Some 4096
      | Some ThinkHigh \<Rightarrow> Some 8192
      | Some ThinkOff \<Rightarrow> None
      | None \<Rightarrow> None)"

record anthropic_system_block =
  as_text :: string
  as_cache_control :: "json option"

record anthropic_request_body =
  ar_model :: string
  ar_max_tokens :: u32
  ar_system :: "anthropic_system_block list option"
  ar_messages :: "anthropic_message list"
  ar_stream :: bool
  ar_tools :: "function_definition list option"
  ar_thinking_budget :: "u32 option"

definition anthropic_encode_request :: "encoder_lib \<Rightarrow> model_request \<Rightarrow> bool \<Rightarrow> llm_error + anthropic_request_body" where
  "anthropic_encode_request L request prompt_cache =
     (case validate_request request of
        Inl e \<Rightarrow> Inl e
      | Inr _ \<Rightarrow>
          (case collect_results (anthropic_encode_message L) (sanitize_messages_for_handoff False (rq_messages request)) of
             Inl e \<Rightarrow> Inl e
           | Inr messages \<Rightarrow>
               Inr \<lparr>ar_model = rq_model request, ar_max_tokens = rq_max_tokens request,
                    ar_system =
                      (if rq_system request = [] then None
                       else Some [\<lparr>as_text = rq_system request,
                         as_cache_control =
                           (if prompt_cache then Some (JObj [(''type'', JStr ''ephemeral'')]) else None)\<rparr>]),
                    ar_messages = messages, ar_stream = True,
                    ar_tools = optional_tools (rq_tools request),
                    ar_thinking_budget = encode_thinking (rq_thinking_level request)\<rparr>))"

section \<open>Google Generative AI\<close>

datatype gemini_out_part =
    GpText string
  | GpFunctionCall string json
  | GpFunctionResponse string json

record gemini_content =
  gn_role :: string
  gn_parts :: "gemini_out_part list"

definition gemini_user_part :: "encoder_lib \<Rightarrow> content_block \<Rightarrow> llm_error + gemini_out_part list" where
  "gemini_user_part L block =
     (case block of
        CbText t \<Rightarrow> Inr [GpText t]
      | CbToolResult _ content \<Rightarrow> Inr [GpFunctionResponse [] (JStr (tool_result_to_string content))]
      | _ \<Rightarrow> Inl (invalid_block L ''user'' block))"

definition gemini_assistant_part :: "encoder_lib \<Rightarrow> content_block \<Rightarrow> llm_error + gemini_out_part list" where
  "gemini_assistant_part L block =
     (case block of
        CbText t \<Rightarrow> Inr [GpText t]
      | CbThinking _ \<Rightarrow> Inr []
      | CbToolUse _ n input \<Rightarrow> Inr [GpFunctionCall n input]
      | CbToolResult _ _ \<Rightarrow> Inl (invalid_block L ''assistant'' block))"

definition gemini_encode_as ::
  "(content_block \<Rightarrow> llm_error + gemini_out_part list) \<Rightarrow> string \<Rightarrow> message_content \<Rightarrow> gemini_content list \<Rightarrow>
   llm_error + gemini_content list" where
  "gemini_encode_as part role content out =
     (case content of
        McText t \<Rightarrow> Inr (out @ [\<lparr>gn_role = role, gn_parts = [GpText t]\<rparr>])
      | McBlocks blocks \<Rightarrow>
          (case collect_results part blocks of
             Inl e \<Rightarrow> Inl e
           | Inr pss \<Rightarrow>
               let parts = concat pss in
               Inr (if parts = [] then out else out @ [\<lparr>gn_role = role, gn_parts = parts\<rparr>])))"

definition gemini_encode_message :: "encoder_lib \<Rightarrow> message \<Rightarrow> gemini_content list \<Rightarrow> llm_error + gemini_content list" where
  "gemini_encode_message L m out =
     (case msg_role m of
        User \<Rightarrow> gemini_encode_as (gemini_user_part L) ''user'' (msg_content m) out
      | Assistant \<Rightarrow> gemini_encode_as (gemini_assistant_part L) ''model'' (msg_content m) out
      | System \<Rightarrow> Inl system_misplaced)"

record gemini_request_body =
  gb_contents :: "gemini_content list"
  gb_max_output_tokens :: "u32 option"
  gb_tools :: "function_definition list option"

definition gemini_encode_request :: "encoder_lib \<Rightarrow> model_request \<Rightarrow> llm_error + gemini_request_body" where
  "gemini_encode_request L request =
     (case validate_request request of
        Inl e \<Rightarrow> Inl e
      | Inr _ \<Rightarrow>
          (case encode_each (gemini_encode_message L) (rq_messages request) [] of
             Inl e \<Rightarrow> Inl e
           | Inr contents \<Rightarrow>
               Inr \<lparr>gb_contents =
                      (if rq_system request = [] then []
                       else [\<lparr>gn_role = ''user'',
                              gn_parts = [GpText (''System instructions:'' @ [newline] @ rq_system request)]\<rparr>]) @ contents,
                    gb_max_output_tokens = Some (rq_max_tokens request),
                    gb_tools = optional_tools (rq_tools request)\<rparr>))"

section \<open>Blocks and roles\<close>

text \<open>The typing of a message: which blocks a role may carry.\<close>

fun typed_block :: "role \<Rightarrow> content_block \<Rightarrow> bool" where
  "typed_block System _ = False"
| "typed_block role (CbText _) = True"
| "typed_block role (CbThinking _) = (role = Assistant)"
| "typed_block role (CbToolUse _ _ _) = (role = Assistant)"
| "typed_block role (CbToolResult _ _) = (role = User)"

definition typed_message :: "message \<Rightarrow> bool" where
  "typed_message m = (msg_role m \<noteq> System \<and> list_all (typed_block (msg_role m)) (message_blocks (msg_content m)))"

lemma collect_results_ok: "is_ok (collect_results f xs) \<longleftrightarrow> list_all (\<lambda>x. is_ok (f x)) xs"
proof (induction xs)
  case (Cons x xs)
  then show ?case by (cases "f x"; cases "collect_results f xs") auto
qed simp

text \<open>A loop that pushes to its output: what is pushed does not depend on the output.\<close>

lemma encode_each_ok:
  assumes "\<And>m out. is_ok (f m out) \<longleftrightarrow> P m"
  shows "is_ok (encode_each f ms out) \<longleftrightarrow> list_all P ms"
proof (induction ms arbitrary: out)
  case (Cons m ms)
  have "is_ok (f m out) = P m" by (rule assms)
  then show ?case using Cons by (cases "f m out") auto
qed simp

lemma serialize_total: "is_ok (el_to_string L v) \<Longrightarrow> is_ok (serialize_input L v)"
  by (auto simp: serialize_input_def elim: is_okE)

lemma chat_user_blocks_ok: "is_ok (chat_user_blocks L bs parts out) \<longleftrightarrow> list_all (typed_block User) bs"
  by (induction L bs parts out rule: chat_user_blocks.induct) auto

lemma chat_assistant_blocks_ok:
  "(\<And>v. is_ok (el_to_string L v)) \<Longrightarrow>
   is_ok (chat_assistant_blocks L bs t r calls) \<longleftrightarrow> list_all (typed_block Assistant) bs"
proof (induction L bs t r calls rule: chat_assistant_blocks.induct)
  case (4 L i n input bs t r calls)
  obtain args where "serialize_input L input = Inr args"
    using serialize_total [OF 4(2)] by (auto elim: is_okE)
  with 4 show ?case by simp
qed auto

lemma chat_encode_user_ok: "is_ok (chat_encode_user L c out) \<longleftrightarrow> list_all (typed_block User) (message_blocks c)"
  by (cases c) (simp_all add: chat_encode_user_def chat_user_blocks_ok)

lemma chat_encode_assistant_ok:
  assumes "\<And>v. is_ok (el_to_string L v)"
  shows "is_ok (chat_encode_assistant L c out) \<longleftrightarrow> list_all (typed_block Assistant) (message_blocks c)"
proof (cases c)
  case (McBlocks bs)
  have "is_ok (chat_encode_assistant L c out) \<longleftrightarrow> is_ok (chat_assistant_blocks L bs [] [] [])"
    by (auto simp: McBlocks chat_encode_assistant_def is_ok_def split: sum.split)
  then show ?thesis by (simp add: McBlocks chat_assistant_blocks_ok [OF assms])
qed (simp add: chat_encode_assistant_def)

lemma chat_encode_message_ok:
  "(\<And>v. is_ok (el_to_string L v)) \<Longrightarrow> is_ok (chat_encode_message L m out) \<longleftrightarrow> typed_message m"
  by (cases "msg_role m")
    (simp_all add: chat_encode_message_def typed_message_def chat_encode_user_ok chat_encode_assistant_ok)

lemma responses_user_blocks_ok: "is_ok (responses_user_blocks L bs parts xs) \<longleftrightarrow> list_all (typed_block User) bs"
  by (induction L bs parts xs rule: responses_user_blocks.induct) auto

lemma responses_assistant_blocks_ok:
  "(\<And>v. is_ok (el_to_string L v)) \<Longrightarrow>
   is_ok (responses_assistant_blocks L bs t xs) \<longleftrightarrow> list_all (typed_block Assistant) bs"
proof (induction L bs t xs rule: responses_assistant_blocks.induct)
  case (4 L i n input bs t xs)
  obtain args where "serialize_input L input = Inr args"
    using serialize_total [OF 4(2)] by (auto elim: is_okE)
  with 4 show ?case by simp
qed auto

lemma responses_encode_user_ok: "is_ok (responses_encode_user L c) \<longleftrightarrow> list_all (typed_block User) (message_blocks c)"
proof (cases c)
  case (McBlocks bs)
  then show ?thesis using responses_user_blocks_ok [of L bs "[]" "[]"]
    by (auto simp: responses_encode_user_def is_ok_def split: sum.splits list.splits)
qed (simp add: responses_encode_user_def)

lemma responses_encode_assistant_ok:
  assumes "\<And>v. is_ok (el_to_string L v)"
  shows "is_ok (responses_encode_assistant L c) \<longleftrightarrow> list_all (typed_block Assistant) (message_blocks c)"
proof (cases c)
  case (McBlocks bs)
  have "is_ok (responses_encode_assistant L c) \<longleftrightarrow> is_ok (responses_assistant_blocks L bs [] [])"
    by (auto simp: McBlocks responses_encode_assistant_def is_ok_def split: sum.split)
  then show ?thesis by (simp add: McBlocks responses_assistant_blocks_ok [OF assms])
qed (simp add: responses_encode_assistant_def)

lemma responses_encode_message_ok:
  "(\<And>v. is_ok (el_to_string L v)) \<Longrightarrow> is_ok (responses_encode_message L m) \<longleftrightarrow> typed_message m"
  by (cases "msg_role m")
    (simp_all add: responses_encode_message_def typed_message_def responses_encode_user_ok responses_encode_assistant_ok)

lemma anthropic_block_ok: "role \<noteq> System \<Longrightarrow> is_ok (anthropic_encode_block L role b) \<longleftrightarrow> typed_block role b"
  by (cases role; cases b) (auto simp: anthropic_encode_block_def)

lemma anthropic_encode_message_ok: "is_ok (anthropic_encode_message L m) \<longleftrightarrow> typed_message m"
proof (cases "msg_role m = System")
  case False
  have c: "is_ok (anthropic_encode_content L (msg_role m) (msg_content m))
      \<longleftrightarrow> list_all (typed_block (msg_role m)) (message_blocks (msg_content m))"
  proof (cases "msg_content m")
    case (McBlocks bs)
    then show ?thesis
      using collect_results_ok [of "anthropic_encode_block L (msg_role m)" bs] anthropic_block_ok [OF False, of L]
      by (auto simp: anthropic_encode_content_def is_ok_def list_all_iff split: sum.splits)
  qed (simp add: anthropic_encode_content_def)
  have "is_ok (anthropic_encode_message L m) \<longleftrightarrow> is_ok (anthropic_encode_content L (msg_role m) (msg_content m))"
    using False by (cases "msg_role m") (auto simp: anthropic_encode_message_def is_ok_def split: sum.split)
  with c False show ?thesis by (simp add: typed_message_def)
qed (simp add: anthropic_encode_message_def typed_message_def)

lemma gemini_part_ok:
  "is_ok (gemini_user_part L b) \<longleftrightarrow> typed_block User b"
  "is_ok (gemini_assistant_part L b) \<longleftrightarrow> typed_block Assistant b"
  by (cases b; simp add: gemini_user_part_def gemini_assistant_part_def)+

lemma gemini_encode_as_ok:
  "is_ok (gemini_encode_as part r c out) \<longleftrightarrow> list_all (\<lambda>b. is_ok (part b)) (message_blocks c)"
proof (cases c)
  case (McBlocks bs)
  then show ?thesis using collect_results_ok [of part bs]
    by (auto simp: gemini_encode_as_def Let_def is_ok_def split: sum.splits)
qed (simp add: gemini_encode_as_def)

lemma gemini_encode_message_ok: "is_ok (gemini_encode_message L m out) \<longleftrightarrow> typed_message m"
  by (auto simp: gemini_encode_message_def typed_message_def gemini_encode_as_ok gemini_part_ok split: role.split)

section \<open>What a materialized log encodes to\<close>

text \<open>
  The order a Chat Completions endpoint asks for: after an assistant message with tool calls come
  the tool messages that answer its ids, each once, before anything else; no other tool message.
\<close>

fun chat_answered :: "string list \<Rightarrow> chat_message list \<Rightarrow> bool" where
  "chat_answered open_ids [] = (open_ids = [])"
| "chat_answered open_ids (m # ms) =
     (case cm_tool_call_id m of
        Some i \<Rightarrow> cm_role m = ''tool'' \<and> i \<in> set open_ids \<and> chat_answered (remove1 i open_ids) ms
      | None \<Rightarrow> cm_role m \<noteq> ''tool'' \<and> open_ids = []
          \<and> (case cm_tool_calls m of
               None \<Rightarrow> chat_answered [] ms
             | Some calls \<Rightarrow> cm_role m = ''assistant'' \<and> chat_answered (map ct_id calls) ms))"

lemma closed_log_typed:
  "closed_log J items ms \<Longrightarrow> list_all assistant_has_text_only items \<Longrightarrow> list_all typed_message ms"
proof (induction rule: closed_log.induct)
  case (assistant items ms b blocks)
  have "list_all (typed_block Assistant) blocks" if "list_all is_text_block blocks"
    using that
  proof (induction blocks)
    case (Cons x xs)
    then show ?case by (cases x) auto
  qed simp
  with assistant show ?case by (simp add: typed_message_def assistant_blocks_def)
next
  case (round cs rs blocks items ms)
  have "list_all (typed_block User) blocks" using round(4)
    by (induction rule: list_all2_induct)
      (auto simp: tool_result_block_def split: tool_content.splits option.splits)
  moreover have "list_all (typed_block Assistant) (map (\<lambda>(b, c). tool_use_block c) cs)"
    by (auto simp: list_all_iff tool_use_block_def)
  ultimately show ?case using round by (simp add: typed_message_def assistant_blocks_def user_blocks_def)
qed (simp_all add: typed_message_def)

text \<open>Appending to the output, and the messages of a round.\<close>

lemma chat_user_results:
  "list_all is_tool_result bs \<Longrightarrow>
   chat_user_blocks L bs [] out =
     Inr (out @ map (\<lambda>b. \<lparr>cm_role = ''tool'', cm_content = Some (case b of CbToolResult _ c \<Rightarrow> tool_result_to_string c),
        cm_reasoning = None, cm_tool_calls = None, cm_tool_call_id = Some (tr_id b)\<rparr>) bs)"
proof (induction bs arbitrary: out)
  case (Cons b bs)
  then show ?case by (cases b) (auto simp: chat_flush_user_text_def)
qed (simp add: chat_flush_user_text_def)

lemma chat_answered_tools:
  "mset (map tr_id bs) = mset ids \<Longrightarrow>
   chat_answered ids (map (\<lambda>b. \<lparr>cm_role = ''tool'', cm_content = g b,
        cm_reasoning = None, cm_tool_calls = None, cm_tool_call_id = Some (tr_id b)\<rparr>) bs @ ms) = chat_answered [] ms"
proof (induction bs arbitrary: ids)
  case (Cons b bs)
  have "tr_id b \<in> set ids"
    using Cons.prems by (metis list.set_intros(1) list.simps(9) mset_eq_setD)
  moreover have "mset (map tr_id bs) = mset (remove1 (tr_id b) ids)"
    using Cons.prems by (metis add_mset_remove_trivial list.simps(9) mset.simps(2) mset_remove1)
  ultimately show ?case using Cons.IH by simp
qed simp

lemma chat_assistant_calls:
  assumes "\<And>v. is_ok (el_to_string L v)"
  shows "\<exists>cts. chat_assistant_blocks L (map (\<lambda>(b, c). tool_use_block c) cs) t r calls = Inr (t, r, calls @ cts)
    \<and> map ct_id cts = map (\<lambda>(b, c). call_id c) cs"
proof (induction cs arbitrary: calls)
  case (Cons bc cs)
  obtain b c where bc: "bc = (b, c)" by (cases bc)
  obtain args where a: "serialize_input L (call_input c) = Inr args"
    using serialize_total [OF assms] by (auto elim: is_okE)
  let ?ct = "\<lparr>ct_id = call_id c, ct_name = call_name c, ct_arguments = args\<rparr>"
  obtain cts where "chat_assistant_blocks L (map (\<lambda>(b, c). tool_use_block c) cs) t r (calls @ [?ct]) =
      Inr (t, r, (calls @ [?ct]) @ cts)" "map ct_id cts = map (\<lambda>(b, c). call_id c) cs"
    using Cons.IH by blast
  then show ?case using bc a by (intro exI [of _ "?ct # cts"]) (simp add: tool_use_block_def)
qed simp

lemma chat_assistant_text:
  "list_all is_text_block bs \<Longrightarrow> \<exists>t' r'. chat_assistant_blocks L bs t r [] = Inr (t', r', [])"
proof (induction bs arbitrary: t r)
  case (Cons b bs)
  then show ?case by (cases b) auto
qed simp
lemma chat_encode_message_simps:
  "chat_encode_message L \<lparr>msg_role = User, msg_content = c\<rparr> out = chat_encode_user L c out"
  "chat_encode_message L \<lparr>msg_role = Assistant, msg_content = c\<rparr> out = chat_encode_assistant L c out"
  by (simp_all add: chat_encode_message_def)

lemma encoded_log_answered:
  assumes total: "\<And>v. is_ok (el_to_string L v)"
  shows "closed_log J items ms \<Longrightarrow> list_all assistant_has_text_only items \<Longrightarrow>
    \<exists>new. encode_each (chat_encode_message L) ms out = Inr (out @ new) \<and> chat_answered [] new"
proof (induction arbitrary: out rule: closed_log.induct)
  case (user items ms b prompt)
  obtain new where "encode_each (chat_encode_message L) ms (out @ [plain_chat ''user'' prompt]) =
      Inr ((out @ [plain_chat ''user'' prompt]) @ new)" "chat_answered [] new"
    using user.IH [of "out @ [plain_chat ''user'' prompt]"] user.prems by auto
  then show ?case
    by (intro exI [of _ "plain_chat ''user'' prompt # new"])
      (simp add: chat_encode_message_simps chat_encode_user_def plain_chat_def)
next
  case (assistant items ms b blocks)
  then obtain t r where tr: "chat_assistant_blocks L blocks [] [] [] = Inr (t, r, [])"
    using chat_assistant_text [of blocks L "[]" "[]"] by auto
  let ?m = "\<lparr>cm_role = ''assistant'', cm_content = (if t = [] then None else Some t),
     cm_reasoning = (if r = [] then None else Some r), cm_tool_calls = None, cm_tool_call_id = None\<rparr>"
  obtain new where "encode_each (chat_encode_message L) ms (out @ [?m]) = Inr ((out @ [?m]) @ new)"
    "chat_answered [] new"
    using assistant.IH [of "out @ [?m]"] assistant.prems by auto
  with tr show ?case
    by (intro exI [of _ "?m # new"])
      (simp add: chat_encode_message_simps chat_encode_assistant_def assistant_blocks_def)
next
  case (round cs rs blocks items ms)
  obtain cts where cts: "chat_assistant_blocks L (map (\<lambda>(b, c). tool_use_block c) cs) [] [] [] = Inr ([], [], cts)"
    "map ct_id cts = map (\<lambda>(b, c). call_id c) cs"
    using chat_assistant_calls [OF total, of cs "[]" "[]" "[]"] by auto
  have ne: "cts \<noteq> []" using cts(2) round(1) by auto
  have results: "list_all is_tool_result blocks" using round(4)
    by (induction rule: list_all2_induct)
      (auto simp: tool_result_block_def split: tool_content.splits option.splits)
  have "map tr_id blocks = map (\<lambda>(b, r). res_id r) rs" using round(4)
    by (induction rule: list_all2_induct)
      (auto simp: tool_result_block_def split: tool_content.splits option.splits)
  moreover have "mset (map fst (map (\<lambda>(b, r). result_key r) rs)) = mset (map fst (map (\<lambda>(b, c). call_key c) cs))"
    by (simp only: mset_map [of fst] round(3))
  ultimately have ids: "mset (map tr_id blocks) = mset (map ct_id cts)"
    using cts(2) by (simp add: comp_def case_prod_unfold result_key_def call_key_def)
  let ?a = "\<lparr>cm_role = ''assistant'', cm_content = None, cm_reasoning = None,
    cm_tool_calls = Some cts, cm_tool_call_id = None\<rparr>"
  let ?tools = "map (\<lambda>b. \<lparr>cm_role = ''tool'', cm_content = Some (case b of CbToolResult _ c \<Rightarrow> tool_result_to_string c),
        cm_reasoning = None, cm_tool_calls = None, cm_tool_call_id = Some (tr_id b)\<rparr>) blocks"
  obtain new where new: "encode_each (chat_encode_message L) ms ((out @ [?a]) @ ?tools) = Inr (((out @ [?a]) @ ?tools) @ new)"
    "chat_answered [] new"
    using round.IH [of "(out @ [?a]) @ ?tools"] round.prems by auto
  have "chat_answered [] (?a # ?tools @ new)"
    using new(2) by (simp add: chat_answered_tools [OF ids])
  with new(1) cts(1) ne show ?case
    by (intro exI [of _ "?a # ?tools @ new"])
      (simp add: chat_encode_message_simps chat_encode_assistant_def chat_encode_user_def assistant_blocks_def
        user_blocks_def chat_user_results [OF results])
qed simp

lemma chat_encode_request_ok:
  "(\<And>v. is_ok (el_to_string L v)) \<Longrightarrow>
   is_ok (chat_encode_request L request ext) \<longleftrightarrow> is_ok (validate_request request) \<and> list_all typed_message (rq_messages request)"
  using encode_each_ok [of "chat_encode_message L" typed_message "rq_messages request" "[]"] chat_encode_message_ok [of L]
  by (auto simp: chat_encode_request_def chat_encode_messages_def is_ok_def split: sum.splits)

lemma responses_encode_request_ok:
  "(\<And>v. is_ok (el_to_string L v)) \<Longrightarrow>
   is_ok (responses_encode_request L request store prev) \<longleftrightarrow> is_ok (validate_request request) \<and> list_all typed_message (rq_messages request)"
  using collect_results_ok [of "responses_encode_message L" "rq_messages request"] responses_encode_message_ok [of L]
  by (auto simp: responses_encode_request_def responses_encode_input_def is_ok_def list_all_iff split: sum.splits)

lemma anthropic_encode_request_ok:
  "is_ok (anthropic_encode_request L request cache) \<longleftrightarrow> is_ok (validate_request request) \<and> list_all typed_message (rq_messages request)"
  using collect_results_ok [of "anthropic_encode_message L" "rq_messages request"] anthropic_encode_message_ok [of L]
  by (auto simp: anthropic_encode_request_def sanitize_messages_for_handoff_def is_ok_def list_all_iff split: sum.splits)

lemma gemini_encode_request_ok:
  "is_ok (gemini_encode_request L request) \<longleftrightarrow> is_ok (validate_request request) \<and> list_all typed_message (rq_messages request)"
  using encode_each_ok [of "gemini_encode_message L" typed_message "rq_messages request" "[]"] gemini_encode_message_ok [of L]
  by (auto simp: gemini_encode_request_def is_ok_def split: sum.splits)

text \<open>The names of the function responses in Gemini contents, and the tool results of messages.\<close>

fun response_names :: "gemini_out_part list \<Rightarrow> string list" where
  "response_names [] = []"
| "response_names (GpFunctionResponse n _ # ps) = n # response_names ps"
| "response_names (p # ps) = response_names ps"

definition contents_names :: "gemini_content list \<Rightarrow> string list" where
  "contents_names cs = concat (map (\<lambda>c. response_names (gn_parts c)) cs)"

definition results_of :: "message list \<Rightarrow> string list" where
  "results_of ms = concat (map (\<lambda>m. tool_result_ids (message_blocks (msg_content m))) ms)"

lemma response_names_append [simp]: "response_names (ps @ qs) = response_names ps @ response_names qs"
  by (induction ps rule: response_names.induct) auto

lemma gemini_user_names:
  "collect_results (gemini_user_part L) bs = Inr pss \<Longrightarrow>
   response_names (concat pss) = replicate (length (tool_result_ids bs)) []"
proof (induction bs arbitrary: pss)
  case (Cons b bs)
  then show ?case by (cases b) (auto simp: gemini_user_part_def split: sum.splits)
qed simp

lemma gemini_assistant_names:
  "collect_results (gemini_assistant_part L) bs = Inr pss \<Longrightarrow>
   response_names (concat pss) = replicate (length (tool_result_ids bs)) []"
proof (induction bs arbitrary: pss)
  case (Cons b bs)
  then show ?case by (cases b) (auto simp: gemini_assistant_part_def split: sum.splits)
qed simp

lemma gemini_encode_as_names:
  assumes "\<And>bs pss. collect_results part bs = Inr pss \<Longrightarrow>
      response_names (concat pss) = replicate (length (tool_result_ids bs)) []"
    and "gemini_encode_as part r c out = Inr out'"
  shows "contents_names out' = contents_names out @ replicate (length (tool_result_ids (message_blocks c))) []"
proof (cases c)
  case (McBlocks bs)
  then obtain pss where p: "collect_results part bs = Inr pss"
    and o: "out' = (if concat pss = [] then out else out @ [\<lparr>gn_role = r, gn_parts = concat pss\<rparr>])"
    using assms(2) by (auto simp: gemini_encode_as_def Let_def split: sum.splits)
  have "contents_names out' = contents_names out @ response_names (concat pss)"
    by (simp add: o contents_names_def del: concat_eq_Nil_conv)
  then show ?thesis by (simp add: assms(1) [OF p] McBlocks)
qed (use assms(2) in \<open>auto simp: gemini_encode_as_def contents_names_def\<close>)

lemma gemini_message_names:
  assumes "gemini_encode_message L m out = Inr out'"
  shows "contents_names out' =
    contents_names out @ replicate (length (tool_result_ids (message_blocks (msg_content m)))) []"
proof (cases "msg_role m")
  case User
  then show ?thesis using assms gemini_encode_as_names [OF gemini_user_names]
    by (simp add: gemini_encode_message_def)
next
  case Assistant
  then show ?thesis using assms gemini_encode_as_names [OF gemini_assistant_names]
    by (simp add: gemini_encode_message_def)
qed (use assms in \<open>simp add: gemini_encode_message_def\<close>)

lemma gemini_names:
  "encode_each (gemini_encode_message L) ms out = Inr out' \<Longrightarrow>
   contents_names out' = contents_names out @ replicate (length (results_of ms)) []"
proof (induction ms arbitrary: out)
  case (Cons m ms)
  from Cons.prems obtain out1 where "gemini_encode_message L m out = Inr out1"
    "encode_each (gemini_encode_message L) ms out1 = Inr out'" by (auto split: sum.splits)
  with Cons.IH [of out1] gemini_message_names [of L m out out1] show ?case
    by (simp add: results_of_def replicate_add)
qed (simp add: results_of_def)

section \<open>Handoff\<close>

text \<open>Without thinking at any depth, and no result emptied by its removal.\<close>

fun no_thinking :: "content_block \<Rightarrow> bool"
and no_thinking_content :: "tool_result_content \<Rightarrow> bool" where
  "no_thinking (CbThinking _) = False"
| "no_thinking (CbToolResult _ c) = no_thinking_content c"
| "no_thinking (CbText _) = True"
| "no_thinking (CbToolUse _ _ _) = True"
| "no_thinking_content (TrcText _) = True"
| "no_thinking_content (TrcBlocks bs) = (bs \<noteq> [] \<and> list_all no_thinking bs)"

lemma sanitize_strips:
  "strip \<Longrightarrow> pred_option no_thinking (sanitize_block strip b)"
  "strip \<Longrightarrow> list_all no_thinking (sanitize_blocks strip bs)"
  "strip \<Longrightarrow> pred_option no_thinking_content (sanitize_content strip c)"
  by (induction strip b and strip bs and strip c rule: sanitize_block_sanitize_blocks_sanitize_content.induct)
    (auto simp: Let_def split: option.splits)

lemma sanitize_keeps:
  "no_thinking b \<Longrightarrow> sanitize_block strip b = Some b"
  "list_all no_thinking bs \<Longrightarrow> sanitize_blocks strip bs = bs"
  "no_thinking_content c \<Longrightarrow> sanitize_content strip c = Some c"
  by (induction strip b and strip bs and strip c rule: sanitize_block_sanitize_blocks_sanitize_content.induct)
    (auto simp: Let_def)

lemma sanitize_message_idem:
  assumes "sanitize_message True m = Some m'"
  shows "sanitize_message True m' = Some m'"
proof (cases "msg_content m")
  case (McBlocks bs)
  with assms have "m' = m\<lparr>msg_content := McBlocks (sanitize_blocks True bs)\<rparr>" "sanitize_blocks True bs \<noteq> []"
    by (auto simp: sanitize_message_def Let_def split: if_splits)
  moreover have "sanitize_blocks True (sanitize_blocks True bs) = sanitize_blocks True bs"
    by (rule sanitize_keeps(2)) (simp add: sanitize_strips)
  ultimately show ?thesis by (simp add: sanitize_message_def)
qed (use assms in \<open>auto simp: sanitize_message_def\<close>)

lemma sanitize_idempotent:
  "sanitize_messages_for_handoff strip (sanitize_messages_for_handoff strip ms) =
   sanitize_messages_for_handoff strip ms"
proof (cases strip)
  case True
  have "List.map_filter (sanitize_message True) (List.map_filter (sanitize_message True) ms) =
      List.map_filter (sanitize_message True) ms"
    by (induction ms) (auto simp: sanitize_message_idem map_filter_simps split: option.splits)
  with True show ?thesis by (simp add: sanitize_messages_for_handoff_def)
qed (simp add: sanitize_messages_for_handoff_def)

text \<open>The Chat encoder sends the thinking of an assistant message along as reasoning.\<close>

lemma chat_sends_thinking:
  "t \<noteq> [] \<Longrightarrow> chat_encode_messages L [assistant_blocks [CbThinking t, CbText u]] =
     Inr [\<lparr>cm_role = ''assistant'', cm_content = (if u = [] then None else Some u), cm_reasoning = Some t,
       cm_tool_calls = None, cm_tool_call_id = None\<rparr>]"
  by (simp add: chat_encode_messages_def chat_encode_message_def chat_encode_assistant_def assistant_blocks_def)

section \<open>Properties\<close>

text \<open>
  C21: the four encoders are type checkers for the same typing. A request is encoded exactly when it
  passes the pre-flight checks and every message carries only blocks its role may carry: text for
  both, thinking and tool uses for the assistant, tool results for the user, nothing for the system.
  JSON values always serialise.
\<close>

theorem encoders_accept_typed:
  assumes "\<And>v. is_ok (el_to_string L v)"
  shows "is_ok (chat_encode_request L request ext) = (is_ok (validate_request request) \<and> list_all typed_message (rq_messages request))
    \<and> is_ok (responses_encode_request L request store prev) = is_ok (chat_encode_request L request ext)
    \<and> is_ok (anthropic_encode_request L request cache) = is_ok (chat_encode_request L request ext)
    \<and> is_ok (gemini_encode_request L request) = is_ok (chat_encode_request L request ext)"
  using assms by (simp add: chat_encode_request_ok responses_encode_request_ok anthropic_encode_request_ok
      gemini_encode_request_ok)

definition sample_lib :: encoder_lib where
  "sample_lib = \<lparr>el_to_string = (\<lambda>_. Inr ''{}''), el_debug = (\<lambda>_. ''block'')\<rparr>"

definition sample_request :: "message list \<Rightarrow> model_request" where
  "sample_request ms = \<lparr>rq_model = ''m'', rq_system = [], rq_messages = ms, rq_tools = [], rq_max_tokens = 64,
     rq_thinking_level = None, rq_session_id = None, rq_previous_response_id = None\<rparr>"

theorem encoders_accept_typed_witness:
  "is_ok (gemini_encode_request sample_lib (sample_request round_messages))
   \<and> \<not> is_ok (gemini_encode_request sample_lib (sample_request [user_blocks [CbThinking ''t'']]))"
proof -
  have s: "is_ok (el_to_string sample_lib v)" for v by (simp add: sample_lib_def)
  have "is_ok (validate_request (sample_request ms))" if "ms \<noteq> []" for ms
  proof -
    have "\<not> is_blank ''m''" by code_simp
    with that show ?thesis by (simp add: validate_request_def sample_request_def)
  qed
  moreover have "list_all typed_message round_messages" by code_simp
  moreover have "\<not> list_all typed_message [user_blocks [CbThinking ''t'']]" by code_simp
  moreover have "round_messages \<noteq> []" by (simp add: round_messages_def)
  ultimately show ?thesis
    using encoders_accept_typed [OF s, of "sample_request round_messages" NoExtension]
      encoders_accept_typed [OF s, of "sample_request [user_blocks [CbThinking ''t'']]" NoExtension]
    by (simp add: sample_request_def)
qed

text \<open>
  C20: a log that materializes can be sent. A request that carries its messages and passes the
  pre-flight checks (which refuse the empty log) is encoded by all four families, and in the Chat
  Completions body each message with tool calls is followed by exactly the tool messages that answer
  its ids, with no tool message anywhere else. Assistant items hold text only, which the validation
  of a commit enforces and the reader of a file does not check; JSON values always serialise.
\<close>

theorem materialized_log_sendable:
  assumes "materialize J items = Inr ms" and "list_all assistant_has_text_only items"
    and "\<And>v. is_ok (el_to_string L v)"
    and "rq_messages request = ms" and "is_ok (validate_request request)"
  shows "(\<exists>body. chat_encode_request L request ext = Inr body \<and> chat_answered [] (cb_messages body))
    \<and> is_ok (responses_encode_request L request store prev)
    \<and> is_ok (anthropic_encode_request L request cache)
    \<and> is_ok (gemini_encode_request L request)"
proof -
  have c: "closed_log J (filter (\<lambda>i. \<not> is_checkpoint i) items) ms"
    using assms(1) by (simp add: materialize_iff_loop closed_log_iff)
  have p: "list_all assistant_has_text_only (filter (\<lambda>i. \<not> is_checkpoint i) items)"
    using assms(2) by (auto simp: list_all_iff)
  obtain out where out: "chat_encode_messages L ms = Inr out" "chat_answered [] out"
    using encoded_log_answered [OF assms(3) c p, of "[]"] by (auto simp: chat_encode_messages_def)
  have "\<exists>body. chat_encode_request L request ext = Inr body \<and> chat_answered [] (cb_messages body)"
    using assms(4,5) out by (simp add: chat_encode_request_def plain_chat_def is_ok_def split: sum.splits)
  with closed_log_typed [OF c p] assms(4,5) show ?thesis
    by (simp add: responses_encode_request_ok [OF assms(3)] anthropic_encode_request_ok gemini_encode_request_ok)
qed

theorem materialized_log_sendable_witness:
  "\<exists>body. chat_encode_request sample_lib (sample_request round_messages) NoExtension = Inr body
     \<and> length (cb_messages body) = 5 \<and> chat_answered [] (cb_messages body)"
proof -
  have m: "materialize (\<lambda>_. None) round_items = Inr round_messages" by code_simp
  have t: "list_all assistant_has_text_only round_items" by code_simp
  have s: "is_ok (el_to_string sample_lib v)" for v by (simp add: sample_lib_def)
  have v: "is_ok (validate_request (sample_request round_messages))" by code_simp
  have r: "rq_messages (sample_request round_messages) = round_messages" by (simp add: sample_request_def)
  have "case chat_encode_request sample_lib (sample_request round_messages) NoExtension of
      Inl _ \<Rightarrow> False | Inr body \<Rightarrow> length (cb_messages body) = 5" by code_simp
  moreover from materialized_log_sendable [OF m t s r v, of NoExtension]
  obtain body where "chat_encode_request sample_lib (sample_request round_messages) NoExtension = Inr body"
    "chat_answered [] (cb_messages body)" by blast
  ultimately show ?thesis by simp
qed

text \<open>
  a Gemini request never says which function a response belongs to: the contents carry one
  function response per tool result, all under the empty name, and the ids of the calls are dropped.
\<close>

theorem gemini_results_unnamed:
  assumes "gemini_encode_request L request = Inr body"
  shows "contents_names (gb_contents body) = replicate (length (results_of (rq_messages request))) []"
proof -
  obtain contents where c: "encode_each (gemini_encode_message L) (rq_messages request) [] = Inr contents"
    and b: "gb_contents body = (if rq_system request = [] then []
      else [\<lparr>gn_role = ''user'', gn_parts = [GpText (''System instructions:'' @ [newline] @ rq_system request)]\<rparr>]) @ contents"
    using assms by (auto simp: gemini_encode_request_def split: sum.splits)
  from gemini_names [OF c] show ?thesis by (simp add: b contents_names_def)
qed

theorem gemini_results_unnamed_witness:
  "\<exists>body. gemini_encode_request sample_lib (sample_request round_messages) = Inr body
     \<and> contents_names (gb_contents body) = [[], []]"
proof -
  obtain body where b: "gemini_encode_request sample_lib (sample_request round_messages) = Inr body"
  proof -
    have "\<not> is_blank ''m''" "list_all typed_message round_messages" by code_simp+
    moreover have "round_messages \<noteq> []" by (simp add: round_messages_def)
    ultimately have "is_ok (gemini_encode_request sample_lib (sample_request round_messages))"
      by (simp add: gemini_encode_request_ok validate_request_def sample_request_def)
    then show thesis using that by (auto elim: is_okE)
  qed
  have "length (results_of (rq_messages (sample_request round_messages))) = 2" by code_simp
  with gemini_results_unnamed [OF b] b show ?thesis by (simp add: numeral_2_eq_2)
qed

end
