(* ===== verification/Sse.thy ===== *)
theory Sse
  imports Response_Builder
begin

text \<open>
  The read loop shared by the provider adapters (\<open>agent-core/src/llm/adapter\<close>): bytes come in
  chunks, complete lines are decoded to events, and the stream of the call is what was sent.
  The HTTP client is the argument \<open>http\<close>. A receiver that went away is not modelled: nobody
  sees the difference. The interface of the decoders is the locale \<open>wire_decoder\<close>.
\<close>

section \<open>Lines\<close>

text \<open>\<open>ByteLineBuffer\<close>: the buffer is its bytes; an invalid line stays in the buffer.\<close>

definition next_line :: "string \<Rightarrow> (llm_error + string option) \<times> string" where
  "next_line buffer =
     (case position (\<lambda>b. b = newline) buffer of
        None \<Rightarrow> (Inr None, buffer)
      | Some pos \<Rightarrow>
          let bytes = take pos buffer in
          if valid_utf8 bytes then (Inr (Some (trim bytes)), drop (pos + 1) buffer)
          else (Inl (unrecoverable ''invalid UTF-8 in SSE line''), buffer))"

text \<open>\<open>classify_http_status\<close>\<close>

definition classify_http_status :: "nat \<Rightarrow> request_failure_kind" where
  "classify_http_status status =
     (if status = 408 \<or> status = 429 then Recoverable
      else if 400 \<le> status \<and> status \<le> 499 then Unrecoverable
      else Recoverable)"

section \<open>The read loop of an adapter\<close>

text \<open>
  What differs between the four \<open>run_stream\<close> functions: which lines they skip and how they
  decode a payload. A decoder answers a payload with its events or an error.
\<close>

record 'd sse_adapter =
  sa_skip_event :: bool
  sa_skip_done :: bool
  sa_decode :: "'d \<Rightarrow> string \<Rightarrow> (llm_error + stream_event list) \<times> 'd"
  sa_ended :: "'d \<Rightarrow> bool"

definition starts_with :: "string \<Rightarrow> string \<Rightarrow> bool" where
  "starts_with p s = (take (length p) s = p)"

definition payload_of :: "string \<Rightarrow> string" where
  "payload_of line = (if starts_with ''data:'' line then trim (drop 5 line) else line)"

definition handle_line :: "'d sse_adapter \<Rightarrow> 'd \<Rightarrow> string \<Rightarrow> (llm_error + stream_event list) \<times> 'd" where
  "handle_line a d line =
     (if line = [] \<or> starts_with '':'' line \<or> (sa_skip_event a \<and> starts_with ''event:'' line) then (Inr [], d)
      else if sa_skip_done a \<and> payload_of line = ''[DONE]'' then (Inr [], d)
      else sa_decode a d (payload_of line))"

text \<open>
  The inner loop: every complete line in the buffer. The result is the events sent, and the
  decoder with the rest of the buffer or the error that ends the call.
\<close>

function drain_lines ::
  "'d sse_adapter \<Rightarrow> 'd \<Rightarrow> string \<Rightarrow> stream_event list \<times> (llm_error + 'd \<times> string)" where
  "drain_lines a d buffer =
     (case next_line buffer of
        (Inl err, _) \<Rightarrow> ([], Inl err)
      | (Inr None, rest) \<Rightarrow> ([], Inr (d, rest))
      | (Inr (Some line), rest) \<Rightarrow>
          (case handle_line a d line of
             (Inl err, _) \<Rightarrow> ([], Inl err)
           | (Inr es, d') \<Rightarrow> (case drain_lines a d' rest of (es', r) \<Rightarrow> (es @ es', r))))"
  by pat_completeness auto
termination
  by (relation "measure (\<lambda>(a, d, buffer). length buffer)")
    (auto simp: next_line_def Let_def split: option.splits if_splits dest: position_Some)

declare drain_lines.simps [simp del]

text \<open>The outer loop over the byte chunks, and the check after it.\<close>

fun read_stream ::
  "'d sse_adapter \<Rightarrow> 'd \<Rightarrow> string \<Rightarrow> (string + string) list \<Rightarrow> (llm_error + stream_event) list" where
  "read_stream a d buffer [] =
     (if sa_ended a d then [] else [Inl (RequestFailed Recoverable ''SSE stream ended without Finished'')])"
| "read_stream a d buffer (Inl e # chunks) = [Inl (RequestFailed Recoverable (''SSE read failed: '' @ e))]"
| "read_stream a d buffer (Inr chunk # chunks) =
     (case drain_lines a d (buffer @ chunk) of
        (es, Inl err) \<Rightarrow> map Inr es @ [Inl err]
      | (es, Inr (d', buffer')) \<Rightarrow> map Inr es @ read_stream a d' buffer' chunks)"

text \<open>What the HTTP client answers: \<open>hr_status_line\<close> is how it prints the status.\<close>

datatype http_reply =
    SendFailed string
  | Reply (hr_status: nat) (hr_status_line: string) (hr_text: string) (hr_body: "(string + string) list")

definition run_stream ::
  "'d sse_adapter \<Rightarrow> 'd \<Rightarrow> llm_error + 'b \<Rightarrow> ('b \<Rightarrow> http_reply) \<Rightarrow> (llm_error + stream_event) list" where
  "run_stream a decoder body http =
     (case body of
        Inl err \<Rightarrow> [Inl err]
      | Inr b \<Rightarrow>
          (case http b of
             SendFailed e \<Rightarrow> [Inl (RequestFailed Recoverable (''HTTP request failed: '' @ e))]
           | Reply status status_line reply chunks \<Rightarrow>
               if 200 \<le> status \<and> status \<le> 299 then read_stream a decoder [] chunks
               else [Inl (RequestFailed (classify_http_status status)
                       (''HTTP '' @ status_line @ '': '' @ reply))]))"

section \<open>Chunk boundaries\<close>

lemma position_append:
  "position p (xs @ ys) = (case position p xs of Some i \<Rightarrow> Some i | None \<Rightarrow> map_option ((+) (length xs)) (position p ys))"
proof (induction xs)
  case Nil
  then show ?case by (cases "position p ys") simp_all
next
  case (Cons x xs)
  then show ?case by (cases "position p ys") (auto split: option.split)
qed

lemma next_line_append:
  "next_line (xs @ ys) = (case next_line xs of
      (Inr None, rest) \<Rightarrow> next_line (rest @ ys)
    | (Inr (Some line), rest) \<Rightarrow> (Inr (Some line), rest @ ys)
    | (Inl err, rest) \<Rightarrow> (Inl err, rest @ ys))"
  using position_Some [of "\<lambda>b. b = newline" xs]
  by (auto simp: next_line_def Let_def position_append split: option.splits)

lemma drain_lines_append:
  "drain_lines a d (xs @ ys) = (case drain_lines a d xs of
      (es, Inl err) \<Rightarrow> (es, Inl err)
    | (es, Inr (d', rest)) \<Rightarrow> (case drain_lines a d' (rest @ ys) of (es', r) \<Rightarrow> (es @ es', r)))"
proof (induction a d xs rule: drain_lines.induct)
  case (1 a d xs)
  show ?case
  proof (cases "next_line xs")
    case (Pair r rest)
    show ?thesis
    proof (cases r)
      case (Inl err)
      with Pair show ?thesis
        by (subst (1 2) drain_lines.simps) (simp add: next_line_append)
    next
      case (Inr l)
      show ?thesis
      proof (cases l)
        case None
        have "drain_lines a d xs = ([], Inr (d, rest))"
          using Pair Inr None by (simp add: drain_lines.simps [of a d xs])
        moreover have "drain_lines a d (xs @ ys) = drain_lines a d (rest @ ys)"
          using Pair Inr None
          by (simp add: drain_lines.simps [of a d "xs @ ys"] drain_lines.simps [of a d "rest @ ys"] next_line_append)
        ultimately show ?thesis by (simp split: prod.split)
      next
        case (Some line)
        show ?thesis
        proof (cases "handle_line a d line")
          case p: (Pair e d')
          show ?thesis
          proof (cases e)
            case (Inl err)
            with Pair Inr Some p show ?thesis
              by (simp add: drain_lines.simps [of a d "xs @ ys"] drain_lines.simps [of a d xs] next_line_append)
          next
            case es: (Inr es)
            note IH = "1.IH" [OF Pair [symmetric] Inr Some p [symmetric] es]
            have "drain_lines a d (xs @ ys) = (case drain_lines a d' (rest @ ys) of (es', r) \<Rightarrow> (es @ es', r))"
              using Pair Inr Some p es by (simp add: drain_lines.simps [of a d "xs @ ys"] next_line_append)
            moreover have "drain_lines a d xs = (case drain_lines a d' rest of (es', r) \<Rightarrow> (es @ es', r))"
              using Pair Inr Some p es by (simp add: drain_lines.simps [of a d xs])
            ultimately show ?thesis using IH
              by (auto split: prod.split sum.split)
          qed
        qed
      qed
    qed
  qed
qed

lemma drain_lines_rest:
  "drain_lines a d xs = (es, Inr (d', rest)) \<Longrightarrow> next_line rest = (Inr None, rest)"
proof (induction a d xs arbitrary: es rule: drain_lines.induct)
  case (1 a d xs)
  from "1.prems" show ?case
    by (subst (asm) drain_lines.simps)
      (auto simp: next_line_def Let_def split: prod.splits sum.splits option.splits if_splits dest!: "1.IH" [rotated 5])
qed

lemma read_stream_append:
  "read_stream a d buffer (Inr xs # Inr ys # chunks) = read_stream a d buffer (Inr (xs @ ys) # chunks)"
  using drain_lines_append [of a d "buffer @ xs" ys]
  by (auto split: prod.split sum.split)

lemma read_stream_empty_chunk:
  "next_line buffer = (Inr None, buffer) \<Longrightarrow> read_stream a d buffer (Inr [] # chunks) = read_stream a d buffer chunks"
  by (simp add: drain_lines.simps)

lemma read_stream_chunks:
  "next_line buffer = (Inr None, buffer) \<Longrightarrow>
   read_stream a d buffer (map Inr cs) = read_stream a d buffer [Inr (concat cs)]"
proof (induction cs arbitrary: d buffer)
  case Nil
  then show ?case by (simp add: drain_lines.simps)
next
  case (Cons c cs)
  have "read_stream a d' rest (map Inr cs) = read_stream a d' rest [Inr (concat cs)]"
    if "drain_lines a d (buffer @ c) = (es, Inr (d', rest))" for es d' rest
    by (rule Cons.IH) (rule drain_lines_rest [OF that])
  then have "read_stream a d buffer (Inr c # map Inr cs) = read_stream a d buffer [Inr c, Inr (concat cs)]"
    by (simp only: read_stream.simps(3) [of a d buffer c]) (auto split: prod.split sum.split simp del: read_stream.simps)
  then show ?case by (simp only: read_stream_append list.map concat.simps)
qed

section \<open>Payloads\<close>

text \<open>
  \<open>decode_sse_payload\<close>: \<open>blank\<close> is the test for payloads without an event, \<open>parse\<close> is
  \<open>serde_json::from_str\<close> at the wire type, with the message of its error.
\<close>

definition decode_payload ::
  "(string \<Rightarrow> bool) \<Rightarrow> (string \<Rightarrow> string + 'w) \<Rightarrow> ('d \<Rightarrow> 'w \<Rightarrow> (llm_error + stream_event list) \<times> 'd) \<Rightarrow>
   'd \<Rightarrow> string \<Rightarrow> (llm_error + stream_event list) \<times> 'd" where
  "decode_payload blank parse step d payload =
     (if blank (trim payload) then (Inr [], d)
      else case parse payload of
        Inl e \<Rightarrow> (Inl (unrecoverable (''invalid SSE JSON: '' @ e)), d)
      | Inr w \<Rightarrow> step d w)"

definition adapter_of ::
  "bool \<Rightarrow> bool \<Rightarrow> (string \<Rightarrow> bool) \<Rightarrow> (string \<Rightarrow> string + 'w) \<Rightarrow>
   ('d \<Rightarrow> 'w \<Rightarrow> (llm_error + stream_event list) \<times> 'd) \<Rightarrow> ('d \<Rightarrow> bool) \<Rightarrow> 'd sse_adapter" where
  "adapter_of skip_event skip_done blank parse step ended =
     \<lparr>sa_skip_event = skip_event, sa_skip_done = skip_done, sa_decode = decode_payload blank parse step,
      sa_ended = ended\<rparr>"

section \<open>Decoders that end once\<close>

text \<open>
  What the read loop relies on: a decoder that has ended says no more, and it ends exactly
  when it emits \<open>Finished\<close>.
\<close>

locale wire_decoder =
  fixes step :: "'d \<Rightarrow> 'w \<Rightarrow> (llm_error + stream_event list) \<times> 'd"
    and ended :: "'d \<Rightarrow> bool"
  assumes quiet: "ended d \<Longrightarrow> step d w = (Inr [], d)"
    and ends: "\<not> ended d \<Longrightarrow> step d w = (Inr es, d') \<Longrightarrow> ended d' \<longleftrightarrow> (\<exists>e \<in> set es. is_finish_event e)"
begin

lemma decode_ends:
  assumes "decode_payload blank parse step d payload = (Inr es, d')"
  shows "ended d' \<longleftrightarrow> ended d \<or> (\<exists>e \<in> set es. is_finish_event e)"
  using assms quiet [of d] ends [of d]
  by (cases "ended d") (auto simp: decode_payload_def split: if_splits sum.splits)

lemma handle_ends:
  assumes "handle_line (adapter_of skip_event skip_done blank parse step ended) d line = (Inr es, d')"
  shows "ended d' \<longleftrightarrow> ended d \<or> (\<exists>e \<in> set es. is_finish_event e)"
  using assms decode_ends [of blank parse d _ es d']
  by (auto simp: handle_line_def adapter_of_def split: if_splits)

lemma drain_ends:
  "drain_lines (adapter_of skip_event skip_done blank parse step ended) d buffer = (es, Inr (d', rest)) \<Longrightarrow>
   ended d' \<longleftrightarrow> ended d \<or> (\<exists>e \<in> set es. is_finish_event e)"
proof (induction "adapter_of skip_event skip_done blank parse step ended" d buffer arbitrary: es rule: drain_lines.induct)
  case (1 d buffer)
  let ?a = "adapter_of skip_event skip_done blank parse step ended"
  consider "next_line buffer = (Inr None, rest)" "es = []" "d' = d"
    | line tail es1 d1 es2 where "next_line buffer = (Inr (Some line), tail)"
      "handle_line ?a d line = (Inr es1, d1)" "drain_lines ?a d1 tail = (es2, Inr (d', rest))" "es = es1 @ es2"
    using "1.prems" by (subst (asm) drain_lines.simps) (auto split: prod.splits sum.splits option.splits)
  then show ?case
  proof cases
    case 2
    from "1.hyps" [OF 2(1) [symmetric] refl refl 2(2) [symmetric] refl 2(3)] handle_ends [OF 2(2)] 2(4)
    show ?thesis by auto
  qed simp
qed

text \<open>A stream that does not end with an error said \<open>Finished\<close>.\<close>

lemma read_ends:
  assumes "\<forall>e. last (read_stream (adapter_of skip_event skip_done blank parse step ended) d buffer chunks) \<noteq> Inl e
      \<or> read_stream (adapter_of skip_event skip_done blank parse step ended) d buffer chunks = []"
    and "\<not> ended d"
  shows "\<exists>e. Inr e \<in> set (read_stream (adapter_of skip_event skip_done blank parse step ended) d buffer chunks)
    \<and> is_finish_event e"
proof -
  let ?a = "adapter_of skip_event skip_done blank parse step ended"
  have "(\<exists>e. Inr e \<in> set (read_stream ?a d buffer chunks) \<and> is_finish_event e)
      \<or> (\<exists>err. read_stream ?a d buffer chunks \<noteq> [] \<and> last (read_stream ?a d buffer chunks) = Inl err)"
    if "\<not> ended d"
    using that
  proof (induction chunks arbitrary: d buffer)
    case Nil
    then show ?case by (simp add: adapter_of_def)
  next
    case (Cons c chunks)
    show ?case
    proof (cases c)
      case (Inr bytes)
      obtain es r where dr: "drain_lines ?a d (buffer @ bytes) = (es, r)" by fastforce
      show ?thesis
      proof (cases r)
        case (Inl err)
        then show ?thesis using dr \<open>c = Inr bytes\<close> by simp
      next
        case r: (Inr p)
        obtain d' rest where p: "p = (d', rest)" by (cases p)
        show ?thesis
        proof (cases "\<exists>e \<in> set es. is_finish_event e")
          case True
          then show ?thesis using dr r p Inr by force
        next
          case False
          then have "\<not> ended d'" using drain_ends [OF dr [unfolded r p]] Cons.prems by blast
          from Cons.IH [OF this, of rest] show ?thesis using dr r p Inr
            by (auto simp: last_append)
        qed
      qed
    qed simp
  qed
  with assms show ?thesis by blast
qed

end

section \<open>Properties\<close>

text \<open>
  C18: how the network cuts the bytes of a response into chunks makes no difference to the
  events and errors of the stream, also when a cut falls inside a line or a character.
\<close>

theorem sse_chunking:
  "read_stream a d [] (map Inr cs) = read_stream a d [] [Inr (concat cs)]"
  by (rule read_stream_chunks) (simp add: next_line_def)

end
