(* ===== verification/Stream_Decoders.thy ===== *)
theory Stream_Decoders
  imports Sse Ordered_Map Profile_Config
begin

text \<open>
  The decoders of the four wire formats (\<open>agent-core/src/llm/normalize/*/stream.rs\<close>): state
  machines from wire events to the stream events of a model call. Each is a record threaded
  through its \<open>decode\<close> function and interprets the locale \<open>wire_decoder\<close>. Wire types are
  records of the fields serde fills; their deserialisation is an argument.
\<close>

section \<open>Shared parts\<close>

text \<open>The accumulated state of one tool call; the three decoders have the same fields.\<close>

record tool_call_state =
  ts_id :: string
  ts_name :: string
  ts_arguments :: string
  ts_started :: bool

definition tool_blank :: "string \<Rightarrow> tool_call_state" where
  "tool_blank i = \<lparr>ts_id = i, ts_name = [], ts_arguments = [], ts_started = False\<rparr>"

text \<open>\<open>serde_json::from_str\<close> at \<open>Value\<close>, with the message of its error.\<close>

type_synonym json_parser = "string \<Rightarrow> string + json"

definition parse_tool_input :: "json_parser \<Rightarrow> string \<Rightarrow> llm_error + json" where
  "parse_tool_input jp arguments =
     (if arguments = [] then Inr JNull
      else case jp arguments of
        Inl e \<Rightarrow> Inl (unrecoverable (''invalid tool arguments JSON: '' @ e))
      | Inr v \<Rightarrow> Inr v)"

text \<open>The loop over the tools at the end; \<open>want\<close> is the test of the loop body.\<close>

fun finish_tools ::
  "json_parser \<Rightarrow> (tool_call_state \<Rightarrow> bool) \<Rightarrow> ('k \<times> tool_call_state) list \<Rightarrow> llm_error + stream_event list" where
  "finish_tools jp want [] = Inr []"
| "finish_tools jp want ((k, t) # ts) =
     (if want t then
        (case parse_tool_input jp (ts_arguments t) of
           Inl e \<Rightarrow> Inl e
         | Inr v \<Rightarrow>
             (case finish_tools jp want ts of
                Inl e \<Rightarrow> Inl e
              | Inr es \<Rightarrow> Inr (ToolUseFinished (ts_id t) (ts_name t) v # es)))
      else finish_tools jp want ts)"

definition or_default :: "'a option \<Rightarrow> 'a \<Rightarrow> 'a" where
  "or_default x d = (case x of None \<Rightarrow> d | Some v \<Rightarrow> v)"

section \<open>OpenAI Chat Completions\<close>

record tool_call_delta =
  td_index :: u32
  td_id :: "string option"
  td_name :: "string option"
  td_arguments :: "string option"

record chunk_choice =
  ch_content :: "string option"
  ch_reasoning :: "string option"
  ch_tool_calls :: "tool_call_delta list"
  ch_finish_reason :: "string option"

record chunk_usage =
  prompt_tokens :: u32
  completion_tokens :: u32

definition chunk_usage_to_usage :: "chunk_usage \<Rightarrow> usage" where
  "chunk_usage_to_usage u = \<lparr>input_tokens = prompt_tokens u, output_tokens = completion_tokens u\<rparr>"

record chat_chunk =
  ck_choices :: "chunk_choice list"
  ck_usage :: "chunk_usage option"

record chat_decoder =
  cd_tool_calls :: "(u32, tool_call_state) btree"
  cd_ended :: bool

definition chat_decoder_new :: chat_decoder where
  "chat_decoder_new = \<lparr>cd_tool_calls = [], cd_ended = False\<rparr>"

definition decode_reasoning_part :: "string \<Rightarrow> u32 \<Rightarrow> stream_event option" where
  "decode_reasoning_part reasoning block_index =
     (if reasoning = [] then None else Some (ThinkingPart block_index reasoning))"

definition split_assistant_text :: "string option \<Rightarrow> string option \<Rightarrow> stream_event list" where
  "split_assistant_text content reasoning =
     (let had_reasoning = (case reasoning of None \<Rightarrow> False | Some r \<Rightarrow> r \<noteq> []) in
      (case reasoning of
         None \<Rightarrow> []
       | Some r \<Rightarrow> (case decode_reasoning_part r 0 of None \<Rightarrow> [] | Some e \<Rightarrow> [e]))
      @ (case content of
           None \<Rightarrow> []
         | Some t \<Rightarrow> if t = [] then [] else [TextPart (if had_reasoning then 1 else 0) t]))"

text \<open>The fields of a delta written over the entry, before its arguments.\<close>

definition delta_entry :: "tool_call_delta \<Rightarrow> tool_call_state \<Rightarrow> tool_call_state" where
  "delta_entry td t = t\<lparr>ts_id := or_default (td_id td) (ts_id t), ts_name := or_default (td_name td) (ts_name t)\<rparr>"

definition apply_tool_delta ::
  "tool_call_delta \<Rightarrow> (u32, tool_call_state) btree \<Rightarrow> stream_event list \<times> (u32, tool_call_state) btree" where
  "apply_tool_delta td tools =
     (let entry = delta_entry td (or_default (bt_get tools (td_index td)) (tool_blank []));
          args = or_default (td_arguments td) [];
          entry1 = entry\<lparr>ts_arguments := ts_arguments entry @ args\<rparr>;
          part = (if args \<noteq> [] \<and> ts_started entry then [ToolUsePart (ts_id entry) args] else []) in
      if \<not> ts_started entry1 \<and> ts_id entry1 \<noteq> [] \<and> ts_name entry1 \<noteq> [] then
        (part @ ToolUseStarted (ts_id entry1) (ts_name entry1)
           # (if ts_arguments entry1 = [] then [] else [ToolUsePart (ts_id entry1) (ts_arguments entry1)]),
         bt_insert (td_index td) (entry1\<lparr>ts_started := True\<rparr>) tools)
      else (part, bt_insert (td_index td) entry1 tools))"

fun apply_tool_deltas ::
  "tool_call_delta list \<Rightarrow> (u32, tool_call_state) btree \<Rightarrow> stream_event list \<times> (u32, tool_call_state) btree" where
  "apply_tool_deltas [] tools = ([], tools)"
| "apply_tool_deltas (td # tds) tools =
     (case apply_tool_delta td tools of (es, tools1) \<Rightarrow>
        (case apply_tool_deltas tds tools1 of (es', tools2) \<Rightarrow> (es @ es', tools2)))"

definition map_finish_reason :: "string \<Rightarrow> stop_reason" where
  "map_finish_reason reason =
     (if reason = ''stop'' then EndTurn
      else if reason = ''tool_calls'' then StopToolUse
      else if reason = ''length'' then MaxTokens
      else StopOther reason)"

definition chat_finish ::
  "json_parser \<Rightarrow> string \<Rightarrow> usage option \<Rightarrow> chat_decoder \<Rightarrow> (llm_error + stream_event list) \<times> chat_decoder" where
  "chat_finish jp reason u d =
     (let fin = Finished (map_finish_reason reason) u None in
      if reason = ''tool_calls'' \<or> reason = ''stop'' then
        (case finish_tools jp ts_started (cd_tool_calls d) of
           Inl e \<Rightarrow> (Inl e, d)
         | Inr es \<Rightarrow> (Inr (es @ [fin]), d\<lparr>cd_tool_calls := [], cd_ended := True\<rparr>))
      else (Inr [fin], d\<lparr>cd_ended := True\<rparr>))"

fun chat_choices ::
  "json_parser \<Rightarrow> usage option \<Rightarrow> chunk_choice list \<Rightarrow> chat_decoder \<Rightarrow>
   (llm_error + stream_event list) \<times> chat_decoder" where
  "chat_choices jp u [] d = (Inr [], d)"
| "chat_choices jp u (c # cs) d =
     (let (es, d1) =
        (if ch_tool_calls c \<noteq> [] then
           (case apply_tool_deltas (ch_tool_calls c) (cd_tool_calls d) of (es, tools) \<Rightarrow> (es, d\<lparr>cd_tool_calls := tools\<rparr>))
         else (split_assistant_text (ch_content c) (ch_reasoning c), d)) in
      case (case ch_finish_reason c of None \<Rightarrow> (Inr [], d1) | Some reason \<Rightarrow> chat_finish jp reason u d1) of
        (Inl e, d2) \<Rightarrow> (Inl e, d2)
      | (Inr es2, d2) \<Rightarrow>
          (case chat_choices jp u cs d2 of
             (Inl e, d3) \<Rightarrow> (Inl e, d3)
           | (Inr es3, d3) \<Rightarrow> (Inr (es @ es2 @ es3), d3)))"

definition chat_decode_chunk ::
  "json_parser \<Rightarrow> chat_decoder \<Rightarrow> chat_chunk \<Rightarrow> (llm_error + stream_event list) \<times> chat_decoder" where
  "chat_decode_chunk jp d chunk =
     (if cd_ended d then (Inr [], d) else chat_choices jp (map_option chunk_usage_to_usage (ck_usage chunk)) (ck_choices chunk) d)"

section \<open>OpenAI Responses\<close>

record responses_decode_config =
  rc_text_delta_event :: string
  rc_reasoning_delta_event :: "string option"

definition responses_config_from_wire :: "wire_profile_config \<Rightarrow> responses_decode_config" where
  "responses_config_from_wire wire =
     \<lparr>rc_text_delta_event =
        (case wd_output_text_path (wp_decode wire) of
           None \<Rightarrow> ''response.output_text.delta''
         | Some path \<Rightarrow> ''response.'' @ path @ ''.delta''),
      rc_reasoning_delta_event =
        map_option (\<lambda>field. ''response.'' @ field @ ''.delta'') (wd_reasoning_delta_field (wp_decode wire))\<rparr>"

record response_usage =
  ru_input_tokens :: "u32 option"
  ru_output_tokens :: "u32 option"

definition usage_of :: "response_usage \<Rightarrow> usage" where
  "usage_of u = \<lparr>input_tokens = or_default (ru_input_tokens u) 0, output_tokens = or_default (ru_output_tokens u) 0\<rparr>"

record response_object =
  ro_id :: "string option"
  ro_status :: "string option"
  ro_usage :: "response_usage option"

record responses_event =
  re_type :: string
  re_delta :: "string option"
  re_response :: "response_object option"
  re_item :: "json option"
  re_item_id :: "string option"
  re_arguments :: "string option"

record responses_decoder =
  rd_config :: responses_decode_config
  rd_tool_calls :: "(string, tool_call_state) btree"
  rd_ended :: bool
  rd_response_id :: "string option"
  rd_had_reasoning :: bool

definition responses_with_config :: "responses_decode_config \<Rightarrow> responses_decoder" where
  "responses_with_config config =
     \<lparr>rd_config = config, rd_tool_calls = [], rd_ended = False, rd_response_id = None, rd_had_reasoning = False\<rparr>"

definition map_response_status :: "string option \<Rightarrow> stop_reason" where
  "map_response_status status =
     (case status of
        None \<Rightarrow> EndTurn
      | Some s \<Rightarrow> if s = ''completed'' \<or> s = ''incomplete'' then EndTurn else StopOther s)"

text \<open>\<open>value.and_then(Value::as_str).unwrap_or_default()\<close>\<close>

definition str_or_empty :: "json option \<Rightarrow> string" where
  "str_or_empty v = or_default (Option.bind v json_as_str) []"

definition item_call_id :: "json \<Rightarrow> string" where
  "item_call_id item =
     str_or_empty (case json_get ''call_id'' item of None \<Rightarrow> json_get ''id'' item | Some v \<Rightarrow> Some v)"

definition handle_output_item_added ::
  "responses_event \<Rightarrow> responses_decoder \<Rightarrow> stream_event list \<times> responses_decoder" where
  "handle_output_item_added ev d =
     (case re_item ev of
        None \<Rightarrow> ([], d)
      | Some item \<Rightarrow>
          if str_or_empty (json_get ''type'' item) \<noteq> ''function_call'' then ([], d)
          else
            let i = item_call_id item; name = str_or_empty (json_get ''name'' item) in
            if i = [] \<or> name = [] then ([], d)
            else ([ToolUseStarted i name],
                  d\<lparr>rd_tool_calls := bt_insert i
                      \<lparr>ts_id = i, ts_name = name, ts_arguments = [], ts_started = True\<rparr> (rd_tool_calls d)\<rparr>))"

definition handle_function_arguments_delta ::
  "responses_event \<Rightarrow> responses_decoder \<Rightarrow> stream_event list \<times> responses_decoder" where
  "handle_function_arguments_delta ev d =
     (case (re_item_id ev, re_delta ev) of
        (Some item_id, Some delta) \<Rightarrow>
          if delta = [] then ([], d)
          else
            let entry = or_default (bt_get (rd_tool_calls d) item_id) (tool_blank item_id);
                entry1 = entry\<lparr>ts_arguments := ts_arguments entry @ delta\<rparr> in
            (if ts_started entry1 then [ToolUsePart (ts_id entry1) delta] else [],
             d\<lparr>rd_tool_calls := bt_insert item_id entry1 (rd_tool_calls d)\<rparr>)
      | _ \<Rightarrow> ([], d))"

definition name_from_item :: "responses_event \<Rightarrow> string option" where
  "name_from_item ev = Option.bind (Option.bind (re_item ev) (json_get ''name'')) json_as_str"

text \<open>The arguments are stored before they are parsed, so an error keeps them.\<close>

definition handle_function_arguments_done ::
  "json_parser \<Rightarrow> responses_event \<Rightarrow> responses_decoder \<Rightarrow> (llm_error + stream_event list) \<times> responses_decoder" where
  "handle_function_arguments_done jp ev d =
     (case re_item_id ev of
        None \<Rightarrow> (Inr [], d)
      | Some item_id \<Rightarrow>
          (case bt_get (rd_tool_calls d) item_id of
             None \<Rightarrow> (Inr [], d)
           | Some entry \<Rightarrow>
               let entry1 = entry\<lparr>ts_arguments := or_default (re_arguments ev) (ts_arguments entry)\<rparr> in
               (case parse_tool_input jp (ts_arguments entry1) of
                  Inl e \<Rightarrow> (Inl e, d\<lparr>rd_tool_calls := bt_insert item_id entry1 (rd_tool_calls d)\<rparr>)
                | Inr input \<Rightarrow>
                    let entry2 = (if ts_name entry1 = []
                                  then entry1\<lparr>ts_name := or_default (name_from_item ev) []\<rparr> else entry1) in
                    if ts_name entry2 = []
                    then (Inr [], d\<lparr>rd_tool_calls := bt_insert item_id entry2 (rd_tool_calls d)\<rparr>)
                    else (Inr [ToolUseFinished (ts_id entry2) (ts_name entry2) input],
                          d\<lparr>rd_tool_calls := bt_insert item_id (entry2\<lparr>ts_started := True\<rparr>) (rd_tool_calls d)\<rparr>))))"

definition responses_decode_event ::
  "json_parser \<Rightarrow> responses_decoder \<Rightarrow> responses_event \<Rightarrow>
   (llm_error + stream_event list) \<times> responses_decoder" where
  "responses_decode_event jp d ev =
     (if rd_ended d then (Inr [], d)
      else if re_type ev = rc_text_delta_event (rd_config d) then
        (case re_delta ev of
           None \<Rightarrow> (Inr [], d)
         | Some delta \<Rightarrow>
             if delta = [] then (Inr [], d)
             else (Inr [TextPart (if rd_had_reasoning d then 1 else 0) delta], d))
      else if re_type ev = ''response.output_item.added'' then
        (case handle_output_item_added ev d of (es, d1) \<Rightarrow> (Inr es, d1))
      else if re_type ev = ''response.function_call_arguments.delta'' then
        (case handle_function_arguments_delta ev d of (es, d1) \<Rightarrow> (Inr es, d1))
      else if re_type ev = ''response.function_call_arguments.done'' then
        handle_function_arguments_done jp ev d
      else if re_type ev = ''response.completed'' then
        (case re_response ev of
           None \<Rightarrow> (Inr [], d)
         | Some r \<Rightarrow>
             (Inr [Finished (map_response_status (ro_status r)) (map_option usage_of (ro_usage r)) (ro_id r)],
              d\<lparr>rd_response_id := ro_id r, rd_ended := True\<rparr>))
      else if re_type ev = ''response.failed'' \<or> re_type ev = ''error'' then
        (Inl (unrecoverable (''responses stream error event: '' @ re_type ev)), d)
      else
        (case (rc_reasoning_delta_event (rd_config d), re_delta ev) of
           (Some reasoning, Some delta) \<Rightarrow>
             if re_type ev = reasoning \<and> delta \<noteq> []
             then (Inr [ThinkingPart 0 delta], d\<lparr>rd_had_reasoning := True\<rparr>)
             else (Inr [], d)
         | _ \<Rightarrow> (Inr [], d)))"

section \<open>Anthropic Messages\<close>

record anthropic_delta =
  ad_type :: "string option"
  ad_text :: "string option"
  ad_thinking :: "string option"
  ad_partial_json :: "string option"
  ad_stop_reason :: "string option"

record anthropic_block =
  ab_type :: string
  ab_id :: "string option"
  ab_name :: "string option"

record anthropic_event =
  ae_type :: string
  ae_index :: "u32 option"
  ae_delta :: "anthropic_delta option"
  ae_block :: "anthropic_block option"
  ae_usage :: "response_usage option"

record anthropic_decoder =
  an_tool_blocks :: "(u32, tool_call_state) btree"
  an_ended :: bool
  an_stop_reason :: "stop_reason option"
  an_usage :: "usage option"

definition anthropic_decoder_new :: anthropic_decoder where
  "anthropic_decoder_new = \<lparr>an_tool_blocks = [], an_ended = False, an_stop_reason = None, an_usage = None\<rparr>"

definition map_stop_reason :: "string \<Rightarrow> stop_reason" where
  "map_stop_reason reason =
     (if reason = ''end_turn'' then EndTurn
      else if reason = ''tool_use'' then StopToolUse
      else if reason = ''max_tokens'' then MaxTokens
      else StopOther reason)"

definition anthropic_block_start ::
  "anthropic_event \<Rightarrow> anthropic_decoder \<Rightarrow> stream_event list \<times> anthropic_decoder" where
  "anthropic_block_start ev d =
     (case ae_block ev of
        None \<Rightarrow> ([], d)
      | Some block \<Rightarrow>
          if ab_type block \<noteq> ''tool_use'' then ([], d)
          else
            let i = or_default (ab_id block) []; name = or_default (ab_name block) [];
                started = (i \<noteq> [] \<and> name \<noteq> []) in
            (if started then [ToolUseStarted i name] else [],
             d\<lparr>an_tool_blocks := bt_insert (or_default (ae_index ev) 0)
                 \<lparr>ts_id = i, ts_name = name, ts_arguments = [], ts_started = started\<rparr> (an_tool_blocks d)\<rparr>))"

definition handle_content_block_delta ::
  "anthropic_event \<Rightarrow> anthropic_decoder \<Rightarrow> stream_event list \<times> anthropic_decoder" where
  "handle_content_block_delta ev d =
     (case ae_delta ev of
        None \<Rightarrow> ([], d)
      | Some delta \<Rightarrow>
          let kind = or_default (ad_type delta) []; index = or_default (ae_index ev) 0 in
          if kind = ''text_delta'' then
            (let t = or_default (ad_text delta) [] in (if t \<noteq> [] then [TextPart index t] else [], d))
          else if kind = ''thinking_delta'' then
            (let t = or_default (ad_thinking delta) [] in (if t \<noteq> [] then [ThinkingPart index t] else [], d))
          else if kind = ''input_json_delta'' then
            (let partial = or_default (ad_partial_json delta) [] in
             if partial = [] then ([], d)
             else
               let entry = or_default (bt_get (an_tool_blocks d) index) (tool_blank []);
                   entry1 = entry\<lparr>ts_arguments := ts_arguments entry @ partial\<rparr> in
               (if ts_started entry1 \<and> ts_id entry1 \<noteq> [] then [ToolUsePart (ts_id entry1) partial] else [],
                d\<lparr>an_tool_blocks := bt_insert index entry1 (an_tool_blocks d)\<rparr>))
          else ([], d))"

definition anthropic_message_delta :: "anthropic_event \<Rightarrow> anthropic_decoder \<Rightarrow> anthropic_decoder" where
  "anthropic_message_delta ev d =
     (let d1 = (case Option.bind (ae_delta ev) ad_stop_reason of
                  None \<Rightarrow> d | Some reason \<Rightarrow> d\<lparr>an_stop_reason := Some (map_stop_reason reason)\<rparr>) in
      case ae_usage ev of None \<Rightarrow> d1 | Some u \<Rightarrow> d1\<lparr>an_usage := Some (usage_of u)\<rparr>)"

definition anthropic_message_stop ::
  "json_parser \<Rightarrow> anthropic_decoder \<Rightarrow> (llm_error + stream_event list) \<times> anthropic_decoder" where
  "anthropic_message_stop jp d =
     (case finish_tools jp (\<lambda>t. ts_started t \<and> ts_arguments t \<noteq> []) (an_tool_blocks d) of
        Inl e \<Rightarrow> (Inl e, d)
      | Inr es \<Rightarrow>
          (Inr (es @ [Finished (or_default (an_stop_reason d) EndTurn) (an_usage d) None]),
           d\<lparr>an_tool_blocks := [], an_usage := None, an_ended := True\<rparr>))"

definition anthropic_decode_event ::
  "json_parser \<Rightarrow> anthropic_decoder \<Rightarrow> anthropic_event \<Rightarrow>
   (llm_error + stream_event list) \<times> anthropic_decoder" where
  "anthropic_decode_event jp d ev =
     (if an_ended d then (Inr [], d)
      else if ae_type ev = ''content_block_start'' then (case anthropic_block_start ev d of (es, d1) \<Rightarrow> (Inr es, d1))
      else if ae_type ev = ''content_block_delta'' then (case handle_content_block_delta ev d of (es, d1) \<Rightarrow> (Inr es, d1))
      else if ae_type ev = ''message_delta'' then (Inr [], anthropic_message_delta ev d)
      else if ae_type ev = ''message_stop'' then anthropic_message_stop jp d
      else if ae_type ev = ''error'' then (Inl (unrecoverable ''anthropic stream error event''), d)
      else (Inr [], d))"

section \<open>Google Generative AI\<close>

record gemini_call =
  gc_name :: string
  gc_args :: json

record gemini_part =
  gp_text :: "string option"
  gp_function_call :: "gemini_call option"

record gemini_candidate =
  gd_content :: "gemini_part list option"
  gd_finish_reason :: "string option"

record gemini_chunk =
  gk_candidates :: "gemini_candidate list"
  gk_usage :: "response_usage option"

record gemini_decoder =
  gm_ended :: bool
  gm_usage :: "usage option"

definition gemini_decoder_new :: gemini_decoder where
  "gemini_decoder_new = \<lparr>gm_ended = False, gm_usage = None\<rparr>"

definition gemini_part_events :: "gemini_part \<Rightarrow> stream_event list" where
  "gemini_part_events part =
     (let t = or_default (gp_text part) [] in if t \<noteq> [] then [TextPart 0 t] else [])
     @ (case gp_function_call part of
          None \<Rightarrow> []
        | Some call \<Rightarrow>
            let i = ''call_'' @ gc_name call in
            [ToolUseStarted i (gc_name call), ToolUseFinished i (gc_name call) (gc_args call)])"

fun gemini_candidates :: "gemini_candidate list \<Rightarrow> gemini_decoder \<Rightarrow> stream_event list \<times> gemini_decoder" where
  "gemini_candidates [] d = ([], d)"
| "gemini_candidates (c # cs) d =
     (let es = (case gd_content c of None \<Rightarrow> [] | Some parts \<Rightarrow> concat (map gemini_part_events parts));
          reason = or_default (gd_finish_reason c) [];
          (fin, d1) = (if reason = ''STOP'' \<or> reason = ''MAX_TOKENS''
                       then ([Finished (if reason = ''MAX_TOKENS'' then MaxTokens else EndTurn) (gm_usage d) None],
                             d\<lparr>gm_usage := None, gm_ended := True\<rparr>)
                       else ([], d)) in
      case gemini_candidates cs d1 of (es', d2) \<Rightarrow> (es @ fin @ es', d2))"

definition gemini_decode_chunk ::
  "gemini_decoder \<Rightarrow> gemini_chunk \<Rightarrow> (llm_error + stream_event list) \<times> gemini_decoder" where
  "gemini_decode_chunk d chunk =
     (if gm_ended d then (Inr [], d)
      else
        let d1 = (case gk_usage chunk of None \<Rightarrow> d | Some u \<Rightarrow> d\<lparr>gm_usage := Some (usage_of u)\<rparr>) in
        case gemini_candidates (gk_candidates chunk) d1 of (es, d2) \<Rightarrow> (Inr es, d2))"

section \<open>The four streams\<close>

text \<open>
  One model call through each adapter: \<open>parse\<close> is the deserialisation of the adapter's wire
  type, \<open>body\<close> the encoded request, \<open>http\<close> the client.
\<close>

definition done_frame :: "string \<Rightarrow> bool" where
  "done_frame payload = (payload = ''[DONE]'')"

definition chat_stream ::
  "json_parser \<Rightarrow> (string \<Rightarrow> string + chat_chunk) \<Rightarrow> llm_error + 'b \<Rightarrow> ('b \<Rightarrow> http_reply) \<Rightarrow>
   (llm_error + stream_event) list" where
  "chat_stream jp parse body http =
     run_stream (adapter_of False True done_frame parse (chat_decode_chunk jp) cd_ended) chat_decoder_new body http"

definition responses_stream ::
  "json_parser \<Rightarrow> (string \<Rightarrow> string + responses_event) \<Rightarrow> wire_profile_config \<Rightarrow> llm_error + 'b \<Rightarrow>
   ('b \<Rightarrow> http_reply) \<Rightarrow> (llm_error + stream_event) list" where
  "responses_stream jp parse wire body http =
     run_stream (adapter_of True True done_frame parse (responses_decode_event jp) rd_ended)
       (responses_with_config (responses_config_from_wire wire)) body http"

definition anthropic_stream ::
  "json_parser \<Rightarrow> (string \<Rightarrow> string + anthropic_event) \<Rightarrow> llm_error + 'b \<Rightarrow> ('b \<Rightarrow> http_reply) \<Rightarrow>
   (llm_error + stream_event) list" where
  "anthropic_stream jp parse body http =
     run_stream (adapter_of True False (\<lambda>p. p = []) parse (anthropic_decode_event jp) an_ended)
       anthropic_decoder_new body http"

definition gemini_stream ::
  "(string \<Rightarrow> string + gemini_chunk) \<Rightarrow> llm_error + 'b \<Rightarrow> ('b \<Rightarrow> http_reply) \<Rightarrow>
   (llm_error + stream_event) list" where
  "gemini_stream parse body http =
     run_stream (adapter_of False True done_frame parse gemini_decode_chunk gm_ended) gemini_decoder_new body http"

section \<open>Every decoder ends once\<close>

lemma finish_tools_no_end: "finish_tools jp want ts = Inr es \<Longrightarrow> \<forall>e \<in> set es. \<not> is_finish_event e"
  by (induction jp want ts arbitrary: es rule: finish_tools.induct) (auto split: if_splits sum.splits)

lemma tool_delta_no_end: "\<forall>e \<in> set (fst (apply_tool_delta td tools)). \<not> is_finish_event e"
  by (auto simp: apply_tool_delta_def Let_def)

lemma tool_deltas_no_end: "\<forall>e \<in> set (fst (apply_tool_deltas tds tools)). \<not> is_finish_event e"
proof (induction tds arbitrary: tools)
  case (Cons td tds)
  have "\<forall>e \<in> set (fst (apply_tool_deltas tds (snd (apply_tool_delta td tools)))). \<not> is_finish_event e"
    by (rule Cons.IH)
  with tool_delta_no_end [of td tools] show ?case by (auto split: prod.split)
qed simp

lemma assistant_text_no_end: "\<forall>e \<in> set (split_assistant_text c r). \<not> is_finish_event e"
  by (auto simp: split_assistant_text_def decode_reasoning_part_def Let_def split: option.splits if_splits)

lemma chat_finish_ends:
  "chat_finish jp reason u d = (Inr es, d') \<Longrightarrow> cd_ended d' \<and> (\<exists>e \<in> set es. is_finish_event e)"
  by (auto simp: chat_finish_def Let_def split: if_splits sum.splits)

lemma chat_choices_ends:
  "chat_choices jp u cs d = (Inr es, d') \<Longrightarrow> cd_ended d' \<longleftrightarrow> cd_ended d \<or> (\<exists>e \<in> set es. is_finish_event e)"
proof (induction cs arbitrary: d es)
  case (Cons c cs)
  obtain es1 d1 where body: "(if ch_tool_calls c \<noteq> [] then
           (case apply_tool_deltas (ch_tool_calls c) (cd_tool_calls d) of (es, tools) \<Rightarrow> (es, d\<lparr>cd_tool_calls := tools\<rparr>))
         else (split_assistant_text (ch_content c) (ch_reasoning c), d)) = (es1, d1)" by fastforce
  have d1: "cd_ended d1 = cd_ended d" "\<forall>e \<in> set es1. \<not> is_finish_event e"
    using body tool_deltas_no_end [of "ch_tool_calls c" "cd_tool_calls d"] assistant_text_no_end
    by (auto split: if_splits prod.splits)
  from Cons.prems body d1 show ?case
    by (auto simp: Let_def split: sum.splits prod.splits option.splits dest!: Cons.IH chat_finish_ends)
qed simp

interpretation chat: wire_decoder "chat_decode_chunk jp" cd_ended for jp
  by unfold_locales (auto simp: chat_decode_chunk_def dest: chat_choices_ends)

interpretation responses: wire_decoder "responses_decode_event jp" rd_ended for jp
  by unfold_locales
    (auto simp: responses_decode_event_def handle_output_item_added_def handle_function_arguments_delta_def
      handle_function_arguments_done_def Let_def split: if_splits option.splits prod.splits sum.splits)

interpretation anthropic: wire_decoder "anthropic_decode_event jp" an_ended for jp
  by unfold_locales
    (auto simp: anthropic_decode_event_def anthropic_block_start_def handle_content_block_delta_def
      anthropic_message_delta_def anthropic_message_stop_def Let_def
      split: if_splits option.splits prod.splits sum.splits dest: finish_tools_no_end)

lemma gemini_candidates_ends:
  "gemini_candidates cs d = (es, d') \<Longrightarrow> gm_ended d' \<longleftrightarrow> gm_ended d \<or> (\<exists>e \<in> set es. is_finish_event e)"
proof (induction cs arbitrary: d es)
  case (Cons c cs)
  have "\<forall>e \<in> set (gemini_part_events p). \<not> is_finish_event e" for p
    by (auto simp: gemini_part_events_def Let_def split: option.splits)
  with Cons show ?case
    by (auto simp: Let_def split: prod.splits option.splits if_splits)
qed simp

interpretation gemini: wire_decoder gemini_decode_chunk gm_ended
  by unfold_locales
    (auto simp: gemini_decode_chunk_def Let_def split: prod.splits option.splits dest: gemini_candidates_ends)

end
