(* ===== verification/Stream_Contracts.thy ===== *)
theory Stream_Contracts
  imports Stream_Decoders
begin

text \<open>
  What the decoders make of the documented forms of the wire streams: tool events in order and
  one \<open>Finished\<close>, so that the response builder accepts the call. The contracts are stepped
  through event by event; the locale \<open>wire_contract\<close> carries the argument once, and each
  decoder interprets it.
\<close>

section \<open>Following the tools of a stream\<close>

text \<open>The phases of all tool ids after some events; \<open>None\<close> if an event came out of order.\<close>

fun life_step :: "tool_phase \<Rightarrow> stream_event \<Rightarrow> tool_phase option" where
  "life_step Fresh (ToolUseStarted _ _) = Some Running"
| "life_step Running (ToolUsePart _ _) = Some Running"
| "life_step Running (ToolUseFinished _ _ _) = Some Closed"
| "life_step _ _ = None"

fun track :: "(string \<Rightarrow> tool_phase) \<Rightarrow> stream_event list \<Rightarrow> (string \<Rightarrow> tool_phase) option" where
  "track P [] = Some P"
| "track P (e # es) =
     (case event_tool_id e of
        None \<Rightarrow> track P es
      | Some i \<Rightarrow> (case life_step (P i) e of None \<Rightarrow> None | Some q \<Rightarrow> track (P(i := q)) es))"

lemma track_append: "track P (xs @ ys) = Option.bind (track P xs) (\<lambda>Q. track Q ys)"
  by (induction P xs rule: track.induct) (auto simp: fun_upd_def split: option.split)

lemma lifecycle_step:
  assumes "event_tool_id e = Some i" "life_step p e = Some q" "lifecycle q es"
  shows "lifecycle p (e # es)"
  using assms by (cases p; cases e) auto

lemma track_lifecycle: "track P es = Some Q \<Longrightarrow> Q i \<noteq> Running \<Longrightarrow> lifecycle (P i) (tool_events i es)"
proof (induction P es rule: track.induct)
  case (2 P e es)
  show ?case
  proof (cases "event_tool_id e")
    case None
    with 2 show ?thesis by simp
  next
    case (Some j)
    with "2.prems" obtain q where q: "life_step (P j) e = Some q" "track (P(j := q)) es = Some Q"
      by (auto split: option.splits)
    from "2.IH"(2) [OF Some q "2.prems"(2)] have "lifecycle ((P(j := q)) i) (tool_events i es)" .
    with Some q(1) show ?thesis by (auto intro: lifecycle_step)
  qed
qed simp

definition no_end :: "stream_event list \<Rightarrow> bool" where
  "no_end es \<longleftrightarrow> (\<forall>e \<in> set es. \<not> is_finish_event e)"

lemma no_end_simps [simp]:
  "no_end []" "no_end (e # es) \<longleftrightarrow> \<not> is_finish_event e \<and> no_end es" "no_end (xs @ ys) \<longleftrightarrow> no_end xs \<and> no_end ys"
  by (auto simp: no_end_def)

lemma track_conforming:
  assumes "track (\<lambda>_. Fresh) es = Some Q" "\<And>i. Q i \<noteq> Running" "no_end es" "is_finish_event f"
  shows "conforming (es @ [f])"
  using assms track_lifecycle [OF assms(1) assms(2)]
  by (auto simp: conforming_def no_end_def list_all_iff split: option.split)

section \<open>Decoding a whole response\<close>

fun decode_all ::
  "('d \<Rightarrow> 'w \<Rightarrow> (llm_error + stream_event list) \<times> 'd) \<Rightarrow> 'd \<Rightarrow> 'w list \<Rightarrow> (llm_error + stream_event list) \<times> 'd" where
  "decode_all step d [] = (Inr [], d)"
| "decode_all step d (w # ws) =
     (case step d w of
        (Inl e, d1) \<Rightarrow> (Inl e, d1)
      | (Inr es, d1) \<Rightarrow>
          (case decode_all step d1 ws of (Inl e, d2) \<Rightarrow> (Inl e, d2) | (Inr es', d2) \<Rightarrow> (Inr (es @ es'), d2)))"

lemma decode_all_append:
  "decode_all step d (ws @ ws') =
     (case decode_all step d ws of
        (Inl e, d1) \<Rightarrow> (Inl e, d1)
      | (Inr es, d1) \<Rightarrow>
          (case decode_all step d1 ws' of (Inl e, d2) \<Rightarrow> (Inl e, d2) | (Inr es', d2) \<Rightarrow> (Inr (es @ es'), d2)))"
  by (induction ws arbitrary: d) (auto split: prod.split sum.split)

text \<open>The phases when exactly the ids of \<open>R\<close> run and nothing has closed.\<close>

definition running :: "string set \<Rightarrow> string \<Rightarrow> tool_phase" where
  "running R i = (if i \<in> R then Running else Fresh)"

lemma running_simps [simp]:
  "running {} = (\<lambda>_. Fresh)" "i \<in> R \<Longrightarrow> running R i = Running" "i \<notin> R \<Longrightarrow> running R i = Fresh"
  "(running R)(i := Running) = running (insert i R)"
  by (auto simp: running_def fun_eq_iff)

text \<open>Finishing the tools of a table, each under its own id, closes exactly these ids.\<close>

definition wanted :: "(tool_call_state \<Rightarrow> bool) \<Rightarrow> ('k \<times> tool_call_state) list \<Rightarrow> string list" where
  "wanted want ts = map (ts_id \<circ> snd) (filter (want \<circ> snd) ts)"

lemma wanted_simps [simp]:
  "wanted want [] = []"
  "wanted want ((k, t) # ts) = (if want t then ts_id t # wanted want ts else wanted want ts)"
  by (simp_all add: wanted_def)

lemma track_finish_tools:
  assumes "finish_tools jp want ts = Inr es" "distinct (wanted want ts)"
    and "\<forall>i \<in> set (wanted want ts). P i = Running"
  shows "track P es = Some (\<lambda>i. if i \<in> set (wanted want ts) then Closed else P i)"
  using assms
proof (induction jp want ts arbitrary: P es rule: finish_tools.induct)
  case (2 jp want k t ts)
  show ?case
  proof (cases "want t")
    case False
    with "2.IH"(2) [OF False, of es P] "2.prems" show ?thesis by simp
  next
    case True
    with "2.prems"(1) obtain v es' where es: "parse_tool_input jp (ts_arguments t) = Inr v"
      "finish_tools jp want ts = Inr es'" "es = ToolUseFinished (ts_id t) (ts_name t) v # es'"
      by (auto split: sum.splits)
    have "track (P(ts_id t := Closed)) es' =
        Some (\<lambda>i. if i \<in> set (wanted want ts) then Closed else (P(ts_id t := Closed)) i)"
      by (rule "2.IH"(1) [OF True es(1,2)]) (use "2.prems"(2,3) True in auto)
    with es(3) "2.prems"(3) True show ?thesis by (auto simp: fun_eq_iff)
  qed
qed simp

section \<open>Contracts\<close>

text \<open>
  A documented form of a wire stream: \<open>allowed\<close> steps through the events before the last one
  and \<open>final\<close> judges the last.
\<close>

fun contract_run :: "('s \<Rightarrow> 'w \<Rightarrow> 's option) \<Rightarrow> 's \<Rightarrow> 'w list \<Rightarrow> 's option" where
  "contract_run allowed s [] = Some s"
| "contract_run allowed s (w # ws) =
     (case allowed s w of None \<Rightarrow> None | Some s' \<Rightarrow> contract_run allowed s' ws)"

definition wire_ok :: "('s \<Rightarrow> 'w \<Rightarrow> 's option) \<Rightarrow> ('s \<Rightarrow> 'w \<Rightarrow> bool) \<Rightarrow> 's \<Rightarrow> 'w list \<Rightarrow> bool" where
  "wire_ok allowed final s ws \<longleftrightarrow> ws \<noteq> []
     \<and> (case contract_run allowed s (butlast ws) of None \<Rightarrow> False | Some s' \<Rightarrow> final s' (last ws))"

text \<open>
  A decoder that keeps a contract: related to the contract's state it turns what is allowed
  into tool events in order, and what is final into the end of all tools and \<open>Finished\<close>.
\<close>

locale wire_contract = wire_decoder step ended
  for step :: "'d \<Rightarrow> 'w \<Rightarrow> (llm_error + stream_event list) \<times> 'd" and ended +
  fixes allowed :: "'s \<Rightarrow> 'w \<Rightarrow> 's option"
    and final :: "'s \<Rightarrow> 'w \<Rightarrow> bool"
    and rel :: "'s \<Rightarrow> 'd \<Rightarrow> bool"
    and phase :: "'s \<Rightarrow> string \<Rightarrow> tool_phase"
    and start :: 's
    and new :: 'd
  assumes rel_start: "rel start new"
    and phase_start: "phase start = (\<lambda>_. Fresh)"
    and not_ended: "rel s d \<Longrightarrow> \<not> ended d"
    and sim: "rel s d \<Longrightarrow> allowed s w = Some s' \<Longrightarrow>
      \<exists>es d'. step d w = (Inr es, d') \<and> rel s' d' \<and> track (phase s) es = Some (phase s') \<and> no_end es"
    and last: "rel s d \<Longrightarrow> final s w \<Longrightarrow>
      \<exists>es f d' Q. step d w = (Inr (es @ [f]), d') \<and> is_finish_event f \<and> no_end es
        \<and> track (phase s) es = Some Q \<and> (\<forall>i. Q i \<noteq> Running)"
begin

lemma run_sim:
  "rel s d \<Longrightarrow> contract_run allowed s ws = Some s' \<Longrightarrow>
   \<exists>es d'. decode_all step d ws = (Inr es, d') \<and> rel s' d' \<and> track (phase s) es = Some (phase s') \<and> no_end es"
proof (induction ws arbitrary: s d)
  case (Cons w ws)
  then obtain s1 where s1: "allowed s w = Some s1" "contract_run allowed s1 ws = Some s'"
    by (auto split: option.splits)
  from sim [OF Cons.prems(1) s1(1)] obtain es1 d1 where one: "step d w = (Inr es1, d1)" "rel s1 d1"
    "track (phase s) es1 = Some (phase s1)" "no_end es1" by blast
  from Cons.IH [OF one(2) s1(2)] one show ?case by (auto simp: track_append)
qed auto

lemma conforms:
  assumes "wire_ok allowed final start ws"
  shows "\<exists>es d. decode_all step new ws = (Inr es, d) \<and> ended d \<and> conforming es"
proof -
  have ws: "ws = butlast ws @ [List.last ws]" using assms by (simp add: wire_ok_def)
  from assms obtain s where s: "contract_run allowed start (butlast ws) = Some s" "final s (List.last ws)"
    by (auto simp: wire_ok_def split: option.splits)
  from run_sim [OF rel_start s(1)] obtain es1 d1 where one: "decode_all step new (butlast ws) = (Inr es1, d1)"
    "rel s d1" "track (\<lambda>_. Fresh) es1 = Some (phase s)" "no_end es1"
    by (auto simp: phase_start)
  from last [OF one(2) s(2)] obtain es2 f d2 Q where two: "step d1 (List.last ws) = (Inr (es2 @ [f]), d2)"
    "is_finish_event f" "no_end es2" "track (phase s) es2 = Some Q" "\<And>i. Q i \<noteq> Running" by blast
  have "decode_all step new (butlast ws @ [List.last ws]) = (Inr ((es1 @ es2) @ [f]), d2)"
    using one(1) two(1) by (simp add: decode_all_append)
  moreover have "ended d2" using ends [OF not_ended [OF one(2)] two(1)] two(2) by auto
  moreover have "conforming ((es1 @ es2) @ [f])"
    by (rule track_conforming [where Q = Q]) (use one two in \<open>simp_all add: track_append\<close>)
  ultimately show ?thesis using ws by metis
qed

lemma accepted:
  assumes "wire_ok allowed final start ws"
  shows "\<exists>es d r. decode_all step new ws = (Inr es, d) \<and> ended d \<and> run_model_call m (map Inr es) = Inr r"
  using conforms [OF assms] conforming_accepted [of _ m] by (auto simp: is_ok_iff)

end

section \<open>OpenAI Chat Completions\<close>

text \<open>
  The documented form of tool call deltas: the first delta of an index brings a new id and a
  name, later ones bring arguments and at most repeat the id.
\<close>

abbreviation first_delta :: "u32 \<Rightarrow> tool_call_delta list \<Rightarrow> tool_call_delta option" where
  "first_delta k ds \<equiv> find (\<lambda>d. td_index d = k) ds"

fun deltas_ok :: "tool_call_delta list \<Rightarrow> tool_call_delta list \<Rightarrow> bool" where
  "deltas_ok prev [] = True"
| "deltas_ok prev (d # ds) =
     ((case first_delta (td_index d) prev of
         None \<Rightarrow>
           (case (td_id d, td_name d) of
              (Some i, Some n) \<Rightarrow> i \<noteq> [] \<and> n \<noteq> [] \<and> list_all (\<lambda>e. td_id e \<noteq> Some i) prev
            | _ \<Rightarrow> False)
       | Some e \<Rightarrow> (td_id d = None \<or> td_id d = td_id e) \<and> td_name d \<noteq> Some [])
      \<and> deltas_ok (prev @ [d]) ds)"

definition arguments_of :: "u32 \<Rightarrow> tool_call_delta list \<Rightarrow> string" where
  "arguments_of k ds = concat (map (\<lambda>d. or_default (td_arguments d) []) (filter (\<lambda>d. td_index d = k) ds))"

text \<open>The table after the deltas \<open>prev\<close>.\<close>

definition chat_table :: "tool_call_delta list \<Rightarrow> (u32, tool_call_state) btree \<Rightarrow> bool" where
  "chat_table prev tools \<longleftrightarrow> bt_inv tools
     \<and> (\<forall>k. bt_get tools k \<noteq> None \<longleftrightarrow> first_delta k prev \<noteq> None)
     \<and> (\<forall>k t. bt_get tools k = Some t \<longrightarrow> ts_started t \<and> ts_id t \<noteq> [] \<and> ts_name t \<noteq> []
          \<and> (\<exists>e. first_delta k prev = Some e \<and> td_id e = Some (ts_id t)) \<and> ts_arguments t = arguments_of k prev)
     \<and> (\<forall>k k' t t'. bt_get tools k = Some t \<longrightarrow> bt_get tools k' = Some t' \<longrightarrow> ts_id t = ts_id t' \<longrightarrow> k = k')"

abbreviation table_ids :: "('k, tool_call_state) btree \<Rightarrow> string set" where
  "table_ids tools \<equiv> ts_id ` snd ` set tools"

lemma arguments_of_snoc:
  "arguments_of k (prev @ [d]) = arguments_of k prev @ (if td_index d = k then or_default (td_arguments d) [] else [])"
  by (simp add: arguments_of_def)

lemma find_snoc: "find p (xs @ [x]) = (case find p xs of Some y \<Rightarrow> Some y | None \<Rightarrow> if p x then Some x else None)"
  by (induction xs) auto

lemma bt_get_set: "bt_inv tools \<Longrightarrow> (k, t) \<in> set tools \<longleftrightarrow> bt_get tools k = Some t"
proof -
  assume inv: "bt_inv tools"
  then have "distinct (map fst tools)" by (auto simp: bt_inv_def strict_sorted_iff)
  then show ?thesis by (simp add: bt_get_map_of)
qed

lemma table_ids_get: "bt_inv tools \<Longrightarrow> i \<in> table_ids tools \<longleftrightarrow> (\<exists>k t. bt_get tools k = Some t \<and> ts_id t = i)"
  by (force simp: bt_get_set [symmetric] image_iff)

lemma chat_table_inv: "chat_table prev tools \<Longrightarrow> bt_inv tools"
  by (simp add: chat_table_def)

lemma chat_table_get: "chat_table prev tools \<Longrightarrow> bt_get tools k = None \<longleftrightarrow> first_delta k prev = None"
  unfolding chat_table_def by blast

lemma chat_table_entry:
  assumes "chat_table prev tools" "bt_get tools k = Some t"
  obtains e where "ts_started t" "ts_id t \<noteq> []" "ts_name t \<noteq> []" "ts_arguments t = arguments_of k prev"
    "first_delta k prev = Some e" "td_id e = Some (ts_id t)"
  using assms unfolding chat_table_def by blast

lemma chat_table_inj:
  "chat_table prev tools \<Longrightarrow> bt_get tools k = Some t \<Longrightarrow> bt_get tools k' = Some t' \<Longrightarrow> ts_id t = ts_id t' \<Longrightarrow> k = k'"
  unfolding chat_table_def by blast

lemma chat_table_Nil: "chat_table [] []"
  by (simp add: chat_table_def)

lemma apply_tool_delta_first:
  assumes "first_delta (td_index d) prev = None" "chat_table prev tools" "deltas_ok prev [d]"
  obtains i n where "td_id d = Some i" "td_name d = Some n" "i \<noteq> []" "n \<noteq> []"
    "i \<notin> table_ids tools" "bt_get tools (td_index d) = None"
    "apply_tool_delta d tools =
       (ToolUseStarted i n # (if or_default (td_arguments d) [] = [] then [] else [ToolUsePart i (or_default (td_arguments d) [])]),
        bt_insert (td_index d) \<lparr>ts_id = i, ts_name = n, ts_arguments = or_default (td_arguments d) [], ts_started = True\<rparr> tools)"
proof -
  from assms(1,3) obtain i n where d: "td_id d = Some i" "td_name d = Some n" "i \<noteq> []" "n \<noteq> []"
    "list_all (\<lambda>e. td_id e \<noteq> Some i) prev"
    by (auto split: option.splits)
  have none: "bt_get tools (td_index d) = None" using assms(1,2) by (simp add: chat_table_get)
  have "i \<notin> table_ids tools"
  proof
    assume "i \<in> table_ids tools"
    then obtain k t where "bt_get tools k = Some t" "ts_id t = i"
      using assms(2) by (auto simp: chat_table_def table_ids_get simp del: image_eqI)
    with assms(2) obtain e where "first_delta k prev = Some e" "td_id e = Some i"
      unfolding chat_table_def by blast
    with d(5) show False by (auto simp: find_Some_iff list_all_length)
  qed
  with d none show thesis
    by (intro that [of i n]) (simp_all add: apply_tool_delta_def delta_entry_def or_default_def tool_blank_def Let_def)
qed

lemma apply_tool_delta_later:
  assumes "first_delta (td_index d) prev = Some e" "chat_table prev tools" "deltas_ok prev [d]"
  obtains t n where "bt_get tools (td_index d) = Some t" "n \<noteq> []"
    "apply_tool_delta d tools =
       (if or_default (td_arguments d) [] = [] then [] else [ToolUsePart (ts_id t) (or_default (td_arguments d) [])],
        bt_insert (td_index d)
          (t\<lparr>ts_name := n, ts_arguments := ts_arguments t @ or_default (td_arguments d) []\<rparr>) tools)"
proof -
  have "bt_get tools (td_index d) \<noteq> None" using assms(1,2) by (simp add: chat_table_get)
  then obtain t where t: "bt_get tools (td_index d) = Some t" by blast
  with assms(2) have started: "ts_started t" "ts_name t \<noteq> []" "td_id e = Some (ts_id t)"
    using assms(1) unfolding chat_table_def by (blast, blast, metis option.inject)
  have "td_id d = None \<or> td_id d = Some (ts_id t)" "td_name d \<noteq> Some []" using assms(1,3) started(3) by auto
  with t started show thesis
    by (intro that [of t "or_default (td_name d) (ts_name t)"])
      (auto simp: apply_tool_delta_def delta_entry_def or_default_def Let_def split: option.split)
qed

lemma table_ids_insert:
  assumes "bt_inv tools" "bt_get tools k = None"
  shows "table_ids (bt_insert k t tools) = insert (ts_id t) (table_ids tools)"
proof -
  have "i \<in> table_ids (bt_insert k t tools) \<longleftrightarrow> i \<in> insert (ts_id t) (table_ids tools)" for i
    unfolding table_ids_get [OF bt_inv_insert [OF assms(1)]] insert_iff table_ids_get [OF assms(1)]
    using assms(2) by (auto simp: bt_get_insert) (metis option.distinct(1))
  then show ?thesis by blast
qed

lemma table_ids_update:
  assumes "bt_inv tools" "bt_get tools k = Some t" "ts_id t' = ts_id t"
  shows "table_ids (bt_insert k t' tools) = table_ids tools"
proof -
  have "i \<in> table_ids (bt_insert k t' tools) \<longleftrightarrow> i \<in> table_ids tools" for i
    unfolding table_ids_get [OF bt_inv_insert [OF assms(1)]] table_ids_get [OF assms(1)]
    using assms(2,3) by (auto simp: bt_get_insert) (metis option.inject)
  then show ?thesis by blast
qed

lemma apply_tool_delta_ok:
  assumes table: "chat_table prev tools" and ok: "deltas_ok prev [d]"
    and run: "apply_tool_delta d tools = (es, tools')"
  shows "chat_table (prev @ [d]) tools' \<and> track (running (table_ids tools)) es = Some (running (table_ids tools'))
    \<and> no_end es"
proof (cases "first_delta (td_index d) prev")
  case None
  then obtain i n where d: "td_id d = Some i" "i \<noteq> []" "n \<noteq> []" "i \<notin> table_ids tools"
    "bt_get tools (td_index d) = None"
    and es: "es = ToolUseStarted i n #
      (if or_default (td_arguments d) [] = [] then [] else [ToolUsePart i (or_default (td_arguments d) [])])"
    and t': "tools' = bt_insert (td_index d)
      \<lparr>ts_id = i, ts_name = n, ts_arguments = or_default (td_arguments d) [], ts_started = True\<rparr> tools"
    using run by (elim apply_tool_delta_first [OF _ table ok]) auto
  have args: "arguments_of (td_index d) prev = []"
    using None by (auto simp: arguments_of_def find_None_iff filter_empty_conv)
  have other: "ts_id t \<noteq> i" if "bt_get tools k = Some t" for k t
    using d(4) that by (auto simp: table_ids_get [OF chat_table_inv [OF table]] simp del: image_eqI)
  have "chat_table (prev @ [d]) tools'"
    unfolding chat_table_def
  proof (intro conjI allI impI)
    show "bt_inv tools'" using bt_inv_insert [OF chat_table_inv [OF table]] t' by simp
  next
    fix k show "bt_get tools' k \<noteq> None \<longleftrightarrow> first_delta k (prev @ [d]) \<noteq> None"
      using chat_table_get [OF table, of k] None t' by (auto simp: bt_get_insert find_snoc split: option.split)
  next
    fix k t assume g: "bt_get tools' k = Some t"
    have "ts_started t \<and> ts_id t \<noteq> [] \<and> ts_name t \<noteq> [] \<and> ts_arguments t = arguments_of k (prev @ [d])
        \<and> (\<exists>e. first_delta k (prev @ [d]) = Some e \<and> td_id e = Some (ts_id t))"
    proof (cases "k = td_index d")
      case True
      with g d(1-3) None args show ?thesis by (auto simp: t' bt_get_insert find_snoc arguments_of_snoc)
    next
      case False
      with g have "bt_get tools k = Some t" by (simp add: t' bt_get_insert)
      then show ?thesis
        by (rule chat_table_entry [OF table]) (use False in \<open>simp add: find_snoc arguments_of_snoc\<close>)
    qed
    then show "ts_started t" "ts_id t \<noteq> []" "ts_name t \<noteq> []"
      "\<exists>e. first_delta k (prev @ [d]) = Some e \<and> td_id e = Some (ts_id t)"
      "ts_arguments t = arguments_of k (prev @ [d])" by auto
  next
    fix k k' t u assume g: "bt_get tools' k = Some t" "bt_get tools' k' = Some u" "ts_id t = ts_id u"
    have new: "ts_id v = i \<longleftrightarrow> j = td_index d" if "bt_get tools' j = Some v" for j v
      using that other [of j v] by (auto simp: t' bt_get_insert split: if_splits)
    have old: "bt_get tools j = Some v" if "bt_get tools' j = Some v" "ts_id v \<noteq> i" for j v
      using that by (auto simp: t' bt_get_insert split: if_splits)
    show "k = k'"
    proof (cases "ts_id t = i")
      case True
      with g new [OF g(1)] new [OF g(2)] show ?thesis by simp
    next
      case False
      from chat_table_inj [OF table old [OF g(1) False] old [OF g(2)] g(3)] False g(3) show ?thesis by simp
    qed
  qed
  moreover have "table_ids tools' = insert i (table_ids tools)"
    unfolding t' using table_ids_insert [OF chat_table_inv [OF table] d(5)] by simp
  ultimately show ?thesis using d(4) es by simp
next
  case (Some e)
  then obtain t n where t: "bt_get tools (td_index d) = Some t" "n \<noteq> []"
    and es: "es = (if or_default (td_arguments d) [] = [] then [] else [ToolUsePart (ts_id t) (or_default (td_arguments d) [])])"
    and t': "tools' = bt_insert (td_index d)
      (t\<lparr>ts_name := n, ts_arguments := ts_arguments t @ or_default (td_arguments d) []\<rparr>) tools"
    using run by (elim apply_tool_delta_later [OF _ table ok]) auto
  have ids: "table_ids tools' = table_ids tools"
    unfolding t' by (rule table_ids_update [OF chat_table_inv [OF table] t(1)]) simp
  have "ts_id t \<in> table_ids tools" using t(1) table_ids_get [OF chat_table_inv [OF table]] by blast
  then have "track (running (table_ids tools)) es = Some (running (table_ids tools))"
    using es by (simp add: insert_absorb)
  moreover have "chat_table (prev @ [d]) tools'"
    unfolding chat_table_def
  proof (intro conjI allI impI)
    show "bt_inv tools'" using bt_inv_insert [OF chat_table_inv [OF table]] t' by simp
  next
    fix k show "bt_get tools' k \<noteq> None \<longleftrightarrow> first_delta k (prev @ [d]) \<noteq> None"
      using chat_table_get [OF table, of k] Some t' by (auto simp: bt_get_insert find_snoc split: option.split)
  next
    fix k u assume g: "bt_get tools' k = Some u"
    have "ts_started u \<and> ts_id u \<noteq> [] \<and> ts_name u \<noteq> [] \<and> ts_arguments u = arguments_of k (prev @ [d])
        \<and> (\<exists>e. first_delta k (prev @ [d]) = Some e \<and> td_id e = Some (ts_id u))"
    proof (cases "k = td_index d")
      case True
      show ?thesis
        by (rule chat_table_entry [OF table t(1)])
          (use g True t(2) in \<open>auto simp: t' bt_get_insert find_snoc arguments_of_snoc\<close>)
    next
      case False
      with g have "bt_get tools k = Some u" by (simp add: t' bt_get_insert)
      then show ?thesis
        by (rule chat_table_entry [OF table]) (use False in \<open>simp add: find_snoc arguments_of_snoc\<close>)
    qed
    then show "ts_started u" "ts_id u \<noteq> []" "ts_name u \<noteq> []"
      "\<exists>e. first_delta k (prev @ [d]) = Some e \<and> td_id e = Some (ts_id u)"
      "ts_arguments u = arguments_of k (prev @ [d])" by auto
  next
    fix k k' v u assume "bt_get tools' k = Some v" "bt_get tools' k' = Some u" "ts_id v = ts_id u"
    then show "k = k'"
      using chat_table_inj [OF table, of k v k' u] chat_table_inj [OF table t(1), of k' u]
        chat_table_inj [OF table _ t(1), of k v] unfolding t'
      by (auto simp: bt_get_insert split: if_splits)
  qed
  ultimately show ?thesis using ids es by simp
qed

lemma deltas_ok_append: "deltas_ok prev (xs @ ys) \<longleftrightarrow> deltas_ok prev xs \<and> deltas_ok (prev @ xs) ys"
  by (induction xs arbitrary: prev) auto

lemma apply_tool_deltas_ok:
  "chat_table prev tools \<Longrightarrow> deltas_ok prev ds \<Longrightarrow> apply_tool_deltas ds tools = (es, tools') \<Longrightarrow>
   chat_table (prev @ ds) tools' \<and> track (running (table_ids tools)) es = Some (running (table_ids tools'))
   \<and> no_end es"
proof (induction ds arbitrary: prev tools es)
  case (Cons d ds)
  obtain es1 tools1 where first: "apply_tool_delta d tools = (es1, tools1)" by fastforce
  obtain es2 where rest: "apply_tool_deltas ds tools1 = (es2, tools')" "es = es1 @ es2"
    using Cons.prems(3) first by (auto split: prod.splits)
  have ok: "deltas_ok prev [d]" "deltas_ok (prev @ [d]) ds"
    using Cons.prems(2) by simp_all
  note one = apply_tool_delta_ok [OF Cons.prems(1) ok(1) first]
  from Cons.IH [OF conjunct1 [OF one] ok(2) rest(1)] one show ?case
    by (simp add: rest(2) track_append)
qed simp

text \<open>A response whose stream has not ended: its tools run, nothing else is open.\<close>

definition chat_open :: "tool_call_delta list \<Rightarrow> chat_decoder \<Rightarrow> bool" where
  "chat_open prev d \<longleftrightarrow> \<not> cd_ended d \<and> chat_table prev (cd_tool_calls d)"

abbreviation open_ids :: "chat_decoder \<Rightarrow> string set" where
  "open_ids d \<equiv> table_ids (cd_tool_calls d)"

lemma track_text: "track P (split_assistant_text c r) = Some P"
  by (auto simp: split_assistant_text_def decode_reasoning_part_def Let_def split: option.split)

definition choice_body :: "chunk_choice \<Rightarrow> chat_decoder \<Rightarrow> stream_event list \<times> chat_decoder" where
  "choice_body c d =
     (if ch_tool_calls c \<noteq> [] then
        (case apply_tool_deltas (ch_tool_calls c) (cd_tool_calls d) of (es, tools) \<Rightarrow> (es, d\<lparr>cd_tool_calls := tools\<rparr>))
      else (split_assistant_text (ch_content c) (ch_reasoning c), d))"

lemma choice_body_ok:
  assumes "chat_open prev d" "deltas_ok prev (ch_tool_calls c)" "choice_body c d = (es, d')"
  shows "chat_open (prev @ ch_tool_calls c) d' \<and> track (running (open_ids d)) es = Some (running (open_ids d')) \<and> no_end es"
proof (cases "ch_tool_calls c = []")
  case True
  with assms show ?thesis
    using assistant_text_no_end by (auto simp: choice_body_def track_text no_end_def)
next
  case False
  with assms show ?thesis
    using apply_tool_deltas_ok [of prev "cd_tool_calls d" "ch_tool_calls c"]
    by (auto simp: choice_body_def chat_open_def split: prod.splits)
qed

lemma chat_choices_open:
  assumes "chat_open prev d" "list_all (\<lambda>c. ch_finish_reason c = None) cs"
    and "deltas_ok prev (concat (map ch_tool_calls cs))"
  shows "\<exists>es d'. chat_choices jp u cs d = (Inr es, d') \<and> chat_open (prev @ concat (map ch_tool_calls cs)) d'
    \<and> track (running (open_ids d)) es = Some (running (open_ids d')) \<and> no_end es"
  using assms
proof (induction cs arbitrary: prev d)
  case (Cons c cs)
  obtain es1 d1 where body: "choice_body c d = (es1, d1)" by fastforce
  have ok: "deltas_ok prev (ch_tool_calls c)" "deltas_ok (prev @ ch_tool_calls c) (concat (map ch_tool_calls cs))"
    using Cons.prems(3) by (simp_all add: deltas_ok_append)
  note one = choice_body_ok [OF Cons.prems(1) ok(1) body]
  from Cons.IH [OF conjunct1 [OF one] _ ok(2)] Cons.prems(2)
  obtain es2 d2 where "chat_choices jp u cs d1 = (Inr es2, d2)"
    "chat_open (prev @ concat (map ch_tool_calls (c # cs))) d2"
    "track (running (open_ids d1)) es2 = Some (running (open_ids d2))" "no_end es2" by auto
  with one body Cons.prems(2) show ?case
    by (auto simp: choice_body_def [symmetric] track_append)
qed simp

lemma finish_tools_ok:
  "(\<And>k t. (k, t) \<in> set ts \<Longrightarrow> want t \<Longrightarrow> is_ok (parse_tool_input jp (ts_arguments t))) \<Longrightarrow>
   \<exists>es. finish_tools jp want ts = Inr es"
  by (induction jp want ts rule: finish_tools.induct) (force simp: is_ok_iff split: sum.split)+

lemma chat_table_wanted:
  assumes "chat_table prev tools"
  shows "distinct (wanted ts_started tools)" "set (wanted ts_started tools) = table_ids tools"
proof -
  have keys: "distinct (map fst tools)" using chat_table_inv [OF assms] by (auto simp: bt_inv_def strict_sorted_iff)
  have get: "(k, t) \<in> set tools \<longleftrightarrow> bt_get tools k = Some t" for k t
    by (rule bt_get_set [OF chat_table_inv [OF assms]])
  have "\<forall>p \<in> set tools. (ts_started \<circ> snd) p"
    using get assms unfolding chat_table_def by (auto simp del: not_None_eq)
  then have f: "filter (ts_started \<circ> snd) tools = tools" by (simp add: filter_id_conv)
  have "inj_on (ts_id \<circ> snd) (set tools)"
  proof (rule inj_onI)
    fix p q assume pq: "p \<in> set tools" "q \<in> set tools" "(ts_id \<circ> snd) p = (ts_id \<circ> snd) q"
    obtain k t k' t' where p: "p = (k, t)" "q = (k', t')" by (cases p, cases q)
    with pq get have "bt_get tools k = Some t" "bt_get tools k' = Some t'" "ts_id t = ts_id t'" by auto
    with chat_table_inj [OF assms] have "k = k'" by blast
    with p pq keys show "p = q" by (auto dest: eq_key_imp_eq_value)
  qed
  then show "distinct (wanted ts_started tools)"
    using keys f by (simp add: wanted_def distinct_map)
  show "set (wanted ts_started tools) = table_ids tools"
    using f by (simp add: wanted_def image_comp)
qed

lemma chat_finish_ok:
  assumes "chat_open prev d" and "reason = ''stop'' \<or> reason = ''tool_calls''"
    and "list_all (\<lambda>td. is_ok (parse_tool_input jp (arguments_of (td_index td) prev))) prev"
  shows "\<exists>es d' Q f. chat_finish jp reason u d = (Inr (es @ [f]), d') \<and> is_finish_event f \<and> no_end es \<and> cd_ended d'
    \<and> track (running (open_ids d)) es = Some Q \<and> (\<forall>i. Q i \<noteq> Running)"
proof -
  have table: "chat_table prev (cd_tool_calls d)" using assms(1) by (simp add: chat_open_def)
  have "is_ok (parse_tool_input jp (ts_arguments t))" if "(k, t) \<in> set (cd_tool_calls d)" for k t
  proof -
    have "bt_get (cd_tool_calls d) k = Some t" using that bt_get_set [OF chat_table_inv [OF table]] by blast
    then obtain e where "ts_arguments t = arguments_of k prev" "first_delta k prev = Some e"
      by (rule chat_table_entry [OF table])
    with assms(3) show ?thesis by (auto simp: find_Some_iff list_all_length)
  qed
  then obtain es where es: "finish_tools jp ts_started (cd_tool_calls d) = Inr es"
    using finish_tools_ok [of "cd_tool_calls d" ts_started jp] by blast
  have "track (running (open_ids d)) es = Some (\<lambda>i. if i \<in> open_ids d then Closed else running (open_ids d) i)"
    using track_finish_tools [OF es, of "running (open_ids d)"] chat_table_wanted [OF table] by simp
  moreover have "no_end es" using finish_tools_no_end [OF es] by (simp add: no_end_def)
  ultimately show ?thesis using assms(2) es
    by (auto simp: chat_finish_def Let_def running_def intro!: exI [of _ es])
qed

text \<open>A response in the documented form: one choice finishes, in the last chunk, normally.\<close>

definition chat_allowed :: "tool_call_delta list \<Rightarrow> chat_chunk \<Rightarrow> tool_call_delta list option" where
  "chat_allowed prev k =
     (let deltas = concat (map ch_tool_calls (ck_choices k)) in
      if list_all (\<lambda>c. ch_finish_reason c = None) (ck_choices k) \<and> deltas_ok prev deltas
      then Some (prev @ deltas) else None)"

definition chat_final :: "json_parser \<Rightarrow> tool_call_delta list \<Rightarrow> chat_chunk \<Rightarrow> bool" where
  "chat_final jp prev k =
     (case ck_choices k of
        [c] \<Rightarrow>
          (ch_finish_reason c = Some ''stop'' \<or> ch_finish_reason c = Some ''tool_calls'')
          \<and> deltas_ok prev (ch_tool_calls c)
          \<and> (let all = prev @ ch_tool_calls c in
             list_all (\<lambda>td. is_ok (parse_tool_input jp (arguments_of (td_index td) all))) all)
      | _ \<Rightarrow> False)"

definition chat_phase :: "tool_call_delta list \<Rightarrow> string \<Rightarrow> tool_phase" where
  "chat_phase prev = running {i. \<exists>k e. first_delta k prev = Some e \<and> td_id e = Some i}"

lemma chat_phase_open:
  assumes "chat_open prev d"
  shows "chat_phase prev = running (open_ids d)"
proof -
  have table: "chat_table prev (cd_tool_calls d)" using assms by (simp add: chat_open_def)
  have "(\<exists>k e. first_delta k prev = Some e \<and> td_id e = Some i) \<longleftrightarrow> i \<in> open_ids d" for i
  proof
    assume "\<exists>k e. first_delta k prev = Some e \<and> td_id e = Some i"
    then obtain k e where e: "first_delta k prev = Some e" "td_id e = Some i" by blast
    then obtain t where t: "bt_get (cd_tool_calls d) k = Some t"
      using chat_table_get [OF table, of k] by fastforce
    then have "ts_id t = i" by (rule chat_table_entry [OF table]) (use e in simp)
    with t show "i \<in> open_ids d" using table_ids_get [OF chat_table_inv [OF table]] by blast
  next
    assume "i \<in> open_ids d"
    then obtain k t where t: "bt_get (cd_tool_calls d) k = Some t" "ts_id t = i"
      using table_ids_get [OF chat_table_inv [OF table]] by blast
    from t(1) show "\<exists>k e. first_delta k prev = Some e \<and> td_id e = Some i"
      by (rule chat_table_entry [OF table]) (use t(2) in blast)
  qed
  then show ?thesis by (simp add: chat_phase_def)
qed

lemma chat_allowed_ok:
  assumes "chat_open prev d" "chat_allowed prev k = Some prev'"
  shows "\<exists>es d'. chat_decode_chunk jp d k = (Inr es, d') \<and> chat_open prev' d'
    \<and> track (chat_phase prev) es = Some (chat_phase prev') \<and> no_end es"
proof -
  have ok: "list_all (\<lambda>c. ch_finish_reason c = None) (ck_choices k)"
    "deltas_ok prev (concat (map ch_tool_calls (ck_choices k)))"
    "prev' = prev @ concat (map ch_tool_calls (ck_choices k))"
    using assms(2) by (auto simp: chat_allowed_def Let_def split: if_splits)
  from chat_choices_open [where jp = jp and u = "map_option chunk_usage_to_usage (ck_usage k)", OF assms(1) ok(1,2)]
  obtain es d' where "chat_decode_chunk jp d k = (Inr es, d')" "chat_open prev' d'"
    "track (running (open_ids d)) es = Some (running (open_ids d'))" "no_end es"
    using assms(1) ok(3) by (auto simp: chat_decode_chunk_def chat_open_def)
  then show ?thesis by (simp add: chat_phase_open [OF assms(1)] chat_phase_open [of prev' d'])
qed

lemma chat_final_ok:
  assumes "chat_open prev d" "chat_final jp prev k"
  shows "\<exists>es f d' Q. chat_decode_chunk jp d k = (Inr (es @ [f]), d') \<and> is_finish_event f \<and> no_end es
    \<and> track (chat_phase prev) es = Some Q \<and> (\<forall>i. Q i \<noteq> Running)"
proof -
  obtain c reason where c: "ck_choices k = [c]" "ch_finish_reason c = Some reason"
    "reason = ''stop'' \<or> reason = ''tool_calls''" "deltas_ok prev (ch_tool_calls c)"
    "list_all (\<lambda>td. is_ok (parse_tool_input jp (arguments_of (td_index td) (prev @ ch_tool_calls c)))) (prev @ ch_tool_calls c)"
    using assms(2) by (auto simp: chat_final_def Let_def split: list.splits)
  obtain es2 d2 where body: "choice_body c d = (es2, d2)" by fastforce
  note two = choice_body_ok [OF assms(1) c(4) body]
  obtain es3 d3 Q f where three: "chat_finish jp reason (map_option chunk_usage_to_usage (ck_usage k)) d2 = (Inr (es3 @ [f]), d3)"
    "is_finish_event f" "no_end es3" "track (running (open_ids d2)) es3 = Some Q" "\<forall>i. Q i \<noteq> Running"
    using chat_finish_ok [OF conjunct1 [OF two] c(3,5), of "map_option chunk_usage_to_usage (ck_usage k)"] by blast
  have "chat_decode_chunk jp d k = (Inr ((es2 @ es3) @ [f]), d3)"
    using assms(1) c(1,2) body three(1) by (simp add: chat_decode_chunk_def chat_open_def choice_body_def [symmetric])
  moreover have "track (chat_phase prev) (es2 @ es3) = Some Q"
    using two three(4) by (simp add: track_append chat_phase_open [OF assms(1)])
  ultimately show ?thesis using two three(2,3,5) by (metis no_end_simps(3))
qed

interpretation chat_contract: wire_contract "chat_decode_chunk jp" cd_ended chat_allowed "chat_final jp"
  chat_open chat_phase "[]" chat_decoder_new for jp
proof
  show "chat_open [] chat_decoder_new" by (simp add: chat_open_def chat_decoder_new_def chat_table_Nil)
  show "chat_phase [] = (\<lambda>_. Fresh)" by (simp add: chat_phase_def)
  show "\<not> cd_ended d" if "chat_open s d" for s d using that by (simp add: chat_open_def)
qed (fact chat_allowed_ok, fact chat_final_ok)

section \<open>OpenAI Responses\<close>

text \<open>
  The form the decoder expects: an added function call has a new id and a name; argument
  deltas and the end of the arguments name it by that id, the end brings the whole arguments;
  every call ends before \<open>response.completed\<close>. The state is the open and the closed ids.
\<close>

definition responses_allowed ::
  "responses_decode_config \<Rightarrow> json_parser \<Rightarrow> string list \<times> string list \<Rightarrow> responses_event \<Rightarrow>
   (string list \<times> string list) option" where
  "responses_allowed config jp s ev =
     (case s of (running_ids, closed_ids) \<Rightarrow>
        if re_type ev = rc_text_delta_event config then Some s
        else if re_type ev = ''response.output_item.added'' then
          (case re_item ev of
             None \<Rightarrow> Some s
           | Some item \<Rightarrow>
               if str_or_empty (json_get ''type'' item) \<noteq> ''function_call'' then Some s
               else
                 let i = item_call_id item in
                 if i = [] \<or> str_or_empty (json_get ''name'' item) = [] \<or> i \<in> set running_ids \<or> i \<in> set closed_ids
                 then None else Some (i # running_ids, closed_ids))
        else if re_type ev = ''response.function_call_arguments.delta'' then
          (case re_item_id ev of
             None \<Rightarrow> None
           | Some i \<Rightarrow> if i \<in> set running_ids then Some s else None)
        else if re_type ev = ''response.function_call_arguments.done'' then
          (case (re_item_id ev, re_arguments ev) of
             (Some i, Some args) \<Rightarrow>
               if i \<in> set running_ids \<and> is_ok (parse_tool_input jp args)
               then Some (removeAll i running_ids, i # closed_ids) else None
           | _ \<Rightarrow> None)
        else if re_type ev = ''response.completed'' \<or> re_type ev = ''response.failed'' \<or> re_type ev = ''error'' then None
        else Some s)"

definition responses_final :: "responses_decode_config \<Rightarrow> string list \<times> string list \<Rightarrow> responses_event \<Rightarrow> bool" where
  "responses_final config s ev \<longleftrightarrow>
     fst s = [] \<and> re_type ev = ''response.completed'' \<and> re_type ev \<noteq> rc_text_delta_event config
     \<and> re_response ev \<noteq> None"

definition responses_rel :: "responses_decode_config \<Rightarrow> string list \<times> string list \<Rightarrow> responses_decoder \<Rightarrow> bool" where
  "responses_rel config s d \<longleftrightarrow>
     \<not> rd_ended d \<and> rd_config d = config \<and> set (fst s) \<inter> set (snd s) = {}
     \<and> (\<forall>i. (case bt_get (rd_tool_calls d) i of
              None \<Rightarrow> i \<notin> set (fst s) \<and> i \<notin> set (snd s)
            | Some t \<Rightarrow> (i \<in> set (fst s) \<or> i \<in> set (snd s)) \<and> ts_id t = i \<and> ts_name t \<noteq> [] \<and> ts_started t))"

definition responses_phase :: "string list \<times> string list \<Rightarrow> string \<Rightarrow> tool_phase" where
  "responses_phase s i = (if i \<in> set (fst s) then Running else if i \<in> set (snd s) then Closed else Fresh)"

lemma responses_rel_get:
  assumes "responses_rel config s d" "i \<in> set (fst s)"
  obtains t where "bt_get (rd_tool_calls d) i = Some t" "ts_id t = i" "ts_name t \<noteq> []" "ts_started t"
proof -
  have "case bt_get (rd_tool_calls d) i of
              None \<Rightarrow> i \<notin> set (fst s) \<and> i \<notin> set (snd s)
            | Some t \<Rightarrow> (i \<in> set (fst s) \<or> i \<in> set (snd s)) \<and> ts_id t = i \<and> ts_name t \<noteq> [] \<and> ts_started t"
    using assms(1) unfolding responses_rel_def by blast
  with assms(2) that show thesis by (auto split: option.splits)
qed

lemma responses_rel_insert:
  assumes "responses_rel config s d" "ts_id t = i" "ts_name t \<noteq> []" "ts_started t"
    and "set (fst s') \<union> set (snd s') = insert i (set (fst s) \<union> set (snd s))" "set (fst s') \<inter> set (snd s') = {}"
  shows "responses_rel config s' (d\<lparr>rd_tool_calls := bt_insert i t (rd_tool_calls d)\<rparr>)"
  unfolding responses_rel_def
proof (intro conjI allI)
  show "\<not> rd_ended (d\<lparr>rd_tool_calls := bt_insert i t (rd_tool_calls d)\<rparr>)"
    "rd_config (d\<lparr>rd_tool_calls := bt_insert i t (rd_tool_calls d)\<rparr>) = config" "set (fst s') \<inter> set (snd s') = {}"
    using assms(1,6) by (simp_all add: responses_rel_def)
next
  fix j
  have "case bt_get (rd_tool_calls d) j of
              None \<Rightarrow> j \<notin> set (fst s) \<and> j \<notin> set (snd s)
            | Some t \<Rightarrow> (j \<in> set (fst s) \<or> j \<in> set (snd s)) \<and> ts_id t = j \<and> ts_name t \<noteq> [] \<and> ts_started t"
    using assms(1) unfolding responses_rel_def by blast
  moreover have "j \<in> set (fst s') \<or> j \<in> set (snd s') \<longleftrightarrow> j = i \<or> j \<in> set (fst s) \<or> j \<in> set (snd s)"
    using assms(5) by blast
  ultimately show "case bt_get (rd_tool_calls (d\<lparr>rd_tool_calls := bt_insert i t (rd_tool_calls d)\<rparr>)) j of
              None \<Rightarrow> j \<notin> set (fst s') \<and> j \<notin> set (snd s')
            | Some t \<Rightarrow> (j \<in> set (fst s') \<or> j \<in> set (snd s')) \<and> ts_id t = j \<and> ts_name t \<noteq> [] \<and> ts_started t"
    using assms(2-4) by (auto simp: bt_get_insert split: option.splits)
qed

lemma phase_open: "set R \<inter> set K = {} \<Longrightarrow> i \<in> set R \<Longrightarrow> responses_phase (R, K) i = Running"
  by (simp add: responses_phase_def)

lemma responses_allowed_ok:
  assumes rel: "responses_rel config s d" and ok: "responses_allowed config jp s ev = Some s'"
  shows "\<exists>es d'. responses_decode_event jp d ev = (Inr es, d') \<and> responses_rel config s' d'
    \<and> track (responses_phase s) es = Some (responses_phase s') \<and> no_end es"
proof -
  obtain R K where s: "s = (R, K)" by (cases s)
  have d: "\<not> rd_ended d" "rd_config d = config" "set R \<inter> set K = {}" using rel s by (simp_all add: responses_rel_def)
  consider (text_delta) "re_type ev = rc_text_delta_event config"
    | (added) "re_type ev \<noteq> rc_text_delta_event config" "re_type ev = ''response.output_item.added''"
    | (delta) "re_type ev \<noteq> rc_text_delta_event config" "re_type ev = ''response.function_call_arguments.delta''"
    | (end_args) "re_type ev \<noteq> rc_text_delta_event config" "re_type ev = ''response.function_call_arguments.done''"
    | (other) "re_type ev \<noteq> rc_text_delta_event config"
        "re_type ev \<notin> {''response.output_item.added'', ''response.function_call_arguments.delta'',
           ''response.function_call_arguments.done''}" by blast
  then show ?thesis
  proof cases
    case text_delta
    with ok rel d s show ?thesis
      by (auto simp: responses_decode_event_def responses_allowed_def split: option.split)
  next
    case added
    show ?thesis
    proof (cases "\<exists>item. re_item ev = Some item \<and> str_or_empty (json_get ''type'' item) = ''function_call''")
      case False
      with added ok rel d s show ?thesis
        by (auto simp: responses_decode_event_def responses_allowed_def handle_output_item_added_def split: option.splits)
    next
      case True
      then obtain item where item: "re_item ev = Some item" "str_or_empty (json_get ''type'' item) = ''function_call''" by blast
      let ?i = "item_call_id item" and ?n = "str_or_empty (json_get ''name'' item)"
      have new: "?i \<noteq> []" "?n \<noteq> []" "?i \<notin> set R" "?i \<notin> set K" "s' = (?i # R, K)"
        using ok added item s by (auto simp: responses_allowed_def Let_def split: if_splits)
      let ?d = "d\<lparr>rd_tool_calls := bt_insert ?i \<lparr>ts_id = ?i, ts_name = ?n, ts_arguments = [], ts_started = True\<rparr> (rd_tool_calls d)\<rparr>"
      have "responses_decode_event jp d ev = (Inr [ToolUseStarted ?i ?n], ?d)"
        using added item new d by (simp add: responses_decode_event_def handle_output_item_added_def Let_def)
      moreover have "responses_rel config s' ?d"
        by (rule responses_rel_insert [OF rel]) (use new d s in auto)
      moreover have "track (responses_phase s) [ToolUseStarted ?i ?n] = Some (responses_phase s')"
        using new s by (auto simp: responses_phase_def fun_eq_iff)
      ultimately show ?thesis by (intro exI conjI) auto
    qed
  next
    case delta
    then obtain i where i: "re_item_id ev = Some i" "i \<in> set R" "s' = s"
      using ok s by (auto simp: responses_allowed_def split: option.splits if_splits)
    obtain t where t: "bt_get (rd_tool_calls d) i = Some t" "ts_id t = i" "ts_name t \<noteq> []" "ts_started t"
      by (rule responses_rel_get [OF rel]) (use i s in auto)
    show ?thesis
    proof (cases "re_delta ev = None \<or> re_delta ev = Some []")
      case True
      with delta i d rel show ?thesis
        by (auto simp: responses_decode_event_def handle_function_arguments_delta_def split: option.split)
    next
      case False
      then obtain args where args: "re_delta ev = Some args" "args \<noteq> []" by auto
      let ?d = "d\<lparr>rd_tool_calls := bt_insert i (t\<lparr>ts_arguments := ts_arguments t @ args\<rparr>) (rd_tool_calls d)\<rparr>"
      have "responses_decode_event jp d ev = (Inr [ToolUsePart i args], ?d)"
        using delta args i(1) t d by (simp add: responses_decode_event_def handle_function_arguments_delta_def or_default_def Let_def)
      moreover have "responses_rel config s' ?d"
        by (rule responses_rel_insert [OF rel]) (use t i d s in auto)
      moreover have "track (responses_phase s) [ToolUsePart i args] = Some (responses_phase s')"
        using i s by (auto simp: responses_phase_def fun_eq_iff)
      ultimately show ?thesis by (intro exI conjI) auto
    qed
  next
    case end_args
    then obtain i args v where i: "re_item_id ev = Some i" "i \<in> set R" "re_arguments ev = Some args"
      "parse_tool_input jp args = Inr v" "s' = (removeAll i R, i # K)"
      using ok s by (auto simp: responses_allowed_def is_ok_iff split: option.splits if_splits)
    obtain t where t: "bt_get (rd_tool_calls d) i = Some t" "ts_id t = i" "ts_name t \<noteq> []" "ts_started t"
      by (rule responses_rel_get [OF rel]) (use i s in auto)
    let ?d = "d\<lparr>rd_tool_calls := bt_insert i (t\<lparr>ts_arguments := args, ts_started := True\<rparr>) (rd_tool_calls d)\<rparr>"
    have "responses_decode_event jp d ev = (Inr [ToolUseFinished i (ts_name t) v], ?d)"
      using end_args i t d by (simp add: responses_decode_event_def handle_function_arguments_done_def or_default_def Let_def)
    moreover have "responses_rel config s' ?d"
      by (rule responses_rel_insert [OF rel]) (use t i d s in auto)
    moreover have "track (responses_phase s) [ToolUseFinished i (ts_name t) v] = Some (responses_phase s')"
      using i s by (auto simp: responses_phase_def fun_eq_iff)
    ultimately show ?thesis by (intro exI conjI) auto
  next
    case other
    with ok s have s': "s' = s" "re_type ev \<notin> {''response.completed'', ''response.failed'', ''error''}"
      by (auto simp: responses_allowed_def split: if_splits)
    have "responses_rel config s (d\<lparr>rd_had_reasoning := True\<rparr>)" using rel by (simp add: responses_rel_def)
    with other s' rel d show ?thesis
      by (auto simp: responses_decode_event_def split: option.split)
  qed
qed

interpretation responses_contract: wire_contract "responses_decode_event jp" rd_ended "responses_allowed config jp"
  "responses_final config" "responses_rel config" responses_phase "([], [])" "responses_with_config config" for jp config
proof
  show "responses_rel config ([], []) (responses_with_config config)"
    by (simp add: responses_rel_def responses_with_config_def)
  show "responses_phase ([], []) = (\<lambda>_. Fresh)" by (simp add: responses_phase_def fun_eq_iff)
  show "\<not> rd_ended d" if "responses_rel config s d" for s d using that by (simp add: responses_rel_def)
  show "\<exists>es f d' Q. responses_decode_event jp d w = (Inr (es @ [f]), d') \<and> is_finish_event f \<and> no_end es
      \<and> track (responses_phase s) es = Some Q \<and> (\<forall>i. Q i \<noteq> Running)"
    if "responses_rel config s d" "responses_final config s w" for s d w
  proof -
    note w = that
    obtain r where "re_response w = Some r" using w(2) by (auto simp: responses_final_def)
    with w show ?thesis
      by (intro exI [of _ "[]"])
        (auto simp: responses_final_def responses_rel_def responses_decode_event_def responses_phase_def)
  qed
qed (fact responses_allowed_ok)

section \<open>Anthropic Messages\<close>

lemma list_all2_bt_insert:
  "list_all2 (\<lambda>(k, v) (k', v'). k = k' \<and> P v v') m m' \<Longrightarrow> P v v' \<Longrightarrow>
   list_all2 (\<lambda>(k, v) (k', v'). k = k' \<and> P v v') (bt_insert k v m) (bt_insert k v' m')"
proof (induction m arbitrary: m')
  case (Cons p m)
  then show ?case by (cases p; cases m') auto
qed simp

lemma list_all2_bt_get:
  "list_all2 (\<lambda>(k, v) (k', v'). k = k' \<and> P v v') m m' \<Longrightarrow> rel_option P (bt_get m k) (bt_get m' k)"
proof (induction m arbitrary: m')
  case (Cons p m)
  then show ?case by (cases p; cases m') auto
qed simp

lemma map_bt_insert_update:
  "bt_get m k = Some v \<Longrightarrow> bt_inv m \<Longrightarrow> f v' = f v \<Longrightarrow> map (\<lambda>p. f (snd p)) (bt_insert k v' m) = map (\<lambda>p. f (snd p)) m"
proof (induction m)
  case (Cons p m)
  obtain k1 v1 where p: "p = (k1, v1)" by (cases p)
  show ?case
  proof (cases "k = k1")
    case False
    with Cons.prems p have "bt_get m k = Some v" by simp
    then have "k \<in> fst ` set m" by (auto simp: bt_get_map_of dest: map_of_SomeD intro: rev_image_eqI)
    with Cons.prems p have "\<not> k < k1" by auto
    with Cons p False show ?thesis by simp
  qed (use Cons.prems p in auto)
qed simp

text \<open>
  The documented form: a tool block starts under a fresh index with a new id and a name, its
  arguments come under that index, and at \<open>message_stop\<close> every tool has some arguments. The
  state is the id and the arguments so far of each index.
\<close>

type_synonym block_args = "(u32, string \<times> string) btree"

abbreviation block_ids :: "block_args \<Rightarrow> string list" where
  "block_ids S \<equiv> map (\<lambda>p. fst (snd p)) S"

definition anthropic_allowed :: "block_args \<Rightarrow> anthropic_event \<Rightarrow> block_args option" where
  "anthropic_allowed S ev =
     (let index = or_default (ae_index ev) 0 in
      if ae_type ev = ''content_block_start'' then
        (case ae_block ev of
           None \<Rightarrow> Some S
         | Some block \<Rightarrow>
             if ab_type block \<noteq> ''tool_use'' then Some S
             else
               let i = or_default (ab_id block) [] in
               if i = [] \<or> or_default (ab_name block) [] = [] \<or> bt_get S index \<noteq> None \<or> i \<in> set (block_ids S)
               then None else Some (bt_insert index (i, []) S))
      else if ae_type ev = ''content_block_delta'' then
        (case ae_delta ev of
           None \<Rightarrow> Some S
         | Some delta \<Rightarrow>
             let partial = or_default (ad_partial_json delta) [] in
             if or_default (ad_type delta) [] = ''input_json_delta'' \<and> partial \<noteq> [] then
               (case bt_get S index of
                  None \<Rightarrow> None
                | Some (i, args) \<Rightarrow> Some (bt_insert index (i, args @ partial) S))
             else Some S)
      else if ae_type ev = ''message_stop'' \<or> ae_type ev = ''error'' then None
      else Some S)"

definition anthropic_final :: "json_parser \<Rightarrow> block_args \<Rightarrow> anthropic_event \<Rightarrow> bool" where
  "anthropic_final jp S ev \<longleftrightarrow>
     ae_type ev = ''message_stop'' \<and> list_all (\<lambda>(k, i, args). args \<noteq> [] \<and> is_ok (parse_tool_input jp args)) S"

abbreviation block_state :: "string \<times> string \<Rightarrow> tool_call_state \<Rightarrow> bool" where
  "block_state ia t \<equiv> ts_id t = fst ia \<and> ts_id t \<noteq> [] \<and> ts_arguments t = snd ia \<and> ts_started t"

definition anthropic_rel :: "block_args \<Rightarrow> anthropic_decoder \<Rightarrow> bool" where
  "anthropic_rel S d \<longleftrightarrow> \<not> an_ended d \<and> bt_inv S \<and> distinct (block_ids S)
     \<and> list_all2 (\<lambda>(k, v) (k', v'). k = k' \<and> block_state v v') S (an_tool_blocks d)"

definition anthropic_phase :: "block_args \<Rightarrow> string \<Rightarrow> tool_phase" where
  "anthropic_phase S = running (set (block_ids S))"

lemma anthropic_start_ok:
  assumes rel: "anthropic_rel S d" and new: "i \<noteq> []" "bt_get S k = None" "i \<notin> set (block_ids S)"
  shows "anthropic_rel (bt_insert k (i, []) S)
      (d\<lparr>an_tool_blocks := bt_insert k \<lparr>ts_id = i, ts_name = n, ts_arguments = [], ts_started = True\<rparr> (an_tool_blocks d)\<rparr>)"
    and "track (anthropic_phase S) [ToolUseStarted i n] = Some (anthropic_phase (bt_insert k (i, []) S))"
proof -
  have "mset (bt_insert k (i, []) S) = add_mset (k, (i, [])) (mset S)" using new(2) by (rule mset_bt_insert)
  then have ids: "mset (block_ids (bt_insert k (i, []) S)) = add_mset i (mset (block_ids S))"
    by (metis (no_types, lifting) fst_conv image_mset_add_mset mset_map snd_conv)
  then have "distinct (block_ids (bt_insert k (i, []) S)) \<longleftrightarrow> distinct (i # block_ids S)"
    by (metis distinct_count_atmost_1 mset.simps(2) set_mset_mset)
  with rel new show "anthropic_rel (bt_insert k (i, []) S)
      (d\<lparr>an_tool_blocks := bt_insert k \<lparr>ts_id = i, ts_name = n, ts_arguments = [], ts_started = True\<rparr> (an_tool_blocks d)\<rparr>)"
    unfolding anthropic_rel_def by (auto intro!: bt_inv_insert list_all2_bt_insert)
  have "set (block_ids (bt_insert k (i, []) S)) = insert i (set (block_ids S))"
    using ids by (metis set_mset_add_mset_insert set_mset_mset)
  with new show "track (anthropic_phase S) [ToolUseStarted i n] = Some (anthropic_phase (bt_insert k (i, []) S))"
    by (simp add: anthropic_phase_def del: set_map)
qed

lemma anthropic_part_ok:
  assumes rel: "anthropic_rel S d" and S: "bt_get S k = Some (i, args)"
  obtains t where "bt_get (an_tool_blocks d) k = Some t" "ts_id t = i" "ts_id t \<noteq> []" "ts_started t"
    "anthropic_rel (bt_insert k (i, args @ partial) S)
      (d\<lparr>an_tool_blocks := bt_insert k (t\<lparr>ts_arguments := ts_arguments t @ partial\<rparr>) (an_tool_blocks d)\<rparr>)"
    "track (anthropic_phase S) [ToolUsePart i partial] = Some (anthropic_phase (bt_insert k (i, args @ partial) S))"
proof -
  have inv: "bt_inv S" and dist: "distinct (block_ids S)"
    and all: "list_all2 (\<lambda>(k, v) (k', v'). k = k' \<and> block_state v v') S (an_tool_blocks d)"
    using rel by (simp_all add: anthropic_rel_def)
  obtain t where t: "bt_get (an_tool_blocks d) k = Some t" "block_state (i, args) t"
    using list_all2_bt_get [OF all, of k] S by (auto simp: option_rel_Some1)
  have ids: "block_ids (bt_insert k (i, args @ partial) S) = block_ids S"
    by (rule map_bt_insert_update [where f = fst, OF S inv]) simp
  have "anthropic_rel (bt_insert k (i, args @ partial) S)
      (d\<lparr>an_tool_blocks := bt_insert k (t\<lparr>ts_arguments := ts_arguments t @ partial\<rparr>) (an_tool_blocks d)\<rparr>)"
    unfolding anthropic_rel_def ids
    using rel t(2) by (auto simp: anthropic_rel_def intro!: bt_inv_insert list_all2_bt_insert [OF all])
  moreover have "i \<in> set (block_ids S)"
    using S by (auto simp: bt_get_map_of dest: map_of_SomeD intro: rev_image_eqI)
  then have "track (anthropic_phase S) [ToolUsePart i partial] = Some (anthropic_phase (bt_insert k (i, args @ partial) S))"
    unfolding anthropic_phase_def ids by (simp add: insert_absorb del: set_map)
  moreover have "i \<noteq> []" using t(2) by auto
  ultimately show thesis using t by (intro that [of t]) simp_all
qed

lemma anthropic_allowed_ok:
  assumes rel: "anthropic_rel S d" and ok: "anthropic_allowed S ev = Some S'"
  shows "\<exists>es d'. anthropic_decode_event jp d ev = (Inr es, d') \<and> anthropic_rel S' d'
    \<and> track (anthropic_phase S) es = Some (anthropic_phase S') \<and> no_end es"
proof -
  have open_d: "\<not> an_ended d" using rel by (simp add: anthropic_rel_def)
  let ?k = "or_default (ae_index ev) 0"
  consider (start) "ae_type ev = ''content_block_start''" | (delta) "ae_type ev = ''content_block_delta''"
    | (other) "ae_type ev \<notin> {''content_block_start'', ''content_block_delta''}" by blast
  then show ?thesis
  proof cases
    case start
    show ?thesis
    proof (cases "\<exists>b. ae_block ev = Some b \<and> ab_type b = ''tool_use''")
      case False
      with start ok rel open_d show ?thesis
        by (auto simp: anthropic_decode_event_def anthropic_allowed_def anthropic_block_start_def Let_def split: option.splits)
    next
      case True
      then obtain b where b: "ae_block ev = Some b" "ab_type b = ''tool_use''" by blast
      let ?i = "or_default (ab_id b) []" and ?n = "or_default (ab_name b) []"
      have new: "?i \<noteq> []" "?n \<noteq> []" "bt_get S ?k = None" "?i \<notin> set (block_ids S)" "S' = bt_insert ?k (?i, []) S"
        using start ok b by (auto simp: anthropic_allowed_def Let_def simp del: set_map not_None_eq split: if_splits)
      have "anthropic_decode_event jp d ev = (Inr [ToolUseStarted ?i ?n],
          d\<lparr>an_tool_blocks := bt_insert ?k \<lparr>ts_id = ?i, ts_name = ?n, ts_arguments = [], ts_started = True\<rparr> (an_tool_blocks d)\<rparr>)"
        using start b new(1,2) open_d by (simp add: anthropic_decode_event_def anthropic_block_start_def Let_def)
      with anthropic_start_ok [OF rel new(1,3,4)] new(5) show ?thesis by (intro exI conjI) auto
    qed
  next
    case delta
    show ?thesis
    proof (cases "\<exists>dl. ae_delta ev = Some dl \<and> or_default (ad_type dl) [] = ''input_json_delta'' \<and> or_default (ad_partial_json dl) [] \<noteq> []")
      case False
      with delta ok rel open_d show ?thesis
        by (auto simp: anthropic_decode_event_def anthropic_allowed_def handle_content_block_delta_def Let_def split: option.splits)
    next
      case True
      then obtain dl where dl: "ae_delta ev = Some dl" "or_default (ad_type dl) [] = ''input_json_delta''"
        "or_default (ad_partial_json dl) [] \<noteq> []" by blast
      let ?partial = "or_default (ad_partial_json dl) []"
      obtain i args where S: "bt_get S ?k = Some (i, args)" "S' = bt_insert ?k (i, args @ ?partial) S"
        using delta ok dl by (auto simp: anthropic_allowed_def Let_def split: option.splits)
      obtain t where t: "bt_get (an_tool_blocks d) ?k = Some t" "ts_id t = i" "ts_id t \<noteq> []" "ts_started t"
        "anthropic_rel (bt_insert ?k (i, args @ ?partial) S)
          (d\<lparr>an_tool_blocks := bt_insert ?k (t\<lparr>ts_arguments := ts_arguments t @ ?partial\<rparr>) (an_tool_blocks d)\<rparr>)"
        "track (anthropic_phase S) [ToolUsePart i ?partial] = Some (anthropic_phase (bt_insert ?k (i, args @ ?partial) S))"
        by (rule anthropic_part_ok [OF rel S(1), of ?partial]) blast
      have "anthropic_decode_event jp d ev = (Inr [ToolUsePart i ?partial],
          d\<lparr>an_tool_blocks := bt_insert ?k (t\<lparr>ts_arguments := ts_arguments t @ ?partial\<rparr>) (an_tool_blocks d)\<rparr>)"
        using delta dl t(1-4) open_d
        by (simp add: anthropic_decode_event_def handle_content_block_delta_def or_default_def [of "Some t"] Let_def)
      with t(5,6) S(2) show ?thesis by (intro exI conjI) auto
    qed
  next
    case other
    with ok have S': "S' = S" "ae_type ev \<notin> {''message_stop'', ''error''}"
      by (auto simp: anthropic_allowed_def Let_def split: if_splits)
    have "anthropic_rel S (anthropic_message_delta ev d)"
      using rel by (auto simp: anthropic_message_delta_def anthropic_rel_def Let_def split: option.split)
    with other S' rel open_d show ?thesis by (auto simp: anthropic_decode_event_def)
  qed
qed

lemma wanted_blocks:
  assumes "list_all2 (\<lambda>(k, v) (k', v'). k = k' \<and> block_state v v') S ts"
    and "list_all (\<lambda>(k, i, args). args \<noteq> [] \<and> is_ok (parse_tool_input jp args)) S"
  shows "wanted (\<lambda>t. ts_started t \<and> ts_arguments t \<noteq> []) ts = block_ids S
    \<and> (\<forall>p \<in> set ts. is_ok (parse_tool_input jp (ts_arguments (snd p))))"
  using assms
proof (induction S arbitrary: ts)
  case (Cons p S)
  then obtain k t ts' where "ts = (k, t) # ts'" by (cases ts) auto
  with Cons show ?case by auto
qed simp

lemma anthropic_final_ok:
  assumes rel: "anthropic_rel S d" and fin: "anthropic_final jp S ev"
  shows "\<exists>es f d' Q. anthropic_decode_event jp d ev = (Inr (es @ [f]), d') \<and> is_finish_event f \<and> no_end es
    \<and> track (anthropic_phase S) es = Some Q \<and> (\<forall>i. Q i \<noteq> Running)"
proof -
  let ?want = "\<lambda>t. ts_started t \<and> ts_arguments t \<noteq> []" and ?ts = "an_tool_blocks d"
  have all: "list_all2 (\<lambda>(k, v) (k', v'). k = k' \<and> block_state v v') S ?ts" using rel by (simp add: anthropic_rel_def)
  have args: "list_all (\<lambda>(k, i, args). args \<noteq> [] \<and> is_ok (parse_tool_input jp args)) S"
    using fin by (simp add: anthropic_final_def)
  note wanted = wanted_blocks [OF all args]
  obtain es where es: "finish_tools jp ?want ?ts = Inr es"
    using finish_tools_ok [of ?ts ?want jp] wanted by fastforce
  have "track (anthropic_phase S) es = Some (\<lambda>i. if i \<in> set (block_ids S) then Closed else anthropic_phase S i)"
    using track_finish_tools [OF es, of "anthropic_phase S"] wanted rel
    by (simp add: anthropic_phase_def anthropic_rel_def del: set_map)
  moreover have "no_end es" using finish_tools_no_end [OF es] by (simp add: no_end_def)
  ultimately show ?thesis using fin rel es
    by (auto simp: anthropic_final_def anthropic_rel_def anthropic_decode_event_def anthropic_message_stop_def
        anthropic_phase_def running_def intro!: exI [of _ es])
qed

interpretation anthropic_contract: wire_contract "anthropic_decode_event jp" an_ended anthropic_allowed
  "anthropic_final jp" anthropic_rel anthropic_phase "[]" anthropic_decoder_new for jp
proof
  show "anthropic_rel [] anthropic_decoder_new" by (simp add: anthropic_rel_def anthropic_decoder_new_def)
  show "anthropic_phase [] = (\<lambda>_. Fresh)" by (simp add: anthropic_phase_def)
  show "\<not> an_ended d" if "anthropic_rel S d" for S d using that by (simp add: anthropic_rel_def)
qed (fact anthropic_allowed_ok, fact anthropic_final_ok)

section \<open>Google Generative AI\<close>

text \<open>
  One candidate finishes, in the last chunk, with a known reason; no function is called twice,
  because the decoder makes the id of a call from the function's name.
\<close>

definition part_ids :: "gemini_part list \<Rightarrow> string list" where
  "part_ids parts =
     concat (map (\<lambda>p. case gp_function_call p of None \<Rightarrow> [] | Some call \<Rightarrow> [''call_'' @ gc_name call]) parts)"

definition candidate_ids :: "gemini_candidate \<Rightarrow> string list" where
  "candidate_ids c = (case gd_content c of None \<Rightarrow> [] | Some parts \<Rightarrow> part_ids parts)"

definition stop_known :: "gemini_candidate \<Rightarrow> bool" where
  "stop_known c \<longleftrightarrow> or_default (gd_finish_reason c) [] \<in> {''STOP'', ''MAX_TOKENS''}"

definition gemini_allowed :: "string list \<Rightarrow> gemini_chunk \<Rightarrow> string list option" where
  "gemini_allowed ids k =
     (let ids' = ids @ concat (map candidate_ids (gk_candidates k)) in
      if list_all (\<lambda>c. \<not> stop_known c) (gk_candidates k) \<and> distinct ids' then Some ids' else None)"

definition gemini_final :: "string list \<Rightarrow> gemini_chunk \<Rightarrow> bool" where
  "gemini_final ids k =
     (case gk_candidates k of [c] \<Rightarrow> stop_known c \<and> distinct (ids @ candidate_ids c) | _ \<Rightarrow> False)"

definition closed :: "string list \<Rightarrow> string \<Rightarrow> tool_phase" where
  "closed ids i = (if i \<in> set ids then Closed else Fresh)"

lemma track_gemini_parts:
  "distinct (ids @ part_ids parts) \<Longrightarrow>
   track (closed ids) (concat (map gemini_part_events parts)) = Some (closed (ids @ part_ids parts))
   \<and> no_end (concat (map gemini_part_events parts))"
proof (induction parts arbitrary: ids)
  case Nil
  then show ?case by (simp add: part_ids_def)
next
  case (Cons p parts)
  let ?new = "case gp_function_call p of None \<Rightarrow> [] | Some call \<Rightarrow> [''call_'' @ gc_name call]"
  have ids: "part_ids (p # parts) = ?new @ part_ids parts" by (simp add: part_ids_def)
  have "track (closed ids) (gemini_part_events p) = Some (closed (ids @ ?new)) \<and> no_end (gemini_part_events p)"
    using Cons.prems unfolding ids
    by (cases "gp_function_call p") (auto simp: gemini_part_events_def Let_def closed_def fun_eq_iff)
  moreover have "track (closed (ids @ ?new)) (concat (map gemini_part_events parts)) = Some (closed ((ids @ ?new) @ part_ids parts))
      \<and> no_end (concat (map gemini_part_events parts))"
    by (rule Cons.IH) (use Cons.prems ids in simp)
  ultimately show ?case by (simp add: track_append ids)
qed

definition candidate_events :: "gemini_candidate \<Rightarrow> stream_event list" where
  "candidate_events c = (case gd_content c of None \<Rightarrow> [] | Some parts \<Rightarrow> concat (map gemini_part_events parts))"

lemma track_candidate:
  "distinct (ids @ candidate_ids c) \<Longrightarrow>
   track (closed ids) (candidate_events c) = Some (closed (ids @ candidate_ids c)) \<and> no_end (candidate_events c)"
  using track_gemini_parts [of ids] by (auto simp: candidate_ids_def candidate_events_def split: option.splits)

lemma gemini_candidates_open:
  "list_all (\<lambda>c. \<not> stop_known c) cs \<Longrightarrow> distinct (ids @ concat (map candidate_ids cs)) \<Longrightarrow>
   \<exists>es. gemini_candidates cs d = (es, d) \<and> track (closed ids) es = Some (closed (ids @ concat (map candidate_ids cs)))
     \<and> no_end es"
proof (induction cs arbitrary: ids)
  case (Cons c cs)
  obtain es where es: "gemini_candidates cs d = (es, d)"
    "track (closed (ids @ candidate_ids c)) es = Some (closed (ids @ concat (map candidate_ids (c # cs))))" "no_end es"
    using Cons.IH [of "ids @ candidate_ids c"] Cons.prems by auto
  have dist: "distinct (ids @ candidate_ids c)" using Cons.prems(2) by auto
  have "gemini_candidates (c # cs) d = (candidate_events c @ es, d)"
    using Cons.prems(1) es(1) by (simp add: stop_known_def candidate_events_def Let_def)
  moreover have "track (closed ids) (candidate_events c) = Some (closed (ids @ candidate_ids c))" "no_end (candidate_events c)"
    using track_candidate [OF dist] by simp_all
  ultimately show ?case using es(2,3) by (simp add: track_append)
qed simp

interpretation gemini_contract: wire_contract gemini_decode_chunk gm_ended gemini_allowed gemini_final
  "\<lambda>_ d. \<not> gm_ended d" closed "[]" gemini_decoder_new
proof
  show "\<not> gm_ended gemini_decoder_new" by (simp add: gemini_decoder_new_def)
  show "closed [] = (\<lambda>_. Fresh)" by (simp add: closed_def fun_eq_iff)
  show "\<exists>es d'. gemini_decode_chunk d w = (Inr es, d') \<and> \<not> gm_ended d' \<and> track (closed s) es = Some (closed s') \<and> no_end es"
    if "\<not> gm_ended d" "gemini_allowed s w = Some s'" for s d w s'
  proof -
    let ?d = "case gk_usage w of None \<Rightarrow> d | Some u \<Rightarrow> d\<lparr>gm_usage := Some (usage_of u)\<rparr>"
    have "list_all (\<lambda>c. \<not> stop_known c) (gk_candidates w)" "s' = s @ concat (map candidate_ids (gk_candidates w))"
      "distinct (s @ concat (map candidate_ids (gk_candidates w)))"
      using that(2) by (auto simp: gemini_allowed_def Let_def split: if_splits)
    with gemini_candidates_open [of "gk_candidates w" s ?d] that(1) show ?thesis
      by (auto simp: gemini_decode_chunk_def Let_def split: option.split)
  qed
  show "\<exists>es f d' Q. gemini_decode_chunk d w = (Inr (es @ [f]), d') \<and> is_finish_event f \<and> no_end es
      \<and> track (closed s) es = Some Q \<and> (\<forall>i. Q i \<noteq> Running)"
    if "\<not> gm_ended d" "gemini_final s w" for s d w
  proof -
    note w = that
    obtain c where c: "gk_candidates w = [c]" "stop_known c" "distinct (s @ candidate_ids c)"
      using w(2) by (auto simp: gemini_final_def split: list.splits)
    have "\<exists>f d'. gemini_decode_chunk d w = (Inr (candidate_events c @ [f]), d') \<and> is_finish_event f"
      using c(1,2) w(1) by (auto simp: gemini_decode_chunk_def stop_known_def candidate_events_def Let_def)
    with track_candidate [OF c(3)] show ?thesis by (auto simp: closed_def)
  qed
qed (fact refl | simp)+

end
