(* ===== verification/Stream_Properties.thy ===== *)
theory Stream_Properties
  imports Stream_Contracts Turn_Control
begin

text \<open>
  The provider streams as a whole: through every adapter a stream settles, documented streams
  are accepted by the response builder, and which tool calls are refused on the way to the
  agent loop.
\<close>

section \<open>Streams end\<close>

text \<open>A stream of a call is settled: its last item is an error, or it said \<open>Finished\<close>.\<close>

definition settled :: "(llm_error + stream_event) list \<Rightarrow> bool" where
  "settled xs \<longleftrightarrow> xs \<noteq> [] \<and> ((\<exists>e. last xs = Inl e) \<or> (\<exists>e. Inr e \<in> set xs \<and> is_finish_event e))"

context wire_decoder begin

lemma read_settled:
  assumes "\<not> ended d"
  shows "settled (read_stream (adapter_of skip_event skip_done blank parse step ended) d buffer chunks)"
  using read_ends [of skip_event skip_done blank parse d buffer chunks] assms
  by (auto simp: settled_def)

lemma run_settled:
  assumes "\<not> ended d"
  shows "settled (run_stream (adapter_of skip_event skip_done blank parse step ended) d body http)"
  using read_settled [OF assms]
  by (auto simp: run_stream_def settled_def [of "[_]"] split: sum.split http_reply.split)

end

text \<open>
  C19: no provider call falls silent: through each of the four adapters, whatever the network and
  the server do, the stream ends with an error or has said \<open>Finished\<close>.
\<close>

theorem provider_streams_settle:
  "settled (chat_stream jp parse1 body http) \<and> settled (responses_stream jp parse2 wire body http)
   \<and> settled (anthropic_stream jp parse3 body http) \<and> settled (gemini_stream parse4 body http)"
  unfolding chat_stream_def responses_stream_def anthropic_stream_def gemini_stream_def
  by (intro conjI chat.run_settled responses.run_settled anthropic.run_settled gemini.run_settled)
    (simp_all add: chat_decoder_new_def responses_with_config_def anthropic_decoder_new_def gemini_decoder_new_def)

section \<open>Documented streams give responses\<close>

text \<open>
  C15: a Chat Completions stream in the documented form, with any number of interleaved tool
  calls cut into any fragments and a choice that ends with \<open>stop\<close> or \<open>tool_calls\<close>, decodes without error to its
  end and folds into a response.
\<close>

theorem chat_stream_accepted:
  assumes "wire_ok chat_allowed (chat_final jp) [] chunks"
  shows "\<exists>es d r. decode_all (chat_decode_chunk jp) chat_decoder_new chunks = (Inr es, d) \<and> cd_ended d
    \<and> run_model_call m (map Inr es) = Inr r"
  using chat_contract.accepted [OF assms] .

text \<open>
  C16: the same for the Messages stream of Anthropic, where every tool has some argument text.
\<close>

theorem anthropic_stream_accepted:
  assumes "wire_ok anthropic_allowed (anthropic_final jp) [] ws"
  shows "\<exists>es d r. decode_all (anthropic_decode_event jp) anthropic_decoder_new ws = (Inr es, d) \<and> an_ended d
    \<and> run_model_call m (map Inr es) = Inr r"
  using anthropic_contract.accepted [OF assms] .

text \<open>
  The same for a Responses stream whose events name a call by the id under which it was added. OpenAI's own
  events name it by the id of its item instead: see \<open>responses_documented_calls_refused\<close>.
\<close>

theorem responses_stream_accepted:
  assumes "wire_ok (responses_allowed config jp) (responses_final config) ([], []) ws"
  shows "\<exists>es d r. decode_all (responses_decode_event jp) (responses_with_config config) ws = (Inr es, d) \<and> rd_ended d
    \<and> run_model_call m (map Inr es) = Inr r"
  using responses_contract.accepted [OF assms] .

text \<open>
  The same for the Gemini stream, where no function is called twice.
\<close>

theorem gemini_stream_accepted:
  assumes "wire_ok gemini_allowed gemini_final [] ws"
  shows "\<exists>es d r. decode_all gemini_decode_chunk gemini_decoder_new ws = (Inr es, d) \<and> gm_ended d
    \<and> run_model_call m (map Inr es) = Inr r"
  using gemini_contract.accepted [OF assms] .

section \<open>Tool calls that are refused\<close>

fun stop_reason_of :: "stream_event \<Rightarrow> stop_reason option" where
  "stop_reason_of (Finished sr _ _) = Some sr"
| "stop_reason_of _ = None"

lemma apply_open_stop:
  "apply_open b e = (Inr u, b') \<Longrightarrow> bd_stop_reason b' = (case stop_reason_of e of None \<Rightarrow> bd_stop_reason b | Some sr \<Rightarrow> Some sr)"
  by (cases e)
    (auto simp: Let_def ensure_text_part_def ensure_thinking_part_def flush_open_part_frame flush_finished_tools_frame
      split: if_splits option.splits)

lemma run_events_stop:
  "run_events b es = Inr b' \<Longrightarrow> bd_stop_reason b' = bd_stop_reason b \<or> (\<exists>e \<in> set es. stop_reason_of e = bd_stop_reason b')"
proof (induction es arbitrary: b)
  case (Cons e es)
  from Cons.prems obtain b1 where ap: "apply_open b e = (Inr (), b1)" and run: "run_events b1 es = Inr b'"
    by (rule run_events_ConsE)
  from Cons.IH [OF run] apply_open_stop [OF ap] show ?case by (auto split: option.splits)
qed simp

text \<open>The stop reason of a response is one its stream named.\<close>

lemma response_stop_reason:
  assumes "run_model_call m (map Inr es) = Inr r"
  shows "\<exists>e \<in> set es. stop_reason_of e = Some (rs_stop_reason r)"
proof -
  obtain b where run: "run_events (builder_new m) es = Inr b" and fin: "finish b = Inr r"
    using assms by (auto simp: run_model_call_events split: sum.splits)
  have "bd_stop_reason b = Some (rs_stop_reason r)"
    using fin by (auto simp: finish_def split: if_splits option.splits)
  with run_events_stop [OF run] show ?thesis by (auto simp: builder_new_def)
qed

lemma calls_need_stop_reason:
  assumes "block_calls (rs_content r) \<noteq> []" "rs_stop_reason r \<noteq> StopToolUse"
  shows "\<not> is_ok (classify_response r)"
  using classify_response_cases [of r] assms by (auto simp: Let_def split: if_splits)

lemma decode_all_events:
  assumes "\<And>d w es d'. step d w = (Inr es, d') \<Longrightarrow> \<forall>e \<in> set es. P e"
  shows "decode_all step d ws = (Inr es, d') \<Longrightarrow> \<forall>e \<in> set es. P e"
proof (induction ws arbitrary: d es)
  case (Cons w ws)
  then obtain es1 d1 es2 where "step d w = (Inr es1, d1)" "decode_all step d1 ws = (Inr es2, d')" "es = es1 @ es2"
    by (auto split: prod.splits sum.splits)
  with assms [of d w es1 d1] Cons.IH [of d1 es2] show ?case by auto
qed simp

lemma responses_stop:
  "responses_decode_event jp d w = (Inr es, d') \<Longrightarrow> \<forall>e \<in> set es. stop_reason_of e \<noteq> Some StopToolUse"
  by (auto simp: responses_decode_event_def handle_output_item_added_def handle_function_arguments_delta_def
      handle_function_arguments_done_def map_response_status_def Let_def
      split: if_splits option.splits prod.splits sum.splits)

lemma gemini_candidates_stop: "\<forall>e \<in> set (fst (gemini_candidates cs d)). stop_reason_of e \<noteq> Some StopToolUse"
proof (induction cs arbitrary: d)
  case (Cons c cs)
  have parts: "stop_reason_of e \<noteq> Some StopToolUse" if "e \<in> set (gemini_part_events p)" for e p
    using that by (auto simp: gemini_part_events_def Let_def split: option.splits if_splits)
  have ih: "stop_reason_of e \<noteq> Some StopToolUse" if "gemini_candidates cs d1 = (es, d2)" "e \<in> set es" for d1 es d2 e
    using Cons.IH [of d1] that by simp
  show ?case
    by (auto simp: Let_def dest: parts ih split: prod.splits option.splits if_splits)
qed simp

lemma gemini_stop: "gemini_decode_chunk d w = (Inr es, d') \<Longrightarrow> \<forall>e \<in> set es. stop_reason_of e \<noteq> Some StopToolUse"
  using gemini_candidates_stop
  by (auto simp: gemini_decode_chunk_def Let_def split: if_splits prod.splits) (metis fst_conv)

text \<open>
  C13: the Responses decoder never says \<open>ToolUse\<close>, and the agent loop takes tool calls only with
  that stop reason: every response from this provider that calls a tool fails the turn, also
  when its stream was in order.
\<close>

theorem responses_tool_calls_refused:
  assumes "decode_all (responses_decode_event jp) d ws = (Inr es, d')"
    and "run_model_call m (map Inr es) = Inr r" and "block_calls (rs_content r) \<noteq> []"
  shows "\<not> is_ok (classify_response r)"
proof (rule calls_need_stop_reason [OF assms(3)])
  have "\<forall>e \<in> set es. stop_reason_of e \<noteq> Some StopToolUse"
    by (rule decode_all_events [OF _ assms(1)]) (rule responses_stop)
  with response_stop_reason [OF assms(2)] show "rs_stop_reason r \<noteq> StopToolUse" by auto
qed

text \<open>C14: the same for the Gemini decoder.\<close>

theorem gemini_tool_calls_refused:
  assumes "decode_all gemini_decode_chunk d ws = (Inr es, d')"
    and "run_model_call m (map Inr es) = Inr r" and "block_calls (rs_content r) \<noteq> []"
  shows "\<not> is_ok (classify_response r)"
proof (rule calls_need_stop_reason [OF assms(3)])
  have "\<forall>e \<in> set es. stop_reason_of e \<noteq> Some StopToolUse"
    by (rule decode_all_events [OF _ assms(1)]) (rule gemini_stop)
  with response_stop_reason [OF assms(2)] show "rs_stop_reason r \<noteq> StopToolUse" by auto
qed

text \<open>A tool that was started and not finished stays in the builder, and the message cannot end.\<close>

definition unfinished :: "string \<Rightarrow> builder \<Rightarrow> bool" where
  "unfinished i b \<longleftrightarrow> (\<exists>t \<in> set (bd_open_tools b). ot_id t = i \<and> ot_finished t = None)"

lemma update_tool_other:
  "t \<in> set ts \<Longrightarrow> ot_id t \<noteq> i \<Longrightarrow> t \<in> set (update_tool i f ts)"
  by (induction ts) auto

lemma update_tool_part:
  "t \<in> set ts \<Longrightarrow> \<exists>t' \<in> set (update_tool i (\<lambda>t. t\<lparr>ot_input_json := ot_input_json t @ j\<rparr>) ts).
     ot_id t' = ot_id t \<and> ot_finished t' = ot_finished t"
  by (induction ts) auto

lemma flush_keeps_unfinished: "t \<in> set (bd_open_tools b) \<Longrightarrow> ot_finished t = None \<Longrightarrow>
    t \<in> set (bd_open_tools (flush_finished_tools b))"
proof -
  assume t: "t \<in> set (bd_open_tools b)" "ot_finished t = None"
  obtain c ts where f: "flush_tools (bd_content b) (bd_open_tools b) = (c, ts)" by fastforce
  from flush_tools_split [OF this] obtain pre where "bd_open_tools b = pre @ ts" "\<forall>t \<in> set pre. ot_finished t \<noteq> None"
    by blast
  with t have "t \<in> set ts" by auto
  with f show ?thesis by (simp add: flush_finished_tools_def)
qed

lemma apply_unfinished:
  assumes "apply_event b e = (Inr s, b')" "unfinished i b" "\<And>n v. e \<noteq> ToolUseFinished i n v"
  shows "unfinished i b' \<and> \<not> bd_finished b'"
proof -
  obtain u where ap: "apply_open b e = (Inr u, b')" "\<not> bd_finished b"
    using assms(1) by (auto simp: apply_event_def split: if_splits prod.splits sum.splits)
  obtain t where t: "t \<in> set (bd_open_tools b)" "ot_id t = i" "ot_finished t = None"
    using assms(2) by (auto simp: unfinished_def)
  show ?thesis
  proof (cases e)
    case (ToolUsePart k j)
    with ap t update_tool_part [OF t(1), of k j] show ?thesis
      by (auto simp: unfinished_def split: option.splits if_splits)
  next
    case (ToolUseFinished k n v)
    then have "k \<noteq> i" using assms(3) by blast
    with ap t ToolUseFinished show ?thesis
      by (auto simp: unfinished_def split: option.splits if_splits
          intro!: bexI [of _ t] flush_keeps_unfinished update_tool_other)
  next
    case (Finished sr u rid)
    with ap t show ?thesis by (auto simp: Let_def split: if_splits)
  qed (use ap t in \<open>auto simp: unfinished_def Let_def split: if_splits\<close>)
qed

lemma run_events_unfinished:
  "run_events b es = Inr b' \<Longrightarrow> unfinished i b \<Longrightarrow> \<not> bd_finished b \<Longrightarrow> (\<forall>n v. ToolUseFinished i n v \<notin> set es) \<Longrightarrow>
    \<not> bd_finished b'"
proof (induction es arbitrary: b)
  case (Cons e es)
  then obtain s b1 where "apply_event b e = (Inr s, b1)" "run_events b1 es = Inr b'"
    by (auto split: prod.splits sum.splits)
  with Cons.IH [of b1] apply_unfinished [of b e s b1 i] Cons.prems show ?case by auto
qed simp

lemma run_events_append:
  "run_events b (es @ es') = (case run_events b es of Inl err \<Rightarrow> Inl err | Inr b1 \<Rightarrow> run_events b1 es')"
  by (induction es arbitrary: b) (auto split: prod.split sum.split)

lemma started_never_finished:
  assumes "ToolUseStarted i n \<in> set es" "\<forall>n v. ToolUseFinished i n v \<notin> set es"
  shows "\<not> is_ok (run_model_call m (map Inr es))"
proof
  assume "is_ok (run_model_call m (map Inr es))"
  then obtain r where "run_model_call m (map Inr es) = Inr r" by (auto simp: is_ok_iff)
  then obtain b where b: "run_events (builder_new m) es = Inr b" "bd_finished b" by (rule run_model_callE)
  obtain us vs where es: "es = us @ ToolUseStarted i n # vs" using split_list [OF assms(1)] by blast
  obtain b1 where "run_events (builder_new m) us = Inr b1" and "run_events b1 (ToolUseStarted i n # vs) = Inr b"
    using b(1) unfolding es by (auto simp: run_events_append split: sum.splits)
  then obtain s b2 where b2: "apply_event b1 (ToolUseStarted i n) = (Inr s, b2)" "run_events b2 vs = Inr b"
    by (auto split: prod.splits sum.splits)
  have "unfinished i b2" "\<not> bd_finished b2"
    using b2(1) by (auto simp: unfinished_def apply_event_def Let_def split: if_splits)
  from run_events_unfinished [OF b2(2) this] assms(2) b(2) es show False by auto
qed

text \<open>What the Responses decoder says of a call under the id it was added with.\<close>

definition responses_call_added :: "responses_decode_config \<Rightarrow> string \<Rightarrow> responses_event \<Rightarrow> bool" where
  "responses_call_added config i ev \<longleftrightarrow>
     re_type ev = ''response.output_item.added'' \<and> rc_text_delta_event config \<noteq> ''response.output_item.added'' \<and>
     (case re_item ev of
        None \<Rightarrow> False
      | Some item \<Rightarrow>
          json_get ''type'' item = Some (JStr ''function_call'') \<and>
          json_get ''call_id'' item = Some (JStr i) \<and> i \<noteq> [] \<and> str_or_empty (json_get ''name'' item) \<noteq> [])"

definition own_ids :: "responses_decoder \<Rightarrow> bool" where
  "own_ids d \<longleftrightarrow> bt_inv (rd_tool_calls d) \<and> (\<forall>k t. bt_get (rd_tool_calls d) k = Some t \<longrightarrow> ts_id t = k)"

lemma own_ids_insert:
  "own_ids d \<Longrightarrow> ts_id t = k \<Longrightarrow> own_ids (d\<lparr>rd_tool_calls := bt_insert k t (rd_tool_calls d)\<rparr>)"
  by (auto simp: own_ids_def bt_laws bt_get_insert split: if_splits)

lemma responses_own_ids:
  assumes "own_ids d" "responses_decode_event jp d w = (Inr es, d')" "re_item_id w \<noteq> Some i"
  shows "own_ids d' \<and> rd_config d' = rd_config d \<and> (\<forall>n v. ToolUseFinished i n v \<notin> set es)
    \<and> (re_type w \<noteq> ''response.completed'' \<longrightarrow> rd_ended d' = rd_ended d)"
proof -
  have same: "own_ids (d\<lparr>rd_had_reasoning := True\<rparr>)" "own_ids (d\<lparr>rd_response_id := r, rd_ended := True\<rparr>)" for r
    using assms(1) by (simp_all add: own_ids_def)
  have get: "ts_id t = k" if "bt_get (rd_tool_calls d) k = Some t" for k t
    using assms(1) that by (simp add: own_ids_def)
  show ?thesis
    using assms
    by (auto simp: responses_decode_event_def handle_output_item_added_def handle_function_arguments_delta_def
        handle_function_arguments_done_def Let_def or_default_def tool_blank_def same get
        split: if_splits option.splits prod.splits sum.splits intro!: own_ids_insert)
qed

lemma decode_all_own_ids:
  "decode_all (responses_decode_event jp) d ws = (Inr es, d') \<Longrightarrow> own_ids d \<Longrightarrow> \<forall>w \<in> set ws. re_item_id w \<noteq> Some i \<Longrightarrow>
    own_ids d' \<and> rd_config d' = rd_config d \<and> (\<forall>n v. ToolUseFinished i n v \<notin> set es)
    \<and> ((\<forall>w \<in> set ws. re_type w \<noteq> ''response.completed'') \<longrightarrow> rd_ended d' = rd_ended d)"
proof (induction ws arbitrary: d es)
  case (Cons w ws)
  then obtain es1 d1 es2 where step: "responses_decode_event jp d w = (Inr es1, d1)"
    "decode_all (responses_decode_event jp) d1 ws = (Inr es2, d')" "es = es1 @ es2"
    by (auto split: prod.splits sum.splits)
  from responses_own_ids [OF Cons.prems(2) step(1), of i] Cons.IH [OF step(2)] Cons.prems(3) step(3)
  show ?case by auto
qed simp

text \<open>
  C17: a function call in the form OpenAI documents never becomes a response. Its item is added with a
  \<open>call_id\<close> and an id of its own, and the events of its arguments carry the id of the item in \<open>item_id\<close>, but the
  decoder looks for them under the \<open>call_id\<close>: the call is started and never finished, so whatever else the stream
  holds the builder refuses it.
\<close>

theorem responses_documented_calls_refused:
  assumes "decode_all (responses_decode_event jp) (responses_with_config config) (us @ ev # vs) = (Inr es, d)"
    and "responses_call_added config i ev" and "\<forall>u \<in> set us. re_type u \<noteq> ''response.completed''"
    and "\<forall>w \<in> set (us @ ev # vs). re_item_id w \<noteq> Some i"
  shows "\<not> is_ok (run_model_call m (map Inr es))"
proof -
  let ?d = "responses_with_config config"
  have own: "own_ids ?d" "\<not> rd_ended ?d" "rd_config ?d = config"
    by (simp_all add: own_ids_def responses_with_config_def)
  obtain es1 d1 es2 where us: "decode_all (responses_decode_event jp) ?d us = (Inr es1, d1)"
    "decode_all (responses_decode_event jp) d1 (ev # vs) = (Inr es2, d)" "es = es1 @ es2"
    using assms(1) by (auto simp: decode_all_append split: prod.splits sum.splits)
  have d1: "\<not> rd_ended d1" "rd_config d1 = config"
    using decode_all_own_ids [OF us(1) own(1), of i] assms(3,4) own(2,3) by auto
  obtain n es3 d2 where "responses_decode_event jp d1 ev = (Inr [ToolUseStarted i n], d2)"
    using assms(2) d1
    by (auto simp: responses_call_added_def responses_decode_event_def handle_output_item_added_def item_call_id_def
        str_or_empty_def or_default_def Let_def split: option.splits)
  then have "ToolUseStarted i n \<in> set es" using us(2,3) by (auto split: prod.splits sum.splits)
  from started_never_finished [OF this] decode_all_own_ids [OF assms(1) own(1) assms(4)] show ?thesis by blast
qed

text \<open>A tool block, and the end of the message; text may stand around them.\<close>

definition tool_block_start :: "u32 \<Rightarrow> string \<Rightarrow> string \<Rightarrow> anthropic_event" where
  "tool_block_start k i n =
     \<lparr>ae_type = ''content_block_start'', ae_index = Some k, ae_delta = None,
      ae_block = Some \<lparr>ab_type = ''tool_use'', ab_id = Some i, ab_name = Some n\<rparr>, ae_usage = None\<rparr>"

definition message_stop :: anthropic_event where
  "message_stop = \<lparr>ae_type = ''message_stop'', ae_index = None, ae_delta = None, ae_block = None, ae_usage = None\<rparr>"

text \<open>
  a call of a tool without arguments does not survive the Anthropic decoder: a tool whose
  argument text stays empty is started but not finished, so the builder refuses the response.
\<close>

theorem anthropic_empty_arguments_refused:
  assumes "i \<noteq> []" and "n \<noteq> []"
  shows "\<exists>es d. decode_all (anthropic_decode_event jp) anthropic_decoder_new [tool_block_start k i n, message_stop] = (Inr es, d)
    \<and> an_ended d \<and> run_model_call m (map Inr es) = Inl (unrecoverable ''Finished with unfinished tool use'')"
  using assms
  by (simp add: anthropic_decode_event_def anthropic_block_start_def anthropic_message_stop_def anthropic_decoder_new_def
      tool_block_start_def message_stop_def or_default_def Let_def run_model_call_events builder_new_def apply_event_def
      flush_open_part_def)

section \<open>Concrete streams\<close>

definition any_json :: json_parser where
  "any_json s = (if s = ''{'' then Inl ''EOF'' else Inr (JObj []))"

definition chat_delta :: "string option \<Rightarrow> string option \<Rightarrow> u32 \<Rightarrow> string \<Rightarrow> tool_call_delta" where
  "chat_delta i n k args = \<lparr>td_index = k, td_id = i, td_name = n, td_arguments = Some args\<rparr>"

text \<open>Two calls whose fragments interleave.\<close>

definition chat_demo :: "chat_chunk list" where
  "chat_demo =
     [\<lparr>ck_choices = [\<lparr>ch_content = Some ''hi'', ch_reasoning = None, ch_tool_calls = [], ch_finish_reason = None\<rparr>], ck_usage = None\<rparr>,
      \<lparr>ck_choices = [\<lparr>ch_content = None, ch_reasoning = None,
         ch_tool_calls = [chat_delta (Some ''a'') (Some ''grep'') 0 ''{'', chat_delta (Some ''b'') (Some ''read'') 1 ''{''],
         ch_finish_reason = None\<rparr>], ck_usage = None\<rparr>,
      \<lparr>ck_choices = [\<lparr>ch_content = None, ch_reasoning = None,
         ch_tool_calls = [chat_delta None None 1 ''}'', chat_delta (Some ''a'') None 0 ''}''],
         ch_finish_reason = Some ''tool_calls''\<rparr>], ck_usage = None\<rparr>]"

theorem chat_stream_accepted_witness:
  "\<exists>es d r. decode_all (chat_decode_chunk any_json) chat_decoder_new chat_demo = (Inr es, d)
     \<and> run_model_call ''m'' (map Inr es) = Inr r"
proof -
  have "wire_ok chat_allowed (chat_final any_json) [] chat_demo" by code_simp
  from chat_stream_accepted [OF this] show ?thesis by blast
qed

definition input_delta :: "u32 \<Rightarrow> string \<Rightarrow> anthropic_event" where
  "input_delta k partial =
     \<lparr>ae_type = ''content_block_delta'', ae_index = Some k,
      ae_delta = Some \<lparr>ad_type = Some ''input_json_delta'', ad_text = None, ad_thinking = None,
        ad_partial_json = Some partial, ad_stop_reason = None\<rparr>,
      ae_block = None, ae_usage = None\<rparr>"

theorem anthropic_stream_accepted_witness:
  "\<exists>es d r. decode_all (anthropic_decode_event any_json) anthropic_decoder_new
       [tool_block_start 1 ''a'' ''grep'', input_delta 1 ''{'', input_delta 1 ''}'', message_stop] = (Inr es, d)
     \<and> run_model_call ''m'' (map Inr es) = Inr r"
proof -
  have "wire_ok anthropic_allowed (anthropic_final any_json) []
      [tool_block_start 1 ''a'' ''grep'', input_delta 1 ''{'', input_delta 1 ''}'', message_stop]" by code_simp
  from anthropic_stream_accepted [OF this] show ?thesis by blast
qed

definition responses_call :: "string \<Rightarrow> string \<Rightarrow> string \<Rightarrow> responses_event list" where
  "responses_call i n args =
     [\<lparr>re_type = ''response.output_item.added'', re_delta = None, re_response = None,
       re_item = Some (JObj [(''type'', JStr ''function_call''), (''call_id'', JStr i), (''name'', JStr n)]),
       re_item_id = None, re_arguments = None\<rparr>,
      \<lparr>re_type = ''response.function_call_arguments.done'', re_delta = None, re_response = None, re_item = None,
       re_item_id = Some i, re_arguments = Some args\<rparr>]"

definition responses_completed :: responses_event where
  "responses_completed =
     \<lparr>re_type = ''response.completed'', re_delta = None,
      re_response = Some \<lparr>ro_id = None, ro_status = Some ''completed'', ro_usage = None\<rparr>, re_item = None,
      re_item_id = None, re_arguments = None\<rparr>"

abbreviation default_responses :: responses_decode_config where
  "default_responses \<equiv> responses_config_from_wire wire_default"

lemma responses_demo_ok:
  "wire_ok (responses_allowed default_responses any_json) (responses_final default_responses) ([], [])
     (responses_call ''a'' ''grep'' ''{}'' @ [responses_completed])"
  by code_simp

theorem responses_stream_accepted_witness:
  "\<exists>es d r. decode_all (responses_decode_event any_json) (responses_with_config default_responses)
       (responses_call ''a'' ''grep'' ''{}'' @ [responses_completed]) = (Inr es, d)
     \<and> run_model_call ''m'' (map Inr es) = Inr r"
  using responses_stream_accepted [OF responses_demo_ok] by blast

text \<open>A function call as the API reference shows it: item \<open>fc_1\<close>, call \<open>call_1\<close>.\<close>

definition documented_call :: responses_event where
  "documented_call =
     \<lparr>re_type = ''response.output_item.added'', re_delta = None, re_response = None,
      re_item = Some (JObj [(''type'', JStr ''function_call''), (''id'', JStr ''fc_1''), (''call_id'', JStr ''call_1''),
        (''name'', JStr ''grep''), (''arguments'', JStr [])]),
      re_item_id = None, re_arguments = None\<rparr>"

definition documented_rest :: "responses_event list" where
  "documented_rest =
     [\<lparr>re_type = ''response.function_call_arguments.delta'', re_delta = Some ''{}'', re_response = None, re_item = None,
       re_item_id = Some ''fc_1'', re_arguments = None\<rparr>,
      \<lparr>re_type = ''response.function_call_arguments.done'', re_delta = None, re_response = None, re_item = None,
       re_item_id = Some ''fc_1'', re_arguments = Some ''{}''\<rparr>,
      responses_completed]"

theorem responses_documented_calls_refused_witness:
  "\<exists>es d. decode_all (responses_decode_event any_json) (responses_with_config default_responses)
       ([] @ documented_call # documented_rest) = (Inr es, d) \<and> length es = 2 \<and> \<not> is_ok (run_model_call ''m'' (map Inr es))"
proof -
  have v: "map_sum id length (fst (decode_all (responses_decode_event any_json) (responses_with_config default_responses)
       ([] @ documented_call # documented_rest))) = (Inr 2 :: llm_error + nat)"
    by code_simp
  then obtain es d where dec: "decode_all (responses_decode_event any_json) (responses_with_config default_responses)
       ([] @ documented_call # documented_rest) = (Inr es, d)" "length es = 2"
    by (cases "decode_all (responses_decode_event any_json) (responses_with_config default_responses)
       ([] @ documented_call # documented_rest)") (auto simp: map_sum_def split: sum.splits)
  have ev: "responses_call_added default_responses ''call_1'' documented_call" "rc_text_delta_event default_responses \<noteq> ''x''"
    by code_simp+
  show ?thesis
    using responses_documented_calls_refused [OF dec(1) ev(1)] dec
    by (auto simp: documented_call_def documented_rest_def responses_completed_def)
qed

definition response_view :: "llm_error + model_response \<Rightarrow> (llm_error + content_block list)" where
  "response_view r = map_sum id rs_content r"

theorem responses_tool_calls_refused_witness:
  "\<exists>es d r. decode_all (responses_decode_event any_json) (responses_with_config default_responses)
       (responses_call ''a'' ''grep'' ''{}'' @ [responses_completed]) = (Inr es, d)
     \<and> run_model_call ''m'' (map Inr es) = Inr r \<and> rs_content r = [CbToolUse ''a'' ''grep'' (JObj [])]
     \<and> \<not> is_ok (classify_response r)"
proof -
  have v: "map_sum id (\<lambda>es. response_view (run_model_call ''m'' (map Inr es)))
      (fst (decode_all (responses_decode_event any_json) (responses_with_config default_responses)
         (responses_call ''a'' ''grep'' ''{}'' @ [responses_completed])))
    = (Inr (Inr [CbToolUse ''a'' ''grep'' (JObj [])]) :: llm_error + llm_error + content_block list)"
    by code_simp
  obtain es d where dec: "decode_all (responses_decode_event any_json) (responses_with_config default_responses)
       (responses_call ''a'' ''grep'' ''{}'' @ [responses_completed]) = (Inr es, d)"
    using v by (cases "decode_all (responses_decode_event any_json) (responses_with_config default_responses)
       (responses_call ''a'' ''grep'' ''{}'' @ [responses_completed])") (auto simp: map_sum_def split: sum.splits)
  obtain r where r: "run_model_call ''m'' (map Inr es) = Inr r" "rs_content r = [CbToolUse ''a'' ''grep'' (JObj [])]"
    using v dec by (cases "run_model_call ''m'' (map Inr es)") (auto simp: response_view_def)
  have "block_calls (rs_content r) \<noteq> []" using r(2) by (simp add: block_calls_def List.map_filter_def)
  from responses_tool_calls_refused [OF dec r(1) this] dec r show ?thesis by blast
qed

definition gemini_demo :: "gemini_chunk list" where
  "gemini_demo =
     [\<lparr>gk_candidates = [\<lparr>gd_content = Some [\<lparr>gp_text = None, gp_function_call = Some \<lparr>gc_name = ''grep'', gc_args = JObj []\<rparr>\<rparr>],
        gd_finish_reason = Some ''STOP''\<rparr>], gk_usage = None\<rparr>]"

lemma gemini_demo_ok: "wire_ok gemini_allowed gemini_final [] gemini_demo"
  by code_simp

theorem gemini_stream_accepted_witness:
  "\<exists>es d r. decode_all gemini_decode_chunk gemini_decoder_new gemini_demo = (Inr es, d)
     \<and> run_model_call ''m'' (map Inr es) = Inr r"
  using gemini_stream_accepted [OF gemini_demo_ok] by blast

theorem gemini_tool_calls_refused_witness:
  "\<exists>es d r. decode_all gemini_decode_chunk gemini_decoder_new gemini_demo = (Inr es, d)
     \<and> run_model_call ''m'' (map Inr es) = Inr r \<and> rs_content r = [CbToolUse ''call_grep'' ''grep'' (JObj [])]
     \<and> \<not> is_ok (classify_response r)"
proof -
  have v: "map_sum id (\<lambda>es. response_view (run_model_call ''m'' (map Inr es)))
      (fst (decode_all gemini_decode_chunk gemini_decoder_new gemini_demo))
    = (Inr (Inr [CbToolUse ''call_grep'' ''grep'' (JObj [])]) :: llm_error + llm_error + content_block list)"
    by code_simp
  obtain es d where dec: "decode_all gemini_decode_chunk gemini_decoder_new gemini_demo = (Inr es, d)"
    using v by (cases "decode_all gemini_decode_chunk gemini_decoder_new gemini_demo") (auto simp: map_sum_def split: sum.splits)
  obtain r where r: "run_model_call ''m'' (map Inr es) = Inr r" "rs_content r = [CbToolUse ''call_grep'' ''grep'' (JObj [])]"
    using v dec by (cases "run_model_call ''m'' (map Inr es)") (auto simp: response_view_def)
  have "block_calls (rs_content r) \<noteq> []" using r(2) by (simp add: block_calls_def List.map_filter_def)
  from gemini_tool_calls_refused [OF dec r(1) this] dec r show ?thesis by blast
qed

theorem anthropic_empty_arguments_refused_witness:
  "\<exists>es d. decode_all (anthropic_decode_event any_json) anthropic_decoder_new [tool_block_start 0 ''a'' ''list'', message_stop] = (Inr es, d)
    \<and> run_model_call ''m'' (map Inr es) = Inl (unrecoverable ''Finished with unfinished tool use'')"
  using anthropic_empty_arguments_refused [of "''a''" "''list''" any_json 0 "''m''"] by auto

end
