(* ===== verification/Providers.thy ===== *)
theory Providers
  imports Request_Encoders Stream_Properties
begin

text \<open>
  \<open>agent-core/src/llm/adapter\<close>: the configuration of a provider, its construction, and one whole call:
  the request of \<open>Request_Encoders\<close> sent, the reply read by \<open>Sse\<close> and \<open>Stream_Decoders\<close>. The HTTP client
  and what is serialised or deserialised by \<open>serde_json\<close> are arguments (\<open>provider_env\<close>).
\<close>

section \<open>Configuration\<close>

datatype adapter_config =
    AcOpenAiChat (ac_base_url: string) (ac_api_key: string) openai_thinking_extension
  | AcOpenAiResponses (ac_base_url: string) (ac_api_key: string) wire_profile_config bool bool
  | AcAnthropicMessages (ac_base_url: string) (ac_api_key: string) bool
  | AcGoogleGenerativeAi (ac_base_url: string) (ac_api_key: string)

definition from_resolved :: "resolved_profile \<Rightarrow> string \<Rightarrow> string \<Rightarrow> adapter_config" where
  "from_resolved profile base_url api_key =
     (case rp_protocol profile of
        OpenAiChatCompletions \<Rightarrow>
          AcOpenAiChat base_url api_key
            (case rp_options profile of OptOpenAiChat options \<Rightarrow> options | _ \<Rightarrow> NoExtension)
      | OpenAiResponses \<Rightarrow>
          AcOpenAiResponses base_url api_key (rp_wire profile)
            (f_contains (rp_features profile) (flag 8)) (f_contains (rp_features profile) (flag 9))
      | AnthropicMessages \<Rightarrow> AcAnthropicMessages base_url api_key (f_contains (rp_features profile) (flag 16))
      | GoogleGenerativeAi \<Rightarrow> AcGoogleGenerativeAi base_url api_key)"

fun config_family :: "adapter_config \<Rightarrow> adapter_family" where
  "config_family (AcOpenAiChat _ _ _) = OpenAiChatCompletions"
| "config_family (AcOpenAiResponses _ _ _ _ _) = OpenAiResponses"
| "config_family (AcAnthropicMessages _ _ _) = AnthropicMessages"
| "config_family (AcGoogleGenerativeAi _ _) = GoogleGenerativeAi"

text \<open>
  The manual \<open>Debug\<close> of a configuration: \<open>debug_struct\<close> as \<open>Name { field: value, .. }\<close>. The
  quoting of a string, \<open>Debug for str\<close>, is the argument \<open>quote\<close>.
\<close>

definition debug_struct :: "string \<Rightarrow> (string \<times> string) list \<Rightarrow> string" where
  "debug_struct name entries =
     name @ '' { '' @ join '', '' (map (\<lambda>(f, v). f @ '': '' @ v) entries) @ '' }''"

fun extension_debug :: "openai_thinking_extension \<Rightarrow> string" where
  "extension_debug NoExtension = ''None''"
| "extension_debug ChatTemplateKwargs = ''ChatTemplateKwargs''"

fun config_debug :: "(string \<Rightarrow> string) \<Rightarrow> adapter_config \<Rightarrow> string" where
  "config_debug quote (AcOpenAiChat base_url _ options) =
     debug_struct ''OpenAiChat'' [(''base_url'', quote base_url), (''api_key'', quote ''<redacted>''),
       (''options'', debug_struct ''OpenAiChatOptions'' [(''thinking_extension'', extension_debug options)])]"
| "config_debug quote (AcOpenAiResponses base_url _ _ _ _) =
     debug_struct ''OpenAiResponses'' [(''base_url'', quote base_url), (''api_key'', quote ''<redacted>'')]"
| "config_debug quote (AcAnthropicMessages base_url _ _) =
     debug_struct ''AnthropicMessages'' [(''base_url'', quote base_url), (''api_key'', quote ''<redacted>'')]"
| "config_debug quote (AcGoogleGenerativeAi base_url _) =
     debug_struct ''GoogleGenerativeAi'' [(''base_url'', quote base_url), (''api_key'', quote ''<redacted>'')]"

section \<open>Construction\<close>

text \<open>The four adapter structs without their HTTP client.\<close>

datatype provider =
    PvOpenAiChat (pv_base_url: string) string openai_thinking_extension
  | PvOpenAiResponses (pv_base_url: string) string wire_profile_config bool bool
  | PvAnthropicMessages (pv_base_url: string) string bool
  | PvGoogleGenerativeAi (pv_base_url: string) string

text \<open>The check and the trimming in each constructor: \<open>trim_end_matches('/')\<close>.\<close>

definition checked_base :: "string \<Rightarrow> llm_error + string" where
  "checked_base base_url =
     (if is_blank base_url then Inl (unrecoverable ''base_url must not be empty'')
      else Inr (rev (dropWhile (\<lambda>c. c = CHR ''/'') (rev base_url))))"

definition chat_adapter_new :: "string \<Rightarrow> string \<Rightarrow> openai_thinking_extension \<Rightarrow> llm_error + provider" where
  "chat_adapter_new base_url api_key options =
     (case checked_base base_url of Inl e \<Rightarrow> Inl e | Inr b \<Rightarrow> Inr (PvOpenAiChat b api_key options))"

definition responses_adapter_new ::
  "string \<Rightarrow> string \<Rightarrow> wire_profile_config \<Rightarrow> bool \<Rightarrow> bool \<Rightarrow> llm_error + provider" where
  "responses_adapter_new base_url api_key wire store_enabled previous_id_enabled =
     (case checked_base base_url of
        Inl e \<Rightarrow> Inl e
      | Inr b \<Rightarrow> Inr (PvOpenAiResponses b api_key wire store_enabled previous_id_enabled))"

definition anthropic_adapter_new :: "string \<Rightarrow> string \<Rightarrow> bool \<Rightarrow> llm_error + provider" where
  "anthropic_adapter_new base_url api_key prompt_cache =
     (case checked_base base_url of Inl e \<Rightarrow> Inl e | Inr b \<Rightarrow> Inr (PvAnthropicMessages b api_key prompt_cache))"

definition gemini_adapter_new :: "string \<Rightarrow> string \<Rightarrow> llm_error + provider" where
  "gemini_adapter_new base_url api_key =
     (case checked_base base_url of Inl e \<Rightarrow> Inl e | Inr b \<Rightarrow> Inr (PvGoogleGenerativeAi b api_key))"

fun build_provider :: "adapter_config \<Rightarrow> llm_error + provider" where
  "build_provider (AcOpenAiChat base_url api_key options) = chat_adapter_new base_url api_key options"
| "build_provider (AcOpenAiResponses base_url api_key wire store_enabled previous_id_enabled) =
     responses_adapter_new base_url api_key wire store_enabled previous_id_enabled"
| "build_provider (AcAnthropicMessages base_url api_key prompt_cache) =
     anthropic_adapter_new base_url api_key prompt_cache"
| "build_provider (AcGoogleGenerativeAi base_url api_key) = gemini_adapter_new base_url api_key"

fun provider_family :: "provider \<Rightarrow> adapter_family" where
  "provider_family (PvOpenAiChat _ _ _) = OpenAiChatCompletions"
| "provider_family (PvOpenAiResponses _ _ _ _ _) = OpenAiResponses"
| "provider_family (PvAnthropicMessages _ _ _) = AnthropicMessages"
| "provider_family (PvGoogleGenerativeAi _ _) = GoogleGenerativeAi"

section \<open>One call\<close>

fun provider_url :: "provider \<Rightarrow> string \<Rightarrow> string" where
  "provider_url (PvOpenAiChat b _ _) model = b @ ''/chat/completions''"
| "provider_url (PvOpenAiResponses b _ _ _ _) model = b @ ''/responses''"
| "provider_url (PvAnthropicMessages b _ _) model = b @ ''/v1/messages''"
| "provider_url (PvGoogleGenerativeAi b key) model =
     b @ ''/models/'' @ model @ '':streamGenerateContent?alt=sse&key='' @ key"

datatype request_body =
    RbChat chat_request_body
  | RbResponses responses_request_body
  | RbAnthropic anthropic_request_body
  | RbGemini gemini_request_body

datatype request_auth = BearerAuth string | ApiKeyHeader string | NoAuthHeader

record http_request =
  ht_url :: string
  ht_auth :: request_auth
  ht_body :: request_body

text \<open>
  What a call takes from outside: the serialiser, the JSON parser of tool arguments, the
  deserialisation of the four wire types and the HTTP client.
\<close>

record provider_env =
  pe_lib :: encoder_lib
  pe_json :: json_parser
  pe_chat :: "string \<Rightarrow> string + chat_chunk"
  pe_responses :: "string \<Rightarrow> string + responses_event"
  pe_anthropic :: "string \<Rightarrow> string + anthropic_event"
  pe_gemini :: "string \<Rightarrow> string + gemini_chunk"
  pe_http :: "http_request \<Rightarrow> http_reply"

text \<open>\<open>LLMProvider::stream\<close> of the four adapters: encode, send, decode what comes back.\<close>

fun provider_stream :: "provider_env \<Rightarrow> provider \<Rightarrow> model_request \<Rightarrow> (llm_error + stream_event) list" where
  "provider_stream E (PvOpenAiChat b key options) request =
     chat_stream (pe_json E) (pe_chat E) (chat_encode_request (pe_lib E) request options)
       (\<lambda>body. pe_http E \<lparr>ht_url = provider_url (PvOpenAiChat b key options) (rq_model request),
          ht_auth = BearerAuth key, ht_body = RbChat body\<rparr>)"
| "provider_stream E (PvOpenAiResponses b key wire store prev) request =
     responses_stream (pe_json E) (pe_responses E) wire (responses_encode_request (pe_lib E) request store prev)
       (\<lambda>body. pe_http E \<lparr>ht_url = provider_url (PvOpenAiResponses b key wire store prev) (rq_model request),
          ht_auth = BearerAuth key, ht_body = RbResponses body\<rparr>)"
| "provider_stream E (PvAnthropicMessages b key prompt_cache) request =
     anthropic_stream (pe_json E) (pe_anthropic E) (anthropic_encode_request (pe_lib E) request prompt_cache)
       (\<lambda>body. pe_http E \<lparr>ht_url = provider_url (PvAnthropicMessages b key prompt_cache) (rq_model request),
          ht_auth = ApiKeyHeader key, ht_body = RbAnthropic body\<rparr>)"
| "provider_stream E (PvGoogleGenerativeAi b key) request =
     gemini_stream (pe_gemini E) (gemini_encode_request (pe_lib E) request)
       (\<lambda>body. pe_http E \<lparr>ht_url = provider_url (PvGoogleGenerativeAi b key) (rq_model request),
          ht_auth = NoAuthHeader, ht_body = RbGemini body\<rparr>)"

section \<open>Lemmas\<close>

lemma checked_base_ok: "checked_base s = Inr b \<Longrightarrow> \<not> is_blank s \<and> (b = [] \<or> last b \<noteq> CHR ''/'') \<and> (\<exists>k. s = b @ replicate k CHR ''/'')"
proof -
  assume a: "checked_base s = Inr b"
  then have nb: "\<not> is_blank s" and b: "b = rev (dropWhile (\<lambda>c. c = CHR ''/'') (rev s))"
    by (auto simp: checked_base_def split: if_splits)
  let ?t = "takeWhile (\<lambda>c. c = CHR ''/'') (rev s)"
  have "?t = replicate (length ?t) CHR ''/''"
    by (rule replicate_eqI) (auto dest: set_takeWhileD)
  moreover have "s = b @ rev ?t"
    by (metis b rev_append rev_rev_ident takeWhile_dropWhile_id)
  ultimately have "s = b @ replicate (length ?t) CHR ''/''" by (metis rev_replicate)
  moreover have "last b \<noteq> CHR ''/''" if "b \<noteq> []"
    using that hd_dropWhile [of "\<lambda>c. c = CHR ''/''" "rev s"] by (auto simp: b last_rev)
  ultimately show ?thesis using nb by blast
qed

lemma build_provider_ok: "is_ok (build_provider c) \<longleftrightarrow> \<not> is_blank (ac_base_url c)"
  by (cases c) (simp_all add: chat_adapter_new_def responses_adapter_new_def anthropic_adapter_new_def
      gemini_adapter_new_def checked_base_def)

lemma build_provider_shape:
  "build_provider c = Inr p \<Longrightarrow> provider_family p = config_family c \<and> checked_base (ac_base_url c) = Inr (pv_base_url p)"
  by (cases c) (auto simp: chat_adapter_new_def responses_adapter_new_def anthropic_adapter_new_def
      gemini_adapter_new_def split: sum.splits)

lemma from_resolved_family:
  "config_family (from_resolved profile b k) = rp_protocol profile"
  "ac_base_url (from_resolved profile b k) = b"
  by (simp_all add: from_resolved_def split: adapter_family.split)

lemma unsent: "run_stream a d (Inl e) http = [Inl e]"
  by (simp add: run_stream_def)

lemma not_ok: "\<not> is_ok r \<Longrightarrow> (\<And>e. r = Inl e \<Longrightarrow> P) \<Longrightarrow> P"
  by (cases r) auto

lemma provider_stream_unsent:
  assumes "\<And>v. is_ok (el_to_string (pe_lib E) v)"
    and "\<not> (is_ok (validate_request request) \<and> list_all typed_message (rq_messages request))"
  shows "\<exists>e. \<forall>http. provider_stream (E\<lparr>pe_http := http\<rparr>) p request = [Inl e]"
proof (cases p)
  case (PvOpenAiChat b k ext)
  then show ?thesis using assms(2) chat_encode_request_ok [OF assms(1), of request ext]
    by (cases "chat_encode_request (pe_lib E) request ext") (auto simp: chat_stream_def unsent)
next
  case (PvOpenAiResponses b k wire store prev)
  then show ?thesis using assms(2) responses_encode_request_ok [OF assms(1), of request store prev]
    by (cases "responses_encode_request (pe_lib E) request store prev") (auto simp: responses_stream_def unsent)
next
  case (PvAnthropicMessages b k cache)
  then show ?thesis using assms(2) anthropic_encode_request_ok [of "pe_lib E" request cache]
    by (cases "anthropic_encode_request (pe_lib E) request cache") (auto simp: anthropic_stream_def unsent)
next
  case (PvGoogleGenerativeAi b k)
  then show ?thesis using assms(2) gemini_encode_request_ok [of "pe_lib E" request]
    by (cases "gemini_encode_request (pe_lib E) request") (auto simp: gemini_stream_def unsent)
qed

lemma provider_stream_settled: "settled (provider_stream E p request)"
  by (cases p) (simp_all add: chat_stream_def responses_stream_def anthropic_stream_def gemini_stream_def
      chat_decoder_new_def responses_with_config_def anthropic_decoder_new_def gemini_decoder_new_def
      chat.run_settled responses.run_settled anthropic.run_settled gemini.run_settled)

text \<open>
  The key of a Gemini call stands in its URL. A client whose errors name the URL, as \<open>reqwest\<close>'s
  do, puts it into the error of the call.
\<close>

lemma gemini_error_names_key:
  assumes "gemini_encode_request (pe_lib E) request = Inr body"
    and "\<And>r. pe_http E r = SendFailed (''error sending request for url ('' @ ht_url r @ '')'')"
  shows "\<exists>pre post. provider_stream E (PvGoogleGenerativeAi b key) request =
     [Inl (RequestFailed Recoverable (pre @ key @ post))]"
proof -
  let ?pre = "''HTTP request failed: '' @ ''error sending request for url ('' @ b @ ''/models/'' @ rq_model request
    @ '':streamGenerateContent?alt=sse&key=''"
  have "provider_stream E (PvGoogleGenerativeAi b key) request = [Inl (RequestFailed Recoverable (?pre @ key @ '')''))]"
    by (simp add: gemini_stream_def run_stream_def assms)
  then show ?thesis by blast
qed

section \<open>Properties\<close>

text \<open>
  A provider is built exactly when the base URL is not blank, it speaks the protocol of the
  profile, and its base is the configured one without the slashes at its end.
\<close>

theorem build_provider_exact:
  "(case build_provider (from_resolved profile base_url api_key) of
      Inl e \<Rightarrow> is_blank base_url \<and> e = unrecoverable ''base_url must not be empty''
    | Inr p \<Rightarrow> \<not> is_blank base_url \<and> provider_family p = rp_protocol profile
        \<and> (pv_base_url p = [] \<or> last (pv_base_url p) \<noteq> CHR ''/'')
        \<and> (\<exists>k. base_url = pv_base_url p @ replicate k CHR ''/''))"
proof (cases "build_provider (from_resolved profile base_url api_key)")
  case (Inl e)
  then have "is_blank base_url"
    using build_provider_ok [of "from_resolved profile base_url api_key"] by (simp add: from_resolved_family)
  moreover from this Inl have "e = unrecoverable ''base_url must not be empty''"
    by (cases "from_resolved profile base_url api_key"; use from_resolved_family(2) [of profile base_url api_key] in
      \<open>auto simp: chat_adapter_new_def responses_adapter_new_def anthropic_adapter_new_def gemini_adapter_new_def
        checked_base_def\<close>)
  ultimately show ?thesis by (simp add: Inl)
next
  case (Inr p)
  from build_provider_shape [OF Inr] show ?thesis
    using checked_base_ok [of base_url "pv_base_url p"] by (simp add: Inr from_resolved_family)
qed

text \<open>
  a request that no family can encode never reaches the network: whatever the client would
  answer, the stream is the one error of the encoder. JSON values always serialise.
\<close>

theorem invalid_request_not_sent:
  assumes "\<And>v. is_ok (el_to_string (pe_lib E) v)"
    and "\<not> (is_ok (validate_request request) \<and> list_all typed_message (rq_messages request))"
  shows "\<exists>e. \<forall>http. provider_stream (E\<lparr>pe_http := http\<rparr>) p request = [Inl e]"
  by (rule provider_stream_unsent [OF assms])

definition offline_env :: provider_env where
  "offline_env =
     \<lparr>pe_lib = sample_lib, pe_json = (\<lambda>_. Inl ''parse''), pe_chat = (\<lambda>_. Inl ''parse''),
      pe_responses = (\<lambda>_. Inl ''parse''), pe_anthropic = (\<lambda>_. Inl ''parse''), pe_gemini = (\<lambda>_. Inl ''parse''),
      pe_http = (\<lambda>_. SendFailed ''down'')\<rparr>"

theorem invalid_request_not_sent_witness:
  "\<exists>e. \<forall>http. provider_stream (offline_env\<lparr>pe_http := http\<rparr>) (PvGoogleGenerativeAi ''https://g'' ''key'')
     (sample_request [user_blocks [CbThinking ''t'']]) = [Inl e]"
proof (rule invalid_request_not_sent)
  show "is_ok (el_to_string (pe_lib offline_env) v)" for v by (simp add: offline_env_def sample_lib_def)
  show "\<not> (is_ok (validate_request (sample_request [user_blocks [CbThinking ''t'']]))
      \<and> list_all typed_message (rq_messages (sample_request [user_blocks [CbThinking ''t'']])))"
    by (simp add: sample_request_def typed_message_def user_blocks_def)
qed

text \<open>
  The \<open>Debug\<close> form of a configuration does not depend on the API key.
\<close>

theorem config_debug_redacts:
  "config_debug quote (from_resolved profile base_url key1) = config_debug quote (from_resolved profile base_url key2)"
  by (simp add: from_resolved_def split: adapter_family.split)

end
