(* ===== verification/Event_Records.thy ===== *)
theory Event_Records
  imports Events
begin

text \<open>
  \<open>agent-core/src/event/derive.rs\<close> and \<open>agent_recorder.rs\<close>: the row of the Agent Event Log that a
  turn event gives, with its payload as JSON. The derived \<open>Serialize\<close> of the payload types is
  written out from their attributes; \<open>serde_json\<close>'s text of a value and its parser, the fresh id
  and the clock are arguments. Objects list their entries in the order the code adds them; only
  lookup by key is used of them.
\<close>

section \<open>Rows\<close>

datatype agent_phase = PreLlm | PostLlm | PostTool | Stop

datatype agent_channel = Conversation | Trace | Context | ToolUseLog

record agent_event_record =
  er_id :: string
  er_seq :: "u64 option"
  er_run_id :: string
  er_turn :: u64
  er_phase :: agent_phase
  er_channel :: agent_channel
  er_kind :: string
  er_ts :: int
  er_payload :: json
  er_preview :: "string option"
  er_truncated :: "bool option"
  er_original_bytes :: "u64 option"

record record_env =
  re_print :: "json \<Rightarrow> string option"
  re_parse :: "string \<Rightarrow> json option"

section \<open>JSON of the payload types\<close>

abbreviation json_nat :: "'a::len word \<Rightarrow> json" where
  "json_nat w \<equiv> JInt (uint w)"

fun json_opt :: "('a \<Rightarrow> json) \<Rightarrow> 'a option \<Rightarrow> json" where
  "json_opt f None = JNull"
| "json_opt f (Some x) = f x"

fun content_block_json :: "content_block \<Rightarrow> json"
and result_content_json :: "tool_result_content \<Rightarrow> json" where
  "content_block_json (CbText t) = JObj [(''type'', JStr ''text''), (''text'', JStr t)]"
| "content_block_json (CbThinking t) = JObj [(''type'', JStr ''thinking''), (''thinking'', JStr t)]"
| "content_block_json (CbToolUse i n v) =
     JObj [(''type'', JStr ''tool_use''), (''id'', JStr i), (''name'', JStr n), (''input'', v)]"
| "content_block_json (CbToolResult i c) =
     JObj [(''type'', JStr ''tool_result''), (''tool_use_id'', JStr i), (''content'', result_content_json c)]"
| "result_content_json (TrcText t) = JStr t"
| "result_content_json (TrcBlocks bs) = JArr (map content_block_json bs)"

fun stop_reason_json :: "stop_reason \<Rightarrow> json" where
  "stop_reason_json EndTurn = JStr ''end_turn''"
| "stop_reason_json StopToolUse = JStr ''tool_use''"
| "stop_reason_json MaxTokens = JStr ''max_tokens''"
| "stop_reason_json (StopOther s) = JObj [(''other'', JStr s)]"

definition usage_json :: "usage \<Rightarrow> json" where
  "usage_json u = JObj [(''input_tokens'', json_nat (input_tokens u)), (''output_tokens'', json_nat (output_tokens u))]"

fun cancel_reason_json :: "cancel_reason \<Rightarrow> json" where
  "cancel_reason_json CancelUser = JStr ''user''"
| "cancel_reason_json CancelParent = JStr ''parent''"
| "cancel_reason_json CancelHook = JStr ''hook''"
| "cancel_reason_json CancelDisposed = JStr ''disposed''"

fun failure_kind_json :: "llm_call_failure_kind \<Rightarrow> json" where
  "failure_kind_json (FailRequest Recoverable) = JObj [(''request'', JStr ''recoverable'')]"
| "failure_kind_json (FailRequest Unrecoverable) = JObj [(''request'', JStr ''unrecoverable'')]"
| "failure_kind_json InvalidResponse = JStr ''invalid_response''"

fun outcome_json :: "llm_call_outcome \<Rightarrow> json" where
  "outcome_json (CallSucceeded reason usage) =
     JObj [(''status'', JStr ''succeeded''), (''stop_reason'', stop_reason_json reason), (''usage'', json_opt usage_json usage)]"
| "outcome_json (CallFailed kind) = JObj [(''status'', JStr ''failed''), (''kind'', failure_kind_json kind)]"
| "outcome_json (CallCancelled reason) =
     JObj [(''status'', JStr ''cancelled''), (''reason'', cancel_reason_json reason)]"

fun tool_cancellation_json :: "tool_cancellation \<Rightarrow> json" where
  "tool_cancellation_json TcancelUser = JStr ''user''"
| "tool_cancellation_json TcancelParent = JStr ''parent''"
| "tool_cancellation_json TcancelHook = JStr ''hook''"
| "tool_cancellation_json TcancelDisposed = JStr ''disposed''"

fun tool_status_json :: "tool_status \<Rightarrow> json" where
  "tool_status_json Succeeded = JStr ''succeeded''"
| "tool_status_json (Failed retryable) = JObj [(''failed'', JObj [(''retryable'', JBool retryable)])]"
| "tool_status_json InvalidArguments = JStr ''invalid_arguments''"
| "tool_status_json UnknownTool = JStr ''unknown_tool''"
| "tool_status_json Denied = JStr ''denied''"
| "tool_status_json (ToolCancelled reason) = JObj [(''cancelled'', JObj [(''reason'', tool_cancellation_json reason)])]"
| "tool_status_json OutcomeUnknown = JStr ''outcome_unknown''"

fun tool_content_json :: "tool_content \<Rightarrow> json" where
  "tool_content_json (TcText t) = JObj [(''type'', JStr ''text''), (''value'', JStr t)]"
| "tool_content_json (TcJson v) = JObj [(''type'', JStr ''json''), (''value'', v)]"

fun compaction_kind_json :: "turn_compaction_kind \<Rightarrow> json" where
  "compaction_kind_json TurnPrune = JStr ''prune''"
| "compaction_kind_json TurnTailWindow = JStr ''tail_window''"
| "compaction_kind_json TurnSummary = JStr ''summary''"

fun pending_block_json :: "pending_block \<Rightarrow> json" where
  "pending_block_json (PbText t) = JObj [(''kind'', JStr ''text''), (''text'', JStr t)]"
| "pending_block_json (PbThinking t) = JObj [(''kind'', JStr ''thinking''), (''thinking'', JStr t)]"
| "pending_block_json (PbToolUse i n j) =
     JObj [(''kind'', JStr ''tool_use''), (''id'', JStr i), (''name'', JStr n), (''input_json'', JStr j)]"

definition snapshot_json :: "snapshot \<Rightarrow> json" where
  "snapshot_json s =
     JObj [(''content'', JArr (map content_block_json (sn_content s))),
       (''pending'', json_opt pending_block_json (sn_pending s)),
       (''stop_reason'', json_opt stop_reason_json (sn_stop_reason s)),
       (''usage'', json_opt usage_json (sn_usage s)), (''model'', json_opt JStr (sn_model s))]"

section \<open>Derivation\<close>

definition ellipsis :: string where
  "ellipsis = [CHR 0xE2, CHR 0x80, CHR 0xA6]"

definition truncate_preview :: "string \<Rightarrow> nat \<Rightarrow> string" where
  "truncate_preview s max_chars =
     (if char_count s \<le> max_chars then s else take_chars max_chars s @ ellipsis)"

text \<open>\<open>blocks_text\<close>: the text blocks of a message, joined.\<close>

definition blocks_text :: "content_block list \<Rightarrow> string" where
  "blocks_text blocks = concat (map (\<lambda>b. case b of CbText t \<Rightarrow> t | _ \<Rightarrow> []) blocks)"

type_synonym event_mapping = "u64 \<times> agent_phase \<times> agent_channel \<times> string \<times> json \<times> string option"

definition serialized :: "record_env \<Rightarrow> json \<Rightarrow> string \<Rightarrow> string + string" where
  "serialized E v context = ok_or (re_print E v) context"

definition tool_call_trace_payload :: "record_env \<Rightarrow> tool_call \<Rightarrow> string + json" where
  "tool_call_trace_payload E call =
     (case serialized E (call_input call) ''serialize committed tool call input'' of
        Inl e \<Rightarrow> Inl e
      | Inr s \<Rightarrow>
          Inr (JObj [(''toolName'', JStr (call_name call)), (''toolUseId'', JStr (call_id call)),
            (''charCount'', JInt (int (char_count s))), (''input'', call_input call)]))"

fun tool_result_body :: "record_env \<Rightarrow> tool_content \<Rightarrow> string + string" where
  "tool_result_body E (TcText t) = Inr t"
| "tool_result_body E (TcJson v) = serialized E v ''serialize tool result trace body''"

definition tool_result_trace_payload :: "record_env \<Rightarrow> tool_result \<Rightarrow> string + json \<times> string" where
  "tool_result_trace_payload E result =
     (case tool_result_body E (res_content result) of
        Inl e \<Rightarrow> Inl e
      | Inr body \<Rightarrow>
          Inr (JObj [(''toolName'', JStr (res_name result)), (''toolUseId'', JStr (res_id result)),
            (''status'', tool_status_json (res_status result)), (''content'', tool_content_json (res_content result)),
            (''body'', JStr body), (''charCount'', JInt (int (char_count body)))], body))"

text \<open>The three kinds of a message update.\<close>

definition body_update :: "u64 \<Rightarrow> u32 \<Rightarrow> string \<Rightarrow> string \<Rightarrow> string \<Rightarrow> event_mapping" where
  "body_update turn step llm_call_id kind body =
     (turn, PostLlm, Trace, kind,
      JObj [(''body'', JStr body), (''charCount'', JInt (int (char_count body))),
        (''llmCallId'', JStr llm_call_id), (''step'', json_nat step)],
      Some (truncate_preview body 120))"

definition tool_use_update ::
  "record_env \<Rightarrow> u64 \<Rightarrow> u32 \<Rightarrow> string \<Rightarrow> string \<Rightarrow> string \<Rightarrow> json \<Rightarrow> string \<Rightarrow> string + event_mapping" where
  "tool_use_update E turn step llm_call_id i name input context =
     (case serialized E input context of
        Inl e \<Rightarrow> Inl e
      | Inr s \<Rightarrow>
          Inr (turn, PostLlm, Trace, ''tool_use_update'',
            JObj [(''toolName'', JStr name), (''toolUseId'', JStr i), (''charCount'', JInt (int (char_count s))),
              (''input'', input), (''llmCallId'', JStr llm_call_id), (''step'', json_nat step)],
            Some name))"

definition with_snapshot :: "event_mapping \<Rightarrow> snapshot \<Rightarrow> string + event_mapping" where
  "with_snapshot m s =
     (case m of (turn, phase, channel, kind, payload, preview) \<Rightarrow>
        if json_is_object payload
        then Inr (turn, phase, channel, kind, json_put ''snapshot'' (snapshot_json s) payload, preview)
        else Inl ''serialize message update trace payload as object'')"

definition message_update_mapping ::
  "record_env \<Rightarrow> u64 \<Rightarrow> u32 \<Rightarrow> string \<Rightarrow> snapshot \<Rightarrow> string + event_mapping option" where
  "message_update_mapping E turn step llm_call_id s =
     (let finish = (\<lambda>r. case r of
            Inl e \<Rightarrow> Inl e
          | Inr m \<Rightarrow> (case with_snapshot m s of Inl e \<Rightarrow> Inl e | Inr m' \<Rightarrow> Inr (Some m'))) in
      case sn_pending s of
        Some (PbText t) \<Rightarrow> finish (Inr (body_update turn step llm_call_id ''assistant_text'' t))
      | Some (PbThinking t) \<Rightarrow> finish (Inr (body_update turn step llm_call_id ''thinking'' t))
      | Some (PbToolUse i name input_json) \<Rightarrow>
          let input = (case re_parse E input_json of Some v \<Rightarrow> v | None \<Rightarrow> JStr input_json) in
          finish (tool_use_update E turn step llm_call_id i name input ''serialize pending tool use update input'')
      | None \<Rightarrow>
          (case last_opt (sn_content s) of
             None \<Rightarrow> Inr None
           | Some (CbText t) \<Rightarrow> finish (Inr (body_update turn step llm_call_id ''assistant_text'' t))
           | Some (CbThinking t) \<Rightarrow> finish (Inr (body_update turn step llm_call_id ''thinking'' t))
           | Some (CbToolUse i name input) \<Rightarrow>
               finish (tool_use_update E turn step llm_call_id i name input ''serialize completed tool use update input'')
           | Some (CbToolResult _ _) \<Rightarrow> Inr None))"

fun event_mapping_of :: "record_env \<Rightarrow> turn_event \<Rightarrow> string + event_mapping option" where
  "event_mapping_of E (TurnStarted turn) =
     Inr (Some (turn, PreLlm, Trace, ''turn_started'', JObj [(''turn'', json_nat turn)], None))"
| "event_mapping_of E (TurnEnded turn) =
     Inr (Some (turn, Stop, Trace, ''turn_ended'', JObj [(''turn'', json_nat turn)], None))"
| "event_mapping_of E (UserPromptCommitted turn s) =
     Inr (Some (turn, PreLlm, Conversation, ''user_prompt'', JObj [(''text'', JStr s)], Some (truncate_preview s 120)))"
| "event_mapping_of E (AssistantFinalized turn llm_call_id blocks) =
     Inr (Some (turn, PostLlm, Conversation, ''final'',
       JObj [(''llmCallId'', JStr llm_call_id), (''blocks'', JArr (map content_block_json blocks)),
         (''text'', JStr (blocks_text blocks))],
       Some (truncate_preview (blocks_text blocks) 120)))"
| "event_mapping_of E (ToolCallRecorded turn call) =
     (case tool_call_trace_payload E call of
        Inl e \<Rightarrow> Inl e
      | Inr payload \<Rightarrow> Inr (Some (turn, PostTool, Trace, ''tool_use'', payload, Some (call_name call))))"
| "event_mapping_of E (ToolResultRecorded turn result) =
     (case tool_result_trace_payload E result of
        Inl e \<Rightarrow> Inl e
      | Inr (payload, body) \<Rightarrow>
          Inr (Some (turn, PostTool, Trace, ''tool_result'', payload, Some (truncate_preview body 120))))"
| "event_mapping_of E (LlmCallStarted turn step llm_call_id) =
     Inr (Some (turn, PostLlm, Trace, ''llm_call'',
       JObj [(''llmCallId'', JStr llm_call_id), (''step'', json_nat step), (''status'', JStr ''started'')], None))"
| "event_mapping_of E (LlmCallEnded turn step llm_call_id outcome) =
     Inr (Some (turn, PostLlm, Trace, ''llm_call'',
       JObj [(''llmCallId'', JStr llm_call_id), (''step'', json_nat step), (''status'', JStr ''ended''),
         (''outcome'', outcome_json outcome)], None))"
| "event_mapping_of E (MessageUpdate turn step llm_call_id s) = message_update_mapping E turn step llm_call_id s"
| "event_mapping_of E (CompactionApplied turn kind save_id excluded before after) =
     Inr (Some (turn, PostLlm, Context, ''context_compact'',
       JObj [(''turn'', json_nat turn), (''applied'', JBool True), (''compactionKind'', compaction_kind_json kind),
         (''compactionSaveId'', json_opt JStr save_id), (''excludedItemIds'', JArr (map JStr excluded)),
         (''beforeTokens'', json_opt json_nat before), (''afterTokens'', json_opt json_nat after)], None))"
| "event_mapping_of E (CompactionRecommended turn) =
     Inr (Some (turn, PostLlm, Context, ''context_compact'',
       JObj [(''turn'', json_nat turn), (''recommended'', JBool True)], None))"
| "event_mapping_of E (ContextPreflightEnded turn) =
     Inr (Some (turn, PreLlm, Context, ''metrics_pre'', JObj [(''report'', JObj [])], None))"
| "event_mapping_of E (ContextPostflightEnded turn) =
     Inr (Some (turn, PostLlm, Context, ''metrics_post'', JObj [(''report'', JObj [])], None))"

definition derive_agent_event ::
  "record_env \<Rightarrow> string \<Rightarrow> int \<Rightarrow> trace_context \<Rightarrow> turn_event \<Rightarrow> string + agent_event_record option" where
  "derive_agent_event E fresh_id now ctx e =
     (case event_mapping_of E e of
        Inl err \<Rightarrow> Inl err
      | Inr None \<Rightarrow> Inr None
      | Inr (Some (turn, phase, channel, kind, payload, preview)) \<Rightarrow>
          Inr (Some \<lparr>er_id = fresh_id, er_seq = None, er_run_id = tr_run_id ctx, er_turn = turn,
            er_phase = phase, er_channel = channel, er_kind = kind, er_ts = now, er_payload = payload,
            er_preview = preview, er_truncated = None, er_original_bytes = None\<rparr>))"

text \<open>
  \<open>DeriveAgentEventHook::on_event\<close> over a recorder with state \<open>q\<close>: its answer as the dispatcher
  sees it, and the recorder after it.
\<close>

definition derive_hook ::
  "record_env \<Rightarrow> ('q \<Rightarrow> agent_event_record \<Rightarrow> (string + unit) \<times> 'q) \<Rightarrow> string \<Rightarrow> int \<Rightarrow> trace_context \<Rightarrow>
   turn_event \<Rightarrow> 'q \<Rightarrow> (string + unit) \<times> 'q" where
  "derive_hook E push fresh_id now ctx e q =
     (case derive_agent_event E fresh_id now ctx e of
        Inl err \<Rightarrow> (Inl err, q)
      | Inr None \<Rightarrow> (Inr (), q)
      | Inr (Some r) \<Rightarrow> push q r)"

section \<open>Previews\<close>

lemma char_count_append [simp]: "char_count (s @ t) = char_count s + char_count t"
  by (simp add: char_count_def)

lemma ellipsis_count: "char_count ellipsis = 1"
  by code_simp

lemma truncate_preview_bound: "char_count (truncate_preview s n) \<le> n + 1"
  by (simp add: truncate_preview_def ellipsis_count char_count_take_chars)

lemma truncate_preview_prefix:
  "\<exists>p t. s = p @ t \<and> (truncate_preview s n = p \<and> t = [] \<or> truncate_preview s n = p @ ellipsis \<and> char_count p = n)"
proof (cases "char_count s \<le> n")
  case False
  obtain t where "s = take_chars n s @ t" using take_chars_prefix by blast
  with False show ?thesis
    by (intro exI [of _ "take_chars n s"] exI [of _ t])
      (simp add: truncate_preview_def char_count_take_chars)
next
  case True
  then show ?thesis by (intro exI [of _ s] exI [of _ "[]"]) (simp add: truncate_preview_def)
qed

end
