(* ===== verification/Utf8.thy ===== *)
theory Utf8
  imports Prelude
begin

text \<open>
  The part of the Rust standard library on byte strings that the tools and the event files use:
  cutting at a character boundary, \<open>String::from_utf8_lossy\<close>, decimal numbers and
  \<open>str::match_indices\<close>. The lemmas show that cutting and repairing always give valid UTF-8.
\<close>

section \<open>Character boundaries\<close>

text \<open>The loop that walks back to a character boundary, \<open>while !s.is_char_boundary(end) { end -= 1 }\<close>.\<close>

fun floor_boundary :: "string \<Rightarrow> nat \<Rightarrow> nat" where
  "floor_boundary s 0 = 0"
| "floor_boundary s (Suc k) =
     (if Suc k = length s \<or> Suc k < length s \<and> \<not> is_cont (s ! Suc k) then Suc k else floor_boundary s k)"

definition char_boundary :: "string \<Rightarrow> nat \<Rightarrow> bool" where
  "char_boundary s k \<longleftrightarrow> k = 0 \<or> k = length s \<or> (k < length s \<and> \<not> is_cont (s ! k))"

lemma floor_boundary_le: "floor_boundary s k \<le> k"
  by (induction s k rule: floor_boundary.induct) auto

lemma floor_boundary_boundary: "char_boundary s (floor_boundary s k)"
  by (induction s k rule: floor_boundary.induct) (auto simp: char_boundary_def)

section \<open>UTF-8 one character at a time\<close>

definition at :: "nat list \<Rightarrow> nat \<Rightarrow> nat" where
  "at s i = (if i < length s then s ! i else 0)"

definition second_ok :: "nat \<Rightarrow> nat \<Rightarrow> bool" where
  "second_ok a b \<longleftrightarrow> cont_byte b \<and> (a = 224 \<longrightarrow> 160 \<le> b) \<and> (a = 237 \<longrightarrow> b \<le> 159) \<and>
     (a = 240 \<longrightarrow> 144 \<le> b) \<and> (a = 244 \<longrightarrow> b \<le> 143)"

text \<open>
  The chunk a byte sequence starts with: a character and its length, or an ill-formed maximal
  subpart and its length, which is replaced as a whole.
\<close>

fun utf8_chunk :: "nat list \<Rightarrow> bool \<times> nat" where
  "utf8_chunk [] = (False, 0)"
| "utf8_chunk (a # s) =
     (if a < 128 then (True, 1)
      else if 194 \<le> a \<and> a \<le> 223 then (if cont_byte (at s 0) then (True, 2) else (False, 1))
      else if 224 \<le> a \<and> a \<le> 239 then
        (if \<not> second_ok a (at s 0) then (False, 1) else if \<not> cont_byte (at s 1) then (False, 2) else (True, 3))
      else if 240 \<le> a \<and> a \<le> 244 then
        (if \<not> second_ok a (at s 0) then (False, 1) else if \<not> cont_byte (at s 1) then (False, 2)
         else if \<not> cont_byte (at s 2) then (False, 3) else (True, 4))
      else (False, 1))"

definition replacement :: string where
  "replacement = [CHR 0xEF, CHR 0xBF, CHR 0xBD]"

lemma chunk_pos: "s \<noteq> [] \<Longrightarrow> 0 < snd (utf8_chunk s)"
  by (cases s) auto

function utf8_lossy :: "string \<Rightarrow> string" where
  "utf8_lossy [] = []"
| "utf8_lossy (c # s) =
     (case utf8_chunk (map byte (c # s)) of
        (good, n) \<Rightarrow> (if good then take n (c # s) else replacement) @ utf8_lossy (drop n (c # s)))"
  by pat_completeness auto
termination
proof (relation "measure length")
  fix c :: char and s good n
  assume "(good, n) = utf8_chunk (map byte (c # s))"
  then have "0 < n" using chunk_pos [of "map byte (c # s)"] by (metis list.map_disc_iff list.distinct(1) snd_conv)
  then show "(drop n (c # s), c # s) \<in> measure length" by simp
qed simp

declare utf8_lossy.simps(2) [simp del]

lemma not_cont_at: "\<not> cont_byte 0"
  by (simp add: cont_byte_def)

lemma at_simps [simp]: "at [] i = 0" "at (x # s) 0 = x" "at (x # s) (Suc i) = at s i"
  "at (x # s) (numeral k) = at s (pred_numeral k)"
  by (simp_all add: at_def numeral_eq_Suc)

lemma zero_bytes [simp]: "\<not> cont_byte 0" "\<not> second_ok a 0"
  by (simp_all add: cont_byte_def second_ok_def)

lemma second_cont: "second_ok a b \<Longrightarrow> cont_byte b"
  by (simp add: second_ok_def)

text \<open>A list seen through its first four elements.\<close>

lemma four_cases:
  obtains "s = []" | a where "s = [a]" | a b where "s = [a, b]" | a b c where "s = [a, b, c]"
    | a b c d r where "s = a # b # c # d # r"
  by (metis list.exhaust)

lemma chunk_length: "snd (utf8_chunk s) \<le> length s"
  by (rule four_cases [of s]) auto

lemma chunk_append: "utf8_chunk s = (True, n) \<Longrightarrow> utf8_chunk (take n s @ t) = (True, n)"
  by (rule four_cases [of s]) (auto split: if_splits)

lemma valid_chunk:
  "valid_utf8_bytes s \<longleftrightarrow> s = [] \<or> (\<exists>n. utf8_chunk s = (True, n) \<and> valid_utf8_bytes (drop n s))"
  by (rule four_cases [of s]) (auto simp: second_ok_def split: if_splits)

lemma chunk_conts:
  assumes "utf8_chunk s = (True, n)" "0 < i" "i < n"
  shows "cont_byte (s ! i)"
proof -
  from assms(2,3) have "i = 1 \<or> i = 2 \<or> i = 3 \<or> 4 \<le> i" by linarith
  with assms show ?thesis
    by (rule_tac four_cases [of s]) (auto dest: second_cont split: if_splits)
qed

declare utf8_chunk.simps(2) [simp del] valid_utf8_bytes.simps(2) [simp del]

lemma valid_append: "valid_utf8_bytes s \<Longrightarrow> valid_utf8_bytes t \<Longrightarrow> valid_utf8_bytes (s @ t)"
proof (induction s rule: length_induct)
  case (1 s)
  show ?case
  proof (cases "s = []")
    case False
    with "1.prems"(1) obtain n where n: "utf8_chunk s = (True, n)" "valid_utf8_bytes (drop n s)"
      using valid_chunk by blast
    with chunk_pos [OF False] chunk_length [of s] have len: "0 < n" "n \<le> length s" by simp_all
    with "1.IH" n(2) "1.prems"(2) False have "valid_utf8_bytes (drop n s @ t)" by simp
    from chunk_append [OF n(1), of "drop n s @ t"] have "utf8_chunk (s @ t) = (True, n)"
      by (metis append.assoc append_take_drop_id)
    with \<open>valid_utf8_bytes (drop n s @ t)\<close> len show ?thesis by (subst valid_chunk) simp
  qed (use "1.prems" in simp)
qed

lemma utf8_lossy_valid: "valid_utf8 s \<Longrightarrow> utf8_lossy s = s"
proof (induction s rule: utf8_lossy.induct)
  case (2 c s)
  from 2(2) obtain n where n: "utf8_chunk (map byte (c # s)) = (True, n)"
    and rest: "valid_utf8_bytes (drop n (map byte (c # s)))"
    unfolding valid_utf8_def using valid_chunk [of "map byte (c # s)"] by blast
  have "utf8_lossy (drop n (c # s)) = drop n (c # s)"
    by (rule 2(1) [OF n [symmetric]]) (use rest in \<open>simp add: valid_utf8_def drop_map del: list.map\<close>)
  with n show ?case by (subst utf8_lossy.simps) simp
qed simp

lemma valid_utf8_append: "valid_utf8 s \<Longrightarrow> valid_utf8 t \<Longrightarrow> valid_utf8 (s @ t)"
  by (simp add: valid_utf8_def valid_append)

lemma valid_take_chunk: "utf8_chunk s = (True, n) \<Longrightarrow> valid_utf8_bytes (take n s)"
  using chunk_append [of s n "[]"] valid_chunk [of "take n s"] valid_utf8_bytes.simps(1) by simp

theorem lossy_is_valid: "valid_utf8 (utf8_lossy s)"
proof (induction s rule: utf8_lossy.induct)
  case 1
  show ?case by (simp add: valid_utf8_def)
next
  case (2 c s)
  obtain good n where n: "utf8_chunk (map byte (c # s)) = (good, n)" by fastforce
  have rep: "valid_utf8 replacement" by code_simp
  have "valid_utf8 (take n (c # s))" if good
    using valid_take_chunk [of "map byte (c # s)" n] n that by (simp add: valid_utf8_def take_map del: list.map)
  with 2 [OF n [symmetric]] n rep show ?case
    by (subst utf8_lossy.simps) (auto intro: valid_utf8_append)
qed

text \<open>Cutting a valid string at a boundary.\<close>

lemma cont_byte_is_cont: "cont_byte (byte c) \<longleftrightarrow> is_cont c"
  by (auto simp: cont_byte_def is_cont_def)

lemma valid_take_boundary: "valid_utf8 s \<Longrightarrow> char_boundary s k \<Longrightarrow> valid_utf8 (take k s) \<and> valid_utf8 (drop k s)"
proof (induction s arbitrary: k rule: length_induct)
  case (1 s)
  show ?case
  proof (cases "s = [] \<or> k = 0 \<or> k \<ge> length s")
    case True
    with "1.prems"(1) show ?thesis by (auto simp: valid_utf8_def)
  next
    case False
    with "1.prems"(1) obtain n where n: "utf8_chunk (map byte s) = (True, n)" "valid_utf8 (drop n s)"
      unfolding valid_utf8_def using valid_chunk [of "map byte s"] by (auto simp: drop_map)
    with chunk_pos [of "map byte s"] chunk_length [of "map byte s"] False
    have len: "0 < n" "n \<le> length s" by simp_all
    have k: "n \<le> k"
    proof (rule ccontr)
      assume "\<not> n \<le> k"
      with chunk_conts [OF n(1), of k] False "1.prems"(2) len show False
        by (simp add: char_boundary_def cont_byte_is_cont)
    qed
    have "char_boundary (drop n s) (k - n)" using "1.prems"(2) k False by (auto simp: char_boundary_def)
    have "length (drop n s) < length s" using len False by simp
    with "1.IH" n(2) \<open>char_boundary (drop n s) (k - n)\<close>
    have IH: "valid_utf8 (take (k - n) (drop n s))" "valid_utf8 (drop (k - n) (drop n s))" by blast+
    have "valid_utf8 (take n s)" using valid_take_chunk [OF n(1)] by (simp add: valid_utf8_def take_map)
    from valid_utf8_append [OF this IH(1)] k have "valid_utf8 (take k s)" by (metis le_add_diff_inverse take_add)
    with IH(2) k show ?thesis by (metis drop_drop le_add_diff_inverse2)
  qed
qed

text \<open>
  A suffix of a valid string is at most three continuation bytes and a valid rest, so its repair is at
  most six bytes longer.
\<close>

lemma chunk_at_most_four: "snd (utf8_chunk s) \<le> 4"
  by (cases s) (simp_all add: utf8_chunk.simps(2))

lemma valid_suffix:
  "valid_utf8 s \<Longrightarrow> k \<le> length s \<Longrightarrow> \<exists>cs r. drop k s = cs @ r \<and> length cs \<le> 3 \<and> (\<forall>c \<in> set cs. is_cont c) \<and> valid_utf8 r"
proof (induction s arbitrary: k rule: length_induct)
  case (1 s)
  show ?case
  proof (cases "k = 0 \<or> s = []")
    case True
    with "1.prems" show ?thesis by (intro exI [of _ "[]"] exI [of _ s]) auto
  next
    case False
    with "1.prems"(1) obtain n where n: "utf8_chunk (map byte s) = (True, n)" "valid_utf8 (drop n s)"
      unfolding valid_utf8_def using valid_chunk [of "map byte s"] by (auto simp: drop_map)
    with chunk_pos [of "map byte s"] chunk_length [of "map byte s"] chunk_at_most_four [of "map byte s"] False
    have len: "0 < n" "n \<le> length s" "n \<le> 4" by simp_all
    show ?thesis
    proof (cases "n \<le> k")
      case True
      have "length (drop n s) < length s" "k - n \<le> length (drop n s)" using len False "1.prems"(2) by auto
      with "1.IH" n(2) have "\<exists>cs r. drop (k - n) (drop n s) = cs @ r \<and> length cs \<le> 3 \<and> (\<forall>c \<in> set cs. is_cont c) \<and> valid_utf8 r"
        by blast
      with True show ?thesis by simp
    next
      case less: False
      have "is_cont c" if "c \<in> set (take (n - k) (drop k s))" for c
      proof -
        from that obtain i where i: "i < n - k" "i < length s - k" "c = s ! (k + i)"
          by (auto simp: in_set_conv_nth)
        with chunk_conts [OF n(1), of "k + i"] False show ?thesis by (simp add: cont_byte_is_cont)
      qed
      moreover have "drop k s = take (n - k) (drop k s) @ drop n s"
        using less by (metis append_take_drop_id drop_drop le_add_diff_inverse2 nat_le_linear)
      ultimately show ?thesis
        using n(2) len False by (intro exI [of _ "take (n - k) (drop k s)"] exI [of _ "drop n s"]) auto
    qed
  qed
qed

lemma lossy_cont: "is_cont c \<Longrightarrow> utf8_lossy (c # s) = replacement @ utf8_lossy s"
  by (simp add: utf8_lossy.simps(2) utf8_chunk.simps(2) flip: cont_byte_is_cont) (auto simp: cont_byte_def)

lemma lossy_conts: "\<forall>c \<in> set cs. is_cont c \<Longrightarrow> length (utf8_lossy (cs @ r)) = 3 * length cs + length (utf8_lossy r)"
  by (induction cs) (simp_all add: lossy_cont replacement_def)

lemma lossy_suffix_length:
  assumes "valid_utf8 s" "k \<le> length s"
  shows "length (utf8_lossy (drop k s)) \<le> length s - k + 6"
proof -
  from valid_suffix [OF assms] obtain cs r where cs: "drop k s = cs @ r" "length cs \<le> 3"
    "\<forall>c \<in> set cs. is_cont c" "valid_utf8 r" by blast
  have "length cs + length r = length s - k" using cs(1) by (metis length_append length_drop)
  with cs(2) lossy_conts [OF cs(3), of r] utf8_lossy_valid [OF cs(4)] show ?thesis unfolding cs(1) by simp
qed

section \<open>Numbers\<close>

definition digit :: "nat \<Rightarrow> char" where
  "digit n = char_of (48 + n)"

text \<open>\<open>n.to_string()\<close>, and \<open>{n:w}\<close>, which pads with spaces on the left.\<close>

fun dec :: "nat \<Rightarrow> string" where
  "dec n = (if n < 10 then [digit n] else dec (n div 10) @ [digit (n mod 10)])"

declare dec.simps [simp del]

definition dec_width :: "nat \<Rightarrow> nat \<Rightarrow> string" where
  "dec_width w n = replicate (w - length (dec n)) CHR '' '' @ dec n"

definition dec_int :: "int \<Rightarrow> string" where
  "dec_int i = (if i < 0 then ''-'' @ dec (nat (- i)) else dec (nat i))"

section \<open>Searching\<close>

text \<open>
  \<open>match_indices\<close>: the offsets of the matches from left to right that do not overlap. The empty
  pattern is never searched for.
\<close>

function matches_from :: "nat \<Rightarrow> string \<Rightarrow> string \<Rightarrow> nat list" where
  "matches_from i p [] = []"
| "matches_from i p (c # s) =
     (if p \<noteq> [] \<and> take (length p) (c # s) = p then i # matches_from (i + length p) p (drop (length p) (c # s))
      else matches_from (i + 1) p s)"
  by pat_completeness auto
termination
  by (relation "measure (\<lambda>(i, p, s). length s)") (auto simp: neq_Nil_conv)

declare matches_from.simps(2) [simp del]

definition match_indices :: "string \<Rightarrow> string \<Rightarrow> nat list" where
  "match_indices p s = matches_from 0 p s"

lemma matches_from_sound:
  "j \<in> set (matches_from i p s) \<Longrightarrow> i \<le> j \<and> j - i + length p \<le> length s \<and> take (length p) (drop (j - i) s) = p"
proof (induction i p s rule: matches_from.induct)
  case (2 i p c s)
  show ?case
  proof (cases "p \<noteq> [] \<and> take (length p) (c # s) = p")
    case True
    then have len: "length p \<le> length (c # s)" by (metis length_take min.cobounded1)
    from 2(3) True consider "j = i" | "j \<in> set (matches_from (i + length p) p (drop (length p) (c # s)))"
      by (auto simp: matches_from.simps(2))
    then show ?thesis
    proof cases
      case 1
      with True len show ?thesis by simp
    next
      case tl: 2
      from 2(1) [OF True tl] len show ?thesis by (auto simp: drop_drop)
    qed
  next
    case False
    with 2(3) have "j \<in> set (matches_from (i + 1) p s)" by (simp add: matches_from.simps(2) split: if_splits)
    from 2(2) [OF False this] have *: "Suc i \<le> j" "j - Suc i + length p \<le> length s"
      "take (length p) (drop (j - Suc i) s) = p" unfolding Suc_eq_plus1 by blast+
    then have "j - i = Suc (j - Suc i)" by simp
    with * show ?thesis by simp
  qed
qed simp

text \<open>No match is reported exactly when the pattern does not occur.\<close>

lemma matches_from_none:
  "p \<noteq> [] \<Longrightarrow> matches_from i p s = [] \<longleftrightarrow> (\<forall>a b. s \<noteq> a @ p @ b)"
proof (induction i p s rule: matches_from.induct)
  case (2 i p c s)
  show ?case
  proof (cases "take (length p) (c # s) = p")
    case True
    then have "c # s = [] @ p @ drop (length p) (c # s)" by (metis append_Nil append_take_drop_id)
    then have "\<exists>a b. c # s = a @ p @ b" by blast
    with True 2(3) show ?thesis by (simp add: matches_from.simps(2))
  next
    case False
    then have "c # s \<noteq> p @ b" for b by auto
    with 2(2,3) False have "(\<forall>a b. c # s \<noteq> a @ p @ b) = (\<forall>a b. s \<noteq> a @ p @ b)"
      by (metis append_Cons append_Nil list.exhaust list.inject)
    with 2(2,3) False show ?thesis by (simp add: matches_from.simps(2))
  qed
qed simp

end
