(* ===== verification/Event_Log.thy ===== *)
theory Event_Log
  imports Event_Records Utf8
begin

text \<open>
  \<open>agent/src/log\<close>: the Agent Event Log. Rows pass a filter and a bounded queue
  (\<open>queued_recorder.rs\<close>), a worker takes them (\<open>worker.rs\<close>) and appends them to the file of
  the run (\<open>file_recorder.rs\<close>) under consecutive numbers. The JSON text of a row and its parser are
  arguments; messages are without the line number and the path. A poisoned lock is not modelled: each hold
  of the lock around the status is one step, and what an append or the worker does between two holds is
  a step of its own, so every interleaving of the source is one of the model.
\<close>

section \<open>The filter\<close>

datatype diagnostic_persistence = PersistOff | PersistErrors | PersistNormal | PersistDebug

text \<open>\<open>value[key]\<close>: \<open>Null\<close> where there is no such entry.\<close>

definition json_index :: "json \<Rightarrow> string \<Rightarrow> json" where
  "json_index v key = (case json_get key v of None \<Rightarrow> JNull | Some x \<Rightarrow> x)"

definition is_error_record :: "agent_event_record \<Rightarrow> bool" where
  "is_error_record r =
     (if er_kind r = ''llm_call'' then
        (case json_as_str (json_index (json_index (er_payload r) ''outcome'') ''status'') of
           None \<Rightarrow> False
         | Some status \<Rightarrow> status = ''failed'' \<or> status = ''cancelled'')
      else if er_kind r = ''tool_result'' then json_index (er_payload r) ''status'' \<noteq> JStr ''succeeded''
      else False)"

fun should_persist :: "diagnostic_persistence \<Rightarrow> agent_event_record \<Rightarrow> bool" where
  "should_persist PersistOff r = False"
| "should_persist PersistErrors r = is_error_record r"
| "should_persist PersistNormal r =
     (\<not> (er_kind r = ''assistant_text'' \<or> er_kind r = ''thinking'' \<or> er_kind r = ''tool_use_update''))"
| "should_persist PersistDebug r = True"

section \<open>The queue\<close>

datatype queue_state = Running | Degraded | Stopped

record queue_status =
  qs_state :: queue_state
  qs_dropped :: u64
  qs_last_error :: "string option"

definition status_default :: queue_status where
  "status_default = \<lparr>qs_state = Running, qs_dropped = 0, qs_last_error = None\<rparr>"

definition saturating_inc :: "u64 \<Rightarrow> u64" where
  "saturating_inc w = (if w = - 1 then w else w + 1)"

definition queue_capacity :: nat where
  "queue_capacity = 256"

text \<open>
  An append runs outside the lock between its steps: it is checked under the lock, sent without it,
  and a refusal is noted under the lock again. An append under way is in one of three phases.
\<close>

datatype append_phase = Checked agent_event_record | RefusedFull | RefusedClosed

definition append_check :: "diagnostic_persistence \<Rightarrow> agent_event_record \<Rightarrow> queue_status \<Rightarrow> append_phase option" where
  "append_check policy r st =
     (if \<not> should_persist policy r then None
      else if qs_state st = Stopped then None
      else Some (Checked r))"

definition append_send ::
  "agent_event_record \<Rightarrow> agent_event_record channel \<Rightarrow> append_phase option \<times> agent_event_record channel" where
  "append_send r ch =
     (case try_send r ch of
        (Sent, ch') \<Rightarrow> (None, ch')
      | (SendFull, ch') \<Rightarrow> (Some RefusedFull, ch')
      | (SendClosed, ch') \<Rightarrow> (Some RefusedClosed, ch'))"

fun append_end :: "append_phase \<Rightarrow> queue_status \<Rightarrow> (string + unit) \<times> queue_status" where
  "append_end RefusedFull st =
     (Inr (), st\<lparr>qs_state := Degraded, qs_dropped := saturating_inc (qs_dropped st),
        qs_last_error := Some ''agent event log queue full; event dropped''\<rparr>)"
| "append_end RefusedClosed st =
     (Inl ''agent event log worker channel closed'',
      st\<lparr>qs_state := Stopped, qs_last_error := Some ''agent event log worker channel closed''\<rparr>)"
| "append_end (Checked r) st = (Inr (), st)"

section \<open>The file\<close>

definition max_event_bytes :: nat where
  "max_event_bytes = 64 * 1024"

record file_recorder =
  fr_run_id :: string
  fr_bytes :: string
  fr_next_seq :: u64
  fr_last_turn :: "u64 option"

text \<open>The text of a row and its parser.\<close>

record row_serde =
  rw_enc :: "agent_event_record \<Rightarrow> string option"
  rw_dec :: "string \<Rightarrow> agent_event_record option"

definition fits_persisted_line :: "nat \<Rightarrow> bool" where
  "fits_persisted_line n = (n + 1 \<le> max_event_bytes)"

primrec truncate_value_strings :: "nat \<Rightarrow> json \<Rightarrow> json" where
  "truncate_value_strings limit (JStr s) =
     JStr (if length s > limit then take (floor_boundary s (min limit (length s))) s @ ellipsis else s)"
| "truncate_value_strings limit (JArr xs) = JArr (map (truncate_value_strings limit) xs)"
| "truncate_value_strings limit (JObj kvs) = JObj (map (map_prod id (truncate_value_strings limit)) kvs)"
| "truncate_value_strings limit JNull = JNull"
| "truncate_value_strings limit (JBool b) = JBool b"
| "truncate_value_strings limit (JInt i) = JInt i"
| "truncate_value_strings limit (JFloat f) = JFloat f"

text \<open>The length of the row as it is now; a row that does not serialise keeps the last length.\<close>

definition reencoded :: "row_serde \<Rightarrow> agent_event_record \<Rightarrow> nat \<Rightarrow> nat" where
  "reencoded S r n = (case rw_enc S r of None \<Rightarrow> n | Some b \<Rightarrow> length b)"

definition truncate_record :: "row_serde \<Rightarrow> agent_event_record \<Rightarrow> agent_event_record" where
  "truncate_record S r =
     (case rw_enc S r of
        None \<Rightarrow> r
      | Some b \<Rightarrow>
          if fits_persisted_line (length b) then r
          else
            let r1 = r\<lparr>er_truncated := Some True, er_original_bytes := Some (of_nat (length b)),
                       er_payload := truncate_value_strings (max_event_bytes div 4) (er_payload r)\<rparr>;
                n1 = reencoded S r1 (length b);
                r2 = (if fits_persisted_line n1 then r1 else r1\<lparr>er_payload := JObj [(''truncated'', JBool True)]\<rparr>);
                n2 = (if fits_persisted_line n1 then n1 else reencoded S r2 n1) in
            if fits_persisted_line n2 then r2 else r2\<lparr>er_preview := None\<rparr>)"

text \<open>A write to the file: all of it, or the first bytes of it and an error.\<close>

datatype write_outcome = WriteOk | WriteFailed nat string

text \<open>\<open>FileWriter::append_line\<close> on the bytes written so far.\<close>

definition writer_append_line :: "string \<Rightarrow> write_outcome \<Rightarrow> string \<Rightarrow> (string + unit) \<times> string" where
  "writer_append_line line out bytes =
     (if newline \<in> set line \<or> CHR 0x0D \<in> set line then (Inl ''file writer line contains a newline'', bytes)
      else case out of
        WriteOk \<Rightarrow> (Inr (), bytes @ line @ [newline])
      | WriteFailed k e \<Rightarrow> (Inl e, bytes @ take k (line @ [newline])))"

definition recorder_append ::
  "row_serde \<Rightarrow> write_outcome \<Rightarrow> agent_event_record \<Rightarrow> file_recorder \<Rightarrow> (string + unit) \<times> file_recorder" where
  "recorder_append S out r fr =
     (if er_run_id r \<noteq> fr_run_id fr
      then (Inl (''agent event runId mismatch: expected '' @ fr_run_id fr @ '', got '' @ er_run_id r), fr)
      else
        let r' = truncate_record S (r\<lparr>er_seq := Some (fr_next_seq fr)\<rparr>) in
        case rw_enc S r' of
          None \<Rightarrow> (Inl ''serialize agent event'', fr)
        | Some line \<Rightarrow>
            if length line + 1 > max_event_bytes
            then (Inl ''agent event exceeds 65536 bytes after truncation'', fr)
            else case writer_append_line line out (fr_bytes fr) of
              (Inl e, bytes) \<Rightarrow> (Inl e, fr\<lparr>fr_bytes := bytes\<rparr>)
            | (Inr _, bytes) \<Rightarrow>
                if fr_next_seq fr = - 1 then (Inl ''agent event sequence overflow'', fr\<lparr>fr_bytes := bytes\<rparr>)
                else (Inr (), fr\<lparr>fr_bytes := bytes, fr_next_seq := fr_next_seq fr + 1,
                               fr_last_turn := Some (er_turn r')\<rparr>))"

text \<open>The loop over the lines of an existing file.\<close>

fun read_state_lines ::
  "row_serde \<Rightarrow> string \<Rightarrow> string list \<Rightarrow> u64 \<Rightarrow> u64 option \<Rightarrow> string + u64 \<times> u64 option" where
  "read_state_lines S run_id [] next turn = Inr (next, turn)"
| "read_state_lines S run_id (line # lines) next turn =
     (if is_blank line then read_state_lines S run_id lines next turn
      else case rw_dec S line of
        None \<Rightarrow> Inl ''parse existing agent event line''
      | Some r \<Rightarrow>
          if er_run_id r \<noteq> run_id then Inl ''existing agent event line has another runId''
          else case er_seq r of
            None \<Rightarrow> Inl ''existing agent event line has no seq''
          | Some q \<Rightarrow>
              if q = - 1 then Inl ''agent event seq overflow''
              else if q + 1 > next then read_state_lines S run_id lines (q + 1) (Some (er_turn r))
              else read_state_lines S run_id lines next turn)"

definition read_existing_state :: "row_serde \<Rightarrow> string \<Rightarrow> string \<Rightarrow> string + u64 \<times> u64 option" where
  "read_existing_state S bytes run_id = read_state_lines S run_id (buf_lines bytes) 0 None"

text \<open>\<open>FileAgentEventRecorder::new\<close> on a file that holds \<open>bytes\<close>.\<close>

definition recorder_new :: "row_serde \<Rightarrow> string \<Rightarrow> string \<Rightarrow> string + file_recorder" where
  "recorder_new S bytes run_id =
     (case read_existing_state S bytes run_id of
        Inl e \<Rightarrow> Inl e
      | Inr (next, turn) \<Rightarrow>
          Inr \<lparr>fr_run_id = run_id, fr_bytes = bytes, fr_next_seq = next, fr_last_turn = turn\<rparr>)"

section \<open>The worker\<close>

definition mark_degraded :: "string \<Rightarrow> queue_status \<Rightarrow> queue_status" where
  "mark_degraded e st =
     st\<lparr>qs_state := (if qs_state st = Stopped then Stopped else Degraded), qs_last_error := Some e\<rparr>"

definition mark_stopped :: "string \<Rightarrow> queue_status \<Rightarrow> queue_status" where
  "mark_stopped e st = st\<lparr>qs_state := Stopped, qs_last_error := Some e\<rparr>"

text \<open>
  Where \<open>run_worker\<close> stands: in the select, in the drain of a flush, in the drain after the commands
  were closed, behind the loop, behind \<open>mark_stopped\<close> with the receiver still alive, and returned.
\<close>

datatype log_worker_phase = Selecting | Flushing | Closing | Leaving | Returning | Returned

text \<open>
  The whole log: the queue, the status, the recorder, the worker and the appends under way. The
  other fields follow what happened: the rows the queue took, the rows given to the recorder with the
  outcome of each write, the rows in the queue when the receiver was dropped, how many were refused
  by a full queue, how many failed in the recorder, and the answers to flush commands.
\<close>

record event_log =
  el_channel :: "agent_event_record channel"
  el_status :: queue_status
  el_recorder :: file_recorder
  el_worker :: log_worker_phase
  el_appends :: "append_phase list"
  el_taken :: "agent_event_record list"
  el_handled :: "(agent_event_record \<times> write_outcome) list"
  el_lost :: "agent_event_record list"
  el_refused :: nat
  el_failed :: nat
  el_flushes :: "(string + unit) list"

definition event_log_new :: "file_recorder \<Rightarrow> event_log" where
  "event_log_new fr =
     \<lparr>el_channel = channel_new queue_capacity, el_status = status_default, el_recorder = fr,
      el_worker = Selecting, el_appends = [], el_taken = [], el_handled = [], el_lost = [],
      el_refused = 0, el_failed = 0, el_flushes = []\<rparr>"

definition append_begins :: "diagnostic_persistence \<Rightarrow> agent_event_record \<Rightarrow> event_log \<Rightarrow> event_log" where
  "append_begins policy r l =
     (case append_check policy r (el_status l) of
        None \<Rightarrow> l
      | Some p \<Rightarrow> l\<lparr>el_appends := el_appends l @ [p]\<rparr>)"

text \<open>The \<open>i\<close>-th append under way goes on: a checked row is sent, a refusal is noted.\<close>

definition append_proceeds :: "nat \<Rightarrow> event_log \<Rightarrow> event_log" where
  "append_proceeds i l =
     (let others = take i (el_appends l) @ drop (Suc i) (el_appends l) in
      case el_appends l ! i of
        Checked r \<Rightarrow>
          (case append_send r (el_channel l) of
             (None, ch) \<Rightarrow> l\<lparr>el_channel := ch, el_appends := others, el_taken := el_taken l @ [r]\<rparr>
           | (Some p, ch) \<Rightarrow>
               l\<lparr>el_channel := ch, el_appends := (el_appends l)[i := p],
                 el_refused := el_refused l + (if p = RefusedFull then 1 else 0)\<rparr>)
      | p \<Rightarrow> l\<lparr>el_appends := others, el_status := snd (append_end p (el_status l))\<rparr>)"

text \<open>One row given to the recorder, in the select and in both drains.\<close>

definition handle_row :: "row_serde \<Rightarrow> write_outcome \<Rightarrow> agent_event_record \<Rightarrow> event_log \<Rightarrow> event_log" where
  "handle_row S out r l =
     (case recorder_append S out r (el_recorder l) of
        (res, fr) \<Rightarrow>
          l\<lparr>el_recorder := fr, el_handled := el_handled l @ [(r, out)],
            el_failed := el_failed l + (if is_ok res then 0 else 1),
            el_status := (case res of Inl e \<Rightarrow> mark_degraded e (el_status l) | Inr _ \<Rightarrow> el_status l)\<rparr>)"

text \<open>
  What the select can be given: a flush command, the end of the commands, or the end of the rows,
  which come to an end when every sender is gone and nothing is queued. The bias of the select is
  left out: a row may also be taken while a command waits.
\<close>

datatype select_event = FlushCommand | CommandsClosed | RowsClosed

definition worker_select :: "select_event \<Rightarrow> event_log \<Rightarrow> event_log" where
  "worker_select ev l =
     (if el_worker l \<noteq> Selecting then l
      else case ev of
        FlushCommand \<Rightarrow> l\<lparr>el_worker := Flushing\<rparr>
      | CommandsClosed \<Rightarrow> l\<lparr>el_worker := Closing\<rparr>
      | RowsClosed \<Rightarrow> if ch_queue (el_channel l) = [] then l\<lparr>el_worker := Leaving\<rparr> else l)"

text \<open>
  One step of the worker; \<open>out\<close> is what a write gives and \<open>flushed\<close> the error of a flush of the
  file. The receiver is dropped when the function returns, a step after the status is marked.
\<close>

definition log_worker_step :: "row_serde \<Rightarrow> write_outcome \<Rightarrow> string option \<Rightarrow> event_log \<Rightarrow> event_log" where
  "log_worker_step S out flushed l =
     (case el_worker l of
        Selecting \<Rightarrow>
          (case try_recv (el_channel l) of
             Some (r, ch) \<Rightarrow> handle_row S out r (l\<lparr>el_channel := ch\<rparr>)
           | None \<Rightarrow> l)
      | Flushing \<Rightarrow>
          (case try_recv (el_channel l) of
             Some (r, ch) \<Rightarrow> handle_row S out r (l\<lparr>el_channel := ch\<rparr>)
           | None \<Rightarrow>
               (case flushed of
                  None \<Rightarrow> l\<lparr>el_worker := Selecting, el_flushes := el_flushes l @ [Inr ()]\<rparr>
                | Some e \<Rightarrow>
                    l\<lparr>el_worker := Selecting, el_flushes := el_flushes l @ [Inl e],
                      el_status := mark_degraded e (el_status l)\<rparr>))
      | Closing \<Rightarrow>
          (case try_recv (el_channel l) of
             Some (r, ch) \<Rightarrow> handle_row S out r (l\<lparr>el_channel := ch\<rparr>)
           | None \<Rightarrow> l\<lparr>el_worker := Leaving\<rparr>)
      | Leaving \<Rightarrow>
          l\<lparr>el_worker := Returning,
            el_status := (case flushed of
               Some e \<Rightarrow> mark_stopped (''flush agent event log worker on stop: '' @ e) (el_status l)
             | None \<Rightarrow> mark_stopped ''agent event log worker stopped'' (el_status l))\<rparr>
      | Returning \<Rightarrow>
          l\<lparr>el_worker := Returned, el_lost := ch_queue (el_channel l),
            el_channel := (el_channel l)\<lparr>ch_queue := [], ch_open := False\<rparr>\<rparr>
      | Returned \<Rightarrow> l)"

text \<open>A log whose recorder could not be opened has no worker, and its receiver is dropped.\<close>

definition event_log_failed :: "string \<Rightarrow> file_recorder \<Rightarrow> event_log" where
  "event_log_failed e fr =
     (event_log_new fr)\<lparr>el_worker := Returned, el_status := mark_stopped e status_default,
       el_channel := (channel_new queue_capacity)\<lparr>ch_open := False\<rparr>\<rparr>"

text \<open>
  \<open>flush\<close>: without a worker its error; else the command is sent, which fails when the worker has
  returned, and the answer is awaited, \<open>None\<close> when the worker is gone before it gives one.
\<close>

definition handle_flush ::
  "bool \<Rightarrow> bool \<Rightarrow> (string + unit) option \<Rightarrow> queue_status \<Rightarrow> (string + unit) \<times> queue_status" where
  "handle_flush has_worker sent reply st =
     (if \<not> has_worker then
        (Inl (case qs_last_error st of Some e \<Rightarrow> e | None \<Rightarrow> ''agent event log worker is unavailable''), st)
      else if \<not> sent then
        (Inl ''send agent event log flush command: channel closed'',
         mark_stopped ''send agent event log flush command: channel closed'' st)
      else case reply of
        None \<Rightarrow>
          (Inl ''await agent event log worker flush: channel closed'',
           mark_stopped ''await agent event log worker flush: channel closed'' st)
      | Some result \<Rightarrow> (result, st))"

record log_status =
  ls_state :: queue_state
  ls_queue_capacity :: nat
  ls_queue_len :: nat
  ls_dropped :: u64
  ls_last_error :: "string option"

definition handle_status :: "event_log \<Rightarrow> log_status" where
  "handle_status l =
     \<lparr>ls_state = qs_state (el_status l), ls_queue_capacity = queue_capacity,
      ls_queue_len = queue_capacity - (ch_capacity (el_channel l) - length (ch_queue (el_channel l))),
      ls_dropped = qs_dropped (el_status l), ls_last_error = qs_last_error (el_status l)\<rparr>"

text \<open>The interleavings of any number of appends, the worker and the host.\<close>

inductive log_step :: "row_serde \<Rightarrow> diagnostic_persistence \<Rightarrow> event_log \<Rightarrow> event_log \<Rightarrow> bool" for S policy where
  begins: "log_step S policy l (append_begins policy r l)"
| proceeds: "i < length (el_appends l) \<Longrightarrow> log_step S policy l (append_proceeds i l)"
| selected: "log_step S policy l (worker_select ev l)"
| worked: "log_step S policy l (log_worker_step S out flushed l)"
| host_flush: "log_step S policy l (l\<lparr>el_status := snd (handle_flush has_worker sent reply (el_status l))\<rparr>)"

inductive_cases log_step_cases: "log_step S policy l l'"

section \<open>The filter on derived rows\<close>

text \<open>The events a host wants to see when it asks for errors, and the streaming updates.\<close>

fun is_failure_event :: "turn_event \<Rightarrow> bool" where
  "is_failure_event (LlmCallEnded _ _ _ (CallFailed _)) = True"
| "is_failure_event (LlmCallEnded _ _ _ (CallCancelled _)) = True"
| "is_failure_event (ToolResultRecorded _ r) = (res_status r \<noteq> Succeeded)"
| "is_failure_event _ = False"

fun is_update_event :: "turn_event \<Rightarrow> bool" where
  "is_update_event (MessageUpdate _ _ _ _) = True"
| "is_update_event _ = False"

lemma tool_status_succeeded: "tool_status_json s = JStr ''succeeded'' \<longleftrightarrow> s = Succeeded"
  by (cases s) auto

text \<open>The row of an event carries the mapping of the event.\<close>

lemma derived_row:
  "derive_agent_event E i now ctx e = Inr (Some r) \<Longrightarrow>
   event_mapping_of E e = Inr (Some (er_turn r, er_phase r, er_channel r, er_kind r, er_payload r, er_preview r))
   \<and> er_run_id r = tr_run_id ctx \<and> er_seq r = None"
  by (auto simp: derive_agent_event_def split: sum.splits option.splits)

lemma with_snapshot_kind:
  "with_snapshot (turn, phase, channel, kind, payload, preview) s = Inr (turn', phase', channel', kind', payload', preview') \<Longrightarrow>
   turn' = turn \<and> kind' = kind \<and> preview' = preview"
  by (auto simp: with_snapshot_def split: if_splits)

lemma update_mapping_kind:
  assumes "message_update_mapping E turn step i s = Inr (Some (turn', phase, channel, kind, payload, preview))"
  shows "turn' = turn \<and> kind \<in> {''assistant_text'', ''thinking'', ''tool_use_update''}"
  using assms
  by (auto simp: message_update_mapping_def body_update_def tool_use_update_def Let_def
      split: option.splits pending_block.splits content_block.splits sum.splits dest!: with_snapshot_kind)

lemma mapping_turn:
  "event_mapping_of E e = Inr (Some (turn, phase, channel, kind, payload, preview)) \<Longrightarrow> turn = ev_turn e"
  by (cases e) (auto split: sum.splits prod.splits dest!: update_mapping_kind)

lemma error_mapping:
  assumes "event_mapping_of E e = Inr (Some (turn, phase, channel, kind, payload, preview))"
    and "er_kind r = kind" and "er_payload r = payload"
  shows "is_error_record r = is_failure_event e"
proof (cases e)
  case (LlmCallEnded t step i outcome)
  with assms(1) show ?thesis
    by (cases outcome) (auto simp: is_error_record_def json_index_def assms(2,3))
next
  case (ToolResultRecorded t result)
  with assms(1) show ?thesis
    by (auto simp: is_error_record_def json_index_def tool_result_trace_payload_def tool_status_succeeded assms(2,3)
        split: sum.splits)
next
  case (MessageUpdate t step i s)
  with assms(1) update_mapping_kind [of E t step i s] show ?thesis by (auto simp: is_error_record_def assms(2,3))
qed (use assms(1) in \<open>auto simp: is_error_record_def json_index_def assms(2,3) split: sum.splits\<close>)

lemma normal_mapping:
  assumes "event_mapping_of E e = Inr (Some (turn, phase, channel, kind, payload, preview))"
    and "er_kind r = kind"
  shows "should_persist PersistNormal r = (\<not> is_update_event e)"
proof (cases e)
  case (MessageUpdate t step i s)
  with assms(1) update_mapping_kind [of E t step i s] show ?thesis by (auto simp: assms(2))
qed (use assms(1) in \<open>auto simp: assms(2) split: sum.splits prod.splits\<close>)

section \<open>The queue and the worker\<close>

text \<open>The rows given to the recorder, one after the other.\<close>

definition recorder_run :: "row_serde \<Rightarrow> (agent_event_record \<times> write_outcome) list \<Rightarrow> file_recorder \<Rightarrow> file_recorder" where
  "recorder_run S rows fr = fold (\<lambda>(r, out) fr. snd (recorder_append S out r fr)) rows fr"

lemma recorder_run_simps [simp]:
  "recorder_run S [] fr = fr"
  "recorder_run S (rows @ [(r, out)]) fr = snd (recorder_append S out r (recorder_run S rows fr))"
  by (simp_all add: recorder_run_def)

text \<open>The refusals of a full queue that are not noted yet.\<close>

definition pending_full :: "event_log \<Rightarrow> nat" where
  "pending_full l = length (filter (\<lambda>p. p = RefusedFull) (el_appends l))"

text \<open>
  What holds of the log in every state: the rows the queue took are the rows given to the recorder,
  in that order, then the queued ones, then those lost with the receiver; the file is what the
  recorder made of the first; the queue is bounded; a refusal by a full queue is counted as soon as
  its append is over; and a counted or failed row shows in the status.
\<close>

definition log_inv :: "row_serde \<Rightarrow> file_recorder \<Rightarrow> event_log \<Rightarrow> bool" where
  "log_inv S fr l \<longleftrightarrow>
     el_taken l = map fst (el_handled l) @ ch_queue (el_channel l) @ el_lost l
     \<and> el_recorder l = recorder_run S (el_handled l) fr
     \<and> (el_worker l \<noteq> Returned \<longrightarrow> el_lost l = [])
     \<and> (el_worker l = Returned \<longrightarrow> ch_queue (el_channel l) = [])
     \<and> ch_capacity (el_channel l) = queue_capacity
     \<and> length (ch_queue (el_channel l)) \<le> queue_capacity
     \<and> pending_full l \<le> el_refused l
     \<and> unat (qs_dropped (el_status l)) = min (el_refused l - pending_full l) 18446744073709551615
     \<and> (el_refused l > pending_full l \<or> el_failed l > 0 \<longrightarrow> qs_state (el_status l) \<noteq> Running)
     \<and> (el_worker l = Returned \<longrightarrow> \<not> ch_open (el_channel l))"

lemma unat_max_u64: "unat (- 1 :: u64) = 18446744073709551615"
  by (simp add: unsigned_minus_1_eq_mask mask_eq_exp_minus_1)

lemma saturating_inc_count:
  assumes "unat w = min n 18446744073709551615"
  shows "unat (saturating_inc w) = min (Suc n) 18446744073709551615"
proof (cases "w = - 1")
  case True
  with assms show ?thesis by (simp add: saturating_inc_def unat_max_u64)
next
  case False
  then have "unat w \<noteq> 18446744073709551615" by (metis unat_max_u64 word_unat_eq_iff)
  moreover have "unat w \<le> 18446744073709551615" using word_n1_ge [of w] by (simp add: word_le_nat_alt unat_max_u64)
  ultimately have "n < 18446744073709551615" using assms by linarith
  with False assms show ?thesis by (simp add: saturating_inc_def unat_plus_1)
qed

lemma recv_frame:
  assumes "try_recv ch = Some (r, ch')"
  shows "ch_queue ch = r # ch_queue ch' \<and> ch_capacity ch' = ch_capacity ch \<and> ch_open ch' = ch_open ch"
proof -
  have "ch_open ch' = ch_open ch" using assms by (cases "ch_queue ch") (auto simp: try_recv_def)
  with channel.pop_contents [OF assms] channel.pop_capacity [OF assms] show ?thesis by simp
qed

lemma recv_none: "try_recv ch = None \<longleftrightarrow> ch_queue ch = []"
  by (simp add: try_recv_def split: list.split)

text \<open>What the send of a checked row does to the channel.\<close>

lemma append_send_cases:
  obtains (taken) ch' where "append_send r ch = (None, ch')" "ch' = ch\<lparr>ch_queue := ch_queue ch @ [r]\<rparr>"
      "ch_open ch" "length (ch_queue ch) < ch_capacity ch"
    | (full) "append_send r ch = (Some RefusedFull, ch)" "ch_open ch" "ch_capacity ch \<le> length (ch_queue ch)"
    | (closed) "append_send r ch = (Some RefusedClosed, ch)" "\<not> ch_open ch"
proof -
  consider "\<not> ch_open ch" | "ch_open ch" "length (ch_queue ch) < ch_capacity ch"
    | "ch_open ch" "ch_capacity ch \<le> length (ch_queue ch)" by linarith
  then show thesis
    by cases (use that in \<open>auto simp: append_send_def try_send_def\<close>)
qed

lemma pending_full_at:
  assumes "i < length ps"
  shows "length (filter P ps) = length (filter P (take i ps @ drop (Suc i) ps)) + (if P (ps ! i) then 1 else 0)"
proof -
  have "length (filter P ps) = length (filter P (take i ps @ ps ! i # drop (Suc i) ps))"
    using id_take_nth_drop [OF assms] by simp
  then show ?thesis by simp
qed

lemma filter_update_at:
  assumes "i < length ps"
  shows "length (filter P (ps[i := p])) = length (filter P (take i ps @ drop (Suc i) ps)) + (if P p then 1 else 0)"
  using assms by (simp add: upd_conv_take_nth_drop)

lemma mark_degraded_simps [simp]:
  "qs_dropped (mark_degraded e st) = qs_dropped st" "qs_state (mark_degraded e st) \<noteq> Running"
  "qs_dropped (mark_stopped e st) = qs_dropped st" "qs_state (mark_stopped e st) = Stopped"
  by (simp_all add: mark_degraded_def mark_stopped_def)

lemma handle_row_frame [simp]:
  "el_channel (handle_row S out r l) = el_channel l" "el_worker (handle_row S out r l) = el_worker l"
  "el_appends (handle_row S out r l) = el_appends l" "el_taken (handle_row S out r l) = el_taken l"
  "el_handled (handle_row S out r l) = el_handled l @ [(r, out)]" "el_lost (handle_row S out r l) = el_lost l"
  "el_refused (handle_row S out r l) = el_refused l" "el_flushes (handle_row S out r l) = el_flushes l"
  "el_recorder (handle_row S out r l) = snd (recorder_append S out r (el_recorder l))"
  "qs_dropped (el_status (handle_row S out r l)) = qs_dropped (el_status l)"
  by (simp_all add: handle_row_def split: prod.split sum.split)

lemma handle_row_status:
  "qs_state (el_status (handle_row S out r l)) = Running \<Longrightarrow>
   qs_state (el_status l) = Running \<and> el_failed (handle_row S out r l) = el_failed l"
  by (auto simp: handle_row_def split: prod.splits sum.splits)

lemma pending_full_frame:
  "el_appends l' = el_appends l \<Longrightarrow> pending_full l' = pending_full l"
  by (simp add: pending_full_def)

lemma popped_row_inv:
  assumes "log_inv S fr l" and "try_recv (el_channel l) = Some (r, ch)"
  shows "log_inv S fr (handle_row S out r (l\<lparr>el_channel := ch\<rparr>))"
proof -
  let ?m = "l\<lparr>el_channel := ch\<rparr>"
  have p: "pending_full (handle_row S out r ?m) = pending_full l" by (rule pending_full_frame) simp
  have s: "qs_state (el_status (handle_row S out r ?m)) = Running \<Longrightarrow>
      qs_state (el_status l) = Running \<and> el_failed (handle_row S out r ?m) = el_failed l"
    using handle_row_status [of S out r ?m] by simp
  from assms(1) recv_frame [OF assms(2)] s show ?thesis
    unfolding log_inv_def p by fastforce
qed

text \<open>A status that keeps the count and does not come back to \<open>Running\<close>.\<close>

lemma status_inv:
  assumes "log_inv S fr l" and "qs_dropped st = qs_dropped (el_status l)"
    and "qs_state st = Running \<Longrightarrow> qs_state (el_status l) = Running"
  shows "log_inv S fr (l\<lparr>el_status := st\<rparr>)"
proof -
  have "pending_full (l\<lparr>el_status := st\<rparr>) = pending_full l" by (rule pending_full_frame) simp
  with assms show ?thesis unfolding log_inv_def by auto
qed

lemma worker_phase_inv:
  assumes "log_inv S fr l" and "el_worker l \<noteq> Returned" and "w \<noteq> Returned"
  shows "log_inv S fr (l\<lparr>el_worker := w\<rparr>)" "log_inv S fr (l\<lparr>el_worker := w, el_flushes := rs\<rparr>)"
  using assms by (simp_all add: log_inv_def pending_full_def)

lemma worker_select_inv: "log_inv S fr l \<Longrightarrow> log_inv S fr (worker_select ev l)"
  by (auto simp: worker_select_def worker_phase_inv split: select_event.split)

lemma flush_ends_inv:
  assumes "log_inv S fr l" and "el_worker l = Flushing"
  shows "log_inv S fr (l\<lparr>el_worker := Selecting, el_flushes := rs, el_status := mark_degraded e (el_status l)\<rparr>)"
  using status_inv [OF worker_phase_inv(2) [OF assms(1), of Selecting rs], of "mark_degraded e (el_status l)"] assms(2)
  by simp

lemma leave_inv:
  assumes "log_inv S fr l" and "el_worker l = Leaving"
  shows "log_inv S fr (l\<lparr>el_worker := Returning, el_status := mark_stopped e (el_status l)\<rparr>)"
  using status_inv [OF worker_phase_inv(1) [OF assms(1), of Returning], of "mark_stopped e (el_status l)"] assms(2)
  by simp

lemma return_inv:
  assumes "log_inv S fr l" and "el_worker l = Returning"
  shows "log_inv S fr (l\<lparr>el_worker := Returned, el_lost := ch_queue (el_channel l),
     el_channel := (el_channel l)\<lparr>ch_queue := [], ch_open := False\<rparr>\<rparr>)"
  using assms by (simp add: log_inv_def pending_full_def)

lemma log_worker_step_inv:
  assumes "log_inv S fr l"
  shows "log_inv S fr (log_worker_step S out flushed l)"
proof (cases "el_worker l")
  case Leaving
  with assms show ?thesis by (simp add: log_worker_step_def leave_inv split: option.split)
next
  case Returning
  with assms show ?thesis by (simp add: log_worker_step_def return_inv)
next
  case Flushing
  with assms show ?thesis
    by (auto simp: log_worker_step_def popped_row_inv flush_ends_inv worker_phase_inv split: option.split)
qed (use assms in \<open>auto simp: log_worker_step_def popped_row_inv worker_phase_inv split: option.split\<close>)

lemma append_begins_inv: "log_inv S fr l \<Longrightarrow> log_inv S fr (append_begins policy r l)"
  by (simp add: append_begins_def append_check_def log_inv_def pending_full_def)

lemma append_proceeds_inv:
  assumes inv: "log_inv S fr l" and i: "i < length (el_appends l)"
  shows "log_inv S fr (append_proceeds i l)"
proof -
  note at = pending_full_at [OF i, of "\<lambda>p. p = RefusedFull"] filter_update_at [OF i, of "\<lambda>p. p = RefusedFull"]
  show ?thesis
  proof (cases "el_appends l ! i")
    case (Checked r)
    show ?thesis
    proof (cases r "el_channel l" rule: append_send_cases)
      case (taken ch')
      have "el_worker l \<noteq> Returned" using inv taken(3) by (auto simp: log_inv_def)
      with inv taken Checked at show ?thesis
        by (simp add: append_proceeds_def log_inv_def pending_full_def)
    next
      case full
      with inv Checked at show ?thesis by (simp add: append_proceeds_def log_inv_def pending_full_def)
    next
      case closed
      with inv Checked at show ?thesis by (simp add: append_proceeds_def log_inv_def pending_full_def)
    qed
  next
    case RefusedFull
    let ?rest = "length (filter (\<lambda>p. p = RefusedFull) (take i (el_appends l) @ drop (Suc i) (el_appends l)))"
    have p: "pending_full l = Suc ?rest" using at(1) RefusedFull by (simp add: pending_full_def)
    have le: "pending_full l \<le> el_refused l"
      and n: "unat (qs_dropped (el_status l)) = min (el_refused l - pending_full l) 18446744073709551615"
      using inv by (simp_all add: log_inv_def)
    have "el_refused l - ?rest = Suc (el_refused l - pending_full l)" using p le by simp
    then have "unat (saturating_inc (qs_dropped (el_status l))) = min (el_refused l - ?rest) 18446744073709551615"
      using saturating_inc_count [OF n] by simp
    with inv RefusedFull p le show ?thesis
      by (simp add: append_proceeds_def log_inv_def pending_full_def)
  next
    case RefusedClosed
    with inv at(1) show ?thesis by (simp add: append_proceeds_def log_inv_def pending_full_def)
  qed
qed

lemma handle_flush_status:
  "qs_dropped (snd (handle_flush has_worker sent reply st)) = qs_dropped st"
  "qs_state (snd (handle_flush has_worker sent reply st)) = Running \<Longrightarrow> qs_state st = Running"
  by (auto simp: handle_flush_def split: if_splits option.splits)

lemma log_step_inv: "log_step S policy l l' \<Longrightarrow> log_inv S fr l \<Longrightarrow> log_inv S fr l'"
  by (erule log_step_cases)
    (simp_all add: append_begins_inv append_proceeds_inv worker_select_inv log_worker_step_inv status_inv handle_flush_status)

lemma event_log_new_inv: "log_inv S fr (event_log_new fr)" "log_inv S fr (event_log_failed e fr)"
  by (simp_all add: log_inv_def event_log_new_def event_log_failed_def channel_new_def status_default_def
      mark_stopped_def pending_full_def)

lemma log_steps_inv: "(log_step S policy)\<^sup>*\<^sup>* l l' \<Longrightarrow> log_inv S fr l \<Longrightarrow> log_inv S fr l'"
  by (induction rule: rtranclp_induct) (auto dest: log_step_inv)

section \<open>Numbering and reopening\<close>

lemma buf_lines_append:
  "bytes = [] \<or> last bytes = newline \<Longrightarrow> buf_lines (bytes @ s) = buf_lines bytes @ buf_lines s"
proof (induction bytes rule: length_induct)
  case (1 bytes)
  show ?case
  proof (cases "bytes = []")
    case False
    with 1(2) have n: "newline \<in> set bytes" by (metis last_in_set)
    then obtain l rest where b: "bytes = l @ newline # rest" and l: "newline \<notin> set l"
      by (meson split_list_first)
    have "rest = [] \<or> last rest = newline" using 1(2) b by (auto split: if_splits)
    then have "buf_lines (rest @ s) = buf_lines rest @ buf_lines s" using 1(1) b by auto
    then show ?thesis by (simp add: b buf_lines_line [OF l])
  qed simp
qed

lemma read_state_lines_append:
  "read_state_lines S run_id (xs @ ys) nseq turn =
     (case read_state_lines S run_id xs nseq turn of
        Inl e \<Rightarrow> Inl e
      | Inr (nseq', turn') \<Rightarrow> read_state_lines S run_id ys nseq' turn')"
  by (induction S run_id xs nseq turn rule: read_state_lines.induct) (auto split: option.splits)

text \<open>What \<open>serde_json\<close> guarantees of a row: it parses back, on one line that is not blank.\<close>

definition row_codec_ok :: "row_serde \<Rightarrow> bool" where
  "row_codec_ok S \<longleftrightarrow> (\<forall>r l. rw_enc S r = Some l \<longrightarrow>
     rw_dec S l = Some r \<and> newline \<notin> set l \<and> CHR 0x0D \<notin> set l \<and> \<not> is_blank l)"

lemma row_codec_okD:
  assumes "row_codec_ok S" and "rw_enc S r = Some l"
  shows "rw_dec S l = Some r" "newline \<notin> set l" "CHR 0x0D \<notin> set l" "\<not> is_blank l"
  using assms by (simp_all add: row_codec_ok_def)

lemma truncate_record_frame [simp]:
  "er_run_id (truncate_record S r) = er_run_id r" "er_seq (truncate_record S r) = er_seq r"
  "er_turn (truncate_record S r) = er_turn r"
  by (simp_all add: truncate_record_def Let_def split: option.split)

text \<open>One append: nothing changes, or one row under the next number stands at the end of the file.\<close>

lemma recorder_append_ok:
  assumes "recorder_append S out r fr = (Inr u, fr')"
  shows "\<exists>line. rw_enc S (truncate_record S (r\<lparr>er_seq := Some (fr_next_seq fr)\<rparr>)) = Some line
    \<and> length line + 1 \<le> max_event_bytes \<and> newline \<notin> set line \<and> CHR 0x0D \<notin> set line
    \<and> er_run_id r = fr_run_id fr \<and> fr_next_seq fr \<noteq> - 1
    \<and> fr' = fr\<lparr>fr_bytes := fr_bytes fr @ line @ [newline], fr_next_seq := fr_next_seq fr + 1,
        fr_last_turn := Some (er_turn r)\<rparr>"
  using assms
  by (auto simp: recorder_append_def writer_append_line_def Let_def
      split: if_splits option.splits write_outcome.splits prod.splits)

lemma recorder_append_unwritten:
  assumes "recorder_append S (WriteFailed 0 e) r fr = (res, fr')"
  shows "fr' = fr"
  using assms
  by (auto simp: recorder_append_def writer_append_line_def Let_def split: if_splits option.splits prod.splits)

lemma recorder_append_whole:
  assumes "recorder_append S WriteOk r fr = (Inl e, fr')" and "fr_next_seq fr \<noteq> - 1"
  shows "fr' = fr"
  using assms
  by (auto simp: recorder_append_def writer_append_line_def Let_def split: if_splits option.splits prod.splits)

text \<open>A recorder that agrees with its file, which ends at a line.\<close>

definition recorder_synced :: "row_serde \<Rightarrow> file_recorder \<Rightarrow> bool" where
  "recorder_synced S fr \<longleftrightarrow> recorder_new S (fr_bytes fr) (fr_run_id fr) = Inr fr
     \<and> (fr_bytes fr = [] \<or> last (fr_bytes fr) = newline)"

lemma recorder_synced_iff:
  "recorder_synced S fr \<longleftrightarrow>
     read_state_lines S (fr_run_id fr) (buf_lines (fr_bytes fr)) 0 None = Inr (fr_next_seq fr, fr_last_turn fr)
     \<and> (fr_bytes fr = [] \<or> last (fr_bytes fr) = newline)"
  by (cases fr) (auto simp: recorder_synced_def recorder_new_def read_existing_state_def split: sum.splits)

lemma next_seq_less: "(w :: u64) \<noteq> - 1 \<Longrightarrow> w < w + 1"
  by (simp add: word_less_nat_alt unat_plus_1)

lemma recorder_append_synced:
  assumes codec: "row_codec_ok S" and synced: "recorder_synced S fr"
    and app: "recorder_append S out r fr = (Inr u, fr')"
  shows "recorder_synced S fr'"
proof -
  obtain line where l: "rw_enc S (truncate_record S (r\<lparr>er_seq := Some (fr_next_seq fr)\<rparr>)) = Some line"
    "newline \<notin> set line" "er_run_id r = fr_run_id fr" "fr_next_seq fr \<noteq> - 1" "CHR 0x0D \<notin> set line"
    and fr': "fr' = fr\<lparr>fr_bytes := fr_bytes fr @ line @ [newline], fr_next_seq := fr_next_seq fr + 1,
        fr_last_turn := Some (er_turn r)\<rparr>"
    using recorder_append_ok [OF app] by blast
  have strip: "strip_cr line = line" using l(5) last_in_set [of line] by (metis strip_cr_def)
  have "buf_lines (fr_bytes fr @ line @ [newline]) = buf_lines (fr_bytes fr) @ [line]"
    using synced buf_lines_line [OF l(2), of "[]"] by (simp add: recorder_synced_iff buf_lines_append strip)
  then show ?thesis
    using synced next_seq_less [OF l(4)] row_codec_okD [OF codec l(1)] l(3,4)
    by (simp add: recorder_synced_iff fr' read_state_lines_append)
qed

text \<open>A run of appends where each write is whole or leaves no byte.\<close>

fun recorder_appends :: "row_serde \<Rightarrow> (agent_event_record \<times> string option) list \<Rightarrow> file_recorder \<Rightarrow> file_recorder" where
  "recorder_appends S [] fr = fr"
| "recorder_appends S ((r, err) # xs) fr =
     recorder_appends S xs
       (snd (recorder_append S (case err of None \<Rightarrow> WriteOk | Some e \<Rightarrow> WriteFailed 0 e) r fr))"

lemma recorder_append_seq:
  assumes "recorder_append S (case err of None \<Rightarrow> WriteOk | Some e \<Rightarrow> WriteFailed 0 e) r fr = (res, fr')"
    and "fr_next_seq fr \<noteq> - 1"
  shows "fr' = fr \<or> res = Inr () \<and> fr_next_seq fr' = fr_next_seq fr + 1"
proof (cases res)
  case (Inl e)
  with assms recorder_append_unwritten [of S _ r fr res fr'] recorder_append_whole [of S r fr e fr'] show ?thesis
    by (cases err) auto
next
  case (Inr u)
  from recorder_append_ok [OF assms(1) [unfolded Inr]] show ?thesis by (auto simp: Inr)
qed

lemma recorder_appends_synced:
  assumes "row_codec_ok S"
  shows "recorder_synced S fr \<Longrightarrow> unat (fr_next_seq fr) + length xs < 2 ^ 64 \<Longrightarrow>
    recorder_synced S (recorder_appends S xs fr)"
proof (induction xs arbitrary: fr)
  case (Cons x xs)
  obtain r err where x: "x = (r, err)" by (cases x)
  obtain res fr' where a: "recorder_append S (case err of None \<Rightarrow> WriteOk | Some e \<Rightarrow> WriteFailed 0 e) r fr = (res, fr')"
    by fastforce
  have not_max: "fr_next_seq fr \<noteq> - 1"
  proof
    assume "fr_next_seq fr = - 1"
    then have "unat (fr_next_seq fr) = 18446744073709551615" by (simp add: unsigned_minus_1_eq_mask mask_eq_exp_minus_1)
    with Cons.prems(2) show False by simp
  qed
  have "recorder_synced S fr' \<and> unat (fr_next_seq fr') + length xs < 2 ^ 64"
    using recorder_append_seq [OF a not_max]
  proof
    assume "fr' = fr"
    with Cons.prems show ?thesis by simp
  next
    assume r: "res = Inr () \<and> fr_next_seq fr' = fr_next_seq fr + 1"
    with a have "recorder_synced S fr'" using recorder_append_synced [OF assms Cons.prems(1)] by blast
    with r Cons.prems(2) not_max show ?thesis by (simp add: unat_plus_1)
  qed
  with Cons.IH [of fr'] a x show ?case by simp
qed simp
section \<open>Properties\<close>

text \<open>
  what each level of diagnostics keeps of a derived row, said of the event it comes from: \<open>errors\<close>
  keeps the failed and cancelled model calls and the tool results that did not succeed, \<open>normal\<close>
  all but the streaming updates. The row stands under the turn of its event.
\<close>

theorem persisted_rows_exact:
  assumes "derive_agent_event E i now ctx e = Inr (Some r)"
  shows "should_persist PersistErrors r = is_failure_event e
    \<and> should_persist PersistNormal r = (\<not> is_update_event e)
    \<and> should_persist PersistDebug r \<and> \<not> should_persist PersistOff r
    \<and> er_turn r = ev_turn e \<and> er_run_id r = tr_run_id ctx"
proof -
  note m = derived_row [OF assms]
  from error_mapping [OF conjunct1 [OF m] refl refl] normal_mapping [OF conjunct1 [OF m] refl]
    mapping_turn [OF conjunct1 [OF m]] m show ?thesis by simp
qed

definition plain_env :: record_env where
  "plain_env = \<lparr>re_print = (\<lambda>_. Some ''{}''), re_parse = (\<lambda>_. None)\<rparr>"

theorem persisted_rows_exact_witness:
  "\<exists>r. derive_agent_event plain_env ''id'' 0 (trace_new ''run'' ''s'') (LlmCallEnded 3 1 ''c'' (CallCancelled CancelUser)) = Inr (Some r)
     \<and> should_persist PersistErrors r \<and> er_turn r = 3"
proof -
  obtain r where r: "derive_agent_event plain_env ''id'' 0 (trace_new ''run'' ''s'')
      (LlmCallEnded 3 1 ''c'' (CallCancelled CancelUser)) = Inr (Some r)"
    by (simp add: derive_agent_event_def)
  with persisted_rows_exact [OF r] show ?thesis by simp
qed

text \<open>
  C22: the diagnostic log over any interleaving of appends, the worker and the host. The file is
  what the recorder makes of the rows given to it, and these are the rows the queue took, in the
  order it took them, but for at most 256 that wait and those still queued when a worker that has
  ended drops its receiver. Every row refused by a full queue is counted by
  the time its append is over (up to the largest 64-bit number), and a counted row or one whose write
  failed leaves the status no longer \<open>Running\<close>. A flush is answered only when every row taken so far
  was given to the recorder. Not counted: rows skipped under a stopped status, refused by a closed
  queue, lost with the receiver, or not written.
\<close>

theorem event_log_order:
  assumes "(log_step S policy)\<^sup>*\<^sup>* (event_log_new fr) l"
  shows "el_recorder l = recorder_run S (el_handled l) fr
    \<and> el_taken l = map fst (el_handled l) @ ch_queue (el_channel l) @ el_lost l
    \<and> length (ch_queue (el_channel l)) \<le> 256
    \<and> (el_lost l = [] \<or> el_worker l = Returned)
    \<and> unat (qs_dropped (el_status l)) = min (el_refused l - pending_full l) 18446744073709551615
    \<and> (qs_state (el_status l) = Running \<longrightarrow> el_refused l = pending_full l \<and> el_failed l = 0)
    \<and> (el_flushes (log_worker_step S out flushed l) = el_flushes l \<or> map fst (el_handled l) = el_taken l)"
proof -
  have inv: "log_inv S fr l" using log_steps_inv [OF assms] event_log_new_inv by blast
  have "el_flushes (log_worker_step S out flushed l) = el_flushes l \<or> el_worker l = Flushing \<and> ch_queue (el_channel l) = []"
    by (auto simp: log_worker_step_def recv_none split: log_worker_phase.split option.split)
  with inv show ?thesis by (auto simp: log_inv_def queue_capacity_def)
qed

definition sample_row :: agent_event_record where
  "sample_row = \<lparr>er_id = ''e'', er_seq = Some 0, er_run_id = ''run'', er_turn = 1, er_phase = PreLlm,
     er_channel = Trace, er_kind = ''turn_started'', er_ts = 0, er_payload = JNull, er_preview = None,
     er_truncated = None, er_original_bytes = None\<rparr>"

definition sample_serde :: row_serde where
  "sample_serde =
     \<lparr>rw_enc = (\<lambda>r. if r = sample_row then Some ''row'' else None),
      rw_dec = (\<lambda>s. if s = ''row'' then Some sample_row else None)\<rparr>"

definition fresh_recorder :: file_recorder where
  "fresh_recorder = \<lparr>fr_run_id = ''run'', fr_bytes = [], fr_next_seq = 0, fr_last_turn = None\<rparr>"

text \<open>A log that runs through the steps of a list.\<close>

definition sample_log :: "diagnostic_persistence \<Rightarrow> event_log" where
  "sample_log policy = append_proceeds 0 (append_begins policy sample_row (event_log_new fresh_recorder))"

lemmas log_run_defs = append_proceeds_def append_begins_def append_check_def append_send_def event_log_new_def
  channel_new_def status_default_def try_send_def try_recv_def queue_capacity_def log_worker_step_def worker_select_def
  handle_row_def

lemma sample_log_reached:
  "(log_step S PersistDebug)\<^sup>*\<^sup>* (event_log_new fresh_recorder) (sample_log PersistDebug)"
proof -
  have "log_step S PersistDebug (append_begins PersistDebug sample_row (event_log_new fresh_recorder)) (sample_log PersistDebug)"
    unfolding sample_log_def by (rule log_step.proceeds) (simp add: log_run_defs)
  with log_step.begins show ?thesis by (meson converse_rtranclp_into_rtranclp r_into_rtranclp)
qed

theorem event_log_order_witness:
  "fr_bytes (el_recorder (log_worker_step sample_serde WriteOk None (worker_select FlushCommand (sample_log PersistDebug)))) =
     ''row'' @ [newline]
   \<and> el_handled (log_worker_step sample_serde WriteOk None (worker_select FlushCommand (sample_log PersistDebug))) =
     [(sample_row, WriteOk)]"
proof -
  let ?f = "worker_select FlushCommand (sample_log PersistDebug)"
  let ?l = "log_worker_step sample_serde WriteOk None ?f"
  have steps: "log_step sample_serde PersistDebug (sample_log PersistDebug) ?f" "log_step sample_serde PersistDebug ?f ?l"
    by (rule log_step.selected, rule log_step.worked)
  have "(log_step sample_serde PersistDebug)\<^sup>*\<^sup>* (event_log_new fresh_recorder) ?l"
    using sample_log_reached steps by (meson rtranclp.rtrancl_into_rtrancl)
  from event_log_order [OF this] have r: "el_recorder ?l = recorder_run sample_serde (el_handled ?l) fresh_recorder"
    by blast
  have h: "el_handled ?l = [(sample_row, WriteOk)]"
    by (simp add: sample_log_def log_run_defs split: prod.split)
  have "snd (recorder_append sample_serde WriteOk sample_row fresh_recorder) =
      \<lparr>fr_run_id = ''run'', fr_bytes = ''row'' @ [newline], fr_next_seq = 1, fr_last_turn = Some 1\<rparr>"
    by (simp add: recorder_append_def fresh_recorder_def sample_row_def sample_serde_def truncate_record_def
        fits_persisted_line_def max_event_bytes_def writer_append_line_def newline_def)
  with r h show ?thesis by (simp add: recorder_run_def)
qed

text \<open>
  a row can be lost without a trace. An append that passed the check before the worker marks the
  status is sent after the last drain: the queue takes it, the append reports success, and the
  receiver is dropped with the row in the queue, which no count and no error tells of.
\<close>

theorem late_row_lost:
  "\<exists>l. (log_step sample_serde PersistDebug)\<^sup>*\<^sup>* (event_log_new fresh_recorder) l
     \<and> el_lost l = [sample_row] \<and> el_taken l = [sample_row] \<and> el_handled l = []
     \<and> qs_dropped (el_status l) = 0 \<and> qs_last_error (el_status l) = Some ''agent event log worker stopped''"
proof -
  let ?a = "append_begins PersistDebug sample_row (event_log_new fresh_recorder)"
  let ?b = "worker_select CommandsClosed ?a"
  let ?c = "log_worker_step sample_serde WriteOk None (log_worker_step sample_serde WriteOk None ?b)"
  let ?d = "append_proceeds 0 ?c"
  let ?e = "log_worker_step sample_serde WriteOk None ?d"
  have d: "log_step sample_serde PersistDebug ?c ?d"
    by (rule log_step.proceeds) (simp add: log_run_defs)
  have steps: "log_step sample_serde PersistDebug (event_log_new fresh_recorder) ?a" "log_step sample_serde PersistDebug ?a ?b"
    by (rule log_step.begins, rule log_step.selected)
  have worked: "log_step sample_serde PersistDebug m (log_worker_step sample_serde WriteOk None m)" for m
    by (rule log_step.worked)
  have "(log_step sample_serde PersistDebug)\<^sup>*\<^sup>* (event_log_new fresh_recorder) ?c"
    using steps worked by (meson rtranclp.rtrancl_into_rtrancl r_into_rtranclp)
  then have "(log_step sample_serde PersistDebug)\<^sup>*\<^sup>* (event_log_new fresh_recorder) ?e"
    using d worked by (meson rtranclp.rtrancl_into_rtrancl)
  moreover have "el_lost ?e = [sample_row]" "el_taken ?e = [sample_row]" "el_handled ?e = []"
    "qs_dropped (el_status ?e) = 0" "qs_last_error (el_status ?e) = Some ''agent event log worker stopped''"
    by (simp_all add: log_run_defs mark_stopped_def)
  ultimately show ?thesis by blast
qed

text \<open>
  the status of a stopped log does not stay stopped: a refusal by a full queue that is noted after
  the worker stopped sets it back to \<open>Degraded\<close>.
\<close>

theorem stopped_status_reopened:
  "qs_state (snd (append_end RefusedFull (mark_stopped e st))) = Degraded"
  by simp

text \<open>
  closing the file of a run and opening it again continues where it stopped: after any appends
  whose writes were whole or left no byte, refused and failed ones among them, a new recorder on the
  same bytes has the same next number and turn. Rows parse back, on a line of their own.
\<close>

theorem recorder_reopens:
  assumes "row_codec_ok S" and "recorder_new S bytes run_id = Inr fr" and "bytes = [] \<or> last bytes = newline"
    and "unat (fr_next_seq fr) + length xs < 2 ^ 64"
  shows "recorder_new S (fr_bytes (recorder_appends S xs fr)) (fr_run_id (recorder_appends S xs fr)) =
    Inr (recorder_appends S xs fr)"
proof -
  have "recorder_synced S fr"
    using assms(2,3) by (auto simp: recorder_synced_def recorder_new_def split: sum.splits prod.splits)
  from recorder_appends_synced [OF assms(1) this assms(4)] show ?thesis by (simp add: recorder_synced_def)
qed

lemma sample_codec: "row_codec_ok sample_serde"
proof -
  have "\<not> is_blank ''row''" by code_simp
  then show ?thesis by (simp add: row_codec_ok_def sample_serde_def newline_def)
qed

theorem recorder_reopens_witness:
  "recorder_new sample_serde (''row'' @ [newline]) ''run'' =
     Inr \<lparr>fr_run_id = ''run'', fr_bytes = ''row'' @ [newline], fr_next_seq = 1, fr_last_turn = Some 1\<rparr>"
proof -
  have new: "recorder_new sample_serde [] ''run'' = Inr fresh_recorder"
    by (simp add: recorder_new_def read_existing_state_def fresh_recorder_def)
  have "recorder_appends sample_serde [(sample_row, None)] fresh_recorder =
      \<lparr>fr_run_id = ''run'', fr_bytes = ''row'' @ [newline], fr_next_seq = 1, fr_last_turn = Some 1\<rparr>"
    by (simp add: recorder_append_def fresh_recorder_def sample_row_def sample_serde_def truncate_record_def
        fits_persisted_line_def max_event_bytes_def writer_append_line_def newline_def)
  with recorder_reopens [OF sample_codec new, of "[(sample_row, None)]"] show ?thesis
    by (simp add: fresh_recorder_def)
qed

end
