(* ===== verification/Progress.thy ===== *)
theory Progress
  imports Events "HOL-Library.Sublist"
begin

text \<open>
  \<open>agent/src/progress.rs\<close>: the progress events a host sees. A hook derives them from turn events,
  numbers the snapshots of a call and queues them; a worker takes them, keeps only the newest of
  adjacent snapshots of one call, and tells the observer. The world of hook, queue, worker and
  host is a step relation; its history records what the queue accepted and what the worker did.
\<close>

section \<open>Events\<close>

datatype progress_event =
    PgTurnStarted u64
  | PgLlmCallStarted u64 u32 string
  | PgSnapshot u64 u32 string u32 snapshot
  | PgToolCall u64 tool_call
  | PgToolResult u64 tool_result
  | PgLlmCallEnded u64 u32 string llm_call_outcome
  | PgAssistantFinalized u64 string "content_block list"
  | PgTurnEnded u64

record active_call =
  ac_turn :: u64
  ac_step :: u32
  ac_llm_call_id :: string
  ac_next_update_index :: u32

definition is_active :: "active_call option \<Rightarrow> u64 \<Rightarrow> u32 \<Rightarrow> string \<Rightarrow> bool" where
  "is_active state turn step i =
     (case state of None \<Rightarrow> False | Some a \<Rightarrow> ac_turn a = turn \<and> ac_step a = step \<and> ac_llm_call_id a = i)"

fun derive_progress ::
  "active_call option \<Rightarrow> turn_event \<Rightarrow> (string + progress_event option) \<times> active_call option" where
  "derive_progress state (TurnStarted turn) = (Inr (Some (PgTurnStarted turn)), state)"
| "derive_progress state (LlmCallStarted turn step i) =
     (Inr (Some (PgLlmCallStarted turn step i)),
      Some \<lparr>ac_turn = turn, ac_step = step, ac_llm_call_id = i, ac_next_update_index = 0\<rparr>)"
| "derive_progress state (MessageUpdate turn step i s) =
     (case state of
        None \<Rightarrow> (Inr None, state)
      | Some a \<Rightarrow>
          if is_active state turn step i then
            if ac_next_update_index a = - 1 then (Inl ''progress snapshot update index overflow'', state)
            else (Inr (Some (PgSnapshot turn step i (ac_next_update_index a) s)),
                  Some (a\<lparr>ac_next_update_index := ac_next_update_index a + 1\<rparr>))
          else (Inr None, state))"
| "derive_progress state (ToolCallRecorded turn call) = (Inr (Some (PgToolCall turn call)), state)"
| "derive_progress state (ToolResultRecorded turn result) = (Inr (Some (PgToolResult turn result)), state)"
| "derive_progress state (LlmCallEnded turn step i outcome) =
     (Inr (Some (PgLlmCallEnded turn step i outcome)), if is_active state turn step i then None else state)"
| "derive_progress state (AssistantFinalized turn i blocks) =
     (Inr (Some (PgAssistantFinalized turn i blocks)), state)"
| "derive_progress state (TurnEnded turn) = (Inr (Some (PgTurnEnded turn)), state)"
| "derive_progress state (UserPromptCommitted _ _) = (Inr None, state)"
| "derive_progress state (CompactionApplied _ _ _ _ _ _) = (Inr None, state)"
| "derive_progress state (CompactionRecommended _) = (Inr None, state)"
| "derive_progress state (ContextPreflightEnded _) = (Inr None, state)"
| "derive_progress state (ContextPostflightEnded _) = (Inr None, state)"

section \<open>Queue and status\<close>

datatype progress_command =
    PcEvent progress_event
  | PcSnapshot "u64 \<times> string" progress_event
  | PcFlush nat

datatype progress_worker_state = PwRunning | PwDegraded | PwStopped

record progress_status =
  ps_state :: progress_worker_state
  ps_dropped :: u64
  ps_resync_required :: bool
  ps_last_error :: "string option"

definition progress_status_default :: progress_status where
  "progress_status_default = \<lparr>ps_state = PwRunning, ps_dropped = 0, ps_resync_required = False, ps_last_error = None\<rparr>"

definition progress_capacity :: nat where
  "progress_capacity = 256"

definition progress_mark_dropped :: "progress_status \<Rightarrow> progress_status" where
  "progress_mark_dropped st =
     st\<lparr>ps_state := PwDegraded, ps_dropped := (if ps_dropped st = - 1 then - 1 else ps_dropped st + 1),
        ps_resync_required := True, ps_last_error := Some ''progress queue full; event dropped''\<rparr>"

definition progress_mark_degraded :: "string \<Rightarrow> progress_status \<Rightarrow> progress_status" where
  "progress_mark_degraded e st =
     st\<lparr>ps_state := (if ps_state st = PwStopped then PwStopped else PwDegraded), ps_last_error := Some e\<rparr>"

definition progress_mark_stopped :: "string \<Rightarrow> progress_status \<Rightarrow> progress_status" where
  "progress_mark_stopped e st = st\<lparr>ps_state := PwStopped, ps_resync_required := True, ps_last_error := Some e\<rparr>"

section \<open>The world\<close>

datatype worker_phase =
    WkIdle
  | WkPending progress_command
  | WkHolding "u64 \<times> string" progress_event
  | WkStopped

record progress_world =
  pw_active :: "active_call option"
  pw_channel :: "progress_command channel"
  pw_status :: progress_status
  pw_worker :: worker_phase
  pw_accepted :: "progress_command list"
  pw_handled :: "progress_command list"
  pw_missed :: bool

definition progress_new :: progress_world where
  "progress_new =
     \<lparr>pw_active = None, pw_channel = channel_new progress_capacity, pw_status = progress_status_default,
      pw_worker = WkIdle, pw_accepted = [], pw_handled = [], pw_missed = False\<rparr>"

definition command_of :: "progress_event \<Rightarrow> progress_command" where
  "command_of e = (case e of PgSnapshot turn step i n s \<Rightarrow> PcSnapshot (turn, i) e | _ \<Rightarrow> PcEvent e)"

definition progress_enqueue :: "progress_event \<Rightarrow> progress_world \<Rightarrow> progress_world" where
  "progress_enqueue e w =
     (case try_send (command_of e) (pw_channel w) of
        (Sent, ch) \<Rightarrow> w\<lparr>pw_channel := ch, pw_accepted := pw_accepted w @ [command_of e]\<rparr>
      | (SendFull, ch) \<Rightarrow> w\<lparr>pw_status := progress_mark_dropped (pw_status w), pw_missed := True\<rparr>
      | (SendClosed, ch) \<Rightarrow>
          w\<lparr>pw_status := progress_mark_stopped ''progress worker channel closed'' (pw_status w), pw_missed := True\<rparr>)"

definition progress_on_event :: "turn_event \<Rightarrow> progress_world \<Rightarrow> (string + unit) \<times> progress_world" where
  "progress_on_event e w =
     (case derive_progress (pw_active w) e of
        (Inl err, state) \<Rightarrow> (Inl err, w\<lparr>pw_active := state\<rparr>)
      | (Inr None, state) \<Rightarrow> (Inr (), w\<lparr>pw_active := state\<rparr>)
      | (Inr (Some p), state) \<Rightarrow> (Inr (), progress_enqueue p (w\<lparr>pw_active := state\<rparr>)))"

text \<open>The observer answers \<open>None\<close> for \<open>Ok\<close>.\<close>

type_synonym observer = "progress_event \<Rightarrow> string option"

definition notify :: "observer \<Rightarrow> progress_event \<Rightarrow> progress_command \<Rightarrow> progress_world \<Rightarrow> progress_world" where
  "notify observer e c w =
     w\<lparr>pw_handled := pw_handled w @ [c],
       pw_status := (case observer e of
           None \<Rightarrow> pw_status w
         | Some err \<Rightarrow> progress_mark_degraded (''progress observer failed: '' @ err) (pw_status w))\<rparr>"

text \<open>The match on a command at the head of the loop.\<close>

fun worker_dispatch :: "observer \<Rightarrow> progress_command \<Rightarrow> progress_world \<Rightarrow> progress_world" where
  "worker_dispatch observer (PcEvent e) w = (notify observer e (PcEvent e) w)\<lparr>pw_worker := WkIdle\<rparr>"
| "worker_dispatch observer (PcSnapshot k e) w = w\<lparr>pw_worker := WkHolding k e\<rparr>"
| "worker_dispatch observer (PcFlush i) w = w\<lparr>pw_handled := pw_handled w @ [PcFlush i], pw_worker := WkIdle\<rparr>"

text \<open>
  One step of the worker: taking a command, or one \<open>try_recv\<close> of the inner loop that coalesces.
\<close>

definition worker_step :: "observer \<Rightarrow> progress_world \<Rightarrow> progress_world" where
  "worker_step observer w =
     (case pw_worker w of
        WkStopped \<Rightarrow> w
      | WkPending c \<Rightarrow> worker_dispatch observer c w
      | WkIdle \<Rightarrow>
          (case try_recv (pw_channel w) of
             None \<Rightarrow> w
           | Some (c, ch) \<Rightarrow> worker_dispatch observer c (w\<lparr>pw_channel := ch\<rparr>))
      | WkHolding k e \<Rightarrow>
          (case try_recv (pw_channel w) of
             None \<Rightarrow> (notify observer e (PcSnapshot k e) w)\<lparr>pw_worker := WkIdle\<rparr>
           | Some (c, ch) \<Rightarrow>
               (case c of
                  PcSnapshot k' e' \<Rightarrow>
                    if k' = k then w\<lparr>pw_channel := ch, pw_worker := WkHolding k e'\<rparr>
                    else (notify observer e (PcSnapshot k e) (w\<lparr>pw_channel := ch\<rparr>))\<lparr>pw_worker := WkPending c\<rparr>
                | _ \<Rightarrow> (notify observer e (PcSnapshot k e) (w\<lparr>pw_channel := ch\<rparr>))\<lparr>pw_worker := WkPending c\<rparr>)))"

text \<open>The end of the worker, when every sender is gone and the queue is empty.\<close>

definition worker_end :: "progress_world \<Rightarrow> progress_world" where
  "worker_end w =
     w\<lparr>pw_worker := WkStopped, pw_channel := (pw_channel w)\<lparr>ch_open := False\<rparr>,
       pw_status := progress_mark_stopped ''progress worker stopped'' (pw_status w)\<rparr>"

text \<open>The host: \<open>send(Flush)\<close> waits for room, and \<open>take_resync_required\<close> clears the marker.\<close>

definition send_flush :: "nat \<Rightarrow> progress_world \<Rightarrow> progress_world" where
  "send_flush i w =
     (case try_send (PcFlush i) (pw_channel w) of
        (Sent, ch) \<Rightarrow> w\<lparr>pw_channel := ch, pw_accepted := pw_accepted w @ [PcFlush i]\<rparr>
      | (SendFull, ch) \<Rightarrow> w
      | (SendClosed, ch) \<Rightarrow> w\<lparr>pw_status := progress_mark_stopped ''send progress flush command: channel closed'' (pw_status w)\<rparr>)"

definition take_resync_required :: "progress_world \<Rightarrow> bool \<times> progress_world" where
  "take_resync_required w =
     (ps_resync_required (pw_status w),
      w\<lparr>pw_status := (pw_status w)\<lparr>ps_resync_required := False\<rparr>, pw_missed := False\<rparr>)"

record progress_report =
  pr_state :: progress_worker_state
  pr_queue_capacity :: nat
  pr_queue_len :: nat
  pr_dropped :: u64
  pr_resync_required :: bool
  pr_last_error :: "string option"

definition progress_report_of :: "progress_world \<Rightarrow> progress_report" where
  "progress_report_of w =
     \<lparr>pr_state = ps_state (pw_status w), pr_queue_capacity = progress_capacity,
      pr_queue_len = progress_capacity - (ch_capacity (pw_channel w) - length (ch_queue (pw_channel w))),
      pr_dropped = ps_dropped (pw_status w), pr_resync_required = ps_resync_required (pw_status w),
      pr_last_error = ps_last_error (pw_status w)\<rparr>"

inductive progress_step :: "observer \<Rightarrow> progress_world \<Rightarrow> progress_world \<Rightarrow> bool" for observer where
  hook: "progress_step observer w (snd (progress_on_event e w))"
| worker: "progress_step observer w (worker_step observer w)"
| ended: "pw_worker w = WkIdle \<Longrightarrow> ch_queue (pw_channel w) = [] \<Longrightarrow> progress_step observer w (worker_end w)"
| flush: "progress_step observer w (send_flush i w)"
| resync: "progress_step observer w (snd (take_resync_required w))"

inductive_cases progress_step_cases: "progress_step observer w w'"

section \<open>Thinned sequences\<close>

text \<open>
  What may get lost between the queue and the observer: a snapshot whose next command is a
  snapshot of the same call.
\<close>

fun same_key :: "progress_command \<Rightarrow> progress_command \<Rightarrow> bool" where
  "same_key (PcSnapshot k _) (PcSnapshot k' _) = (k = k')"
| "same_key _ _ = False"

fun is_snapshot_command :: "progress_command \<Rightarrow> bool" where
  "is_snapshot_command (PcSnapshot _ _) = True"
| "is_snapshot_command _ = False"

inductive thins :: "progress_command list \<Rightarrow> progress_command list \<Rightarrow> bool" where
  nil: "thins [] []"
| keep: "thins xs ys \<Longrightarrow> thins (x # xs) (x # ys)"
| skip: "thins (y # xs) ys \<Longrightarrow> same_key x y \<Longrightarrow> thins (x # y # xs) ys"

inductive_cases thins_Cons: "thins (x # xs) ys"

lemma same_key_equiv:
  "same_key a b \<Longrightarrow> same_key b a" "same_key a b \<Longrightarrow> same_key b c \<Longrightarrow> same_key a c"
  "same_key a b \<Longrightarrow> is_snapshot_command a"
  by (cases a; cases b; cases c; simp)+

lemma thins_refl: "thins xs xs"
  by (induction xs) (auto intro: thins.intros)

lemma thins_snoc: "thins xs ys \<Longrightarrow> thins (xs @ [z]) (ys @ [z])"
  by (induction rule: thins.induct) (auto intro: thins.intros)

lemma thins_head: "thins xs ys \<Longrightarrow> xs = h # t \<Longrightarrow> ys = b # q \<Longrightarrow> h = b \<or> same_key h b"
  by (induction arbitrary: h t rule: thins.induct) (auto dest: same_key_equiv(2))

lemma thins_Nil: "thins xs [] \<Longrightarrow> xs = []"
  by (induction xs "[] :: progress_command list" rule: thins.induct) auto

lemma thins_coalesce:
  "thins xs zs \<Longrightarrow> zs = ds @ a # b # q \<Longrightarrow> same_key a b \<Longrightarrow> thins xs (ds @ b # q)"
proof (induction arbitrary: ds rule: thins.induct)
  case (keep xs ys x)
  show ?case
  proof (cases ds)
    case Nil
    with keep.prems have x: "x = a" "ys = b # q" by auto
    obtain h t where xs: "xs = h # t" using keep.hyps x(2) by (cases xs) (auto elim: thins.cases)
    have "same_key a h"
      using thins_head [OF keep.hyps xs x(2)] keep.prems(2) same_key_equiv by blast
    with keep.hyps x xs Nil show ?thesis by (auto intro: thins.skip)
  next
    case (Cons d ds')
    with keep.prems have "x = d" "ys = ds' @ a # b # q" by auto
    with keep.IH [of ds'] keep.prems(2) Cons show ?thesis by (auto intro: thins.keep)
  qed
next
  case (skip y xs ys x)
  then show ?case by (auto intro: thins.skip)
qed simp

lemma thins_subseq: "thins xs ys \<Longrightarrow> subseq ys xs"
  by (induction rule: thins.induct) auto

lemma thins_lifecycle:
  "thins xs ys \<Longrightarrow> filter (\<lambda>c. \<not> is_snapshot_command c) ys = filter (\<lambda>c. \<not> is_snapshot_command c) xs"
  by (induction rule: thins.induct) (auto dest: same_key_equiv)

lemma thins_last: "thins xs ys \<Longrightarrow> xs \<noteq> [] \<Longrightarrow> ys \<noteq> [] \<and> last ys = last xs"
proof (induction rule: thins.induct)
  case (keep xs ys x)
  then show ?case by (cases "xs = []") (auto elim: thins.cases)
qed auto

text \<open>The newest snapshot before a lifecycle event stays, right before it.\<close>

lemma thins_lifecycle_head:
  "thins xs ys \<Longrightarrow> xs = b # qs \<Longrightarrow> \<not> is_snapshot_command b \<Longrightarrow> \<exists>vs. ys = b # vs"
  by (induction rule: thins.induct) (auto dest: same_key_equiv(3))

lemma thins_before_lifecycle:
  "thins xs ys \<Longrightarrow> xs = ps @ a # b # qs \<Longrightarrow> \<not> is_snapshot_command b \<Longrightarrow> \<exists>us vs. ys = us @ a # b # vs"
proof (induction arbitrary: ps rule: thins.induct)
  case (keep xs ys x)
  show ?case
  proof (cases ps)
    case Nil
    with keep.prems have x: "x = a" "xs = b # qs" by auto
    obtain vs where "ys = b # vs" using thins_lifecycle_head [OF keep.hyps x(2) keep.prems(2)] by blast
    with x show ?thesis by (intro exI [of _ "[]"] exI [of _ vs]) simp
  next
    case (Cons p ps')
    with keep.prems(1) have "xs = ps' @ a # b # qs" by simp
    from keep.IH [OF this keep.prems(2)] obtain us vs where "ys = us @ a # b # vs" by blast
    then show ?thesis by (intro exI [of _ "x # us"] exI [of _ vs]) simp
  qed
next
  case (skip y xs ys x)
  show ?case
  proof (cases ps)
    case Nil
    with skip.prems have "x = a" "y = b" by auto
    with skip.hyps(2) skip.prems(2) same_key_equiv(1,3) show ?thesis by blast
  next
    case (Cons p ps')
    with skip.prems(1) have "y # xs = ps' @ a # b # qs" by simp
    from skip.IH [OF this skip.prems(2)] show ?thesis .
  qed
qed simp

section \<open>The invariant of the world\<close>

definition inflight :: "progress_world \<Rightarrow> progress_command list" where
  "inflight w = (case pw_worker w of WkHolding k e \<Rightarrow> [PcSnapshot k e] | WkPending c \<Rightarrow> [c] | _ \<Rightarrow> [])"

definition world_trace :: "progress_world \<Rightarrow> progress_command list" where
  "world_trace w = pw_handled w @ inflight w @ ch_queue (pw_channel w)"

definition progress_inv :: "progress_world \<Rightarrow> bool" where
  "progress_inv w \<longleftrightarrow>
     thins (pw_accepted w) (world_trace w) \<and>
     ch_capacity (pw_channel w) = progress_capacity \<and> length (ch_queue (pw_channel w)) \<le> progress_capacity \<and>
     (pw_missed w \<longrightarrow> ps_resync_required (pw_status w))"

lemma progress_inv_new: "progress_inv progress_new"
  by (simp add: progress_inv_def progress_new_def world_trace_def inflight_def channel_new_def thins.nil)

lemma inv_frame:
  assumes "progress_inv w" "world_trace w' = world_trace w" "pw_accepted w' = pw_accepted w"
    "ch_capacity (pw_channel w') = ch_capacity (pw_channel w)"
    "length (ch_queue (pw_channel w')) \<le> length (ch_queue (pw_channel w))"
    "pw_missed w' \<longrightarrow> ps_resync_required (pw_status w')"
  shows "progress_inv w'"
  using assms by (simp add: progress_inv_def)

lemma inv_send:
  assumes "progress_inv w" "try_send c (pw_channel w) = (Sent, ch)"
  shows "progress_inv (w\<lparr>pw_channel := ch, pw_accepted := pw_accepted w @ [c]\<rparr>)"
proof -
  from assms(2) have ch: "ch = (pw_channel w)\<lparr>ch_queue := ch_queue (pw_channel w) @ [c]\<rparr>"
    and room: "length (ch_queue (pw_channel w)) < ch_capacity (pw_channel w)"
    by (auto simp: try_send_def split: if_splits)
  have "world_trace (w\<lparr>pw_channel := ch, pw_accepted := pw_accepted w @ [c]\<rparr>) = world_trace w @ [c]"
    by (simp add: world_trace_def inflight_def ch)
  with assms(1) room show ?thesis by (simp add: progress_inv_def thins_snoc ch)
qed

lemma try_send_unsent: "try_send c ch = (r, ch') \<Longrightarrow> r \<noteq> Sent \<Longrightarrow> ch' = ch"
  by (auto simp: try_send_def split: if_splits)

lemma inv_enqueue:
  assumes "progress_inv w"
  shows "progress_inv (progress_enqueue e w)"
proof (cases "try_send (command_of e) (pw_channel w)")
  case (Pair r ch)
  show ?thesis
  proof (cases r)
    case Sent
    with Pair inv_send [OF assms] show ?thesis by (simp add: progress_enqueue_def)
  qed (use assms Pair in \<open>auto simp: progress_enqueue_def progress_inv_def world_trace_def inflight_def
      progress_mark_dropped_def progress_mark_stopped_def\<close>)
qed

lemma inv_on_event:
  assumes "progress_inv w"
  shows "progress_inv (snd (progress_on_event e w))"
proof -
  have act: "progress_inv (w\<lparr>pw_active := a\<rparr>)" for a
    by (rule inv_frame [OF assms]) (use assms in \<open>simp_all add: world_trace_def inflight_def progress_inv_def\<close>)
  show ?thesis
    by (cases "derive_progress (pw_active w) e")
      (auto simp: progress_on_event_def act intro!: inv_enqueue split: sum.splits option.splits)
qed

lemma notify_simps [simp]:
  "pw_handled (notify observer e c w) = pw_handled w @ [c]"
  "pw_worker (notify observer e c w) = pw_worker w" "pw_channel (notify observer e c w) = pw_channel w"
  "pw_accepted (notify observer e c w) = pw_accepted w" "pw_missed (notify observer e c w) = pw_missed w"
  "ps_resync_required (pw_status (notify observer e c w)) = ps_resync_required (pw_status w)"
  "ps_dropped (pw_status (notify observer e c w)) = ps_dropped (pw_status w)"
  by (simp_all add: notify_def progress_mark_degraded_def split: option.split)

lemma dispatch_trace:
  "world_trace (worker_dispatch observer c w) = pw_handled w @ c # ch_queue (pw_channel w)"
  "pw_accepted (worker_dispatch observer c w) = pw_accepted w"
  "pw_channel (worker_dispatch observer c w) = pw_channel w"
  "pw_missed (worker_dispatch observer c w) = pw_missed w"
  "ps_resync_required (pw_status (worker_dispatch observer c w)) = ps_resync_required (pw_status w)"
  by (cases c; simp add: world_trace_def inflight_def)+

lemma try_recv_Some: "try_recv c = Some (x, c') \<longleftrightarrow> ch_queue c = x # ch_queue c' \<and> c' = c\<lparr>ch_queue := ch_queue c'\<rparr>"
  by (cases "ch_queue c") (auto simp: try_recv_def)

lemma worker_step_trace:
  "world_trace (worker_step observer w) = world_trace w \<or>
   (\<exists>ds a b q. world_trace w = ds @ a # b # q \<and> same_key a b \<and> world_trace (worker_step observer w) = ds @ b # q)"
proof (cases "pw_worker w")
  case WkIdle
  then show ?thesis
    by (cases "ch_queue (pw_channel w)")
      (simp_all add: worker_step_def try_recv_def dispatch_trace, simp_all add: world_trace_def inflight_def)
next
  case (WkPending c)
  then show ?thesis by (simp add: worker_step_def dispatch_trace) (simp add: world_trace_def inflight_def)
next
  case (WkHolding k e)
  show ?thesis
  proof (cases "ch_queue (pw_channel w)")
    case Nil
    with WkHolding show ?thesis by (simp add: worker_step_def try_recv_def world_trace_def inflight_def)
  next
    case (Cons c q)
    have same: ?thesis if "c = PcSnapshot k e'" for e'
      using WkHolding Cons that
      by (intro disjI2 exI [of _ "pw_handled w"] exI [of _ "PcSnapshot k e"] exI [of _ c] exI [of _ q])
        (simp add: worker_step_def try_recv_def world_trace_def inflight_def)
    have other: ?thesis if "\<forall>e'. c \<noteq> PcSnapshot k e'"
      using WkHolding Cons that
      by (cases c) (simp_all add: worker_step_def try_recv_def world_trace_def inflight_def)
    show ?thesis using same other by blast
  qed
qed (simp add: worker_step_def)

lemma worker_step_frame:
  "pw_accepted (worker_step observer w) = pw_accepted w" "pw_missed (worker_step observer w) = pw_missed w"
  "ps_resync_required (pw_status (worker_step observer w)) = ps_resync_required (pw_status w)"
  "ch_capacity (pw_channel (worker_step observer w)) = ch_capacity (pw_channel w)"
  "length (ch_queue (pw_channel (worker_step observer w))) \<le> length (ch_queue (pw_channel w))"
  by (auto simp: worker_step_def dispatch_trace try_recv_def split: worker_phase.split list.split progress_command.split)

lemma inv_worker_step:
  assumes "progress_inv w"
  shows "progress_inv (worker_step observer w)"
proof -
  have "thins (pw_accepted w) (world_trace (worker_step observer w))"
    using worker_step_trace [of observer w]
  proof
    assume "world_trace (worker_step observer w) = world_trace w"
    with assms show ?thesis by (simp add: progress_inv_def)
  next
    assume "\<exists>ds a b q. world_trace w = ds @ a # b # q \<and> same_key a b \<and> world_trace (worker_step observer w) = ds @ b # q"
    with assms show ?thesis by (auto simp: progress_inv_def intro: thins_coalesce)
  qed
  with assms worker_step_frame [of observer w] show ?thesis by (simp add: progress_inv_def)
qed

lemma progress_step_inv: "progress_step observer w w' \<Longrightarrow> progress_inv w \<Longrightarrow> progress_inv w'"
proof (induction rule: progress_step.induct)
  case (hook w e)
  then show ?case by (rule inv_on_event)
next
  case (worker w)
  then show ?case by (rule inv_worker_step)
next
  case (ended w)
  show ?case by (rule inv_frame [OF ended(3)])
    (use ended in \<open>simp_all add: worker_end_def world_trace_def inflight_def progress_mark_stopped_def progress_inv_def\<close>)
next
  case (flush w i)
  show ?case
  proof (cases "try_send (PcFlush i) (pw_channel w)")
    case (Pair r ch)
    with flush inv_send [OF flush, of "PcFlush i"] show ?thesis
      by (cases r) (auto simp: send_flush_def progress_inv_def world_trace_def inflight_def progress_mark_stopped_def
          dest: try_send_unsent)
  qed
next
  case (resync w)
  show ?case by (rule inv_frame [OF resync])
    (simp_all add: take_resync_required_def world_trace_def inflight_def)
qed

lemma progress_reachable_inv: "(progress_step observer)\<^sup>*\<^sup>* progress_new w \<Longrightarrow> progress_inv w"
  by (induction rule: rtranclp_induct) (auto intro: progress_inv_new progress_step_inv)

section \<open>Draining\<close>

definition worker_load :: "progress_world \<Rightarrow> nat" where
  "worker_load w = 2 * length (ch_queue (pw_channel w)) +
     (case pw_worker w of WkPending _ \<Rightarrow> 2 | WkHolding _ _ \<Rightarrow> 1 | _ \<Rightarrow> 0)"

lemma dispatch_load:
  "worker_load (worker_dispatch observer c w) \<le> 2 * length (ch_queue (pw_channel w)) + 1"
  "pw_worker (worker_dispatch observer c w) \<noteq> WkStopped"
  by (cases c; simp add: worker_load_def)+

lemma worker_step_load:
  assumes "pw_worker w \<noteq> WkStopped"
  shows "worker_load (worker_step observer w) \<le> worker_load w - 1 \<and> pw_worker (worker_step observer w) \<noteq> WkStopped"
proof (cases "pw_worker w")
  case WkIdle
  show ?thesis
  proof (cases "ch_queue (pw_channel w)")
    case (Cons c q)
    with WkIdle dispatch_load [of observer c "w\<lparr>pw_channel := (pw_channel w)\<lparr>ch_queue := q\<rparr>\<rparr>"]
    show ?thesis by (simp add: worker_step_def try_recv_def worker_load_def)
  qed (use WkIdle in \<open>simp add: worker_step_def try_recv_def worker_load_def\<close>)
next
  case (WkPending c)
  with dispatch_load [of observer c w] show ?thesis by (simp add: worker_step_def worker_load_def)
next
  case (WkHolding k e)
  show ?thesis
    by (cases "ch_queue (pw_channel w)")
      (auto simp: WkHolding worker_step_def try_recv_def worker_load_def split: progress_command.split)
qed (use assms in simp)

lemma worker_steps_load:
  assumes "pw_worker w \<noteq> WkStopped"
  shows "worker_load ((worker_step observer ^^ n) w) \<le> worker_load w - n \<and>
    pw_worker ((worker_step observer ^^ n) w) \<noteq> WkStopped \<and>
    pw_accepted ((worker_step observer ^^ n) w) = pw_accepted w"
proof (induction n)
  case (Suc n)
  with worker_step_load [of "(worker_step observer ^^ n) w" observer] worker_step_frame(1) show ?case by force
qed (use assms in simp)

lemma worker_steps_reachable:
  "(progress_step observer)\<^sup>*\<^sup>* w ((worker_step observer ^^ n) w)"
  by (induction n) (auto intro: rtranclp.rtrancl_into_rtrancl progress_step.worker)

lemma load_zero:
  "worker_load w = 0 \<Longrightarrow> pw_worker w \<noteq> WkStopped \<Longrightarrow> pw_worker w = WkIdle \<and> ch_queue (pw_channel w) = [] \<and> world_trace w = pw_handled w"
  by (cases "pw_worker w") (simp_all add: worker_load_def world_trace_def inflight_def)

section \<open>Numbered snapshots\<close>

fun derive_all :: "active_call option \<Rightarrow> turn_event list \<Rightarrow> (string + progress_event option) list" where
  "derive_all state [] = []"
| "derive_all state (e # es) =
     (case derive_progress state e of (r, state') \<Rightarrow> r # derive_all state' es)"

lemma derive_updates:
  "unat (ac_next_update_index a) + length ss < 2 ^ 32 \<Longrightarrow>
   derive_all (Some a) (map (MessageUpdate (ac_turn a) (ac_step a) (ac_llm_call_id a)) ss) =
   map (\<lambda>(n, s). Inr (Some (PgSnapshot (ac_turn a) (ac_step a) (ac_llm_call_id a) (of_nat n) s)))
     (enumerate (unat (ac_next_update_index a)) ss)"
proof (induction ss arbitrary: a)
  case (Cons s ss)
  let ?n = "ac_next_update_index a"
  from Cons.prems have lt: "unat ?n + 1 < 2 ^ 32" by simp
  then have succ: "unat (?n + 1) = unat ?n + 1" by (simp add: unat_word_ariths)
  have "unat (- 1 :: u32) = 2 ^ 32 - 1" by (simp add: unsigned_minus_1_eq_mask mask_eq_exp_minus_1)
  with lt have "?n \<noteq> - 1" by auto
  with Cons.prems succ Cons.IH [of "a\<lparr>ac_next_update_index := ?n + 1\<rparr>"] show ?case
    by (simp add: is_active_def)
qed simp

section \<open>Properties\<close>

text \<open>
  C25: over every interleaving of hook, worker and host, what the observer has been told followed by
  what is still under way is the accepted sequence without some of the snapshots: lifecycle events
  and flushes are all there in order, the newest snapshot before each of them stays right before
  it, and the last accepted command is never dropped. The queue holds at most 256 commands, and a
  lost event leaves the resync marker set until the host takes it.
\<close>

theorem progress_coalescing:
  assumes "(progress_step observer)\<^sup>*\<^sup>* progress_new w"
  shows "subseq (world_trace w) (pw_accepted w) \<and>
    filter (\<lambda>c. \<not> is_snapshot_command c) (world_trace w) = filter (\<lambda>c. \<not> is_snapshot_command c) (pw_accepted w) \<and>
    (pw_accepted w \<noteq> [] \<longrightarrow> world_trace w \<noteq> [] \<and> last (world_trace w) = last (pw_accepted w)) \<and>
    (\<forall>ps a b qs. pw_accepted w = ps @ a # b # qs \<and> \<not> is_snapshot_command b \<longrightarrow>
       (\<exists>us vs. world_trace w = us @ a # b # vs)) \<and>
    length (ch_queue (pw_channel w)) \<le> 256 \<and>
    (pw_missed w \<longrightarrow> ps_resync_required (pw_status w))"
proof -
  from progress_reachable_inv [OF assms] have th: "thins (pw_accepted w) (world_trace w)"
    and rest: "length (ch_queue (pw_channel w)) \<le> 256" "pw_missed w \<longrightarrow> ps_resync_required (pw_status w)"
    by (simp_all add: progress_inv_def progress_capacity_def)
  show ?thesis
    using thins_subseq [OF th] thins_lifecycle [OF th] thins_last [OF th] thins_before_lifecycle [OF th] rest by blast
qed

definition sample_progress :: progress_world where
  "sample_progress = snd (progress_on_event (TurnStarted 1) progress_new)"

lemma progress_coalescing_witness:
  "pw_accepted sample_progress = [PcEvent (PgTurnStarted 1)] \<and> last (world_trace sample_progress) = PcEvent (PgTurnStarted 1)"
proof -
  have reach: "(progress_step (\<lambda>_. None))\<^sup>*\<^sup>* progress_new sample_progress"
    unfolding sample_progress_def by (rule r_into_rtranclp) (rule progress_step.hook)
  have acc: "pw_accepted sample_progress = [PcEvent (PgTurnStarted 1)]" by code_simp
  with progress_coalescing [OF reach] show ?thesis by simp
qed

text \<open>
  C26: a worker that has not ended drains: 514 of its steps after any reachable state everything accepted
  before has been handled, the queue is empty and the newest command was told last, so a flush is answered.
\<close>

theorem progress_drains:
  assumes "(progress_step observer)\<^sup>*\<^sup>* progress_new w" "pw_worker w \<noteq> WkStopped"
  defines "v \<equiv> (worker_step observer ^^ 514) w"
  shows "pw_worker v = WkIdle \<and> ch_queue (pw_channel v) = [] \<and> pw_accepted v = pw_accepted w \<and>
    filter (\<lambda>c. \<not> is_snapshot_command c) (pw_handled v) = filter (\<lambda>c. \<not> is_snapshot_command c) (pw_accepted w) \<and>
    (pw_accepted w \<noteq> [] \<longrightarrow> pw_handled v \<noteq> [] \<and> last (pw_handled v) = last (pw_accepted w))"
proof -
  from progress_reachable_inv [OF assms(1)] have "worker_load w \<le> 514"
    by (auto simp: progress_inv_def worker_load_def progress_capacity_def split: worker_phase.split)
  with worker_steps_load [OF assms(2), where observer = observer and n = 514] have v: "worker_load v = 0" "pw_worker v \<noteq> WkStopped"
    and acc: "pw_accepted v = pw_accepted w" by (simp_all add: v_def)
  note idle = load_zero [OF v]
  have "(progress_step observer)\<^sup>*\<^sup>* progress_new v"
    unfolding v_def using assms(1) worker_steps_reachable by (rule rtranclp_trans)
  then have th: "thins (pw_accepted v) (world_trace v)"
    using progress_reachable_inv by (simp add: progress_inv_def)
  from idle acc thins_lifecycle [OF th] thins_last [OF th] show ?thesis by simp
qed

lemma progress_drains_witness:
  "pw_worker ((worker_step (\<lambda>_. None) ^^ 514) sample_progress) = WkIdle \<and>
   last (pw_handled ((worker_step (\<lambda>_. None) ^^ 514) sample_progress)) = PcEvent (PgTurnStarted 1)"
proof -
  have reach: "(progress_step (\<lambda>_. None))\<^sup>*\<^sup>* progress_new sample_progress"
    unfolding sample_progress_def by (rule r_into_rtranclp) (rule progress_step.hook)
  have acc: "pw_accepted sample_progress = [PcEvent (PgTurnStarted 1)]" "pw_worker sample_progress = WkIdle"
    by code_simp+
  with progress_drains [OF reach] show ?thesis by simp
qed

text \<open>
  the snapshots a call shows are numbered from 0 without gaps, whatever call was active before,
  as long as there are fewer than \<open>2 ^ 32\<close> of them.
\<close>

theorem snapshot_numbers:
  assumes "length ss < 2 ^ 32"
  shows "derive_all state (LlmCallStarted turn step i # map (MessageUpdate turn step i) ss) =
    Inr (Some (PgLlmCallStarted turn step i)) #
    map (\<lambda>(n, s). Inr (Some (PgSnapshot turn step i (of_nat n) s))) (enumerate 0 ss)"
  using derive_updates [of "\<lparr>ac_turn = turn, ac_step = step, ac_llm_call_id = i, ac_next_update_index = 0\<rparr>" ss] assms
  by simp

definition sample_snapshot :: snapshot where
  "sample_snapshot = \<lparr>sn_content = [], sn_pending = None, sn_stop_reason = None, sn_usage = None, sn_model = None\<rparr>"

lemma snapshot_numbers_witness:
  "derive_all None (LlmCallStarted 1 0 ''c'' # map (MessageUpdate 1 0 ''c'') [sample_snapshot, sample_snapshot]) =
   [Inr (Some (PgLlmCallStarted 1 0 ''c'')), Inr (Some (PgSnapshot 1 0 ''c'' 0 sample_snapshot)),
    Inr (Some (PgSnapshot 1 0 ''c'' 1 sample_snapshot))]"
  using snapshot_numbers [of "[sample_snapshot, sample_snapshot]" None 1 0 "''c''"] by simp

end
