(* ===== verification/Workspace.thy ===== *)
theory Workspace
  imports Tools Utf8 "HOL-Library.Sublist"
begin

text \<open>
  \<open>agent-tools/src/workspace.rs\<close> and what it needs of \<open>std::path\<close> and \<open>std::fs\<close> on Unix: paths as byte
  strings with their components, a tree of directories, files and symbolic links that the kernel walks
  with at most 40 links, and faults that an operation on a location may report.
\<close>

section \<open>Paths\<close>

definition slash :: char where
  "slash = CHR ''/''"

text \<open>The pieces between slashes, empty ones included.\<close>

fun split_on :: "char \<Rightarrow> string \<Rightarrow> string list" where
  "split_on d [] = [[]]"
| "split_on d (c # s) =
     (if c = d then [] # split_on d s
      else case split_on d s of [] \<Rightarrow> [[c]] | w # ws \<Rightarrow> (c # w) # ws)"

datatype path_component = RootDir | CurDir | ParentDir | Normal string

definition is_absolute :: "string \<Rightarrow> bool" where
  "is_absolute p = (p \<noteq> [] \<and> hd p = slash)"

definition component_of :: "string \<Rightarrow> path_component list" where
  "component_of w = (if w = [] \<or> w = ''.'' then [] else if w = ''..'' then [ParentDir] else [Normal w])"

text \<open>\<open>Path::components\<close>: a \<open>.\<close> counts only at the start of a relative path.\<close>

definition components :: "string \<Rightarrow> path_component list" where
  "components p =
     (if is_absolute p then [RootDir] else if hd (split_on slash p) = ''.'' then [CurDir] else []) @
     concat (map component_of (split_on slash p))"

definition path_join :: "string \<Rightarrow> string \<Rightarrow> string" where
  "path_join a b =
     (if is_absolute b then b else if a = [] \<or> last a = slash then a @ b else a @ [slash] @ b)"

text \<open>A location: the names from the root. \<open>loc_path\<close> writes it as an absolute path.\<close>

type_synonym location = "string list"

definition loc_path :: "location \<Rightarrow> string" where
  "loc_path l = slash # join [slash] l"

definition good_name :: "string \<Rightarrow> bool" where
  "good_name n \<longleftrightarrow> n \<noteq> [] \<and> n \<noteq> ''.'' \<and> n \<noteq> ''..'' \<and> slash \<notin> set n"

lemma split_on_nonempty [simp]: "split_on d s \<noteq> []"
  by (cases s) (auto split: list.splits)

lemma split_on_free: "d \<notin> set s \<Longrightarrow> split_on d s = [s]"
  by (induction s) auto

lemma split_on_append: "d \<notin> set w \<Longrightarrow> split_on d (w @ d # s) = w # split_on d s"
  by (induction w) (auto split: list.splits)

lemma split_on_join:
  "\<forall>w \<in> set ws. d \<notin> set w \<Longrightarrow> ws \<noteq> [] \<Longrightarrow> split_on d (join [d] ws) = ws"
  by (induction "[d]" ws rule: join.induct) (simp_all add: split_on_free split_on_append)

lemma split_on_pieces: "w \<in> set (split_on d s) \<Longrightarrow> d \<notin> set w"
  by (induction s arbitrary: w) (auto split: list.splits if_splits)

lemma components_loc:
  assumes "\<forall>n \<in> set l. good_name n"
  shows "components (loc_path l) = RootDir # map Normal l"
proof -
  have "split_on slash (loc_path l) = [] # (if l = [] then [[]] else l)"
    using assms by (cases "l = []") (simp_all add: loc_path_def good_name_def split_on_join)
  moreover have "concat (map component_of l) = map Normal l"
    using assms by (induction l) (simp_all add: component_of_def good_name_def)
  ultimately show ?thesis by (simp add: components_def is_absolute_def loc_path_def component_of_def)
qed

section \<open>The file system\<close>

datatype fs_node = Dir | File string | Link string

text \<open>
  Operations that may fail on a location for a reason the tree does not show (permissions, a broken
  device): the message of the error, if any; and how many bytes a write that fails leaves.
\<close>

datatype io_op = OpStat | OpOpen | OpRead | OpWrite | OpMkdir

record disk =
  dk_nodes :: "location \<Rightarrow> fs_node option"
  dk_faults :: "io_op \<Rightarrow> location \<Rightarrow> string option"
  dk_torn :: "location \<Rightarrow> nat"

datatype io_error = NotFound | NotADirectory | IsADirectory | LoopError | InvalidData | Fault string

definition io_text :: "io_error \<Rightarrow> string" where
  "io_text e = (case e of
       NotFound \<Rightarrow> ''No such file or directory (os error 2)''
     | NotADirectory \<Rightarrow> ''Not a directory (os error 20)''
     | IsADirectory \<Rightarrow> ''Is a directory (os error 21)''
     | LoopError \<Rightarrow> ''Too many levels of symbolic links (os error 40)''
     | InvalidData \<Rightarrow> ''stream did not contain valid UTF-8''
     | Fault m \<Rightarrow> m)"

text \<open>
  The walk of the kernel from the directory \<open>cur\<close> over the remaining names, with \<open>k\<close> links left. The
  flag tells whether a link in the last place is followed.
\<close>

function walk :: "(location \<Rightarrow> fs_node option) \<Rightarrow> nat \<Rightarrow> location \<Rightarrow> string list \<Rightarrow> io_error + location" where
  "walk nodes k cur [] = Inr cur"
| "walk nodes k cur (n # ns) =
     (if nodes cur \<noteq> Some Dir then Inl NotADirectory
      else if n = [] \<or> n = ''.'' then walk nodes k cur ns
      else if n = ''..'' then walk nodes k (butlast cur) ns
      else case nodes (cur @ [n]) of
        None \<Rightarrow> Inl NotFound
      | Some (Link t) \<Rightarrow>
          if k = 0 then Inl LoopError
          else walk nodes (k - 1) (if is_absolute t then [] else cur) (split_on slash t @ ns)
      | Some _ \<Rightarrow> walk nodes k (cur @ [n]) ns)"
  by pat_completeness auto
termination
  by (relation "measures [\<lambda>(nodes, k, cur, ns). k, \<lambda>(nodes, k, cur, ns). length ns]") auto

declare walk.simps(2) [simp del]

definition max_links :: nat where
  "max_links = 40"

text \<open>
  The location an absolute path leads to; \<open>fs::canonicalize\<close> is its path. A relative path is walked from
  the root, as by a process that runs there: the tools give absolute paths, made from a working directory that
  \<open>ProjectPaths::resolve\<close> has made absolute.
\<close>

definition locate :: "disk \<Rightarrow> string \<Rightarrow> io_error + location" where
  "locate d p =
     (if p = [] then Inl NotFound
      else case walk (dk_nodes d) max_links [] (split_on slash p) of
        Inl e \<Rightarrow> Inl e
      | Inr l \<Rightarrow> (case dk_faults d OpStat l of None \<Rightarrow> Inr l | Some m \<Rightarrow> Inl (Fault m)))"

definition canonicalize :: "disk \<Rightarrow> string \<Rightarrow> io_error + string" where
  "canonicalize d p = map_sum id loc_path (locate d p)"

text \<open>
  Where a path of an absolute location leads: only real directories, no links, good names.
\<close>

definition physical :: "(location \<Rightarrow> fs_node option) \<Rightarrow> location \<Rightarrow> bool" where
  "physical nodes l \<longleftrightarrow> (\<forall>n \<in> set l. good_name n) \<and> (\<forall>m. strict_prefix m l \<longrightarrow> nodes m = Some Dir) \<and>
     (nodes l = Some Dir \<or> (\<exists>c. nodes l = Some (File c)))"

lemma physical_butlast: "physical nodes l \<Longrightarrow> nodes l = Some Dir \<Longrightarrow> physical nodes (butlast l)"
  by (cases l rule: rev_cases) (auto simp: physical_def prefix_def strict_prefix_def)

lemma physical_snoc:
  "physical nodes l \<Longrightarrow> nodes l = Some Dir \<Longrightarrow> good_name n \<Longrightarrow> nodes (l @ [n]) = Some Dir \<or> nodes (l @ [n]) = Some (File c) \<Longrightarrow>
   physical nodes (l @ [n])"
  by (auto simp: physical_def strict_prefix_def prefix_snoc)

lemma walk_physical:
  "walk nodes k cur ns = Inr l \<Longrightarrow> nodes [] = Some Dir \<Longrightarrow> physical nodes cur \<Longrightarrow> \<forall>n \<in> set ns. slash \<notin> set n \<Longrightarrow>
   physical nodes l"
proof (induction nodes k cur ns rule: walk.induct)
  case (2 nodes k cur n ns)
  have root: "physical nodes []" using "2.prems"(2) by (simp add: physical_def)
  show ?case
  proof (cases "nodes cur = Some Dir")
    case False
    with "2.prems"(1) show ?thesis by (simp add: walk.simps(2))
  next
    case dir: True
    consider (dot) "n = [] \<or> n = ''.''" | (up) "\<not> (n = [] \<or> n = ''.'')" "n = ''..''"
      | (name) "\<not> (n = [] \<or> n = ''.'')" "n \<noteq> ''..''" by blast
    then show ?thesis
    proof cases
      case dot
      with 2 dir show ?thesis by (simp add: walk.simps(2))
    next
      case up
      with 2(2) "2.prems" dir physical_butlast [OF "2.prems"(3) dir] show ?thesis by (simp add: walk.simps(2))
    next
      case name
      with "2.prems"(4) have good: "good_name n" by (simp add: good_name_def)
      show ?thesis
      proof (cases "nodes (cur @ [n])")
        case None
        with "2.prems"(1) dir name show ?thesis by (simp add: walk.simps(2))
      next
        case (Some v)
        show ?thesis
        proof (cases v)
          case (Link t)
          with Some dir name "2.prems"(1) have k: "k \<noteq> 0" by (auto simp: walk.simps(2) split: if_splits)
          have "\<forall>m \<in> set (split_on slash t @ ns). slash \<notin> set m"
            using "2.prems"(4) split_on_pieces by auto
          with 2(5) [OF _ name Some Link k] "2.prems"(1-3) Some Link dir name k root show ?thesis
            by (simp add: walk.simps(2) split: if_splits)
        qed (use 2(3,4) "2.prems" Some dir name physical_snoc [OF "2.prems"(3) dir good] in \<open>auto simp: walk.simps(2)\<close>)
      qed
    qed
  qed
qed simp

section \<open>Resolving a path\<close>

definition canonical_working_dir :: "disk \<Rightarrow> string \<Rightarrow> string + string" where
  "canonical_working_dir d wd =
     map_sum (\<lambda>_. ''failed to canonicalize working directory '' @ utf8_lossy wd) id (canonicalize d wd)"

definition starts_with :: "string \<Rightarrow> string \<Rightarrow> bool" where
  "starts_with p b = prefix (components b) (components p)"

definition resolve_target :: "disk \<Rightarrow> string \<Rightarrow> string \<Rightarrow> string + string" where
  "resolve_target d wd path =
     (case canonical_working_dir d wd of
        Inl e \<Rightarrow> Inl e
      | Inr root \<Rightarrow>
          let requested = (if is_absolute path then path else path_join root path) in
          case canonicalize d requested of
            Inl e \<Rightarrow> Inl (''path '' @ path @ '' is unavailable: '' @ io_text e)
          | Inr target \<Rightarrow>
              if \<not> starts_with target root then Inl (''path '' @ path @ '' is outside the working directory'')
              else Inr target)"

fun component_text :: "path_component \<Rightarrow> string" where
  "component_text RootDir = [slash]"
| "component_text CurDir = ''.''"
| "component_text ParentDir = ''..''"
| "component_text (Normal n) = n"

definition strip_path_prefix :: "string \<Rightarrow> string \<Rightarrow> string option" where
  "strip_path_prefix p b =
     (if starts_with p b then Some (join [slash] (map component_text (drop (length (components b)) (components p))))
      else None)"

definition relative_display_path :: "string \<Rightarrow> string \<Rightarrow> string + string" where
  "relative_display_path p wd =
     (case strip_path_prefix p wd of
        None \<Rightarrow> Inl (''path '' @ utf8_lossy p @ '' escaped working directory '' @ utf8_lossy wd)
      | Some r \<Rightarrow> Inr (map (\<lambda>c. if c = CHR 0x5C then slash else c) (utf8_lossy r)))"

definition expected_failure :: "tool_call \<Rightarrow> string \<Rightarrow> tool_result" where
  "expected_failure call message = failed call (TcText message) False"

section \<open>Output limits\<close>

definition max_output_bytes :: nat where
  "max_output_bytes = 32768"

definition default_max_lines :: nat where
  "default_max_lines = 2000"

definition output_limit_marker :: string where
  "output_limit_marker = ''[truncated: output limit reached]''"

definition utf8_prefix :: "string \<Rightarrow> nat \<Rightarrow> string" where
  "utf8_prefix v m = take (floor_boundary v (min (length v) m)) v"

definition ends_with :: "string \<Rightarrow> string \<Rightarrow> bool" where
  "ends_with s e = suffix e s"

definition with_marker :: "string \<Rightarrow> string" where
  "with_marker s = (if ends_with s output_limit_marker then s else s @ output_limit_marker)"

definition with_marker_line :: "bool \<Rightarrow> string \<Rightarrow> string" where
  "with_marker_line over s =
     (if over \<and> \<not> ends_with s output_limit_marker
      then (if s = [] then s else s @ [newline]) @ output_limit_marker else s)"

definition truncate_from_start :: "string \<Rightarrow> nat \<Rightarrow> nat \<Rightarrow> string" where
  "truncate_from_start t max_lines max_bytes =
     (let lines = buf_lines t;
          selected = (if length lines > max_lines then join [newline] (take max_lines lines) else t) in
      if length selected > max_bytes then with_marker (utf8_prefix selected max_bytes)
      else with_marker_line (length lines > max_lines) selected)"

definition truncate_tail :: "string \<Rightarrow> nat \<Rightarrow> nat \<Rightarrow> string" where
  "truncate_tail t max_lines max_bytes =
     (let lines = buf_lines t;
          over = length lines > max_lines;
          selected = (if over then join [newline] (drop (length lines - max_lines) lines) else t) in
      if length selected > max_bytes then
        let slice = drop (length selected - max_bytes) selected;
            start = (case position (\<lambda>c. c = newline) slice of None \<Rightarrow> 0 | Some i \<Rightarrow> i + 1) in
        with_marker (utf8_lossy (drop start slice))
      else with_marker_line over selected)"

section \<open>Facts about resolving\<close>

definition disk_ok :: "disk \<Rightarrow> bool" where
  "disk_ok d \<longleftrightarrow> dk_nodes d [] = Some Dir"

lemma locate_physical:
  assumes "locate d p = Inr l" "disk_ok d"
  shows "physical (dk_nodes d) l"
proof -
  from assms(1) have w: "walk (dk_nodes d) max_links [] (split_on slash p) = Inr l"
    by (auto simp: locate_def split: if_splits sum.splits option.splits)
  have "physical (dk_nodes d) []" using assms(2) by (simp add: physical_def disk_ok_def)
  with walk_physical [OF w] assms(2) split_on_pieces show ?thesis by (auto simp: disk_ok_def)
qed

lemma canonicalize_Inr:
  assumes "canonicalize d p = Inr t" "disk_ok d"
  obtains l where "t = loc_path l" "locate d p = Inr l" "physical (dk_nodes d) l"
  using assms locate_physical by (cases "locate d p") (auto simp: canonicalize_def)

lemma starts_with_loc:
  assumes "\<forall>n \<in> set l. good_name n" "\<forall>n \<in> set m. good_name n"
  shows "starts_with (loc_path l) (loc_path m) \<longleftrightarrow> prefix m l"
proof -
  have "prefix (map Normal m) (map Normal l) \<longleftrightarrow> prefix m l"
    by (metis injI map_mono_prefix path_component.inject prefix_map_rightE map_injective)
  then show ?thesis by (simp add: starts_with_def components_loc assms)
qed

lemma resolve_target_inside:
  assumes "resolve_target d wd path = Inr t" "disk_ok d"
  obtains root l where "locate d wd = Inr root" "t = loc_path l" "prefix root l" "physical (dk_nodes d) l"
    "physical (dk_nodes d) root"
proof -
  from assms(1) obtain r where r: "canonicalize d wd = Inr r"
    and t: "canonicalize d (if is_absolute path then path else path_join r path) = Inr t" "starts_with t r"
    by (auto simp: resolve_target_def canonical_working_dir_def Let_def map_sum_def split: sum.splits if_splits)
  from canonicalize_Inr [OF r assms(2)] obtain root where root: "r = loc_path root" "locate d wd = Inr root"
    "physical (dk_nodes d) root" by blast
  from canonicalize_Inr [OF t(1) assms(2)] obtain l where l: "t = loc_path l" "physical (dk_nodes d) l" by blast
  from t(2) root(1,3) l have "prefix root l" by (simp add: starts_with_loc physical_def)
  with root l that show thesis by blast
qed

text \<open>A location without links is where its own path leads.\<close>

lemma walk_append_physical:
  "physical nodes (cur @ ns) \<Longrightarrow> walk nodes k cur ns = Inr (cur @ ns)"
proof (induction ns arbitrary: cur)
  case (Cons n ns)
  from Cons.prems have dir: "nodes cur = Some Dir" and good: "good_name n"
    by (auto simp: physical_def strict_prefix_def)
  have "nodes (cur @ [n]) = Some Dir \<or> (\<exists>c. nodes (cur @ [n]) = Some (File c))"
    using Cons.prems by (cases ns) (auto simp: physical_def strict_prefix_def prefix_def)
  with dir good Cons.IH [of "cur @ [n]"] Cons.prems show ?case
    by (auto simp: walk.simps(2) good_name_def)
qed simp

lemma walk_physical_file:
  "nodes cur = Some Dir \<Longrightarrow> walk nodes k cur [[]] = Inr cur"
  by (simp add: walk.simps(2))

lemma good_name_slash: "good_name n \<Longrightarrow> slash \<notin> set n"
  by (simp add: good_name_def)

lemma join_Cons: "\<exists>r. join sep (x # xs) = x @ r"
  by (cases xs) auto

lemma join_absolute:
  assumes "ns \<noteq> []" "\<forall>n \<in> set ns. good_name n"
  shows "\<not> is_absolute (join [slash] ns)"
proof -
  from assms(1) obtain n r where ns: "ns = n # r" by (cases ns) auto
  with assms(2) have n: "n \<noteq> []" "slash \<notin> set n" by (simp_all add: good_name_def)
  obtain t where "join [slash] (n # r) = n @ t" using join_Cons by blast
  moreover have "hd n \<noteq> slash" using n hd_in_set by metis
  ultimately show ?thesis using n by (simp add: is_absolute_def ns)
qed

lemma join_append:
  "xs \<noteq> [] \<Longrightarrow> ys \<noteq> [] \<Longrightarrow> join sep xs @ sep @ join sep ys = join sep (xs @ ys)"
proof (induction sep xs rule: join.induct)
  case (2 sep x)
  then show ?case by (cases ys) auto
qed auto

lemma last_join: "xs \<noteq> [] \<Longrightarrow> last xs \<noteq> [] \<Longrightarrow> last (join sep xs) = last (last xs) \<and> join sep xs \<noteq> []"
  by (induction sep xs rule: join.induct) auto

lemma path_join_loc:
  assumes "ns \<noteq> []" "\<forall>n \<in> set (root @ ns). good_name n"
  shows "path_join (loc_path root) (join [slash] ns) = loc_path (root @ ns)"
proof (cases "root = []")
  case True
  with assms join_absolute show ?thesis by (simp add: path_join_def loc_path_def)
next
  case False
  with assms(2) have g: "good_name (last root)" by simp
  then have l: "last root \<noteq> []" "last (last root) \<noteq> slash"
    by (auto simp: good_name_def) (metis last_in_set)
  have "last (loc_path root) \<noteq> slash" using last_join [OF False l(1), of "[slash]"] l(2) by (simp add: loc_path_def)
  with False assms join_absolute join_append [OF False assms(1), of "[slash]"] show ?thesis
    by (simp add: path_join_def loc_path_def)
qed

lemma locate_loc:
  assumes "physical (dk_nodes d) l" "disk_ok d" "dk_faults d OpStat l = None"
  shows "locate d (loc_path l) = Inr l"
proof -
  have "split_on slash (loc_path l) = [] # (if l = [] then [[]] else l)"
    using assms(1) by (cases "l = []") (simp_all add: loc_path_def physical_def good_name_def split_on_join)
  moreover have "walk (dk_nodes d) max_links [] ([] # (if l = [] then [[]] else l)) = Inr l"
    using walk_append_physical [of "dk_nodes d" "[]" l] assms(1,2) by (auto simp: walk.simps(2) disk_ok_def)
  ultimately show ?thesis using assms(3) by (simp add: locate_def loc_path_def)
qed

lemma resolve_target_relative:
  assumes "disk_ok d" "locate d wd = Inr root" "ns \<noteq> []" "physical (dk_nodes d) (root @ ns)"
    "dk_faults d OpStat (root @ ns) = None"
  shows "resolve_target d wd (join [slash] ns) = Inr (loc_path (root @ ns))"
proof -
  have names: "\<forall>n \<in> set (root @ ns). good_name n" using assms(4) by (simp add: physical_def)
  have "\<not> is_absolute (join [slash] ns)" using join_absolute assms(3) names by simp
  moreover have "canonicalize d (loc_path (root @ ns)) = Inr (loc_path (root @ ns))"
    by (simp add: canonicalize_def locate_loc [OF assms(4,1,5)])
  moreover have "starts_with (loc_path (root @ ns)) (loc_path root)" using names by (subst starts_with_loc) auto
  ultimately show ?thesis
    using assms(2) path_join_loc [OF assms(3) names]
    by (simp add: resolve_target_def canonical_working_dir_def canonicalize_def Let_def)
qed

section \<open>Facts about output limits\<close>

lemma valid_utf8_simple [simp]: "valid_utf8 []" "valid_utf8 [newline]" "valid_utf8 output_limit_marker"
  by code_simp+

lemma utf8_prefix_length: "length (utf8_prefix v m) \<le> m"
  using floor_boundary_le [of v "min (length v) m"] by (auto simp: utf8_prefix_def)

lemma utf8_prefix_valid: "valid_utf8 v \<Longrightarrow> valid_utf8 (utf8_prefix v m)"
  using valid_take_boundary floor_boundary_boundary by (auto simp: utf8_prefix_def)

lemma with_marker_length: "length (with_marker s) \<le> length s + 33"
  by (simp add: with_marker_def output_limit_marker_def)

lemma with_marker_line_length: "length (with_marker_line over s) \<le> length s + 34"
  by (simp add: with_marker_line_def output_limit_marker_def)

lemma with_marker_valid: "valid_utf8 s \<Longrightarrow> valid_utf8 (with_marker s)"
  by (simp add: with_marker_def valid_utf8_append)

lemma with_marker_line_valid: "valid_utf8 s \<Longrightarrow> valid_utf8 (with_marker_line over s)"
  using valid_utf8_append [of s "[newline]"] valid_utf8_append [of "s @ [newline]" output_limit_marker]
  by (simp add: with_marker_line_def)

lemma newline_not_cont: "\<not> is_cont newline"
  by code_simp

lemma valid_strip_cr: "valid_utf8 s \<Longrightarrow> valid_utf8 (strip_cr s)"
proof (cases "s \<noteq> [] \<and> last s = CHR 0x0D")
  case True
  assume "valid_utf8 s"
  have "\<not> is_cont (CHR 0x0D)" by code_simp
  with True have "char_boundary s (length s - 1)" by (auto simp: char_boundary_def last_conv_nth)
  with \<open>valid_utf8 s\<close> True show ?thesis by (simp add: strip_cr_def butlast_conv_take valid_take_boundary)
qed (auto simp: strip_cr_def)

lemma span_valid:
  assumes "valid_utf8 s"
  shows "valid_utf8 (takeWhile (\<lambda>c. c \<noteq> newline) s) \<and> valid_utf8 (tl (dropWhile (\<lambda>c. c \<noteq> newline) s))"
proof (cases "dropWhile (\<lambda>c. c \<noteq> newline) s")
  case Nil
  then have tw: "takeWhile (\<lambda>c. c \<noteq> newline) s = s" by (simp add: takeWhile_eq_all_conv dropWhile_eq_Nil_conv)
  show ?thesis unfolding tw Nil list.sel using assms by simp
next
  case (Cons n r)
  define t where "t = takeWhile (\<lambda>c. c \<noteq> newline) s"
  have n: "n = newline" using hd_dropWhile [of "\<lambda>c. c \<noteq> newline" s] Cons by simp
  have "t @ dropWhile (\<lambda>c. c \<noteq> newline) s = s" unfolding t_def by (rule takeWhile_dropWhile_id)
  then have s: "s = t @ newline # r" unfolding Cons n by (rule sym)
  have b: "char_boundary s (length t)" using newline_not_cont by (simp add: char_boundary_def s)
  have t: "valid_utf8 t" "valid_utf8 (newline # r)"
    using valid_take_boundary [OF assms b] by (simp_all add: s)
  then have "valid_utf8 r" by (simp add: valid_utf8_def newline_def byte_def valid_utf8_bytes.simps(2))
  with t Cons show ?thesis by (simp add: t_def)
qed

lemma valid_buf_lines: "valid_utf8 s \<Longrightarrow> l \<in> set (buf_lines s) \<Longrightarrow> valid_utf8 l"
proof (induction s rule: buf_lines.induct)
  case (2 c s)
  from span_valid [OF "2.prems"(1)] have sp: "valid_utf8 (takeWhile (\<lambda>c. c \<noteq> newline) (c # s))"
    "valid_utf8 (tl (dropWhile (\<lambda>c. c \<noteq> newline) (c # s)))" by blast+
  show ?case
  proof (cases "dropWhile (\<lambda>c. c \<noteq> newline) (c # s)")
    case Nil
    with "2.prems"(2) sp(1) show ?thesis by (simp add: Let_def split: if_splits)
  next
    case (Cons n r)
    with "2.prems"(2) have "l = strip_cr (takeWhile (\<lambda>c. c \<noteq> newline) (c # s)) \<or> l \<in> set (buf_lines r)"
      by (simp only: buf_lines.simps Let_def list.case set_simps insert_iff)
    with "2.IH" [OF refl Cons] sp Cons valid_strip_cr show ?thesis by auto
  qed
qed simp

lemma valid_join: "valid_utf8 sep \<Longrightarrow> \<forall>x \<in> set xs. valid_utf8 x \<Longrightarrow> valid_utf8 (join sep xs)"
  by (induction sep xs rule: join.induct) (simp_all add: valid_utf8_append)

lemma valid_selected:
  "valid_utf8 t \<Longrightarrow> set ls \<subseteq> set (buf_lines t) \<Longrightarrow> valid_utf8 (join [newline] ls)"
  by (intro valid_join) (auto intro: valid_buf_lines)

lemma truncate_from_start_ok:
  assumes "valid_utf8 t"
  shows "length (truncate_from_start t n m) \<le> m + 34 \<and> valid_utf8 (truncate_from_start t n m)"
proof -
  define sel where "sel = (if length (buf_lines t) > n then join [newline] (take n (buf_lines t)) else t)"
  have v: "valid_utf8 sel" using assms by (auto simp: sel_def intro!: valid_selected dest: in_set_takeD)
  have eq: "truncate_from_start t n m = (if length sel > m then with_marker (utf8_prefix sel m)
    else with_marker_line (length (buf_lines t) > n) sel)"
    by (simp add: truncate_from_start_def sel_def Let_def)
  show ?thesis
  proof (cases "length sel > m")
    case True
    have "length (with_marker (utf8_prefix sel m)) \<le> m + 34"
      using with_marker_length [of "utf8_prefix sel m"] utf8_prefix_length [of sel m] by linarith
    with True eq v show ?thesis by (simp add: with_marker_valid utf8_prefix_valid)
  next
    case False
    with eq v with_marker_line_length [of "length (buf_lines t) > n" sel] show ?thesis
      by (simp add: with_marker_line_valid)
  qed
qed

lemma position_snoc: "\<forall>x \<in> set xs. \<not> P x \<Longrightarrow> P z \<Longrightarrow> position P (xs @ [z]) = Some (length xs)"
  by (induction xs) auto

lemma lossy_slice_length:
  assumes "valid_utf8 s" "k \<le> length s"
  shows "length (utf8_lossy (drop i (drop k s))) \<le> length s - k + 6"
proof (cases "i + k \<le> length s")
  case True
  have "drop i (drop k s) = drop (i + k) s" by (simp add: add.commute)
  with lossy_suffix_length [OF assms(1) True] show ?thesis by simp
qed simp

lemma truncate_tail_ok:
  assumes "valid_utf8 t"
  shows "length (truncate_tail t n m) \<le> m + 39 \<and> valid_utf8 (truncate_tail t n m)"
proof -
  define sel where
    "sel = (if length (buf_lines t) > n then join [newline] (drop (length (buf_lines t) - n) (buf_lines t)) else t)"
  have v: "valid_utf8 sel" using assms by (auto simp: sel_def intro!: valid_selected dest: in_set_dropD)
  define start where "start = (case position (\<lambda>c. c = newline) (drop (length sel - m) sel) of None \<Rightarrow> 0 | Some i \<Rightarrow> i + 1)"
  have eq: "truncate_tail t n m = (if length sel > m then with_marker (utf8_lossy (drop start (drop (length sel - m) sel)))
    else with_marker_line (length (buf_lines t) > n) sel)"
    unfolding truncate_tail_def Let_def sel_def start_def by simp
  show ?thesis
  proof (cases "length sel > m")
    case True
    with lossy_slice_length [OF v, of "length sel - m" start]
      with_marker_length [of "utf8_lossy (drop start (drop (length sel - m) sel))"]
    have "length (with_marker (utf8_lossy (drop start (drop (length sel - m) sel)))) \<le> m + 39" by simp
    with True eq show ?thesis by (simp add: with_marker_valid lossy_is_valid)
  next
    case False
    with eq v with_marker_line_length [of "length (buf_lines t) > n" sel] show ?thesis
      by (simp add: with_marker_line_valid)
  qed
qed

section \<open>Properties\<close>

text \<open>
  C27: a target that resolves lies in the working directory, whatever links and \<open>..\<close> the path has: both
  are locations without links, and the target's names continue those of the directory.
\<close>

theorem resolve_target_contained:
  assumes "disk_ok d" "resolve_target d wd path = Inr t"
  shows "\<exists>root l. locate d wd = Inr root \<and> t = loc_path l \<and> prefix root l \<and> physical (dk_nodes d) l"
  using resolve_target_inside [OF assms(2,1)] by blast

definition demo_nodes :: "location \<Rightarrow> fs_node option" where
  "demo_nodes = map_of
     [([], Dir), ([''work''], Dir), ([''work'', ''a.txt''], File ''aaa''),
      ([''work'', ''out''], Link ''/etc''), ([''work'', ''self''], Link ''.''),
      ([''etc''], Dir), ([''etc'', ''passwd''], File ''root'')]"

definition demo_disk :: disk where
  "demo_disk = \<lparr>dk_nodes = demo_nodes, dk_faults = (\<lambda>_ _. None), dk_torn = (\<lambda>_. 0)\<rparr>"

lemma demo_resolve:
  "disk_ok demo_disk" "resolve_target demo_disk ''/work'' ''self/../work/a.txt'' = Inr ''/work/a.txt''"
  "\<not> is_ok (resolve_target demo_disk ''/work'' ''out/passwd'')"
  by code_simp+

lemma resolve_target_contained_witness:
  "\<exists>root l. locate demo_disk ''/work'' = Inr root \<and> ''/work/a.txt'' = loc_path l \<and> prefix root l \<and> physical demo_nodes l"
  using resolve_target_contained [OF demo_resolve(1,2)] by (simp add: demo_disk_def)

text \<open>
  The texts the tools cut stay valid UTF-8, and they exceed the byte limit by at most the marker
  and the repair of one split character.
\<close>

theorem truncation_bounds:
  assumes "valid_utf8 t"
  shows "length (truncate_from_start t n m) \<le> m + 34 \<and> valid_utf8 (truncate_from_start t n m) \<and>
    length (truncate_tail t n m) \<le> m + 39 \<and> valid_utf8 (truncate_tail t n m)"
  using truncate_from_start_ok [OF assms] truncate_tail_ok [OF assms] by blast

lemma truncation_bounds_witness: "length (truncate_tail ''ab'' 1 1) \<le> 40"
proof -
  have "valid_utf8 ''ab''" by code_simp
  from truncation_bounds [OF this, of 1 1] show ?thesis by simp
qed

text \<open>
  When the last bytes hold no newline but the final one, the cut removes everything: only the marker is
  left of a long last line.
\<close>

theorem tail_of_long_line_lost:
  assumes "0 < m" "m \<le> length l" "newline \<notin> set l" "0 < n"
  shows "truncate_tail (l @ [newline]) n m = output_limit_marker"
proof -
  have lines: "length (buf_lines (l @ [newline])) = 1" using buf_lines_line [OF assms(3), of "[]"] by simp
  have slice: "drop (Suc (length l) - m) (l @ [newline]) = drop (Suc (length l) - m) l @ [newline]"
    using assms(1) by simp
  have "position (\<lambda>c. c = newline) (drop k l @ [newline]) = Some (length (drop k l))" for k
    using assms(3) by (intro position_snoc) (auto dest: in_set_dropD)
  with lines slice assms show ?thesis
    by (simp add: truncate_tail_def Let_def with_marker_def ends_with_def output_limit_marker_def)
qed

end
