(* ===== verification/File_Tools.thy ===== *)
theory File_Tools
  imports Workspace
begin

text \<open>
  The executors of \<open>agent-tools\<close> that work on files and commands: \<open>edit\<close>, \<open>write\<close>, \<open>read\<close>, \<open>find\<close>
  and \<open>bash\<close>. An executor gives \<open>Inl\<close> for an \<open>Err\<close> (its outermost message), \<open>Inr\<close> for a tool result; those
  that write also give the disk after them. The directory walker, the glob compiler and the shell are
  parameters.
\<close>

section \<open>Inputs\<close>

text \<open>
  \<open>serde_json::from_value\<close> into a structure that denies unknown fields; the schema of each tool admits
  objects only.
\<close>

fun only_fields :: "string list \<Rightarrow> json \<Rightarrow> bool" where
  "only_fields ks (JObj kvs) = list_all (\<lambda>(k, _). k \<in> set ks) kvs"
| "only_fields ks _ = False"

definition str_field :: "string \<Rightarrow> json \<Rightarrow> string option" where
  "str_field k j = Option.bind (json_get k j) json_as_str"

definition usize_of :: "json \<Rightarrow> u64 option" where
  "usize_of j = (case j of JInt i \<Rightarrow> if 0 \<le> i \<and> i < 2 ^ 64 then Some (word_of_int i) else None | _ \<Rightarrow> None)"

text \<open>An \<open>Option<usize>\<close> field with a default: \<open>None\<close> is the failure.\<close>

definition opt_usize_field :: "string \<Rightarrow> json \<Rightarrow> u64 option option" where
  "opt_usize_field k j =
     (case json_get k j of None \<Rightarrow> Some None | Some JNull \<Rightarrow> Some None | Some v \<Rightarrow> map_option Some (usize_of v))"

definition usize_field :: "u64 \<Rightarrow> string \<Rightarrow> json \<Rightarrow> u64 option" where
  "usize_field dflt k j = (case json_get k j of None \<Rightarrow> Some dflt | Some v \<Rightarrow> usize_of v)"

definition str_field_default :: "string \<Rightarrow> string \<Rightarrow> json \<Rightarrow> string option" where
  "str_field_default dflt k j = (case json_get k j of None \<Rightarrow> Some dflt | Some v \<Rightarrow> json_as_str v)"

section \<open>Files\<close>

definition node_at :: "disk \<Rightarrow> string \<Rightarrow> io_error + location \<times> fs_node" where
  "node_at d p =
     (case locate d p of
        Inl e \<Rightarrow> Inl e
      | Inr l \<Rightarrow> (case dk_nodes d l of None \<Rightarrow> Inl NotFound | Some v \<Rightarrow> Inr (l, v)))"

fun is_file :: "fs_node \<Rightarrow> bool" where
  "is_file (File _) = True"
| "is_file _ = False"

text \<open>\<open>Path::exists\<close> of a path the process sees from \<open>cwd\<close>.\<close>

definition exists_from :: "disk \<Rightarrow> string \<Rightarrow> string \<Rightarrow> bool" where
  "exists_from d cwd p = (p \<noteq> [] \<and> is_ok (locate d (path_join cwd p)))"

text \<open>
  Where \<open>open\<close> with \<open>O_CREAT\<close> leads: the last name may be missing, and a link in the last place is followed.
\<close>

function open_create :: "(location \<Rightarrow> fs_node option) \<Rightarrow> nat \<Rightarrow> location \<Rightarrow> string list \<Rightarrow> io_error + location" where
  "open_create nodes k cur [] = Inl IsADirectory"
| "open_create nodes k cur (n # ns) =
     (if nodes cur \<noteq> Some Dir then Inl NotADirectory
      else if n = [] \<or> n = ''.'' then open_create nodes k cur ns
      else if n = ''..'' then open_create nodes k (butlast cur) ns
      else case nodes (cur @ [n]) of
        None \<Rightarrow> if ns = [] then Inr (cur @ [n]) else Inl NotFound
      | Some (Link t) \<Rightarrow>
          if k = 0 then Inl LoopError
          else open_create nodes (k - 1) (if is_absolute t then [] else cur) (split_on slash t @ ns)
      | Some Dir \<Rightarrow> open_create nodes k (cur @ [n]) ns
      | Some (File c) \<Rightarrow> if ns = [] then Inr (cur @ [n]) else Inl NotADirectory)"
  by pat_completeness auto
termination
  by (relation "measures [\<lambda>(nodes, k, cur, ns). k, \<lambda>(nodes, k, cur, ns). length ns]") auto

declare open_create.simps(2) [simp del]

definition put_node :: "location \<Rightarrow> fs_node \<Rightarrow> disk \<Rightarrow> disk" where
  "put_node l v d = d\<lparr>dk_nodes := (dk_nodes d)(l \<mapsto> v)\<rparr>"

text \<open>\<open>fs::write\<close>: the file is emptied when it is opened, and a write that fails leaves the first bytes of the content.\<close>

definition fs_write :: "disk \<Rightarrow> string \<Rightarrow> string \<Rightarrow> io_error option \<times> disk" where
  "fs_write d p content =
     (if p = [] then (Some NotFound, d)
      else case open_create (dk_nodes d) max_links [] (split_on slash p) of
        Inl e \<Rightarrow> (Some e, d)
      | Inr l \<Rightarrow>
          (case dk_faults d OpOpen l of
             Some m \<Rightarrow> (Some (Fault m), d)
           | None \<Rightarrow>
               (case dk_faults d OpWrite l of
                  Some m \<Rightarrow> (Some (Fault m), put_node l (File (take (dk_torn d l) content)) d)
                | None \<Rightarrow> (None, put_node l (File content) d))))"

text \<open>
  \<open>fs::create_dir_all\<close>: missing directories are made from the top; a link must lead to something that exists.
\<close>

fun make_dirs :: "disk \<Rightarrow> location \<Rightarrow> string list \<Rightarrow> io_error option \<times> disk" where
  "make_dirs d cur [] = ((if dk_nodes d cur = Some Dir then None else Some NotADirectory), d)"
| "make_dirs d cur (n # ns) =
     (if dk_nodes d cur \<noteq> Some Dir then (Some NotADirectory, d)
      else if n = [] \<or> n = ''.'' then make_dirs d cur ns
      else if n = ''..'' then make_dirs d (butlast cur) ns
      else case dk_nodes d (cur @ [n]) of
        None \<Rightarrow>
          (case dk_faults d OpMkdir (cur @ [n]) of
             Some m \<Rightarrow> (Some (Fault m), d)
           | None \<Rightarrow> make_dirs (put_node (cur @ [n]) Dir d) (cur @ [n]) ns)
      | Some (Link t) \<Rightarrow>
          (case walk (dk_nodes d) max_links (if is_absolute t then [] else cur) (split_on slash t) of
             Inl e \<Rightarrow> (Some e, d)
           | Inr l \<Rightarrow> make_dirs d l ns)
      | Some _ \<Rightarrow> make_dirs d (cur @ [n]) ns)"

declare make_dirs.simps(2) [simp del]

definition create_dir_all :: "disk \<Rightarrow> string \<Rightarrow> io_error option \<times> disk" where
  "create_dir_all d p = (if p = [] then (None, d) else make_dirs d [] (split_on slash p))"

section \<open>Edit\<close>

record edit_replacement =
  old_string :: string
  new_string :: string

record edit_input =
  ed_path :: string
  ed_edits :: "edit_replacement list"

definition edit_replacement_of :: "json \<Rightarrow> edit_replacement option" where
  "edit_replacement_of j =
     (if only_fields [''old_string'', ''new_string''] j then
        case (str_field ''old_string'' j, str_field ''new_string'' j) of
          (Some old, Some new) \<Rightarrow> Some \<lparr>old_string = old, new_string = new\<rparr>
        | _ \<Rightarrow> None
      else None)"

definition edit_input_of :: "json \<Rightarrow> edit_input option" where
  "edit_input_of j =
     (if only_fields [''path'', ''edits''] j then
        case (str_field ''path'' j, json_get ''edits'' j) of
          (Some p, Some (JArr es)) \<Rightarrow> map_option (\<lambda>rs. \<lparr>ed_path = p, ed_edits = rs\<rparr>) (those (map edit_replacement_of es))
        | _ \<Rightarrow> None
      else None)"

type_synonym edit_range = "nat \<times> nat \<times> string"

definition range_start :: "edit_range \<Rightarrow> nat" where
  "range_start r = fst r"

fun edit_ranges :: "string \<Rightarrow> string \<Rightarrow> nat \<Rightarrow> edit_replacement list \<Rightarrow> string + edit_range list" where
  "edit_ranges original path i [] = Inr []"
| "edit_ranges original path i (e # es) =
     (if old_string e = [] then Inl (''edit '' @ dec i @ '' in '' @ path @ '' has an empty old_string'')
      else case match_indices (old_string e) original of
        [] \<Rightarrow> Inl (''edit '' @ dec i @ '' in '' @ path @ '' could not find old_string in the original file'')
      | [start] \<Rightarrow>
          (case edit_ranges original path (i + 1) es of
             Inl m \<Rightarrow> Inl m
           | Inr rs \<Rightarrow> Inr ((start, start + length (old_string e), new_string e) # rs))
      | _ \<Rightarrow> Inl (''edit '' @ dec i @ '' in '' @ path @
               '' matched old_string more than once; keep old_string minimal but unique''))"

fun ranges_overlap :: "edit_range list \<Rightarrow> bool" where
  "ranges_overlap (a # b # rs) = (fst (snd a) > fst b \<or> ranges_overlap (b # rs))"
| "ranges_overlap _ = False"

fun splice_edits :: "string \<Rightarrow> nat \<Rightarrow> edit_range list \<Rightarrow> string" where
  "splice_edits original cursor [] = drop cursor original"
| "splice_edits original cursor ((start, stop, new) # rs) =
     take (start - cursor) (drop cursor original) @ new @ splice_edits original stop rs"

definition apply_edits :: "string \<Rightarrow> edit_replacement list \<Rightarrow> string \<Rightarrow> string + string" where
  "apply_edits original edits path =
     (case edit_ranges original path 0 edits of
        Inl m \<Rightarrow> Inl m
      | Inr ranges \<Rightarrow>
          let sorted = sort_key range_start ranges in
          if ranges_overlap sorted
          then Inl (''edits in '' @ path @ '' overlap; merge nearby changes into one replacement'')
          else Inr (splice_edits original 0 sorted))"

definition edit_file :: "disk \<Rightarrow> tool_call \<Rightarrow> edit_input \<Rightarrow> string \<Rightarrow> (string + tool_result) \<times> disk" where
  "edit_file d call input wd =
     (if ed_edits input = [] then (Inr (expected_failure call ''edit requires at least one replacement in edits''), d)
      else case canonical_working_dir d wd of
        Inl e \<Rightarrow> (Inl e, d)
      | Inr root \<Rightarrow>
          (case resolve_target d root (ed_path input) of
             Inl m \<Rightarrow> (Inr (expected_failure call m), d)
           | Inr target \<Rightarrow>
               (case node_at d target of
                  Inl e \<Rightarrow>
                    (Inr (expected_failure call (''failed to inspect '' @ ed_path input @ '': '' @ io_text e)), d)
                | Inr (l, v) \<Rightarrow>
                    (case v of
                       File original \<Rightarrow>
                         (case (dk_faults d OpOpen l, dk_faults d OpRead l, valid_utf8 original) of
                            (None, None, True) \<Rightarrow>
                              (case apply_edits original (ed_edits input) (ed_path input) of
                                 Inl m \<Rightarrow> (Inr (expected_failure call m), d)
                               | Inr updated \<Rightarrow>
                                   (case fs_write d target updated of
                                      (Some e, d') \<Rightarrow> (Inl (''failed to write '' @ ed_path input), d')
                                    | (None, d') \<Rightarrow>
                                        (Inr (succeeded call (TcText (''Successfully replaced '' @
                                           dec (length (ed_edits input)) @ '' block(s) in '' @ ed_path input @ ''.''))), d')))
                          | (f, g, _) \<Rightarrow>
                              (Inr (expected_failure call (''failed to read '' @ ed_path input @ '': '' @
                                 io_text (case f of Some m \<Rightarrow> Fault m
                                   | None \<Rightarrow> (case g of Some m \<Rightarrow> Fault m | None \<Rightarrow> InvalidData)))), d))
                     | _ \<Rightarrow>
                         (Inr (expected_failure call (''edit target '' @ ed_path input @ '' is not a regular file'')), d)))))"

definition edit_execute :: "disk \<Rightarrow> tool_call \<Rightarrow> string \<Rightarrow> (string + tool_result) \<times> disk" where
  "edit_execute d call wd =
     (case edit_input_of (call_input call) of
        None \<Rightarrow> (Inl ''edit input no longer matches its schema'', d)
      | Some input \<Rightarrow> edit_file d call input wd)"

section \<open>Write\<close>

record write_input =
  wr_path :: string
  wr_content :: string

definition write_input_of :: "json \<Rightarrow> write_input option" where
  "write_input_of j =
     (if only_fields [''path'', ''content''] j then
        case (str_field ''path'' j, str_field ''content'' j) of
          (Some p, Some c) \<Rightarrow> Some \<lparr>wr_path = p, wr_content = c\<rparr>
        | _ \<Rightarrow> None
      else None)"

text \<open>\<open>PathBuf::pop\<close> and \<open>Path::parent\<close>: the path without its last component, if it has one that is not the root.\<close>

definition render :: "path_component list \<Rightarrow> string" where
  "render cs =
     (case cs of
        RootDir # cs' \<Rightarrow> slash # join [slash] (map component_text cs')
      | _ \<Rightarrow> join [slash] (map component_text cs))"

definition path_parent :: "string \<Rightarrow> string option" where
  "path_parent p =
     (let cs = components p in
      if cs = [] \<or> last cs = RootDir then None else Some (render (butlast cs)))"

definition path_pop :: "string \<Rightarrow> string" where
  "path_pop p = (case path_parent p of None \<Rightarrow> p | Some q \<Rightarrow> q)"

fun push_components :: "string \<Rightarrow> string \<Rightarrow> path_component list \<Rightarrow> string + string" where
  "push_components path target [] = Inr target"
| "push_components path target (Normal n # cs) = push_components path (path_join target n) cs"
| "push_components path target (ParentDir # cs) = push_components path (path_pop target) cs"
| "push_components path target (CurDir # cs) = push_components path target cs"
| "push_components path target (RootDir # cs) =
     (if is_absolute path then Inr path else Inl (''path '' @ path @ '' is invalid''))"

definition resolve_write_target :: "disk \<Rightarrow> string \<Rightarrow> string \<Rightarrow> string \<Rightarrow> string + string" where
  "resolve_write_target d cwd wd path =
     (if exists_from d cwd path \<or> exists_from d cwd (path_join wd path) then resolve_target d wd path
      else case push_components path wd (components path) of
        Inl e \<Rightarrow> Inl e
      | Inr target \<Rightarrow>
          if \<not> starts_with target wd then Inl (''path '' @ path @ '' is outside the working directory'')
          else Inr target)"

definition write_file :: "disk \<Rightarrow> string \<Rightarrow> tool_call \<Rightarrow> write_input \<Rightarrow> string \<Rightarrow> (string + tool_result) \<times> disk" where
  "write_file d cwd call input wd =
     (case canonical_working_dir d wd of
        Inl e \<Rightarrow> (Inl e, d)
      | Inr root \<Rightarrow>
          (case resolve_write_target d cwd root (wr_path input) of
             Inl m \<Rightarrow> (Inr (expected_failure call m), d)
           | Inr target \<Rightarrow>
               (case (case path_parent target of None \<Rightarrow> (None, d) | Some parent \<Rightarrow> create_dir_all d parent) of
                  (Some e, d1) \<Rightarrow> (Inl (''failed to create parent directories for '' @ wr_path input), d1)
                | (None, d1) \<Rightarrow>
                    (case fs_write d1 target (wr_content input) of
                       (Some e, d2) \<Rightarrow> (Inl (''failed to write '' @ wr_path input), d2)
                     | (None, d2) \<Rightarrow>
                         (Inr (succeeded call (TcText (''Successfully wrote '' @ dec (length (wr_content input)) @
                            '' bytes to '' @ wr_path input @ ''.''))), d2)))))"

definition write_execute :: "disk \<Rightarrow> string \<Rightarrow> tool_call \<Rightarrow> string \<Rightarrow> (string + tool_result) \<times> disk" where
  "write_execute d cwd call wd =
     (case write_input_of (call_input call) of
        None \<Rightarrow> (Inl ''write input no longer matches its schema'', d)
      | Some input \<Rightarrow> write_file d cwd call input wd)"

section \<open>Read\<close>

record read_input =
  rd_path :: string
  rd_offset :: "u64 option"
  rd_limit :: "u64 option"

definition read_input_of :: "json \<Rightarrow> read_input option" where
  "read_input_of j =
     (if only_fields [''path'', ''offset'', ''limit''] j then
        case (str_field ''path'' j, opt_usize_field ''offset'' j, opt_usize_field ''limit'' j) of
          (Some p, Some off, Some lim) \<Rightarrow> Some \<lparr>rd_path = p, rd_offset = off, rd_limit = lim\<rparr>
        | _ \<Rightarrow> None
      else None)"

text \<open>\<open>read_until(b'\n')\<close> until the end of the file: the pieces with their newlines.\<close>

fun raw_lines :: "string \<Rightarrow> string list" where
  "raw_lines [] = []"
| "raw_lines (c # s) =
     (if c = newline then [c] # raw_lines s
      else case raw_lines s of [] \<Rightarrow> [[c]] | l # ls \<Rightarrow> (c # l) # ls)"

definition trim_line_ending :: "string \<Rightarrow> string" where
  "trim_line_ending l = strip_cr (if l \<noteq> [] \<and> last l = newline then butlast l else l)"

definition numbered_line :: "nat \<Rightarrow> string \<Rightarrow> string" where
  "numbered_line n line = dec_width 6 n @ ''|'' @ utf8_lossy line @ [newline]"

text \<open>The loop over the lines; \<open>Inl\<close> is the early return on a line with a NUL byte.\<close>

fun read_loop :: "nat \<Rightarrow> nat \<Rightarrow> nat \<Rightarrow> string list \<Rightarrow> string \<Rightarrow> unit + nat \<times> string" where
  "read_loop start stop n [] selected = Inr (n, selected)"
| "read_loop start stop n (l # ls) selected =
     (if n + 1 < start then read_loop start stop (n + 1) ls selected
      else if CHR 0x00 \<in> set (trim_line_ending l) then Inl ()
      else
        (let selected' = selected @ numbered_line (n + 1) (trim_line_ending l) in
         if n + 1 \<ge> stop then Inr (n + 1, selected') else read_loop start stop (n + 1) ls selected'))"

definition read_file :: "disk \<Rightarrow> tool_call \<Rightarrow> read_input \<Rightarrow> string \<Rightarrow> string + tool_result" where
  "read_file d call input wd =
     (case canonical_working_dir d wd of
        Inl e \<Rightarrow> Inl e
      | Inr root \<Rightarrow>
          (case resolve_target d root (rd_path input) of
             Inl m \<Rightarrow> Inr (expected_failure call m)
           | Inr target \<Rightarrow>
               (case node_at d target of
                  Inl e \<Rightarrow> Inr (expected_failure call (''failed to inspect '' @ rd_path input @ '': '' @ io_text e))
                | Inr (l, v) \<Rightarrow>
                    (case v of
                       File content \<Rightarrow>
                         (case dk_faults d OpOpen l of
                            Some m \<Rightarrow> Inr (expected_failure call (''failed to open '' @ rd_path input @ '': '' @ m))
                          | None \<Rightarrow>
                              (case relative_display_path target root of
                                 Inl e \<Rightarrow> Inl e
                               | Inr display \<Rightarrow>
                                   (let start_line = max (case rd_offset input of None \<Rightarrow> 1 | Some n \<Rightarrow> n) 1;
                                        max_lines = max (case rd_limit input of
                                          None \<Rightarrow> word_of_nat default_max_lines | Some n \<Rightarrow> n) 1 in
                                    if dk_faults d OpRead l \<noteq> None then Inl (''failed to read '' @ rd_path input)
                                    else case read_loop (unat start_line) (unat (start_line + max_lines - 1)) 0
                                           (raw_lines content) [] of
                                      Inl _ \<Rightarrow> Inr (expected_failure call (''read target '' @ rd_path input @
                                        '' appears to be a binary file''))
                                    | Inr (n, selected) \<Rightarrow>
                                        if selected = [] \<and> 1 < start_line \<and> n < unat start_line
                                        then Inr (expected_failure call (''offset '' @ dec (unat start_line) @
                                          '' is beyond end of file ('' @ dec n @ '' lines)''))
                                        else Inr (succeeded call (TcText (truncate_from_start
                                          (if selected = [] then display @ '' is empty.'' @ [newline] else selected)
                                          (unat max_lines) max_output_bytes))))))
                     | _ \<Rightarrow>
                         Inr (expected_failure call (''read target '' @ rd_path input @ '' is not a regular file''))))))"

definition read_execute :: "disk \<Rightarrow> tool_call \<Rightarrow> string \<Rightarrow> string + tool_result" where
  "read_execute d call wd =
     (case read_input_of (call_input call) of
        None \<Rightarrow> Inl ''read input no longer matches its schema''
      | Some input \<Rightarrow> read_file d call input wd)"

section \<open>Find\<close>

record find_input =
  fd_pattern :: string
  fd_path :: string
  fd_max_results :: u64

definition find_input_of :: "json \<Rightarrow> find_input option" where
  "find_input_of j =
     (if only_fields [''pattern'', ''path'', ''max_results''] j then
        case (str_field ''pattern'' j, str_field_default ''.'' ''path'' j, usize_field 100 ''max_results'' j) of
          (Some p, Some q, Some n) \<Rightarrow> Some \<lparr>fd_pattern = p, fd_path = q, fd_max_results = n\<rparr>
        | _ \<Rightarrow> None
      else None)"

text \<open>
  The libraries: a compiled glob, the error of building a set of globs, and the walk of a directory with
  the ignore rules, each entry an error or a path and whether it is a regular file.
\<close>

record walk_lib =
  wl_glob :: "string \<Rightarrow> string + (string \<Rightarrow> bool)"
  wl_set_error :: "string list \<Rightarrow> string option"
  wl_walk :: "disk \<Rightarrow> string \<Rightarrow> string \<Rightarrow> (string + string \<times> bool) list"

definition build_matcher :: "walk_lib \<Rightarrow> string \<Rightarrow> string + (string \<Rightarrow> bool)" where
  "build_matcher W pattern =
     (let globs = pattern # (if slash \<in> set pattern then [] else [''**/'' @ pattern]) in
      case collect_results (wl_glob W) globs of
        Inl e \<Rightarrow> Inl e
      | Inr ms \<Rightarrow>
          (case wl_set_error W globs of
             Some e \<Rightarrow> Inl e
           | None \<Rightarrow> Inr (\<lambda>s. list_ex (\<lambda>m. m s) ms)))"

text \<open>The loop: \<open>Inl\<close> leaves the function, with the \<open>Err\<close> or the failed result.\<close>

fun find_loop ::
  "tool_call \<Rightarrow> string \<Rightarrow> (string \<Rightarrow> bool) \<Rightarrow> nat \<Rightarrow> (string + string \<times> bool) list \<Rightarrow> string list \<Rightarrow>
   (string + tool_result) + string list" where
  "find_loop call root matcher m [] matches = Inr matches"
| "find_loop call root matcher m (Inl e # es) matches = Inl (Inr (expected_failure call (''find walk failed: '' @ e)))"
| "find_loop call root matcher m (Inr (p, file) # es) matches =
     (if \<not> file then find_loop call root matcher m es matches
      else case relative_display_path p root of
        Inl e \<Rightarrow> Inl (Inl e)
      | Inr display \<Rightarrow>
          if matcher display then
            if length (matches @ [display]) \<ge> m then Inr (matches @ [display])
            else find_loop call root matcher m es (matches @ [display])
          else find_loop call root matcher m es matches)"

definition find_paths :: "walk_lib \<Rightarrow> disk \<Rightarrow> tool_call \<Rightarrow> find_input \<Rightarrow> string \<Rightarrow> string + tool_result" where
  "find_paths W d call input wd =
     (case canonical_working_dir d wd of
        Inl e \<Rightarrow> Inl e
      | Inr root \<Rightarrow>
          (case resolve_target d root (fd_path input) of
             Inl m \<Rightarrow> Inr (expected_failure call m)
           | Inr target \<Rightarrow>
               if map_sum id snd (node_at d target) \<noteq> Inr Dir
               then Inr (expected_failure call (''find path '' @ fd_path input @ '' is not a directory''))
               else case build_matcher W (fd_pattern input) of
                 Inl e \<Rightarrow> Inr (expected_failure call (''invalid find glob '' @ fd_pattern input @ '': '' @ e))
               | Inr matcher \<Rightarrow>
                   (case find_loop call root matcher (unat (fd_max_results input)) (wl_walk W d target root) [] of
                      Inl r \<Rightarrow> r
                    | Inr [] \<Rightarrow> Inr (succeeded call (TcText ''No files found.''))
                    | Inr ms \<Rightarrow> Inr (succeeded call (TcText (join [newline] ms))))))"

definition find_execute :: "walk_lib \<Rightarrow> disk \<Rightarrow> tool_call \<Rightarrow> string \<Rightarrow> string + tool_result" where
  "find_execute W d call wd =
     (case find_input_of (call_input call) of
        None \<Rightarrow> Inl ''find input no longer matches its schema''
      | Some input \<Rightarrow> find_paths W d call input wd)"

section \<open>Bash\<close>

record bash_input =
  ba_command :: string
  ba_timeout :: "u64 option"

definition bash_input_of :: "json \<Rightarrow> bash_input option" where
  "bash_input_of j =
     (if only_fields [''command'', ''timeout''] j then
        case (str_field ''command'' j, opt_usize_field ''timeout'' j) of
          (Some c, Some t) \<Rightarrow> Some \<lparr>ba_command = c, ba_timeout = t\<rparr>
        | _ \<Rightarrow> None
      else None)"

text \<open>The output of a process; no code means that a signal ended it.\<close>

record process_output =
  po_stdout :: string
  po_stderr :: string
  po_code :: "int option"

text \<open>
  What the shell does with a command in a directory: its output, an error to start it, no end before the
  timeout, or a worker thread that is gone.
\<close>

datatype process_outcome = Ran process_output | SpawnFailed string | StillRunning | WorkerGone

type_synonym shell = "string \<Rightarrow> string \<Rightarrow> u64 option \<Rightarrow> process_outcome"

definition format_output :: "tool_call \<Rightarrow> process_output \<Rightarrow> tool_result" where
  "format_output call out =
     (let combined = utf8_lossy (po_stdout out);
          stderr = utf8_lossy (po_stderr out);
          combined = (if combined \<noteq> [] \<and> stderr \<noteq> [] \<and> last combined \<noteq> newline
                      then combined @ [newline] else combined) @ stderr;
          shown = (if combined = [] then ''(no output)''
                   else truncate_tail combined default_max_lines max_output_bytes) in
      if po_code out = Some 0 then succeeded call (TcText shown)
      else
        (let code = dec_int (case po_code out of None \<Rightarrow> - 1 | Some c \<Rightarrow> c) in
         expected_failure call
           (if shown = ''(no output)'' then ''Command exited with code '' @ code
            else shown @ [newline, newline] @ ''Command exited with code '' @ code)))"

definition run_command :: "shell \<Rightarrow> disk \<Rightarrow> tool_call \<Rightarrow> bash_input \<Rightarrow> string \<Rightarrow> string + tool_result" where
  "run_command sh d call input wd =
     (case canonical_working_dir d wd of
        Inl e \<Rightarrow> Inl e
      | Inr root \<Rightarrow>
          (case sh (ba_command input) root (ba_timeout input) of
             Ran out \<Rightarrow> Inr (format_output call out)
           | SpawnFailed _ \<Rightarrow>
               (case ba_timeout input of
                  Some _ \<Rightarrow> Inl ''failed to execute command''
                | None \<Rightarrow> Inl (''failed to execute command: '' @ ba_command input))
           | StillRunning \<Rightarrow>
               Inr (expected_failure call (''command timed out after '' @
                 dec (case ba_timeout input of None \<Rightarrow> 0 | Some t \<Rightarrow> unat t) @ '' seconds''))
           | WorkerGone \<Rightarrow> Inl ''bash worker thread exited before returning output''))"

definition bash_execute :: "shell \<Rightarrow> disk \<Rightarrow> tool_call \<Rightarrow> string \<Rightarrow> string + tool_result" where
  "bash_execute sh d call wd =
     (case bash_input_of (call_input call) of
        None \<Rightarrow> Inl ''bash input no longer matches its schema''
      | Some input \<Rightarrow> run_command sh d call input wd)"

end
