(* ===== verification/Search_Tools.thy ===== *)
theory Search_Tools
  imports File_Tools
begin

text \<open>
  The two search tools of \<open>agent-tools\<close>: \<open>grep\<close> with its match collector, which keeps the output with its
  marker within 32 KiB, and \<open>web_search\<close> with the aggregation of its providers. Regular expressions, the
  directory walk, URL parsing and the providers themselves are parameters.
\<close>

section \<open>Grep: the collector\<close>

definition result_limit_marker :: string where
  "result_limit_marker = ''[truncated: result limit reached]''"

definition max_marker_bytes :: nat where
  "max_marker_bytes =
     (if length result_limit_marker > length output_limit_marker then length result_limit_marker
      else length output_limit_marker)"

definition truncation_reserve_bytes :: nat where
  "truncation_reserve_bytes = 1 + max_marker_bytes"

definition max_payload_bytes :: nat where
  "max_payload_bytes = max_output_bytes - truncation_reserve_bytes"

datatype truncation = ResultLimit | OutputLimit

record match_collector =
  mc_output :: string
  mc_match_count :: nat
  mc_max_results :: nat
  mc_truncation :: "truncation option"

definition collector_new :: "nat \<Rightarrow> match_collector" where
  "collector_new m = \<lparr>mc_output = [], mc_match_count = 0, mc_max_results = m, mc_truncation = None\<rparr>"

definition collector_push :: "string \<Rightarrow> match_collector \<Rightarrow> bool \<times> match_collector" where
  "collector_push result mc =
     (if mc_match_count mc \<ge> mc_max_results mc then (False, mc\<lparr>mc_truncation := Some ResultLimit\<rparr>)
      else
        (let available = max_payload_bytes - length (mc_output mc) in
         if length result > available
         then (False, mc\<lparr>mc_output := mc_output mc @ utf8_prefix result available, mc_truncation := Some OutputLimit\<rparr>)
         else
           (let mc' = mc\<lparr>mc_output := mc_output mc @ result, mc_match_count := mc_match_count mc + 1\<rparr> in
            if mc_match_count mc' \<ge> mc_max_results mc' then (False, mc'\<lparr>mc_truncation := Some ResultLimit\<rparr>)
            else (True, mc'))))"

definition marker_of :: "truncation \<Rightarrow> string" where
  "marker_of t = (case t of ResultLimit \<Rightarrow> result_limit_marker | OutputLimit \<Rightarrow> output_limit_marker)"

definition collector_text :: "match_collector \<Rightarrow> string" where
  "collector_text mc =
     (case mc_truncation mc of
        None \<Rightarrow> mc_output mc
      | Some t \<Rightarrow>
          (if mc_output mc \<noteq> [] \<and> last (mc_output mc) \<noteq> newline then mc_output mc @ [newline] else mc_output mc) @
          marker_of t)"

definition collector_finish :: "tool_call \<Rightarrow> match_collector \<Rightarrow> tool_result" where
  "collector_finish call mc =
     succeeded call (TcText (if collector_text mc = [] then ''No matches found.'' else collector_text mc))"

section \<open>Grep: searching\<close>

record grep_input =
  gr_pattern :: string
  gr_path :: string
  gr_max_results :: u64

definition grep_input_of :: "json \<Rightarrow> grep_input option" where
  "grep_input_of j =
     (if only_fields [''pattern'', ''path'', ''max_results''] j then
        case (str_field ''pattern'' j, str_field_default ''.'' ''path'' j, usize_field 100 ''max_results'' j) of
          (Some p, Some q, Some n) \<Rightarrow> Some \<lparr>gr_pattern = p, gr_path = q, gr_max_results = n\<rparr>
        | _ \<Rightarrow> None
      else None)"

type_synonym regex_lib = "string \<Rightarrow> string + (string \<Rightarrow> bool)"

definition match_line :: "string \<Rightarrow> nat \<Rightarrow> string \<Rightarrow> string" where
  "match_line display n line = display @ '':'' @ dec n @ '':'' @ line @ [newline]"

text \<open>The loop over the lines of a file: whether the search goes on, and the collector.\<close>

fun search_lines ::
  "string \<Rightarrow> (string \<Rightarrow> bool) \<Rightarrow> nat \<Rightarrow> string list \<Rightarrow> match_collector \<Rightarrow> bool \<times> match_collector" where
  "search_lines display regex n [] mc = (True, mc)"
| "search_lines display regex n (l # ls) mc =
     (let line = utf8_lossy (trim_line_ending l) in
      if regex line then
        (case collector_push (match_line display (n + 1) line) mc of
           (True, mc') \<Rightarrow> search_lines display regex (n + 1) ls mc'
         | (False, mc') \<Rightarrow> (False, mc'))
      else search_lines display regex (n + 1) ls mc)"

definition grep_display_path :: "string \<Rightarrow> string \<Rightarrow> string + string" where
  "grep_display_path p wd =
     (case strip_path_prefix p wd of
        None \<Rightarrow> Inl (''grep result path '' @ utf8_lossy p @ '' escaped working directory '' @ utf8_lossy wd @ '': prefix not found'')
      | Some r \<Rightarrow> Inr (map (\<lambda>c. if c = CHR 0x5C then slash else c) (utf8_lossy r)))"

definition search_file ::
  "disk \<Rightarrow> string \<Rightarrow> string \<Rightarrow> (string \<Rightarrow> bool) \<Rightarrow> match_collector \<Rightarrow> string + bool \<times> match_collector" where
  "search_file d p root regex mc =
     (case node_at d p of
        Inl e \<Rightarrow> Inl (''failed to open grep input '' @ utf8_lossy p @ '': '' @ io_text e)
      | Inr (l, v) \<Rightarrow>
          (case dk_faults d OpOpen l of
             Some m \<Rightarrow> Inl (''failed to open grep input '' @ utf8_lossy p @ '': '' @ m)
           | None \<Rightarrow>
               (case v of
                  File content \<Rightarrow>
                    (case dk_faults d OpRead l of
                       Some m \<Rightarrow> Inl (''failed to inspect grep input '' @ utf8_lossy p @ '': '' @ m)
                     | None \<Rightarrow>
                         if CHR 0x00 \<in> set content then Inr (True, mc)
                         else case grep_display_path p root of
                           Inl e \<Rightarrow> Inl e
                         | Inr display \<Rightarrow> Inr (search_lines display regex 0 (raw_lines content) mc))
                | _ \<Rightarrow> Inl (''failed to inspect grep input '' @ utf8_lossy p @ '': '' @ io_text IsADirectory))))"

fun search_directory ::
  "disk \<Rightarrow> string \<Rightarrow> string \<Rightarrow> (string \<Rightarrow> bool) \<Rightarrow> (string + string \<times> bool) list \<Rightarrow> match_collector \<Rightarrow>
   string + match_collector" where
  "search_directory d target root regex [] mc = Inr mc"
| "search_directory d target root regex (Inl e # es) mc = Inl (''failed to walk '' @ utf8_lossy target @ '': '' @ e)"
| "search_directory d target root regex (Inr (p, reg) # es) mc =
     (if \<not> reg then search_directory d target root regex es mc
      else case search_file d p root regex mc of
        Inl e \<Rightarrow> Inl e
      | Inr (go, mc') \<Rightarrow> if \<not> go then Inr mc' else search_directory d target root regex es mc')"

definition finish_search :: "tool_call \<Rightarrow> string + match_collector \<Rightarrow> tool_result" where
  "finish_search call r =
     (case r of
        Inr mc \<Rightarrow> collector_finish call mc
      | Inl e \<Rightarrow> expected_failure call (''grep search failed: '' @ e))"

definition grep_search :: "regex_lib \<Rightarrow> walk_lib \<Rightarrow> disk \<Rightarrow> tool_call \<Rightarrow> grep_input \<Rightarrow> string \<Rightarrow> string + tool_result" where
  "grep_search R W d call input wd =
     (case canonicalize d wd of
        Inl e \<Rightarrow> Inl (''failed to canonicalize grep working directory '' @ utf8_lossy wd)
      | Inr root \<Rightarrow>
          let requested = (if is_absolute (gr_path input) then gr_path input else path_join root (gr_path input)) in
          (case canonicalize d requested of
             Inl e \<Rightarrow> Inr (expected_failure call (''grep target '' @ gr_path input @ '' is unavailable: '' @ io_text e))
           | Inr target \<Rightarrow>
               if \<not> starts_with target root
               then Inr (expected_failure call (''grep target '' @ gr_path input @ '' is outside the working directory''))
               else case R (gr_pattern input) of
                 Inl e \<Rightarrow> Inr (expected_failure call (''invalid grep regular expression: '' @ e))
               | Inr regex \<Rightarrow>
                   (case node_at d target of
                      Inl e \<Rightarrow> Inr (expected_failure call
                        (''failed to inspect grep target '' @ gr_path input @ '': '' @ io_text e))
                    | Inr (_, v) \<Rightarrow>
                        let mc = collector_new (unat (gr_max_results input)) in
                        (case v of
                           File _ \<Rightarrow> Inr (finish_search call (map_sum id snd (search_file d target root regex mc)))
                         | Dir \<Rightarrow> Inr (finish_search call (search_directory d target root regex (wl_walk W d target root) mc))
                         | Link _ \<Rightarrow> Inr (expected_failure call
                             (''grep target '' @ gr_path input @ '' is neither a file nor a directory''))))))"

definition grep_execute :: "regex_lib \<Rightarrow> walk_lib \<Rightarrow> disk \<Rightarrow> tool_call \<Rightarrow> string \<Rightarrow> string + tool_result" where
  "grep_execute R W d call wd =
     (case grep_input_of (call_input call) of
        None \<Rightarrow> Inl ''grep input no longer matches its schema''
      | Some input \<Rightarrow> grep_search R W d call input wd)"

section \<open>Web search\<close>

datatype search_provider_id = DuckDuckGo | Searxng

definition provider_label :: "search_provider_id \<Rightarrow> string" where
  "provider_label p = (case p of DuckDuckGo \<Rightarrow> ''duckduckgo'' | Searxng \<Rightarrow> ''searxng'')"

record search_request =
  sq_query :: string
  sq_max_results :: nat

record search_result =
  sr_provider :: search_provider_id
  sr_title :: string
  sr_url :: string
  sr_snippet :: string

record provider_error =
  pe_provider :: search_provider_id
  pe_message :: string
  pe_retryable :: bool

type_synonym search_provider = "search_request \<Rightarrow> provider_error + search_result list"

record search_response =
  sp_results :: "search_result list"
  sp_warnings :: "string list"

record search_error =
  se_message :: string
  se_retryable :: bool

text \<open>The URL type of the HTTP library and the operations the code calls on it.\<close>

record 'u url_lib =
  ul_parse :: "string \<Rightarrow> 'u option"
  ul_scheme :: "'u \<Rightarrow> string"
  ul_clear_fragment :: "'u \<Rightarrow> 'u"
  ul_port_or_known_default :: "'u \<Rightarrow> nat option"
  ul_clear_port :: "'u \<Rightarrow> 'u option"
  ul_path :: "'u \<Rightarrow> string"
  ul_set_path :: "string \<Rightarrow> 'u \<Rightarrow> 'u"
  ul_text :: "'u \<Rightarrow> string"

definition clear_default_port :: "'u url_lib \<Rightarrow> nat \<Rightarrow> string \<Rightarrow> 'u \<Rightarrow> 'u option" where
  "clear_default_port U port scheme u =
     (if ul_port_or_known_default U u = Some port \<and> ul_scheme U u = scheme then ul_clear_port U u else Some u)"

definition trim_end_slashes :: "string \<Rightarrow> string" where
  "trim_end_slashes s = rev (dropWhile (\<lambda>c. c = slash) (rev s))"

definition canonical_url :: "'u url_lib \<Rightarrow> string \<Rightarrow> string option" where
  "canonical_url U s =
     (case ul_parse U s of
        None \<Rightarrow> None
      | Some u \<Rightarrow>
          if ul_scheme U u \<notin> {''http'', ''https''} then None
          else
            (let u1 = ul_clear_fragment U u in
             case (if ul_scheme U u1 \<in> {''http'', ''https''} \<and> ul_port_or_known_default U u1 \<noteq> None
                   then Option.bind (clear_default_port U 80 ''http'' u1) (clear_default_port U 443 ''https'')
                   else Some u1) of
               None \<Rightarrow> None
             | Some u2 \<Rightarrow>
                 (let p = trim_end_slashes (ul_path U u2) in
                  Some (ul_text U (ul_set_path U (if p = [] then [slash] else p) u2)))))"

fun deduplicate :: "(string \<Rightarrow> string option) \<Rightarrow> nat \<Rightarrow> string list \<Rightarrow> search_result list \<Rightarrow> search_result list \<Rightarrow> search_result list" where
  "deduplicate canon m seen out [] = out"
| "deduplicate canon m seen out (r # rs) =
     (case canon (sr_url r) of
        None \<Rightarrow> deduplicate canon m seen out rs
      | Some u \<Rightarrow>
          if u \<in> set seen then deduplicate canon m seen out rs
          else
            (let out' = out @ [r\<lparr>sr_url := u\<rparr>] in
             if length out' \<ge> m then out' else deduplicate canon m (u # seen) out' rs))"

definition deduplicate_results :: "(string \<Rightarrow> string option) \<Rightarrow> search_result list \<Rightarrow> nat \<Rightarrow> search_result list" where
  "deduplicate_results canon rs m = deduplicate canon m [] [] rs"

definition format_provider_warning :: "provider_error \<Rightarrow> string" where
  "format_provider_warning e = provider_label (pe_provider e) @ '' provider unavailable: '' @ pe_message e"

record search_state =
  ss_results :: "search_result list"
  ss_warnings :: "string list"
  ss_successful :: nat
  ss_retryable :: bool

definition ask_provider :: "search_request \<Rightarrow> search_provider \<Rightarrow> search_state \<Rightarrow> search_state" where
  "ask_provider req p st =
     (case p req of
        Inr rs \<Rightarrow> st\<lparr>ss_successful := ss_successful st + 1, ss_results := ss_results st @ rs\<rparr>
      | Inl e \<Rightarrow> st\<lparr>ss_retryable := ss_retryable st \<or> pe_retryable e,
                   ss_warnings := ss_warnings st @ [format_provider_warning e]\<rparr>)"

definition aggregator_search ::
  "(string \<Rightarrow> string option) \<Rightarrow> search_provider list \<Rightarrow> search_request \<Rightarrow> search_error + search_response" where
  "aggregator_search canon providers req =
     (let st = fold (ask_provider req) providers
                 \<lparr>ss_results = [], ss_warnings = [], ss_successful = 0, ss_retryable = False\<rparr> in
      if ss_successful st = 0 then
        Inl \<lparr>se_message = (if ss_warnings st = [] then ''no web search provider is configured''
                           else ''all web search providers failed: '' @ join ''; '' (ss_warnings st)),
             se_retryable = ss_retryable st\<rparr>
      else Inr \<lparr>sp_results = deduplicate_results canon (ss_results st) (sq_max_results req), sp_warnings = ss_warnings st\<rparr>)"

definition format_result :: "nat \<Rightarrow> search_result \<Rightarrow> string" where
  "format_result i r =
     (if i > 0 then [newline] else []) @ dec (i + 1) @ ''. '' @ trim (sr_title r) @ [newline] @
     ''Provider: '' @ provider_label (sr_provider r) @ [newline] @
     ''URL: '' @ trim (sr_url r) @ [newline] @ trim (sr_snippet r) @ [newline]"

definition format_results :: "tool_call \<Rightarrow> search_result list \<Rightarrow> string list \<Rightarrow> tool_result" where
  "format_results call rs warnings =
     (if rs = [] then
        succeeded call (TcText (if warnings = [] then ''No results found.''
          else ''No results found.'' @ [newline] @ ''Warnings: '' @ join ''; '' warnings))
      else
        (let shown = concat (map (\<lambda>(i, r). format_result i r) (enumerate 0 rs)) @
               (if warnings = [] then [] else [newline] @ ''Warnings: '' @ join ''; '' warnings) in
         succeeded call (TcText (truncate_from_start shown default_max_lines
           (max_output_bytes - length output_limit_marker)))))"

definition web_input_of :: "json \<Rightarrow> search_request option" where
  "web_input_of j =
     (if only_fields [''query'', ''max_results''] j then
        case (str_field ''query'' j, usize_field 5 ''max_results'' j) of
          (Some q, Some n) \<Rightarrow> Some \<lparr>sq_query = q, sq_max_results = unat n\<rparr>
        | _ \<Rightarrow> None
      else None)"

definition web_search_execute ::
  "(string \<Rightarrow> string option) \<Rightarrow> search_provider list \<Rightarrow> tool_call \<Rightarrow> string + tool_result" where
  "web_search_execute canon providers call =
     (case web_input_of (call_input call) of
        None \<Rightarrow> Inl ''web_search input no longer matches its schema''
      | Some req \<Rightarrow>
          (case aggregator_search canon providers req of
             Inr resp \<Rightarrow> Inr (format_results call (sp_results resp) (sp_warnings resp))
           | Inl e \<Rightarrow> Inr (failed call (TcText (''web_search failed: '' @ se_message e)) (se_retryable e))))"

end
