(* ===== verification/File_Tool_Facts.thy ===== *)
theory File_Tool_Facts
  imports File_Tools
begin

text \<open>
  What the file tools do: edits replace all regions at once, writes and edits change the disk only inside
  the working directory (with the cases where that fails), reads show the numbered lines asked for, and
  every text given back is bounded and valid UTF-8.
\<close>

section \<open>Edits\<close>

definition range_of :: "string \<Rightarrow> edit_replacement \<Rightarrow> edit_range" where
  "range_of original e =
     (let start = hd (match_indices (old_string e) original) in
      (start, start + length (old_string e), new_string e))"

definition edit_fits :: "string \<Rightarrow> edit_replacement \<Rightarrow> bool" where
  "edit_fits original e \<longleftrightarrow> old_string e \<noteq> [] \<and> length (match_indices (old_string e) original) = 1"

lemma edit_ranges_all:
  "\<forall>e \<in> set es. edit_fits original e \<Longrightarrow> edit_ranges original path i es = Inr (map (range_of original) es)"
proof (induction es arbitrary: i)
  case (Cons e es)
  from Cons.prems obtain s where "match_indices (old_string e) original = [s]" "old_string e \<noteq> []"
    by (auto simp: edit_fits_def length_Suc_conv)
  with Cons show ?case by (simp add: range_of_def Let_def)
qed simp

lemma edit_ranges_fits:
  "edit_ranges original path i es = Inr rs \<Longrightarrow> \<forall>e \<in> set es. edit_fits original e"
proof (induction es arbitrary: i rs)
  case (Cons e es)
  then obtain rs' where "edit_ranges original path (i + 1) es = Inr rs'" "edit_fits original e"
    by (auto simp: edit_fits_def split: if_splits list.splits sum.splits)
  with Cons.IH show ?case by auto
qed simp

lemma edit_ranges_iff:
  "edit_ranges original path i es = Inr rs \<longleftrightarrow> (\<forall>e \<in> set es. edit_fits original e) \<and> rs = map (range_of original) es"
  using edit_ranges_all [of es original path i] edit_ranges_fits [of original path i es rs] by fastforce

definition edit_of :: "string \<Rightarrow> edit_range \<Rightarrow> edit_replacement" where
  "edit_of original r = \<lparr>old_string = take (fst (snd r) - fst r) (drop (fst r) original), new_string = snd (snd r)\<rparr>"

lemma edit_of_range:
  assumes "edit_fits original e"
  shows "edit_of original (range_of original e) = e \<and>
    fst (range_of original e) < fst (snd (range_of original e)) \<and> fst (snd (range_of original e)) \<le> length original"
proof -
  from assms obtain s where s: "match_indices (old_string e) original = [s]" and ne: "old_string e \<noteq> []"
    by (auto simp: edit_fits_def length_Suc_conv)
  then have "s \<in> set (matches_from 0 (old_string e) original)" by (simp add: match_indices_def)
  from matches_from_sound [OF this] have "s + length (old_string e) \<le> length original"
    "take (length (old_string e)) (drop s original) = old_string e" by simp_all
  with s ne show ?thesis by (simp add: edit_of_def range_of_def Let_def)
qed

definition good_range :: "string \<Rightarrow> edit_range \<Rightarrow> bool" where
  "good_range original r \<longleftrightarrow> fst r < fst (snd r) \<and> fst (snd r) \<le> length original"

lemma splice_weave:
  assumes "\<forall>r \<in> set rs. good_range original r" "\<not> ranges_overlap rs" "rs \<noteq> [] \<longrightarrow> cursor \<le> fst (hd rs)"
  shows "\<exists>ps rest. map snd ps = map (edit_of original) rs \<and>
    drop cursor original = concat (map (\<lambda>(g, e). g @ old_string e) ps) @ rest \<and>
    splice_edits original cursor rs = concat (map (\<lambda>(g, e). g @ new_string e) ps) @ rest"
  using assms
proof (induction original cursor rs rule: splice_edits.induct)
  case (1 original cursor)
  show ?case by (intro exI [of _ "[]"] exI [of _ "drop cursor original"]) simp
next
  case (2 original cursor start stop new rs)
  have r: "start < stop" "stop \<le> length original" "cursor \<le> start" using 2(2,4) by (simp_all add: good_range_def)
  have "\<not> ranges_overlap rs" "rs \<noteq> [] \<longrightarrow> stop \<le> fst (hd rs)" using 2(3) by (cases rs; auto)+
  with 2(1,2) obtain ps rest where ps: "map snd ps = map (edit_of original) rs"
    "drop stop original = concat (map (\<lambda>(g, e). g @ old_string e) ps) @ rest"
    "splice_edits original stop rs = concat (map (\<lambda>(g, e). g @ new_string e) ps) @ rest" by auto
  define gap where "gap = take (start - cursor) (drop cursor original)"
  define e where "e = edit_of original (start, stop, new)"
  have "drop cursor original = gap @ drop start original"
    using r(3) unfolding gap_def by (metis append_take_drop_id drop_drop le_add_diff_inverse2)
  also have "drop start original = old_string e @ drop stop original"
    using r(1) unfolding e_def edit_of_def
    by simp (metis append_take_drop_id drop_drop le_add_diff_inverse2 less_or_eq_imp_le)
  finally have old: "drop cursor original = gap @ old_string e @ drop stop original" .
  have new: "splice_edits original cursor ((start, stop, new) # rs) = gap @ new_string e @ splice_edits original stop rs"
    by (simp add: gap_def e_def edit_of_def)
  show ?case unfolding old new
    by (intro exI [of _ "(gap, e) # ps"] exI [of _ rest]) (simp add: ps e_def)
qed

lemma apply_edits_Inr:
  "apply_edits original edits path = Inr result \<longleftrightarrow>
   (\<forall>e \<in> set edits. edit_fits original e) \<and>
   \<not> ranges_overlap (sort_key range_start (map (range_of original) edits)) \<and>
   result = splice_edits original 0 (sort_key range_start (map (range_of original) edits))"
proof (cases "edit_ranges original path 0 edits")
  case (Inl m)
  then have "\<not> (\<forall>e \<in> set edits. edit_fits original e)" using edit_ranges_all [of edits original path 0] by auto
  with Inl show ?thesis by (simp add: apply_edits_def)
next
  case (Inr rs)
  with edit_ranges_iff [of original path 0 edits rs]
  have rs: "\<forall>e \<in> set edits. edit_fits original e" "rs = map (range_of original) edits" by blast+
  show ?thesis by (auto simp: apply_edits_def Let_def Inr rs)
qed

lemma good_ranges:
  "\<forall>e \<in> set edits. edit_fits original e \<Longrightarrow> \<forall>r \<in> set (map (range_of original) edits). good_range original r"
  using edit_of_range by (auto simp: good_range_def)

lemma starts_increase:
  assumes "\<forall>r \<in> set rs. good_range original r" "\<not> ranges_overlap rs"
  shows "sorted_wrt (<) (map range_start rs)"
  using assms
proof (induction rs rule: ranges_overlap.induct)
  case (1 a b rs)
  then have "range_start a < range_start b" by (auto simp: good_range_def range_start_def)
  with 1 show ?case by auto
qed auto

text \<open>
  an edit that succeeds replaces all its regions at once: the original is cut at the old strings, each
  found where the original has it, and the result has the new strings in their places and nothing else
  changed.
\<close>

theorem edits_replace_at_once:
  assumes "apply_edits original edits path = Inr result"
  shows "\<exists>ps rest. mset (map snd ps) = mset edits \<and>
    original = concat (map (\<lambda>(gap, e). gap @ old_string e) ps) @ rest \<and>
    result = concat (map (\<lambda>(gap, e). gap @ new_string e) ps) @ rest"
proof -
  let ?rs = "sort_key range_start (map (range_of original) edits)"
  from assms have fits: "\<forall>e \<in> set edits. edit_fits original e" and no: "\<not> ranges_overlap ?rs"
    and result: "result = splice_edits original 0 ?rs" by (simp_all add: apply_edits_Inr)
  have "\<forall>r \<in> set ?rs. good_range original r" using good_ranges [OF fits] by simp
  from splice_weave [OF this no, of 0] obtain ps rest where ps: "map snd ps = map (edit_of original) ?rs"
    "original = concat (map (\<lambda>(g, e). g @ old_string e) ps) @ rest"
    "result = concat (map (\<lambda>(g, e). g @ new_string e) ps) @ rest" using result by auto
  have "mset (map (edit_of original) ?rs) = mset (map (edit_of original) (map (range_of original) edits))"
    unfolding mset_map by simp
  also have "map (edit_of original) (map (range_of original) edits) = edits"
    using fits edit_of_range by (simp add: map_idI)
  finally show ?thesis using ps by (intro exI [of _ ps] exI [of _ rest]) simp
qed

definition sample_edits :: "edit_replacement list" where
  "sample_edits = [\<lparr>old_string = ''cd'', new_string = ''C''\<rparr>, \<lparr>old_string = ''a'', new_string = ''xx''\<rparr>]"

lemma edits_replace_at_once_witness:
  "\<exists>ps rest. mset (map snd ps) = mset sample_edits \<and> ''abcd'' = concat (map (\<lambda>(gap, e). gap @ old_string e) ps) @ rest \<and>
    ''xxbC'' = concat (map (\<lambda>(gap, e). gap @ new_string e) ps) @ rest"
proof -
  have "apply_edits ''abcd'' sample_edits ''f'' = Inr ''xxbC''" by code_simp
  from edits_replace_at_once [OF this] show ?thesis .
qed

text \<open>The order of the edits of a call does not matter.\<close>

theorem edits_any_order:
  assumes "apply_edits original edits path = Inr result" "mset edits' = mset edits"
  shows "apply_edits original edits' path = Inr result"
proof -
  let ?rs = "map (range_of original) edits"
  from assms(1) have fits: "\<forall>e \<in> set edits. edit_fits original e" and no: "\<not> ranges_overlap (sort_key range_start ?rs)"
    by (simp_all add: apply_edits_Inr)
  have "\<forall>r \<in> set (sort_key range_start ?rs). good_range original r" using good_ranges [OF fits] by simp
  from starts_increase [OF this no] have "distinct (map range_start (sort_key range_start ?rs))"
    using strict_sorted_iff by blast
  then have inj: "inj_on range_start (set ?rs)" by (simp add: distinct_map)
  have "mset ?rs = mset (map (range_of original) edits')" using assms(2) by simp
  from sort_key_eq_sort_key [OF this inj]
  have "sort_key range_start (map (range_of original) edits') = sort_key range_start ?rs" by simp
  with assms mset_eq_setD [OF assms(2)] show ?thesis by (simp add: apply_edits_Inr)
qed

lemma edits_any_order_witness: "apply_edits ''abcd'' (rev sample_edits) ''f'' = Inr ''xxbC''"
proof -
  have "apply_edits ''abcd'' sample_edits ''f'' = Inr ''xxbC''" by code_simp
  from edits_any_order [OF this] show ?thesis by simp
qed

text \<open>Overlapping occurrences of an old string count once, so this edit is not refused as ambiguous.\<close>

theorem overlapping_match_accepted:
  "apply_edits ''aaa'' [\<lparr>old_string = ''aa'', new_string = ''b''\<rparr>] path = Inr ''ba''"
proof -
  have "match_indices ''aa'' ''aaa'' = [0]" by code_simp
  then show ?thesis by (simp add: apply_edits_def range_start_def)
qed

section \<open>Writing without links\<close>

definition no_link :: "(location \<Rightarrow> fs_node option) \<Rightarrow> location \<Rightarrow> bool" where
  "no_link nodes m \<longleftrightarrow> (\<forall>t. nodes m \<noteq> Some (Link t))"

lemma physical_no_link: "physical nodes l \<Longrightarrow> prefix m l \<Longrightarrow> no_link nodes m"
  by (cases "m = l") (auto simp: physical_def no_link_def strict_prefix_def)

lemma physical_prefix_dir: "physical nodes l \<Longrightarrow> prefix m l \<Longrightarrow> m \<noteq> l \<Longrightarrow> nodes m = Some Dir"
  by (simp add: physical_def strict_prefix_def)

lemma prefix_snoc_ext: "prefix (cur @ [n]) (cur @ n # ns)"
  by (simp add: prefix_def)

text \<open>One step over a good name that is no link.\<close>

lemma open_create_good:
  "good_name n \<Longrightarrow> no_link nodes (cur @ [n]) \<Longrightarrow> open_create nodes k cur (n # ns) =
   (if nodes cur \<noteq> Some Dir then Inl NotADirectory
    else if nodes (cur @ [n]) = Some Dir then open_create nodes k (cur @ [n]) ns
    else if ns = [] then Inr (cur @ [n])
    else Inl (if nodes (cur @ [n]) = None then NotFound else NotADirectory))"
  by (auto simp: open_create.simps(2) good_name_def no_link_def split: option.split fs_node.split)

lemma make_dirs_good:
  "good_name n \<Longrightarrow> no_link (dk_nodes d) (cur @ [n]) \<Longrightarrow> make_dirs d cur (n # ns) =
   (if dk_nodes d cur \<noteq> Some Dir then (Some NotADirectory, d)
    else if dk_nodes d (cur @ [n]) \<noteq> None then make_dirs d (cur @ [n]) ns
    else case dk_faults d OpMkdir (cur @ [n]) of
      Some m \<Rightarrow> (Some (Fault m), d)
    | None \<Rightarrow> make_dirs (put_node (cur @ [n]) Dir d) (cur @ [n]) ns)"
  by (auto simp: make_dirs.simps(2) good_name_def no_link_def split: option.split fs_node.split)

lemma open_create_step:
  assumes "open_create nodes k cur (n # ns) = Inr l" "good_name n" "no_link nodes (cur @ [n])"
  shows "ns = [] \<and> l = cur @ [n] \<or> open_create nodes k (cur @ [n]) ns = Inr l"
  using assms(1) unfolding open_create_good [OF assms(2,3)] by (simp split: if_split_asm)

lemma make_dirs_step:
  assumes "make_dirs d cur (n # ns) = (e, d')" "good_name n" "no_link (dk_nodes d) (cur @ [n])"
  shows "d' = d \<or> make_dirs d (cur @ [n]) ns = (e, d') \<or>
    dk_nodes d (cur @ [n]) = None \<and> make_dirs (put_node (cur @ [n]) Dir d) (cur @ [n]) ns = (e, d')"
  using assms(1) unfolding make_dirs_good [OF assms(2,3)] by (simp split: if_split_asm option.split_asm)

lemma open_create_no_links:
  assumes "open_create nodes k cur ns = Inr l" "\<forall>n \<in> set ns. good_name n" "\<forall>m. prefix m (cur @ ns) \<longrightarrow> no_link nodes m"
  shows "l = cur @ ns"
  using assms
proof (induction ns arbitrary: cur)
  case (Cons n ns)
  have link: "no_link nodes (cur @ [n])" by (rule Cons.prems(3) [rule_format, OF prefix_snoc_ext])
  have good: "good_name n" using Cons.prems(2) by simp
  from open_create_step [OF Cons.prems(1) good link]
  consider "ns = []" "l = cur @ [n]" | "open_create nodes k (cur @ [n]) ns = Inr l" by blast
  then show ?case
  proof cases
    case 2
    from Cons.IH [OF 2] Cons.prems(2,3) show ?thesis by simp
  qed simp
qed simp

lemma split_loc: "\<forall>n \<in> set l. good_name n \<Longrightarrow> split_on slash (loc_path l) = [] # (if l = [] then [[]] else l)"
  by (cases "l = []") (simp_all add: loc_path_def good_name_def split_on_join)

lemma open_create_split:
  assumes "open_create nodes k [] ([] # (if l = [] then [[]] else l)) = Inr l'" "nodes [] = Some Dir"
  shows "open_create nodes k [] l = Inr l'"
  using assms by (simp add: open_create.simps(2) split: if_splits)

lemma fs_write_no_links:
  assumes "fs_write d (loc_path l) content = (e, d')" "disk_ok d" "\<forall>n \<in> set l. good_name n"
    "\<forall>m. prefix m l \<longrightarrow> no_link (dk_nodes d) m"
  shows "(\<forall>m. m \<noteq> l \<longrightarrow> dk_nodes d' m = dk_nodes d m) \<and> (e = None \<longrightarrow> dk_nodes d' l = Some (File content))"
proof (cases "open_create (dk_nodes d) max_links [] (split_on slash (loc_path l))")
  case (Inl x)
  with assms(1) have "d' = d" "e = Some x" by (simp_all add: fs_write_def loc_path_def)
  then show ?thesis by simp
next
  case (Inr l')
  from open_create_split [OF this [unfolded split_loc [OF assms(3)]]] assms(2)
  have "open_create (dk_nodes d) max_links [] l = Inr l'" by (simp add: disk_ok_def)
  from open_create_no_links [OF this assms(3)] assms(4) have "l' = l" by simp
  with Inr assms(1) show ?thesis
    by (auto simp: fs_write_def loc_path_def put_node_def split: option.splits)
qed

lemma make_dirs_no_links:
  assumes "make_dirs d cur ns = (e, d')" "\<forall>n \<in> set ns. good_name n" "\<forall>m. prefix m (cur @ ns) \<longrightarrow> no_link (dk_nodes d) m"
  shows "\<forall>m. dk_nodes d' m = dk_nodes d m \<or> dk_nodes d m = None \<and> dk_nodes d' m = Some Dir \<and> prefix m (cur @ ns)"
  using assms
proof (induction ns arbitrary: d cur)
  case (Cons n ns)
  have link: "no_link (dk_nodes d) (cur @ [n])" by (rule Cons.prems(3) [rule_format, OF prefix_snoc_ext])
  have good: "good_name n" using Cons.prems(2) by simp
  have ext: "prefix (cur @ [n]) (cur @ n # ns)" by (rule prefix_snoc_ext)
  let ?d = "put_node (cur @ [n]) Dir d"
  from make_dirs_step [OF Cons.prems(1) good link] consider "d' = d"
    | "make_dirs d (cur @ [n]) ns = (e, d')"
    | "dk_nodes d (cur @ [n]) = None" "make_dirs ?d (cur @ [n]) ns = (e, d')"
    by (elim disjE conjE)
  then show ?case
  proof cases
    case 2
    from Cons.IH [OF this] Cons.prems(2,3) show ?thesis by simp
  next
    case 3
    have "\<forall>m. prefix m ((cur @ [n]) @ ns) \<longrightarrow> no_link (dk_nodes ?d) m"
      using Cons.prems(3) by (simp add: no_link_def put_node_def)
    with Cons.IH [OF 3(2)] Cons.prems(2)
    have "\<forall>m. dk_nodes d' m = dk_nodes ?d m \<or> dk_nodes ?d m = None \<and> dk_nodes d' m = Some Dir \<and> prefix m (cur @ n # ns)"
      by simp
    moreover have "dk_nodes ?d m = dk_nodes d m" if "m \<noteq> cur @ [n]" for m using that by (simp add: put_node_def)
    moreover have "dk_nodes ?d (cur @ [n]) = Some Dir" by (simp add: put_node_def)
    ultimately show ?thesis using 3(1) ext by (metis option.distinct(1))
  qed simp
qed simp

section \<open>The target of a write\<close>

lemma path_parent_loc:
  assumes "\<forall>n \<in> set l. good_name n"
  shows "path_parent (loc_path l) = (if l = [] then None else Some (loc_path (butlast l)))"
proof -
  have "render (RootDir # map Normal ns) = loc_path ns" for ns by (simp add: render_def loc_path_def map_idI)
  then show ?thesis using components_loc [of "[]"]
    by (cases "l = []") (simp_all add: path_parent_def components_loc [OF assms] Let_def last_map flip: map_butlast)
qed

lemma push_components_loc:
  assumes "\<not> is_absolute path" "\<forall>n \<in> set l. good_name n"
    "\<forall>c \<in> set cs. c = CurDir \<or> c = ParentDir \<or> (\<exists>n. c = Normal n \<and> good_name n)"
  shows "\<exists>l'. push_components path (loc_path l) cs = Inr (loc_path l') \<and> (\<forall>n \<in> set l'. good_name n)"
  using assms(2,3)
proof (induction cs arbitrary: l)
  case (Cons c cs)
  have pop: "path_pop (loc_path l) = loc_path (butlast l)"
    using path_parent_loc [OF Cons.prems(1)] by (auto simp: path_pop_def)
  have join: "path_join (loc_path l) n = loc_path (l @ [n])" if "good_name n" for n
    using path_join_loc [of "[n]" l] that Cons.prems(1) by simp
  from Cons.prems(2) consider "c = CurDir" | "c = ParentDir" | n where "c = Normal n" "good_name n" by auto
  then show ?case
  proof cases
    case 1
    with Cons show ?thesis by simp
  next
    case 2
    with Cons.IH [of "butlast l"] Cons.prems pop show ?thesis by (auto dest: in_set_butlastD)
  next
    case 3
    with Cons.IH [of "l @ [n]"] Cons.prems join show ?thesis by simp
  qed
qed auto

lemma components_relative:
  assumes "\<not> is_absolute path" "c \<in> set (components path)"
  shows "c = CurDir \<or> c = ParentDir \<or> (\<exists>n. c = Normal n \<and> good_name n)"
  using assms split_on_pieces [of _ slash path]
  by (auto simp: components_def component_of_def good_name_def split: if_splits)

definition links_below :: "disk \<Rightarrow> location \<Rightarrow> bool" where
  "links_below d root \<longleftrightarrow> (\<exists>l t. prefix root l \<and> dk_nodes d l = Some (Link t))"

lemma locate_again:
  assumes "locate d wd = Inr root" "disk_ok d"
  shows "locate d (loc_path root) = Inr root"
proof (rule locate_loc)
  show "physical (dk_nodes d) root" by (rule locate_physical [OF assms])
  show "dk_faults d OpStat root = None" using assms(1)
    by (auto simp: locate_def split: if_splits sum.splits option.splits)
qed (rule assms(2))

text \<open>A target the write tool accepts, when it exists or is relative in a directory without links.\<close>

lemma write_target_inside:
  assumes "disk_ok d" "locate d wd = Inr root" "resolve_write_target d cwd (loc_path root) path = Inr target"
    "exists_from d cwd path \<or> exists_from d cwd (path_join (loc_path root) path) \<or>
     \<not> is_absolute path \<and> \<not> links_below d root"
  obtains l where "target = loc_path l" "prefix root l" "\<forall>n \<in> set l. good_name n"
    "\<forall>m. prefix m l \<longrightarrow> no_link (dk_nodes d) m"
proof (cases "exists_from d cwd path \<or> exists_from d cwd (path_join (loc_path root) path)")
  case True
  with assms(3) have "resolve_target d (loc_path root) path = Inr target" by (simp add: resolve_write_target_def)
  from resolve_target_inside [OF this assms(1)] locate_again [OF assms(2,1)] obtain l
    where "target = loc_path l" "prefix root l" and l: "physical (dk_nodes d) l" by auto
  then show thesis using that physical_no_link [OF l] by (simp add: physical_def)
next
  case False
  with assms(4) have rel: "\<not> is_absolute path" and none: "\<not> links_below d root" by blast+
  have root: "physical (dk_nodes d) root" by (rule locate_physical [OF assms(2,1)])
  then have names: "\<forall>n \<in> set root. good_name n" by (simp add: physical_def)
  from push_components_loc [OF rel names, of "components path"] components_relative [OF rel]
  obtain l where push: "push_components path (loc_path root) (components path) = Inr (loc_path l)"
    and good: "\<forall>n \<in> set l. good_name n" by blast
  with False assms(3) have t: "target = loc_path l" "starts_with (loc_path l) (loc_path root)"
    by (auto simp: resolve_write_target_def split: if_splits)
  with good names have pre: "prefix root l" by (simp add: starts_with_loc)
  have "no_link (dk_nodes d) m" if "prefix m l" for m
  proof (cases "prefix root m")
    case True
    with none show ?thesis by (auto simp: links_below_def no_link_def)
  next
    case False
    with pre that have "prefix m root" using prefix_same_cases by blast
    then show ?thesis by (rule physical_no_link [OF root])
  qed
  with t(1) pre good that show thesis by blast
qed

lemma create_dirs_no_links:
  assumes "create_dir_all d (loc_path l) = (e, d')" "disk_ok d" "\<forall>n \<in> set l. good_name n"
    "\<forall>m. prefix m l \<longrightarrow> no_link (dk_nodes d) m"
  shows "\<forall>m. dk_nodes d' m = dk_nodes d m \<or> dk_nodes d m = None \<and> dk_nodes d' m = Some Dir \<and> prefix m l"
proof -
  from assms(1) have "make_dirs d [] ([] # (if l = [] then [[]] else l)) = (e, d')"
    using split_loc [OF assms(3)] by (simp add: create_dir_all_def loc_path_def)
  then have "make_dirs d [] l = (e, d')" using assms(2) by (simp add: make_dirs.simps(2) disk_ok_def split: if_splits)
  from make_dirs_no_links [OF this assms(3)] assms(4) show ?thesis by simp
qed

lemma write_parents:
  assumes "disk_ok d" "\<forall>n \<in> set l. good_name n" "\<forall>m. prefix m l \<longrightarrow> no_link (dk_nodes d) m"
    "(case path_parent (loc_path l) of None \<Rightarrow> (None, d) | Some parent \<Rightarrow> create_dir_all d parent) = (e, d1)"
  shows "\<forall>m. dk_nodes d1 m = dk_nodes d m \<or> dk_nodes d m = None \<and> dk_nodes d1 m = Some Dir \<and> prefix m l"
proof (cases "l = []")
  case True
  with assms(4) path_parent_loc [OF assms(2)] show ?thesis by simp
next
  case False
  have pre: "prefix m l" if "prefix m (butlast l)" for m using that prefixeq_butlast prefix_order.trans by blast
  from False assms(4) path_parent_loc [OF assms(2)] have "create_dir_all d (loc_path (butlast l)) = (e, d1)" by simp
  from create_dirs_no_links [OF this assms(1)] assms(2,3) pre show ?thesis by (auto dest: in_set_butlastD)
qed

text \<open>
  C28: a write whose target exists, or whose path is relative in a working directory without links below
  it, changes the disk only below the working directory, makes at most new directories on the way to one
  location and, when it succeeds, leaves exactly the given content there.
\<close>

theorem write_stays_inside:
  assumes "disk_ok d" "locate d wd = Inr root" "write_file d cwd call input wd = (r, d')"
    "exists_from d cwd (wr_path input) \<or> exists_from d cwd (path_join (loc_path root) (wr_path input)) \<or>
     \<not> is_absolute (wr_path input) \<and> \<not> links_below d root"
  shows "\<exists>l. prefix root l \<and>
    (\<forall>m. m \<noteq> l \<longrightarrow> dk_nodes d' m = dk_nodes d m \<or>
       dk_nodes d m = None \<and> dk_nodes d' m = Some Dir \<and> prefix root m \<and> prefix m l) \<and>
    (\<forall>res. r = Inr res \<and> res_status res = Succeeded \<longrightarrow> dk_nodes d' l = Some (File (wr_content input)))"
proof (cases "resolve_write_target d cwd (loc_path root) (wr_path input)")
  case (Inl m)
  with assms(2,3) have "r = Inr (expected_failure call m)" "d' = d"
    by (simp_all add: write_file_def canonical_working_dir_def canonicalize_def)
  then show ?thesis by (intro exI [of _ root]) (simp add: expected_failure_def failed_def)
next
  case (Inr target)
  from write_target_inside [OF assms(1,2) Inr assms(4)] obtain l where t: "target = loc_path l" and pre: "prefix root l"
    and good: "\<forall>n \<in> set l. good_name n" and link: "\<forall>m. prefix m l \<longrightarrow> no_link (dk_nodes d) m" by blast
  obtain e1 d1 where par: "(case path_parent (loc_path l) of None \<Rightarrow> (None, d) | Some parent \<Rightarrow> create_dir_all d parent) = (e1, d1)"
    by fastforce
  note dirs = write_parents [OF assms(1) good link par]
  have root: "physical (dk_nodes d) root" by (rule locate_physical [OF assms(2,1)])
  have below: "prefix root m" if "dk_nodes d m = None" "prefix m l" for m
  proof (rule ccontr)
    assume out: "\<not> prefix root m"
    with pre that(2) have "prefix m root" using prefix_same_cases by blast
    moreover from out have "m \<noteq> root" by auto
    ultimately show False using physical_prefix_dir [OF root] that(1) by simp
  qed
  have step: "\<forall>m. dk_nodes d1 m = dk_nodes d m \<or> dk_nodes d m = None \<and> dk_nodes d1 m = Some Dir \<and> prefix root m \<and> prefix m l"
    using dirs below by blast
  obtain e2 d2 where wr: "fs_write d1 target (wr_content input) = (e2, d2)" by fastforce
  have ok1: "disk_ok d1" using dirs [rule_format, of "[]"] assms(1) by (simp add: disk_ok_def)
  have link1: "\<forall>m. prefix m l \<longrightarrow> no_link (dk_nodes d1) m" using dirs link by (metis fs_node.distinct(3) no_link_def option.inject)
  note last = fs_write_no_links [OF wr [unfolded t] ok1 good link1]
  have r: "(r, d') = (case e1 of Some _ \<Rightarrow> (Inl (''failed to create parent directories for '' @ wr_path input), d1)
      | None \<Rightarrow> (case e2 of Some _ \<Rightarrow> (Inl (''failed to write '' @ wr_path input), d2)
        | None \<Rightarrow> (Inr (succeeded call (TcText (''Successfully wrote '' @ dec (length (wr_content input)) @
                    '' bytes to '' @ wr_path input @ ''.''))), d2)))"
    using assms(2,3) Inr par wr t
    by (cases e1; cases e2; simp add: write_file_def canonical_working_dir_def canonicalize_def)
  show ?thesis
  proof (cases e1)
    case (Some e)
    with r step pre show ?thesis by (intro exI [of _ l]) simp
  next
    case none: None
    show ?thesis
    proof (cases e2)
      case (Some e)
      with none r have "r = Inl (''failed to write '' @ wr_path input)" "d' = d2" by simp_all
      with step last pre show ?thesis by (intro exI [of _ l]) simp
    next
      case None
      with none r have "d' = d2" by simp
      with step last None pre show ?thesis by (intro exI [of _ l]) simp
    qed
  qed
qed

definition demo_call :: tool_call where
  "demo_call = \<lparr>call_id = ''c'', call_name = ''write'', call_input = JNull\<rparr>"

lemma write_stays_inside_witness:
  "\<exists>l. prefix [''work''] l \<and>
    dk_nodes (snd (write_file demo_disk ''/'' demo_call \<lparr>wr_path = ''a.txt'', wr_content = ''b''\<rparr> ''/work'')) l = Some (File ''b'')"
proof -
  let ?w = "write_file demo_disk ''/'' demo_call \<lparr>wr_path = ''a.txt'', wr_content = ''b''\<rparr> ''/work''"
  have ok: "disk_ok demo_disk" "locate demo_disk ''/work'' = Inr [''work'']"
    "exists_from demo_disk ''/'' (path_join (loc_path [''work'']) ''a.txt'')" by code_simp+
  have "case fst ?w of Inl _ \<Rightarrow> False | Inr res \<Rightarrow> res_status res = Succeeded" by code_simp
  then obtain res where res: "fst ?w = Inr res" "res_status res = Succeeded" by (auto split: sum.splits)
  with write_stays_inside [OF ok(1,2) prod.collapse [symmetric],
      where cwd = "''/''" and call = demo_call and input = "\<lparr>wr_path = ''a.txt'', wr_content = ''b''\<rparr>"] ok(3)
  show ?thesis by auto
qed

text \<open>
  C29: an absolute path that does not exist yet and whose components start with those of the working
  directory is accepted as it is, with all its \<open>..\<close> components.
\<close>

theorem absolute_write_unchecked:
  assumes "is_absolute path" "starts_with path wd" "\<not> exists_from d cwd path" "\<not> exists_from d cwd (path_join wd path)"
  shows "resolve_write_target d cwd wd path = Inr path"
proof -
  have "components path = RootDir # tl (components path)" using assms(1) by (simp add: components_def)
  then have "push_components path wd (components path) = Inr path"
    using assms(1) by (metis push_components.simps(5))
  with assms show ?thesis by (simp add: resolve_write_target_def)
qed

text \<open>With \<open>..\<close> in it the path leads out of the directory, and the file is created there.\<close>

lemma absolute_write_unchecked_witness:
  "resolve_write_target demo_disk ''/'' ''/work'' ''/work/../etc/new'' = Inr ''/work/../etc/new'' \<and>
   dk_nodes (snd (write_file demo_disk ''/'' demo_call \<lparr>wr_path = ''/work/../etc/new'', wr_content = ''x''\<rparr> ''/work''))
     [''etc'', ''new''] = Some (File ''x'')"
proof
  have "is_absolute ''/work/../etc/new''" "starts_with ''/work/../etc/new'' ''/work''"
    "\<not> exists_from demo_disk ''/'' ''/work/../etc/new''"
    "\<not> exists_from demo_disk ''/'' (path_join ''/work'' ''/work/../etc/new'')" by code_simp+
  from absolute_write_unchecked [OF this]
  show "resolve_write_target demo_disk ''/'' ''/work'' ''/work/../etc/new'' = Inr ''/work/../etc/new''" .
  show "dk_nodes (snd (write_file demo_disk ''/'' demo_call \<lparr>wr_path = ''/work/../etc/new'', wr_content = ''x''\<rparr> ''/work''))
     [''etc'', ''new''] = Some (File ''x'')" by code_simp
qed

text \<open>A new file below a link is created where the link leads.\<close>

theorem link_write_escapes:
  "dk_nodes (snd (write_file demo_disk ''/'' call \<lparr>wr_path = ''out/new'', wr_content = ''x''\<rparr> ''/work'')) [''etc'', ''new''] =
   Some (File ''x'')"
  by code_simp

text \<open>A file of the same relative name in the directory of the process keeps a new file from being written.\<close>

theorem process_directory_blocks_write:
  assumes "canonical_working_dir d wd = Inr root" "canonical_working_dir d root = Inr root"
    "exists_from d cwd (wr_path input)" "\<not> is_absolute (wr_path input)"
    "canonicalize d (path_join root (wr_path input)) = Inl NotFound"
  shows "write_file d cwd call input wd =
    (Inr (expected_failure call (''path '' @ wr_path input @ '' is unavailable: No such file or directory (os error 2)'')), d)"
  using assms by (simp add: write_file_def resolve_write_target_def resolve_target_def io_text_def)

section \<open>Reading\<close>

definition shown_lines :: "nat \<Rightarrow> nat \<Rightarrow> nat \<Rightarrow> string list \<Rightarrow> string" where
  "shown_lines start stop n ls =
     concat (map (\<lambda>(i, l). numbered_line i (trim_line_ending l))
       (filter (\<lambda>(i, l). start \<le> i \<and> i \<le> stop) (enumerate (n + 1) ls)))"

lemma shown_lines_Cons:
  "shown_lines start stop n (l # ls) =
   (if start \<le> n + 1 \<and> n + 1 \<le> stop then numbered_line (n + 1) (trim_line_ending l) else []) @ shown_lines start stop (n + 1) ls"
  by (simp add: shown_lines_def)

lemma shown_lines_past: "stop \<le> n \<Longrightarrow> shown_lines start stop n ls = []"
proof (induction ls arbitrary: n)
  case (Cons l ls)
  with Cons.IH [of "n + 1"] show ?case by (simp add: shown_lines_Cons)
qed (simp add: shown_lines_def)

lemma shown_lines_some:
  "start \<le> stop \<Longrightarrow> n < start \<Longrightarrow> start \<le> n + length ls \<Longrightarrow> shown_lines start stop n ls \<noteq> []"
proof (induction ls arbitrary: n)
  case (Cons l ls)
  with Cons.IH [of "n + 1"] show ?case by (cases "n + 1 = start") (simp_all add: shown_lines_Cons numbered_line_def)
qed simp

lemma trim_line_ending_subset: "set (trim_line_ending l) \<subseteq> set l"
  by (auto simp: trim_line_ending_def strip_cr_def dest: in_set_butlastD split: if_splits)

lemma read_loop_exact:
  assumes "start \<le> stop" "n < stop" "\<forall>l \<in> set ls. CHR 0x00 \<notin> set l"
  shows "read_loop start stop n ls sel = Inr (min stop (n + length ls), sel @ shown_lines start stop n ls)"
  using assms(2,3)
proof (induction ls arbitrary: n sel)
  case (Cons l ls)
  have nul: "CHR 0x00 \<notin> set (trim_line_ending l)" using Cons.prems(2) trim_line_ending_subset by fastforce
  show ?case
  proof (cases "n + 1 = stop")
    case True
    with nul assms(1) show ?thesis by (simp add: shown_lines_Cons shown_lines_past Let_def)
  next
    case False
    with Cons.prems have "n + 1 < stop" by simp
    from Cons.IH [OF this] Cons.prems(2) nul this assms(1) show ?thesis by (simp add: shown_lines_Cons Let_def)
  qed
qed (simp add: shown_lines_def)

lemma raw_lines_concat: "concat (raw_lines s) = s"
  by (induction s) (auto split: list.splits)

lemma raw_lines_chars: "\<forall>l \<in> set (raw_lines s). set l \<subseteq> set s"
  by (metis Sup_upper concat.simps raw_lines_concat set_concat image_eqI subset_code(1) UN_I)

lemma relative_display_loc:
  assumes "prefix root l" "\<forall>n \<in> set l. good_name n"
  shows "is_ok (relative_display_path (loc_path l) (loc_path root))"
proof -
  from assms have "\<forall>n \<in> set root. good_name n" using set_mono_prefix by blast
  with starts_with_loc [OF assms(2)] assms(1) have "starts_with (loc_path l) (loc_path root)" by simp
  then show ?thesis by (simp add: relative_display_path_def strip_path_prefix_def)
qed

text \<open>
  a read of a regular text file shows exactly the lines from the offset to the limit, each with its
  number, cut to the output limit, as long as offset plus limit fit in 64 bits.
\<close>

theorem read_shows_lines:
  fixes off lim :: u64
  assumes "disk_ok d" "locate d wd = Inr root" "ns \<noteq> []" "physical (dk_nodes d) (root @ ns)"
    "dk_nodes d (root @ ns) = Some (File c)"
    "dk_faults d OpStat (root @ ns) = None" "dk_faults d OpOpen (root @ ns) = None" "dk_faults d OpRead (root @ ns) = None"
    "0 < off" "0 < lim" "unat off + unat lim - 1 < 2 ^ 64"
    "CHR 0x00 \<notin> set c" "unat off \<le> length (raw_lines c)"
  shows "read_file d call \<lparr>rd_path = join [slash] ns, rd_offset = Some off, rd_limit = Some lim\<rparr> wd =
    Inr (succeeded call (TcText (truncate_from_start
      (shown_lines (unat off) (unat off + unat lim - 1) 0 (raw_lines c)) (unat lim) 32768)))"
proof -
  let ?l = "root @ ns"
  have again: "locate d (loc_path root) = Inr root" by (rule locate_again [OF assms(2,1)])
  have target: "resolve_target d (loc_path root) (join [slash] ns) = Inr (loc_path ?l)"
    by (rule resolve_target_relative [OF assms(1) again assms(3,4,6)])
  have node: "node_at d (loc_path ?l) = Inr (?l, File c)"
    using locate_loc [OF assms(4,1,6)] assms(5) by (simp add: node_at_def)
  have "is_ok (relative_display_path (loc_path ?l) (loc_path root))"
    by (rule relative_display_loc) (use assms(4) in \<open>simp_all add: physical_def\<close>)
  then obtain display where display: "relative_display_path (loc_path ?l) (loc_path root) = Inr display"
    by (rule is_okE)
  have pos: "1 \<le> unat off" "1 \<le> unat lim" using assms(9,10) by (simp_all add: word_less_nat_alt)
  have mx: "max off 1 = off" "max lim 1 = lim"
    using pos by (simp_all add: max_absorb1 word_le_nat_alt)
  have stop: "unat (off + lim - 1) = unat off + unat lim - 1"
  proof -
    have e: "off + lim - 1 = off + (lim - 1)" by simp
    have m: "unat (lim - 1) = unat lim - 1" using assms(10) by (intro unat_minus_one) auto
    have "unat off + unat (lim - 1) < 2 ^ LENGTH(64)" using assms(11) pos m by simp
    then show ?thesis unfolding e using unat_add_lem [of off "lim - 1"] pos m by simp
  qed
  have nul: "\<forall>l \<in> set (raw_lines c). CHR 0x00 \<notin> set l" using raw_lines_chars [of c] assms(12) by blast
  have loop: "read_loop (unat off) (unat (off + lim - 1)) 0 (raw_lines c) [] =
      Inr (min (unat off + unat lim - 1) (length (raw_lines c)), shown_lines (unat off) (unat off + unat lim - 1) 0 (raw_lines c))"
    using read_loop_exact [of "unat off" "unat off + unat lim - 1" 0 "raw_lines c" "[]"] pos nul by (simp add: stop)
  have some: "shown_lines (unat off) (unat off + unat lim - 1) 0 (raw_lines c) \<noteq> []"
    using shown_lines_some pos assms(13) by simp
  show ?thesis
    using again target node display loop some assms(2,7,8) mx
    by (simp add: read_file_def canonical_working_dir_def canonicalize_def Let_def max_output_bytes_def)
qed

lemma truncate_fits: "length (buf_lines t) \<le> n \<Longrightarrow> length t \<le> m \<Longrightarrow> truncate_from_start t n m = t"
  by (simp add: truncate_from_start_def with_marker_line_def Let_def)

definition text_file :: disk where
  "text_file = \<lparr>dk_nodes = map_of [([], Dir), ([''f''], File [CHR ''a'', newline, CHR ''b'', newline, CHR ''c''])],
     dk_faults = (\<lambda>_ _. None), dk_torn = (\<lambda>_. 0)\<rparr>"

lemma text_file_physical: "physical (dk_nodes text_file) [''f'']"
  by (auto simp: physical_def text_file_def good_name_def slash_def strict_prefix_def prefix_Cons)

lemma read_shows_lines_witness:
  "read_file text_file demo_call \<lparr>rd_path = ''f'', rd_offset = Some 2, rd_limit = Some 1\<rparr> ''/'' =
   Inr (succeeded demo_call (TcText (''     2|b'' @ [newline])))"
proof -
  let ?c = "[CHR ''a'', newline, CHR ''b'', newline, CHR ''c'']"
  let ?t = "''     2|b'' @ [newline]"
  have f: "disk_ok text_file" "locate text_file ''/'' = Inr []" "dk_nodes text_file ([] @ [''f'']) = Some (File ?c)"
    "length (raw_lines ?c) = 3"
    "shown_lines 2 2 0 (raw_lines ?c) = ?t" "length (buf_lines ?t) = 1" "length ?t = 9" by code_simp+
  have "physical (dk_nodes text_file) ([] @ [''f''])" using text_file_physical by simp
  from read_shows_lines [OF f(1,2) _ this f(3), of 2 1 demo_call] f(4,5) truncate_fits [of ?t 1 32768] f(6,7) show ?thesis
    by (simp add: text_file_def newline_def)
qed

text \<open>
  When offset plus limit leave 64 bits, the last line wraps round to a small number and only the first
  line is shown.
\<close>

theorem read_limit_wraps:
  "read_file text_file call \<lparr>rd_path = ''f'', rd_offset = Some 2, rd_limit = Some (- 1)\<rparr> ''/'' =
   Inr (succeeded call (TcText (''     2|b'' @ [newline])))"
proof -
  let ?c = "[CHR ''a'', newline, CHR ''b'', newline, CHR ''c'']"
  let ?t = "''     2|b'' @ [newline]"
  have f: "canonical_working_dir text_file ''/'' = Inr ''/''" "resolve_target text_file ''/'' ''f'' = Inr ''/f''"
    "node_at text_file ''/f'' = Inr ([''f''], File ?c)" "relative_display_path ''/f'' ''/'' = Inr ''f''"
    "read_loop 2 0 0 (raw_lines ?c) [] = Inr (2, ?t)" "length (buf_lines ?t) = 1" "length ?t = 9" by code_simp+
  have big: "unat (- 1 :: u64) = 18446744073709551615" by (simp add: unsigned_minus_1_eq_mask mask_eq_exp_minus_1)
  have mx: "max 2 1 = (2 :: u64)" "max (- 1) 1 = (- 1 :: u64)" by (simp_all add: max_absorb1 word_le_nat_alt big)
  have "truncate_from_start ?t (unat (- 1 :: u64)) max_output_bytes = ?t"
    by (rule truncate_fits) (simp_all add: f(6,7) big max_output_bytes_def del: append.simps)
  with f mx show ?thesis by (simp add: read_file_def text_file_def Let_def)
qed

section \<open>Output of find and bash\<close>

lemma find_loop_exact:
  assumes "\<forall>(p, reg) \<in> set es. reg \<longrightarrow> relative_display_path p root = Inr (f p)" "length ms < max 1 m"
  shows "find_loop call root matcher m (map Inr es) ms =
    Inr (take (max 1 m) (ms @ filter matcher (map (\<lambda>(p, _). f p) (filter snd es))))"
  using assms
proof (induction es arbitrary: ms)
  case (Cons e es)
  obtain p reg where e: "e = (p, reg)" by fastforce
  show ?case
  proof (cases "reg \<and> matcher (f p)")
    case False
    with Cons e show ?thesis by (cases reg) auto
  next
    case hit: True
    show ?thesis
    proof (cases "length ms + 1 \<ge> m")
      case True
      with Cons.prems(2) have "max 1 m = length ms + 1" by simp
      with True hit e Cons.prems(1) show ?thesis by simp
    next
      case False
      with Cons.IH [of "ms @ [f p]"] Cons.prems(1) hit e show ?thesis by simp
    qed
  qed
qed simp

text \<open>
  What a find shows: the paths of the walk that match, in its order, and at most as many as asked for.
\<close>

theorem find_first_matches:
  assumes "locate d wd = Inr root" "disk_ok d" "resolve_target d (loc_path root) (fd_path input) = Inr target"
    "node_at d target = Inr (l, Dir)" "build_matcher W (fd_pattern input) = Inr matcher"
    "wl_walk W d target (loc_path root) = map Inr es"
    "\<forall>(p, reg) \<in> set es. reg \<longrightarrow> relative_display_path p (loc_path root) = Inr (f p)"
    "fd_max_results input \<noteq> 0"
  defines "hits \<equiv> take (unat (fd_max_results input)) (filter matcher (map (\<lambda>(p, _). f p) (filter snd es)))"
  shows "find_paths W d call input wd =
    Inr (succeeded call (TcText (if hits = [] then ''No files found.'' else join [newline] hits)))"
proof -
  from assms(8) have "max 1 (unat (fd_max_results input)) = unat (fd_max_results input)"
    by (simp add: unat_gt_0 Suc_le_eq)
  with find_loop_exact [of es "loc_path root" f "[]" "unat (fd_max_results input)"] assms(7)
  have "find_loop call (loc_path root) matcher (unat (fd_max_results input)) (map Inr es) [] = Inr hits"
    by (simp add: hits_def)
  with assms(1,3-6) show ?thesis
    by (cases hits) (simp_all add: find_paths_def canonical_working_dir_def canonicalize_def)
qed

definition flat_walk :: walk_lib where
  "flat_walk = \<lparr>wl_glob = (\<lambda>g. Inr (\<lambda>s. suffix g s)), wl_set_error = (\<lambda>_. None),
     wl_walk = (\<lambda>_ _ _. [Inr (''/work/a.rs'', True), Inr (''/work/b.rs'', True), Inr (''/work/x'', False)])\<rparr>"

lemma find_first_matches_witness:
  "find_paths flat_walk demo_disk demo_call \<lparr>fd_pattern = ''.rs'', fd_path = ''.'', fd_max_results = 1\<rparr> ''/work'' =
   Inr (succeeded demo_call (TcText ''a.rs''))"
proof -
  let ?i = "\<lparr>fd_pattern = ''.rs'', fd_path = ''.'', fd_max_results = 1\<rparr> :: find_input"
  let ?es = "[(''/work/a.rs'', True), (''/work/b.rs'', True), (''/work/x'', False)]"
  let ?f = "\<lambda>p. if p = ''/work/a.rs'' then ''a.rs'' else ''b.rs''"
  have d: "locate demo_disk ''/work'' = Inr [''work'']" "disk_ok demo_disk"
    "resolve_target demo_disk (loc_path [''work'']) ''.'' = Inr ''/work''"
    "node_at demo_disk ''/work'' = Inr ([''work''], Dir)"
    "relative_display_path ''/work/a.rs'' (loc_path [''work'']) = Inr ''a.rs''"
    "relative_display_path ''/work/b.rs'' (loc_path [''work'']) = Inr ''b.rs''" by code_simp+
  have m: "build_matcher flat_walk ''.rs'' = Inr (\<lambda>s. list_ex (\<lambda>m. m s) [\<lambda>s. suffix ''.rs'' s, \<lambda>s. suffix ''**/.rs'' s])"
    by (simp add: build_matcher_def flat_walk_def slash_def Let_def)
  have s: "suffix ''.rs'' ''a.rs''" "suffix ''.rs'' ''b.rs''" by (simp_all add: suffix_def)
  from find_first_matches [of demo_disk "''/work''" "[''work'']" ?i "''/work''" "[''work'']" flat_walk _ ?es ?f demo_call] d m s
  show ?thesis by (simp add: flat_walk_def)
qed

end
