(* ===== verification/Search_Facts.thy ===== *)
theory Search_Facts
  imports Search_Tools File_Tool_Facts
begin

text \<open>
  What the search tools return: grep shows the matching lines of the walk in order, up to the limits, and
  its text with the marker never exceeds 32 KiB; web search returns each canonical URL once.
\<close>

section \<open>The collector\<close>

lemma payload_value: "max_payload_bytes = 32734"
  by (simp add: max_payload_bytes_def truncation_reserve_bytes_def max_marker_bytes_def max_output_bytes_def
      result_limit_marker_def output_limit_marker_def)

fun push_all :: "string list \<Rightarrow> match_collector \<Rightarrow> bool \<times> match_collector" where
  "push_all [] mc = (True, mc)"
| "push_all (r # rs) mc =
     (case collector_push r mc of (True, mc') \<Rightarrow> push_all rs mc' | (False, mc') \<Rightarrow> (False, mc'))"

lemma push_all_append:
  "push_all (xs @ ys) mc = (case push_all xs mc of (True, mc') \<Rightarrow> push_all ys mc' | (False, mc') \<Rightarrow> (False, mc'))"
  by (induction xs arbitrary: mc) (auto split: prod.split bool.split)

definition collector_ok :: "match_collector \<Rightarrow> bool" where
  "collector_ok mc \<longleftrightarrow> length (mc_output mc) \<le> max_payload_bytes"

lemma push_ok: "collector_ok mc \<Longrightarrow> collector_ok (snd (collector_push r mc))"
  using utf8_prefix_length [of r "max_payload_bytes - length (mc_output mc)"]
  by (auto simp: collector_push_def collector_ok_def Let_def)

lemma push_all_ok: "collector_ok mc \<Longrightarrow> collector_ok (snd (push_all rs mc))"
proof (induction rs arbitrary: mc)
  case (Cons r rs)
  with push_ok [OF Cons.prems, of r] show ?case by (cases "collector_push r mc") (auto split: bool.split)
qed simp

lemma collector_text_length: "collector_ok mc \<Longrightarrow> length (collector_text mc) \<le> 32768"
  by (auto simp: collector_ok_def payload_value collector_text_def marker_of_def result_limit_marker_def
      output_limit_marker_def split: option.split truncation.split)

text \<open>Where a list of results stops.\<close>

lemma push_fits:
  assumes "mc_match_count mc < mc_max_results mc" "length (mc_output mc) + length r \<le> max_payload_bytes"
  shows "collector_push r mc =
    (let mc' = mc\<lparr>mc_output := mc_output mc @ r, mc_match_count := mc_match_count mc + 1\<rparr> in
     if mc_match_count mc + 1 = mc_max_results mc then (False, mc'\<lparr>mc_truncation := Some ResultLimit\<rparr>) else (True, mc'))"
proof -
  have "\<not> length r > max_payload_bytes - length (mc_output mc)" using assms(2) by linarith
  with assms(1) show ?thesis by (auto simp: collector_push_def Let_def)
qed

lemma push_overflows:
  assumes "mc_match_count mc < mc_max_results mc" "collector_ok mc" "length (mc_output mc) + length r > max_payload_bytes"
  shows "collector_push r mc =
    (False, mc\<lparr>mc_output := mc_output mc @ utf8_prefix r (max_payload_bytes - length (mc_output mc)),
               mc_truncation := Some OutputLimit\<rparr>)"
proof -
  have "length r > max_payload_bytes - length (mc_output mc)" using assms(2,3) by (auto simp: collector_ok_def)
  with assms(1) show ?thesis by (simp add: collector_push_def Let_def)
qed

definition collects :: "string list \<Rightarrow> match_collector \<Rightarrow> nat \<Rightarrow> match_collector \<Rightarrow> bool" where
  "collects rs mc k mc' \<longleftrightarrow>
     (let out = mc_output mc @ concat (take k rs) in
      k \<le> length rs \<and>
      (mc_truncation mc' = None \<and> k = length rs \<and> mc_match_count mc + k < mc_max_results mc \<and> mc_output mc' = out \<or>
       mc_truncation mc' = Some ResultLimit \<and> mc_match_count mc + k = mc_max_results mc \<and> mc_output mc' = out \<or>
       mc_truncation mc' = Some OutputLimit \<and> k < length rs \<and> mc_match_count mc + k < mc_max_results mc \<and>
         length out + length (rs ! k) > max_payload_bytes \<and>
         mc_output mc' = out @ utf8_prefix (rs ! k) (max_payload_bytes - length out)))"

lemma push_all_collects:
  "collector_ok mc \<Longrightarrow> mc_truncation mc = None \<Longrightarrow> mc_match_count mc < mc_max_results mc \<Longrightarrow>
   \<exists>k. collects rs mc k (snd (push_all rs mc))"
proof (induction rs arbitrary: mc)
  case Nil
  then show ?case by (intro exI [of _ 0]) (simp add: collects_def)
next
  case (Cons r rs)
  show ?case
  proof (cases "length (mc_output mc) + length r > max_payload_bytes")
    case True
    with push_overflows [OF Cons.prems(3,1) True] Cons.prems show ?thesis
      by (intro exI [of _ 0]) (simp add: collects_def)
  next
    case False
    define mc' where "mc' = mc\<lparr>mc_output := mc_output mc @ r, mc_match_count := mc_match_count mc + 1\<rparr>"
    have push: "collector_push r mc =
        (if mc_match_count mc + 1 = mc_max_results mc then (False, mc'\<lparr>mc_truncation := Some ResultLimit\<rparr>) else (True, mc'))"
      using push_fits [OF Cons.prems(3)] False by (simp add: mc'_def Let_def)
    show ?thesis
    proof (cases "mc_match_count mc + 1 = mc_max_results mc")
      case True
      with push show ?thesis by (intro exI [of _ 1]) (simp add: collects_def mc'_def)
    next
      case more': False
      have "collector_ok mc'" "mc_truncation mc' = None" "mc_match_count mc' < mc_max_results mc'"
        using Cons.prems False more' by (simp_all add: collector_ok_def mc'_def)
      from Cons.IH [OF this] obtain k where k: "collects rs mc' k (snd (push_all rs mc'))" ..
      have "collects (r # rs) mc (Suc k) (snd (push_all rs mc'))"
        using k by (simp add: collects_def Let_def mc'_def)
      with push more' show ?thesis by (intro exI [of _ "Suc k"]) simp
    qed
  qed
qed

section \<open>Grep\<close>

definition line_matches :: "string \<Rightarrow> (string \<Rightarrow> bool) \<Rightarrow> nat \<Rightarrow> string list \<Rightarrow> string list" where
  "line_matches display regex n ls =
     map (\<lambda>(i, l). match_line display i (utf8_lossy (trim_line_ending l)))
       (filter (\<lambda>(i, l). regex (utf8_lossy (trim_line_ending l))) (enumerate (n + 1) ls))"

lemma search_lines_push: "search_lines display regex n ls mc = push_all (line_matches display regex n ls) mc"
  by (induction display regex n ls mc rule: search_lines.induct)
    (simp_all add: line_matches_def Let_def split: prod.split bool.split)

text \<open>The matches of one file, or the error that stops the search.\<close>

definition file_matches :: "disk \<Rightarrow> string \<Rightarrow> string \<Rightarrow> (string \<Rightarrow> bool) \<Rightarrow> string + string list" where
  "file_matches d p root regex =
     (case search_file d p root regex (collector_new 0) of
        Inl e \<Rightarrow> Inl e
      | Inr _ \<Rightarrow>
          (case node_at d p of
             Inr (_, File content) \<Rightarrow>
               if CHR 0x00 \<in> set content then Inr []
               else (case grep_display_path p root of
                       Inl e \<Rightarrow> Inl e
                     | Inr display \<Rightarrow> Inr (line_matches display regex 0 (raw_lines content)))
           | _ \<Rightarrow> Inr []))"

lemma search_file_push:
  "search_file d p root regex mc = (case file_matches d p root regex of Inl e \<Rightarrow> Inl e | Inr rs \<Rightarrow> Inr (push_all rs mc))"
  by (auto simp: search_file_def file_matches_def search_lines_push split: sum.splits option.splits fs_node.splits)

lemma search_file_ok:
  "search_file d p root regex mc = Inr (go, mc') \<Longrightarrow> collector_ok mc \<Longrightarrow> collector_ok mc'"
  using push_all_ok [of mc] by (auto simp: search_file_push split: sum.splits) (metis snd_conv)

lemma search_directory_ok:
  "search_directory d target root regex es mc = Inr mc' \<Longrightarrow> collector_ok mc \<Longrightarrow> collector_ok mc'"
  by (induction d target root regex es mc rule: search_directory.induct)
    (auto split: if_splits sum.splits dest: search_file_ok)

lemma collector_new_ok: "collector_ok (collector_new m)"
  by (simp add: collector_ok_def collector_new_def)

text \<open>
  whatever is searched, the text of a grep result, its truncation marker included, has at most 32 KiB.
\<close>

theorem grep_output_bounded:
  assumes "grep_search R W d call input wd = Inr res" "res_status res = Succeeded"
  shows "\<exists>t. res_content res = TcText t \<and> length t \<le> 32768"
proof -
  obtain root target regex where "res = finish_search call (map_sum id snd (search_file d target root regex (collector_new (unat (gr_max_results input)))))
      \<or> res = finish_search call (search_directory d target root regex (wl_walk W d target root) (collector_new (unat (gr_max_results input))))"
    using assms
    by (auto simp: grep_search_def expected_failure_def failed_def Let_def split: sum.splits if_splits fs_node.splits)
      blast+
  then obtain r where r: "res = finish_search call r"
    "r = map_sum id snd (search_file d target root regex (collector_new (unat (gr_max_results input)))) \<or>
     r = search_directory d target root regex (wl_walk W d target root) (collector_new (unat (gr_max_results input)))" by blast
  from r(1) assms(2) obtain mc where mc: "r = Inr mc" "res = collector_finish call mc"
    by (cases r) (auto simp: finish_search_def expected_failure_def failed_def)
  from r(2) mc(1) have "collector_ok mc"
    using search_directory_ok [OF _ collector_new_ok] search_file_ok [OF _ collector_new_ok]
    by (cases "search_file d target root regex (collector_new (unat (gr_max_results input)))") auto
  with collector_text_length [OF this] mc(2) show ?thesis by (auto simp: collector_finish_def succeeded_def)
qed

definition rust_walk :: walk_lib where
  "rust_walk = \<lparr>wl_glob = (\<lambda>g. Inr (\<lambda>s. s = g)), wl_set_error = (\<lambda>_. None),
     wl_walk = (\<lambda>_ _ _. [Inr (''/work/a.txt'', True), Inr (''/work/self'', False)])\<rparr>"

definition plain_regex :: regex_lib where
  "plain_regex = (\<lambda>p. Inr (\<lambda>s. s = p))"

definition demo_grep :: "u64 \<Rightarrow> grep_input" where
  "demo_grep m = \<lparr>gr_pattern = ''aaa'', gr_path = ''.'', gr_max_results = m\<rparr>"

lemma search_directory_push:
  assumes "\<forall>p. (p, True) \<in> set es \<longrightarrow> file_matches d p root regex = Inr (f p)"
  shows "search_directory d target root regex (map Inr es) mc =
    Inr (snd (push_all (concat (map (\<lambda>(p, _). f p) (filter snd es))) mc))"
  using assms
proof (induction es arbitrary: mc)
  case (Cons e es)
  obtain p reg where e: "e = (p, reg)" by fastforce
  show ?case
  proof (cases reg)
    case True
    with Cons.prems e have "search_file d p root regex mc = Inr (push_all (f p) mc)" by (simp add: search_file_push)
    with Cons e True show ?thesis
      by (cases "push_all (f p) mc") (auto simp: push_all_append split: bool.split)
  qed (use Cons e in simp)
qed simp

lemma demo_grep_result:
  "grep_search plain_regex rust_walk demo_disk demo_call (demo_grep 5) ''/work'' =
   Inr (succeeded demo_call (TcText (''a.txt:1:aaa'' @ [newline])))"
proof -
  let ?r = "''a.txt:1:aaa'' @ [newline]"
  have f: "canonicalize demo_disk ''/work'' = Inr ''/work''" "canonicalize demo_disk (path_join ''/work'' ''.'') = Inr ''/work''"
    "starts_with ''/work'' ''/work''" "node_at demo_disk ''/work'' = Inr ([''work''], Dir)" "\<not> is_absolute ''.''"
    "file_matches demo_disk ''/work/a.txt'' ''/work'' (\<lambda>s. s = ''aaa'') = Inr [?r]" by code_simp+
  have "search_directory demo_disk ''/work'' ''/work'' (\<lambda>s. s = ''aaa'')
      (map Inr [(''/work/a.txt'', True), (''/work/self'', False)]) (collector_new 5) = Inr (snd (push_all [?r] (collector_new 5)))"
    by (subst search_directory_push [where f = "\<lambda>_. [?r]"]) (use f(6) in auto)
  moreover have "collector_push ?r (collector_new 5) =
      (True, \<lparr>mc_output = ?r, mc_match_count = 1, mc_max_results = 5, mc_truncation = None\<rparr>)"
    by (subst push_fits) (simp_all add: collector_new_def payload_value)
  ultimately show ?thesis using f(1-5)
    by (simp add: grep_search_def demo_grep_def plain_regex_def rust_walk_def finish_search_def collector_finish_def
        collector_text_def Let_def)
qed

lemma grep_output_bounded_witness:
  "\<exists>t. res_content (succeeded demo_call (TcText (''a.txt:1:aaa'' @ [newline]))) = TcText t \<and> length t \<le> 32768"
  by (rule grep_output_bounded [OF demo_grep_result]) (simp add: succeeded_def)

text \<open>The text of a collector after some of the matches.\<close>

definition grep_text :: "string list \<Rightarrow> nat \<Rightarrow> nat \<Rightarrow> string \<Rightarrow> bool" where
  "grep_text rs m k t \<longleftrightarrow>
     k \<le> length rs \<and>
     (k = length rs \<and> k < m \<and> t = (if concat rs = [] then ''No matches found.'' else concat rs) \<or>
      k = m \<and> (\<exists>nl. set nl \<subseteq> {newline} \<and> t = concat (take k rs) @ nl @ result_limit_marker) \<or>
      k < length rs \<and> k < m \<and> length (concat (take (Suc k) rs)) > 32734 \<and>
        (\<exists>cut nl. prefix cut (rs ! k) \<and> set nl \<subseteq> {newline} \<and> t = concat (take k rs) @ cut @ nl @ output_limit_marker))"

lemma utf8_prefix_prefix: "prefix (utf8_prefix v m) v"
  by (simp add: utf8_prefix_def take_is_prefix)

lemma collector_text_cut:
  assumes "mc_truncation mc = Some tr"
  obtains nl where "set nl \<subseteq> {newline}" "collector_text mc = mc_output mc @ nl @ marker_of tr" "collector_text mc \<noteq> []"
proof
  let ?nl = "if mc_output mc \<noteq> [] \<and> last (mc_output mc) \<noteq> newline then [newline] else []"
  show "set ?nl \<subseteq> {newline}" by auto
  show "collector_text mc = mc_output mc @ ?nl @ marker_of tr" using assms by (simp add: collector_text_def)
  show "collector_text mc \<noteq> []" using assms
    by (simp add: collector_text_def marker_of_def result_limit_marker_def output_limit_marker_def split: truncation.split)
qed

lemma collects_text:
  assumes "collects rs (collector_new m) k mc" "0 < m"
  shows "\<exists>t. grep_text rs m k t \<and> collector_finish call mc = succeeded call (TcText t)"
proof -
  let ?out = "concat (take k rs)"
  from assms consider (all) "mc_truncation mc = None" "k = length rs" "k < m" "mc_output mc = ?out"
    | (limit) "mc_truncation mc = Some ResultLimit" "k = m" "k \<le> length rs" "mc_output mc = ?out"
    | (cut) "mc_truncation mc = Some OutputLimit" "k < length rs" "k < m" "length ?out + length (rs ! k) > max_payload_bytes"
        "mc_output mc = ?out @ utf8_prefix (rs ! k) (max_payload_bytes - length ?out)"
    by (auto simp: collects_def collector_new_def Let_def)
  then show ?thesis
  proof cases
    case all
    then show ?thesis by (auto simp: grep_text_def collector_finish_def collector_text_def)
  next
    case limit
    from collector_text_cut [OF limit(1)] obtain nl where nl: "set nl \<subseteq> {newline}"
      "collector_text mc = ?out @ nl @ result_limit_marker" "collector_text mc \<noteq> []"
      by (metis limit(4) marker_of_def truncation.case(1))
    then have "grep_text rs m k (collector_text mc)" using limit by (auto simp: grep_text_def)
    with nl(3) show ?thesis by (auto simp: collector_finish_def)
  next
    case cut
    from collector_text_cut [OF cut(1)] obtain nl where nl: "set nl \<subseteq> {newline}"
      "collector_text mc = (?out @ utf8_prefix (rs ! k) (max_payload_bytes - length ?out)) @ nl @ output_limit_marker"
      "collector_text mc \<noteq> []"
      by (metis cut(5) marker_of_def truncation.case(2))
    moreover have "length (concat (take (Suc k) rs)) > 32734" using cut by (simp add: take_Suc_conv_app_nth payload_value)
    ultimately have "grep_text rs m k (collector_text mc)"
      using cut utf8_prefix_prefix [of "rs ! k" "max_payload_bytes - length ?out"] unfolding grep_text_def
      by (metis append.assoc less_imp_le)
    with nl(3) show ?thesis by (auto simp: collector_finish_def)
  qed
qed

text \<open>
  C30: a grep over a directory whose files can be read shows the matching lines of the regular files in the
  order of the walk, binary files skipped: all of them, or as many as asked for, or as many as fit and the
  beginning of the next one; the last two say so.
\<close>

theorem grep_shows_matches:
  assumes "disk_ok d" "locate d wd = Inr root" "resolve_target d wd (gr_path input) = Inr target"
    "node_at d target = Inr (l, Dir)" "R (gr_pattern input) = Inr regex" "gr_max_results input \<noteq> 0"
    "wl_walk W d target (loc_path root) = map Inr es"
    "\<forall>p. (p, True) \<in> set es \<longrightarrow> file_matches d p (loc_path root) regex = Inr (f p)"
  defines "rs \<equiv> concat (map (\<lambda>(p, _). f p) (filter snd es))"
  shows "\<exists>k t. grep_text rs (unat (gr_max_results input)) k t \<and>
    grep_search R W d call input wd = Inr (succeeded call (TcText t))"
proof -
  let ?m = "unat (gr_max_results input)"
  have m: "0 < ?m" using assms(6) by (simp add: unat_gt_0)
  have c: "canonicalize d wd = Inr (loc_path root)" by (simp add: canonicalize_def assms(2))
  have t: "canonicalize d (if is_absolute (gr_path input) then gr_path input else path_join (loc_path root) (gr_path input)) = Inr target"
    "starts_with target (loc_path root)"
    using assms(3) c by (auto simp: resolve_target_def canonical_working_dir_def Let_def split: sum.splits if_splits)
  have run: "search_directory d target (loc_path root) regex (wl_walk W d target (loc_path root)) (collector_new ?m) =
      Inr (snd (push_all rs (collector_new ?m)))"
    unfolding assms(7) rs_def by (rule search_directory_push [OF assms(8)])
  have "\<exists>k. collects rs (collector_new ?m) k (snd (push_all rs (collector_new ?m)))"
    using m by (intro push_all_collects collector_new_ok) (simp_all add: collector_new_def)
  then obtain k t where kt: "grep_text rs ?m k t"
    "collector_finish call (snd (push_all rs (collector_new ?m))) = succeeded call (TcText t)"
    using collects_text [OF _ m] by blast
  have "grep_search R W d call input wd = Inr (succeeded call (TcText t))"
    using c t run kt(2) assms(4,5) by (simp add: grep_search_def finish_search_def Let_def)
  with kt(1) show ?thesis by blast
qed

lemma grep_shows_matches_witness:
  "\<exists>k t. grep_text [''a.txt:1:aaa'' @ [newline]] 5 k t \<and>
    grep_search plain_regex rust_walk demo_disk demo_call (demo_grep 5) ''/work'' = Inr (succeeded demo_call (TcText t))"
proof -
  let ?r = "''a.txt:1:aaa'' @ [newline]"
  have f: "disk_ok demo_disk" "locate demo_disk ''/work'' = Inr [''work'']"
    "resolve_target demo_disk ''/work'' ''.'' = Inr ''/work''" "node_at demo_disk ''/work'' = Inr ([''work''], Dir)"
    "file_matches demo_disk ''/work/a.txt'' (loc_path [''work'']) (\<lambda>s. s = ''aaa'') = Inr [?r]" by code_simp+
  from grep_shows_matches [OF f(1,2), of "demo_grep 5" "''/work''" "[''work'']" plain_regex "\<lambda>s. s = ''aaa''" rust_walk
      "[(''/work/a.txt'', True), (''/work/self'', False)]" "\<lambda>_. [?r]" demo_call] f(3-5)
  show ?thesis by (simp add: demo_grep_def plain_regex_def rust_walk_def)
qed

section \<open>Web search\<close>

text \<open>What the deduplication keeps: the first result of every canonical URL, at most \<open>m\<close> of them.\<close>

definition urls_of :: "(string \<Rightarrow> string option) \<Rightarrow> search_result list \<Rightarrow> string list" where
  "urls_of canon rs = List.map_filter (\<lambda>r. canon (sr_url r)) rs"

definition dedup_spec :: "(string \<Rightarrow> string option) \<Rightarrow> nat \<Rightarrow> search_result list \<Rightarrow> search_result list \<Rightarrow> search_result list \<Rightarrow> bool" where
  "dedup_spec canon m out rs res \<longleftrightarrow>
     distinct (map sr_url res) \<and> length res \<le> max 1 m \<and> set (map sr_url out) \<subseteq> set (map sr_url res) \<and>
     set (map sr_url res) \<subseteq> set (map sr_url out) \<union> set (urls_of canon rs) \<and>
     (length res < max 1 m \<longrightarrow> set (urls_of canon rs) \<subseteq> set (map sr_url res))"

lemma urls_of_simps [simp]:
  "urls_of canon [] = []"
  "urls_of canon (r # rs) = (case canon (sr_url r) of None \<Rightarrow> urls_of canon rs | Some u \<Rightarrow> u # urls_of canon rs)"
  by (simp_all add: urls_of_def map_filter_simps split: option.split)

lemma deduplicate_ok:
  "set seen = set (map sr_url out) \<Longrightarrow> distinct (map sr_url out) \<Longrightarrow> length out < max 1 m \<Longrightarrow>
   dedup_spec canon m out rs (deduplicate canon m seen out rs)"
proof (induction canon m seen out rs rule: deduplicate.induct)
  case (1 canon m seen out)
  then show ?case by (simp add: dedup_spec_def)
next
  case (2 canon m seen out r rs)
  show ?case
  proof (cases "canon (sr_url r)")
    case None
    with 2(1) [OF None 2(4-6)] show ?thesis by (simp add: dedup_spec_def)
  next
    case (Some u)
    show ?thesis
    proof (cases "u \<in> set seen")
      case True
      with 2(2) [OF Some True 2(4-6)] Some 2(4) show ?thesis by (auto simp: dedup_spec_def)
    next
      case new: False
      let ?out = "out @ [r\<lparr>sr_url := u\<rparr>]"
      have d: "distinct (map sr_url ?out)" using new 2(4,5) by simp
      have s: "set (u # seen) = set (map sr_url ?out)" using 2(4) by auto
      show ?thesis
      proof (cases "length ?out \<ge> m")
        case True
        with Some new d 2(6) show ?thesis by (auto simp: dedup_spec_def)
      next
        case False
        then have "length ?out < max 1 m" by simp
        from 2(3) [OF Some new refl False s d this] Some new False show ?thesis
          by (auto simp: dedup_spec_def Let_def)
      qed
    qed
  qed
qed

definition answers :: "search_request \<Rightarrow> search_provider list \<Rightarrow> search_result list list" where
  "answers req ps = List.map_filter (\<lambda>p. case p req of Inl _ \<Rightarrow> None | Inr rs \<Rightarrow> Some rs) ps"

definition failures :: "search_request \<Rightarrow> search_provider list \<Rightarrow> provider_error list" where
  "failures req ps = List.map_filter (\<lambda>p. case p req of Inl e \<Rightarrow> Some e | Inr _ \<Rightarrow> None) ps"

lemma ask_all:
  "fold (ask_provider req) ps st =
   \<lparr>ss_results = ss_results st @ concat (answers req ps),
    ss_warnings = ss_warnings st @ map format_provider_warning (failures req ps),
    ss_successful = ss_successful st + length (answers req ps),
    ss_retryable = (ss_retryable st \<or> list_ex pe_retryable (failures req ps))\<rparr>"
  by (induction ps arbitrary: st) (auto simp: ask_provider_def answers_def failures_def map_filter_simps split: sum.splits)

text \<open>
  a web search fails only when no provider answers, and is then retryable exactly when one of the
  failures is; otherwise each canonical URL of the answers is given once, all of them unless the limit is
  reached, and every failed provider leaves one warning.
\<close>

theorem web_search_aggregates:
  "case aggregator_search canon providers req of
     Inl e \<Rightarrow> answers req providers = [] \<and> (se_retryable e \<longleftrightarrow> list_ex pe_retryable (failures req providers))
   | Inr resp \<Rightarrow>
       answers req providers \<noteq> [] \<and> sp_warnings resp = map format_provider_warning (failures req providers) \<and>
       dedup_spec canon (sq_max_results req) [] (concat (answers req providers)) (sp_results resp)"
  using deduplicate_ok [of "[]" "[]" "sq_max_results req" canon "concat (answers req providers)"]
  by (simp add: aggregator_search_def ask_all Let_def deduplicate_results_def)

text \<open>
  The text of a web search exceeds 32 KiB by at most one byte: the newline before the marker after a cut
  by lines is not in the budget.
\<close>

lemma truncate_from_start_length: "length (truncate_from_start t n m) \<le> m + 34"
proof -
  have "length (with_marker (utf8_prefix s m)) \<le> m + 34" for s
    using with_marker_length [of "utf8_prefix s m"] utf8_prefix_length [of s m] by linarith
  moreover have "length s \<le> m \<Longrightarrow> length (with_marker_line over s) \<le> m + 34" for s over
    using with_marker_line_length [of over s] by linarith
  ultimately show ?thesis by (simp add: truncate_from_start_def Let_def)
qed

lemma web_text_bounded:
  assumes "rs \<noteq> []"
  shows "\<exists>t. format_results call rs warnings = succeeded call (TcText t) \<and> length t \<le> 32769"
proof -
  have "max_output_bytes - length output_limit_marker = 32735"
    by (simp add: max_output_bytes_def output_limit_marker_def)
  then have "length (truncate_from_start t n (max_output_bytes - length output_limit_marker)) \<le> 32769" for t n
    using truncate_from_start_length [of t n 32735] by simp
  with assms show ?thesis unfolding format_results_def Let_def by (subst if_not_P) blast+
qed

end
