(* ===== verification/Llm_Catalog.thy ===== *)
theory Llm_Catalog
  imports Providers Model_Input Ordered_Map "HOL-Library.Sublist"
begin

text \<open>
  \<open>agent/src/llm\<close>: provider identifiers, the built-in catalog of providers, models and protocol profiles,
  custom providers registered once at startup, and the resolution of a provider with overrides into one
  endpoint. The registry, a \<open>OnceLock\<close> in the code, is an explicit argument.
\<close>

section \<open>Provider identifiers\<close>

datatype provider_id = Deepseek | Agnes | Openai | Anthropic | Google | Custom string

fun pid_as_str :: "provider_id \<Rightarrow> string" where
  "pid_as_str Deepseek = ''deepseek''"
| "pid_as_str Agnes = ''agnes''"
| "pid_as_str Openai = ''openai''"
| "pid_as_str Anthropic = ''anthropic''"
| "pid_as_str Google = ''google''"
| "pid_as_str (Custom slug) = slug"

definition pid_parse :: "string \<Rightarrow> string + provider_id" where
  "pid_parse value =
     (let v = ascii_lower (trim value) in
      if v = ''deepseek'' then Inr Deepseek
      else if v = ''agnes'' then Inr Agnes
      else if v = ''openai'' then Inr Openai
      else if v = ''anthropic'' then Inr Anthropic
      else if v = ''google'' then Inr Google
      else if v = [] then Inl ''provider must not be empty''
      else Inr (Custom v))"

fun pid_label :: "provider_id \<Rightarrow> string" where
  "pid_label Deepseek = ''DeepSeek''"
| "pid_label Agnes = ''Agnes AI''"
| "pid_label Openai = ''OpenAI''"
| "pid_label Anthropic = ''Anthropic''"
| "pid_label Google = ''Google''"
| "pid_label (Custom slug) = slug"

fun is_builtin :: "provider_id \<Rightarrow> bool" where
  "is_builtin (Custom _) = False"
| "is_builtin _ = True"

section \<open>Profiles\<close>

record profile_default =
  pd_provider :: provider_id
  pd_protocol :: adapter_family
  pd_features :: feature_set
  pd_wire :: wire_profile_config
  pd_options :: adapter_options
  pd_ceiling :: feature_set

text \<open>The overrides of user and host have the same fields.\<close>

record profile_override =
  po_protocol :: "adapter_family option"
  po_features :: "feature_patch option"
  po_wire :: "wire_profile_patch option"

definition override_features :: "profile_override option \<Rightarrow> feature_patch option" where
  "override_features ov = Option.bind ov po_features"

definition override_wire :: "profile_override option \<Rightarrow> wire_profile_config \<Rightarrow> wire_profile_config" where
  "override_wire ov wire =
     (case Option.bind ov po_wire of None \<Rightarrow> wire | Some patch \<Rightarrow> merge_wire_from_patch wire patch)"

definition merge_protocol_profile ::
  "profile_default \<Rightarrow> profile_override option \<Rightarrow> profile_override option \<Rightarrow> resolved_profile \<times> clamp_diagnostic list" where
  "merge_protocol_profile dflt user host =
     (let features = merge_feature_config (merge_feature_config (pd_features dflt) (override_features user))
            (override_features host);
          wire = override_wire host (override_wire user (pd_wire dflt)) in
      case clamp_features (pd_protocol dflt) features (pd_ceiling dflt) of
        (clamped, diagnostics) \<Rightarrow>
          (\<lparr>rp_protocol = pd_protocol dflt, rp_capabilities = capabilities_for (pd_protocol dflt),
            rp_features = clamped, rp_wire = wire, rp_options = pd_options dflt\<rparr>, diagnostics))"

section \<open>The catalog\<close>

record llm_model =
  lm_id :: string
  lm_label :: string
  lm_supports_thinking :: bool

record provider_entry =
  en_id :: provider_id
  en_api_key_env :: string
  en_default_base_url :: string
  en_default_protocol :: adapter_family
  en_supported_protocols :: "adapter_family list"
  en_profile_defaults :: "profile_default list"
  en_models :: "llm_model list"

definition deepseek_v4_flash :: llm_model where
  "deepseek_v4_flash = \<lparr>lm_id = ''deepseek-v4-flash'', lm_label = ''deepseek-v4-flash'', lm_supports_thinking = True\<rparr>"

definition deepseek_chat :: llm_model where
  "deepseek_chat = \<lparr>lm_id = ''deepseek-chat'', lm_label = ''deepseek-chat'', lm_supports_thinking = True\<rparr>"

definition agnes_25_flash :: llm_model where
  "agnes_25_flash = \<lparr>lm_id = ''agnes-2.5-flash'', lm_label = ''agnes-2.5-flash (agent)'', lm_supports_thinking = True\<rparr>"

definition agnes_20_flash :: llm_model where
  "agnes_20_flash = \<lparr>lm_id = ''agnes-2.0-flash'', lm_label = ''agnes-2.0-flash'', lm_supports_thinking = True\<rparr>"

definition agnes_25_pro :: llm_model where
  "agnes_25_pro = \<lparr>lm_id = ''agnes-2.5-pro'', lm_label = ''agnes-2.5-pro'', lm_supports_thinking = True\<rparr>"

definition openai_gpt41 :: llm_model where
  "openai_gpt41 = \<lparr>lm_id = ''gpt-4.1'', lm_label = ''gpt-4.1'', lm_supports_thinking = False\<rparr>"

definition anthropic_sonnet :: llm_model where
  "anthropic_sonnet =
     \<lparr>lm_id = ''claude-sonnet-4-20250514'', lm_label = ''claude-sonnet-4-20250514'', lm_supports_thinking = True\<rparr>"

definition google_gemini_flash :: llm_model where
  "google_gemini_flash = \<lparr>lm_id = ''gemini-2.0-flash'', lm_label = ''gemini-2.0-flash'', lm_supports_thinking = False\<rparr>"

text \<open>\<open>from_bits_truncate\<close> keeps the named flags only.\<close>

definition bits_truncate :: "feature_set \<Rightarrow> feature_set" where
  "bits_truncate w = w AND foldr (\<lambda>k s. flag k OR s) named_flags 0"

definition base_streaming_tools_thinking :: feature_set where
  "base_streaming_tools_thinking = bits_truncate 7"

definition ceiling_with_previous_id :: feature_set where
  "ceiling_with_previous_id = bits_truncate (7 OR push_bit 9 1)"

definition ceiling_with_prompt_cache :: feature_set where
  "ceiling_with_prompt_cache = bits_truncate (7 OR push_bit 16 1)"

definition enabled_responses_store_previous :: feature_set where
  "enabled_responses_store_previous = bits_truncate (7 OR push_bit 8 1 OR push_bit 9 1)"

definition ceiling_openai_responses :: feature_set where
  "ceiling_openai_responses = bits_truncate (7 OR push_bit 8 1 OR push_bit 9 1 OR push_bit 10 1 OR push_bit 11 1)"

definition enabled_google_default :: feature_set where
  "enabled_google_default = bits_truncate 11"

definition deepseek_responses_profile :: profile_default where
  "deepseek_responses_profile =
     \<lparr>pd_provider = Deepseek, pd_protocol = OpenAiResponses, pd_features = base_streaming_tools_thinking,
      pd_wire = wire_default, pd_options = OptOpenAiResponses, pd_ceiling = ceiling_with_previous_id\<rparr>"

definition deepseek_chat_profile :: profile_default where
  "deepseek_chat_profile =
     \<lparr>pd_provider = Deepseek, pd_protocol = OpenAiChatCompletions, pd_features = base_streaming_tools_thinking,
      pd_wire = wire_default, pd_options = OptOpenAiChat NoExtension, pd_ceiling = base_streaming_tools_thinking\<rparr>"

definition agnes_responses_profile :: profile_default where
  "agnes_responses_profile =
     \<lparr>pd_provider = Agnes, pd_protocol = OpenAiResponses, pd_features = base_streaming_tools_thinking,
      pd_wire = \<lparr>wp_decode = \<lparr>wd_output_text_path = Some ''output_items'', wd_reasoning_delta_field = None\<rparr>,
                 wp_http = \<lparr>wh_prefer_websocket = None\<rparr>\<rparr>,
      pd_options = OptOpenAiResponses, pd_ceiling = ceiling_with_previous_id\<rparr>"

definition agnes_chat_profile :: profile_default where
  "agnes_chat_profile =
     \<lparr>pd_provider = Agnes, pd_protocol = OpenAiChatCompletions, pd_features = base_streaming_tools_thinking,
      pd_wire = wire_default, pd_options = OptOpenAiChat ChatTemplateKwargs, pd_ceiling = base_streaming_tools_thinking\<rparr>"

definition agnes_messages_profile :: profile_default where
  "agnes_messages_profile =
     \<lparr>pd_provider = Agnes, pd_protocol = AnthropicMessages, pd_features = base_streaming_tools_thinking,
      pd_wire = wire_default, pd_options = OptAnthropicMessages False, pd_ceiling = ceiling_with_prompt_cache\<rparr>"

definition openai_responses_profile :: profile_default where
  "openai_responses_profile =
     \<lparr>pd_provider = Openai, pd_protocol = OpenAiResponses, pd_features = enabled_responses_store_previous,
      pd_wire = wire_default, pd_options = OptOpenAiResponses, pd_ceiling = ceiling_openai_responses\<rparr>"

definition openai_chat_profile :: profile_default where
  "openai_chat_profile =
     \<lparr>pd_provider = Openai, pd_protocol = OpenAiChatCompletions, pd_features = base_streaming_tools_thinking,
      pd_wire = wire_default, pd_options = OptOpenAiChat NoExtension, pd_ceiling = base_streaming_tools_thinking\<rparr>"

definition anthropic_messages_profile :: profile_default where
  "anthropic_messages_profile =
     \<lparr>pd_provider = Anthropic, pd_protocol = AnthropicMessages, pd_features = base_streaming_tools_thinking,
      pd_wire = wire_default, pd_options = OptAnthropicMessages False, pd_ceiling = ceiling_with_prompt_cache\<rparr>"

definition google_generative_profile :: profile_default where
  "google_generative_profile =
     \<lparr>pd_provider = Google, pd_protocol = GoogleGenerativeAi, pd_features = enabled_google_default,
      pd_wire = wire_default, pd_options = OptGoogleGenerativeAi, pd_ceiling = enabled_google_default\<rparr>"

definition agnes_profiles :: "profile_default list" where
  "agnes_profiles = [agnes_responses_profile, agnes_chat_profile, agnes_messages_profile]"

definition deepseek_provider :: provider_entry where
  "deepseek_provider =
     \<lparr>en_id = Deepseek, en_api_key_env = ''DEEPSEEK_API_KEY'', en_default_base_url = ''https://api.deepseek.com'',
      en_default_protocol = OpenAiResponses, en_supported_protocols = [OpenAiResponses, OpenAiChatCompletions],
      en_profile_defaults = [deepseek_responses_profile, deepseek_chat_profile],
      en_models = [deepseek_v4_flash, deepseek_chat]\<rparr>"

definition agnes_provider :: provider_entry where
  "agnes_provider =
     \<lparr>en_id = Agnes, en_api_key_env = ''AGNES_API_KEY'', en_default_base_url = ''https://api.agnes-ai.cn/v1'',
      en_default_protocol = OpenAiResponses,
      en_supported_protocols = [OpenAiResponses, OpenAiChatCompletions, AnthropicMessages],
      en_profile_defaults = [], en_models = [agnes_25_flash, agnes_20_flash, agnes_25_pro]\<rparr>"

definition openai_provider :: provider_entry where
  "openai_provider =
     \<lparr>en_id = Openai, en_api_key_env = ''OPENAI_API_KEY'', en_default_base_url = ''https://api.openai.com/v1'',
      en_default_protocol = OpenAiResponses, en_supported_protocols = [OpenAiResponses, OpenAiChatCompletions],
      en_profile_defaults = [openai_responses_profile, openai_chat_profile], en_models = [openai_gpt41]\<rparr>"

definition anthropic_provider :: provider_entry where
  "anthropic_provider =
     \<lparr>en_id = Anthropic, en_api_key_env = ''ANTHROPIC_API_KEY'', en_default_base_url = ''https://api.anthropic.com'',
      en_default_protocol = AnthropicMessages, en_supported_protocols = [AnthropicMessages],
      en_profile_defaults = [anthropic_messages_profile], en_models = [anthropic_sonnet]\<rparr>"

definition google_provider :: provider_entry where
  "google_provider =
     \<lparr>en_id = Google, en_api_key_env = ''GOOGLE_API_KEY'',
      en_default_base_url = ''https://generativelanguage.googleapis.com/v1beta'',
      en_default_protocol = GoogleGenerativeAi, en_supported_protocols = [GoogleGenerativeAi],
      en_profile_defaults = [google_generative_profile], en_models = [google_gemini_flash]\<rparr>"

definition profile_defaults :: "provider_entry \<Rightarrow> profile_default list" where
  "profile_defaults e = (case en_id e of Agnes \<Rightarrow> agnes_profiles | _ \<Rightarrow> en_profile_defaults e)"

text \<open>The default model; a custom provider's first model, \<open>None\<close> for the index error of an empty table.\<close>

definition default_model :: "provider_entry \<Rightarrow> llm_model option" where
  "default_model e =
     (case en_id e of
        Deepseek \<Rightarrow> Some deepseek_v4_flash
      | Agnes \<Rightarrow> Some agnes_25_flash
      | Openai \<Rightarrow> Some openai_gpt41
      | Anthropic \<Rightarrow> Some anthropic_sonnet
      | Google \<Rightarrow> Some google_gemini_flash
      | Custom _ \<Rightarrow> (case en_models e of [] \<Rightarrow> None | m # _ \<Rightarrow> Some m))"

definition profile_default_for :: "provider_entry \<Rightarrow> adapter_family \<Rightarrow> profile_default option" where
  "profile_default_for e protocol = List.find (\<lambda>p. pd_protocol p = protocol) (profile_defaults e)"

section \<open>Custom providers\<close>

record custom_definition =
  cu_display_name :: string
  cu_protocol :: adapter_family
  cu_base_url :: string
  cu_api_key_env :: string
  cu_profile_template :: string
  cu_profile :: "profile_override option"
  cu_models :: "string list"

type_synonym custom_registry = "(string, provider_entry) btree option"

definition profile_template_default :: "string \<Rightarrow> string + profile_default" where
  "profile_template_default template =
     (case family_parse template of
        None \<Rightarrow> Inl (''unknown profile_template protocol: '' @ template)
      | Some protocol \<Rightarrow>
          ok_or (profile_default_for
              (case protocol of
                 OpenAiChatCompletions \<Rightarrow> openai_provider
               | OpenAiResponses \<Rightarrow> openai_provider
               | AnthropicMessages \<Rightarrow> anthropic_provider
               | GoogleGenerativeAi \<Rightarrow> google_provider) protocol)
            (''catalog missing profile template default for '' @ template))"

definition build_custom_provider :: "string \<Rightarrow> custom_definition \<Rightarrow> string + provider_entry" where
  "build_custom_provider slug def =
     (case pid_parse slug of
        Inl e \<Rightarrow> Inl e
      | Inr pid \<Rightarrow>
          if is_builtin pid then Inl (''custom provider slug conflicts with built-in provider: '' @ slug)
          else case profile_template_default (cu_profile_template def) of
            Inl e \<Rightarrow> Inl e
          | Inr template \<Rightarrow>
              (let dflt = template\<lparr>pd_provider := Custom slug, pd_protocol := cu_protocol def\<rparr>;
                   dflt = (case cu_profile def of
                       None \<Rightarrow> dflt
                     | Some profile \<Rightarrow>
                         (let merged = fst (merge_protocol_profile dflt (Some profile) None) in
                          dflt\<lparr>pd_features := rp_features merged, pd_wire := rp_wire merged,
                               pd_options := rp_options merged\<rparr>));
                   model_ids = (if cu_models def = [] then [''default''] else cu_models def) in
               Inr \<lparr>en_id = Custom slug, en_api_key_env = cu_api_key_env def, en_default_base_url = cu_base_url def,
                    en_default_protocol = cu_protocol def, en_supported_protocols = [cu_protocol def],
                    en_profile_defaults = [dflt],
                    en_models = map (\<lambda>i. \<lparr>lm_id = i, lm_label = i @ '' (custom)'', lm_supports_thinking = False\<rparr>)
                      model_ids\<rparr>))"

fun build_registry :: "(string \<times> custom_definition) list \<Rightarrow> (string, provider_entry) btree \<Rightarrow> string + (string, provider_entry) btree" where
  "build_registry [] m = Inr m"
| "build_registry ((slug, def) # defs) m =
     (case build_custom_provider slug def of
        Inl e \<Rightarrow> Inl e
      | Inr entry \<Rightarrow> build_registry defs (bt_insert slug entry m))"

definition register_custom_providers ::
  "(string, custom_definition) btree \<Rightarrow> custom_registry \<Rightarrow> (string + unit) \<times> custom_registry" where
  "register_custom_providers defs reg =
     (if reg \<noteq> None \<or> bt_empty defs then (Inr (), reg)
      else case build_registry defs [] of
        Inl e \<Rightarrow> (Inl e, reg)
      | Inr m \<Rightarrow> (Inr (), Some m))"

definition custom_provider :: "custom_registry \<Rightarrow> string \<Rightarrow> provider_entry option" where
  "custom_provider reg slug = Option.bind reg (\<lambda>m. bt_get m slug)"

fun lookup_provider :: "custom_registry \<Rightarrow> provider_id \<Rightarrow> string + provider_entry" where
  "lookup_provider reg Deepseek = Inr deepseek_provider"
| "lookup_provider reg Agnes = Inr agnes_provider"
| "lookup_provider reg Openai = Inr openai_provider"
| "lookup_provider reg Anthropic = Inr anthropic_provider"
| "lookup_provider reg Google = Inr google_provider"
| "lookup_provider reg (Custom slug) =
     ok_or (custom_provider reg slug) (''custom provider is not registered: '' @ slug)"

definition all_providers :: "provider_entry list" where
  "all_providers = [deepseek_provider, agnes_provider, openai_provider, anthropic_provider, google_provider]"

definition custom_provider_entries :: "custom_registry \<Rightarrow> provider_entry list" where
  "custom_provider_entries reg = (case reg of None \<Rightarrow> [] | Some m \<Rightarrow> map snd m)"

definition list_provider_ids :: "custom_registry \<Rightarrow> provider_id list" where
  "list_provider_ids reg = map en_id all_providers @ (case reg of None \<Rightarrow> [] | Some m \<Rightarrow> map Custom (bt_keys m))"

definition models_for :: "custom_registry \<Rightarrow> provider_id \<Rightarrow> string + llm_model list" where
  "models_for reg pid = map_sum id en_models (lookup_provider reg pid)"

definition get_model :: "custom_registry \<Rightarrow> provider_id \<Rightarrow> string \<Rightarrow> string + llm_model option" where
  "get_model reg pid i = map_sum id (List.find (\<lambda>m. lm_id m = i)) (models_for reg pid)"

section \<open>Resolution\<close>

record resolve_overrides =
  ro_base_url :: "string option"
  ro_model :: "string option"
  ro_protocol :: "adapter_family option"
  ro_user_profile :: "profile_override option"
  ro_host_profile :: "profile_override option"

definition no_overrides :: resolve_overrides where
  "no_overrides = \<lparr>ro_base_url = None, ro_model = None, ro_protocol = None, ro_user_profile = None, ro_host_profile = None\<rparr>"

record resolved_endpoint =
  ep_provider :: provider_id
  ep_model :: string
  ep_protocol :: adapter_family
  ep_base_url :: string
  ep_profile :: resolved_profile
  ep_diagnostics :: "clamp_diagnostic list"

text \<open>The provider configuration of a run is the endpoint with its key.\<close>

record provider_config = resolved_endpoint +
  pc_api_key :: string

definition or_else :: "'a option \<Rightarrow> 'a option \<Rightarrow> 'a option" where
  "or_else a b = (case a of Some x \<Rightarrow> Some x | None \<Rightarrow> b)"

definition resolve_protocol :: "provider_entry \<Rightarrow> resolve_overrides \<Rightarrow> string + adapter_family" where
  "resolve_protocol e ov =
     (let requested = (case or_else (ro_protocol ov) (or_else (Option.bind (ro_user_profile ov) po_protocol)
                              (Option.bind (ro_host_profile ov) po_protocol)) of
          None \<Rightarrow> en_default_protocol e | Some p \<Rightarrow> p) in
      if requested \<in> set (en_supported_protocols e) then Inr requested
      else Inl (''protocol '' @ family_as_str requested @ '' is not supported for provider '' @ pid_as_str (en_id e)))"

definition resolve_profile ::
  "provider_entry \<Rightarrow> adapter_family \<Rightarrow> resolve_overrides \<Rightarrow> string + resolved_profile \<times> clamp_diagnostic list" where
  "resolve_profile e protocol ov =
     (case profile_default_for e protocol of
        None \<Rightarrow> Inl (''catalog missing profile default for '' @ pid_as_str (en_id e) @ '' / '' @ family_as_str protocol)
      | Some dflt \<Rightarrow> Inr (merge_protocol_profile dflt (ro_user_profile ov) (ro_host_profile ov)))"

definition chat_suffix :: string where
  "chat_suffix = ''/chat/completions''"

definition normalize_base_url :: "string \<Rightarrow> string" where
  "normalize_base_url s =
     (let t = rev (dropWhile (\<lambda>c. c = CHR ''/'') (rev (trim s))) in
      if suffix chat_suffix t then take (length t - length chat_suffix) t else t)"

definition resolve_endpoint :: "custom_registry \<Rightarrow> provider_id \<Rightarrow> resolve_overrides \<Rightarrow> string + resolved_endpoint" where
  "resolve_endpoint reg pid ov =
     (case lookup_provider reg pid of
        Inl e \<Rightarrow> Inl e
      | Inr entry \<Rightarrow>
          (case default_model entry of
             None \<Rightarrow> Inl ''index out of bounds''
           | Some dm \<Rightarrow>
               (let requested = (case ro_model ov of None \<Rightarrow> lm_id dm | Some m \<Rightarrow> m) in
                case get_model reg pid requested of
                  Inl e \<Rightarrow> Inl e
                | Inr _ \<Rightarrow>
                    (case resolve_protocol entry ov of
                       Inl e \<Rightarrow> Inl e
                     | Inr protocol \<Rightarrow>
                         (case resolve_profile entry protocol ov of
                            Inl e \<Rightarrow> Inl e
                          | Inr (profile, diagnostics) \<Rightarrow>
                              Inr \<lparr>ep_provider = pid, ep_model = requested, ep_protocol = protocol,
                                   ep_base_url = normalize_base_url
                                     (case ro_base_url ov of None \<Rightarrow> en_default_base_url entry | Some u \<Rightarrow> u),
                                   ep_profile = profile, ep_diagnostics = diagnostics\<rparr>)))))"

definition resolve_provider_config ::
  "custom_registry \<Rightarrow> provider_id \<Rightarrow> resolve_overrides \<Rightarrow> string option \<Rightarrow> string + provider_config" where
  "resolve_provider_config reg pid ov api_key =
     map_sum id (\<lambda>ep. resolved_endpoint.extend ep \<lparr>pc_api_key = (case api_key of None \<Rightarrow> [] | Some k \<Rightarrow> k)\<rparr>)
       (resolve_endpoint reg pid ov)"

text \<open>The projection of a provider switch on the model, base URL and key a host has stored.\<close>

definition apply_provider_switch ::
  "custom_registry \<Rightarrow> provider_id \<Rightarrow> bool \<Rightarrow> string \<times> string \<times> string \<Rightarrow> (string + unit) \<times> (string \<times> string \<times> string)" where
  "apply_provider_switch reg pid clear st =
     (case resolve_endpoint reg pid no_overrides of
        Inl e \<Rightarrow> (Inl e, st)
      | Inr ep \<Rightarrow> (Inr (), (ep_model ep, ep_base_url ep, if clear then [] else snd (snd st))))"

definition to_call_config ::
  "provider_config \<Rightarrow> u32 \<Rightarrow> thinking_level option \<Rightarrow> string option \<Rightarrow> string option \<Rightarrow> llm_call_config" where
  "to_call_config c max_tokens thinking session_id hint =
     \<lparr>lc_protocol = ep_protocol c, lc_profile = ep_profile c, lc_model = ep_model c, lc_base_url = ep_base_url c,
      lc_api_key = pc_api_key c, lc_max_tokens = max_tokens, lc_thinking_level = thinking, lc_session_id = session_id,
      lc_previous_response_id = hint\<rparr>"

definition openai_chat_options :: "provider_config \<Rightarrow> openai_thinking_extension" where
  "openai_chat_options c = (case rp_options (ep_profile c) of OptOpenAiChat x \<Rightarrow> x | _ \<Rightarrow> NoExtension)"

end
