(* ===== verification/Llm_Startup.thy ===== *)
theory Llm_Startup
  imports Llm_Catalog
begin

text \<open>
  \<open>agent/src/llm/startup.rs\<close> and \<open>credentials.rs\<close>: the layers of the startup configuration (catalog, settings,
  environment, host), the reading of the environment, and the merge of the layers into the provider
  configuration of a run.
\<close>

section \<open>Layers\<close>

record config_layer =
  cl_provider :: "provider_id option"
  cl_model :: "string option"
  cl_base_url :: "string option"
  cl_api_key :: "string option"
  cl_protocol :: "adapter_family option"
  cl_profile :: "profile_override option"

definition layer_default :: config_layer where
  "layer_default = \<lparr>cl_provider = None, cl_model = None, cl_base_url = None, cl_api_key = None,
     cl_protocol = None, cl_profile = None\<rparr>"

definition parse_non_empty :: "string \<Rightarrow> string \<Rightarrow> string + string" where
  "parse_non_empty value field =
     (if trim value = [] then Inl (field @ '' must not be empty'') else Inr (trim value))"

definition validate_optional :: "string option \<Rightarrow> string \<Rightarrow> string + string option" where
  "validate_optional value field =
     (case value of None \<Rightarrow> Inr None | Some v \<Rightarrow> map_sum id Some (parse_non_empty v field))"

definition layer_new ::
  "provider_id option \<Rightarrow> string option \<Rightarrow> string option \<Rightarrow> string option \<Rightarrow> adapter_family option \<Rightarrow>
   profile_override option \<Rightarrow> string + config_layer" where
  "layer_new pid model base_url api_key protocol profile =
     (case validate_optional model ''model'' of
        Inl e \<Rightarrow> Inl e
      | Inr m \<Rightarrow>
          (case validate_optional base_url ''base URL'' of
             Inl e \<Rightarrow> Inl e
           | Inr b \<Rightarrow> Inr \<lparr>cl_provider = pid, cl_model = m, cl_base_url = b, cl_api_key = api_key,
                          cl_protocol = protocol, cl_profile = profile\<rparr>))"

definition validate_layer :: "config_layer \<Rightarrow> string + unit" where
  "validate_layer l =
     (case validate_optional (cl_model l) ''model'' of
        Inl e \<Rightarrow> Inl e
      | Inr _ \<Rightarrow> (case validate_optional (cl_base_url l) ''base URL'' of Inl e \<Rightarrow> Inl e | Inr _ \<Rightarrow> Inr ()))"

record env_layer =
  ev_values :: config_layer
  ev_api_keys :: "provider_id \<Rightarrow> string option"
  ev_responses_store :: "bool option"

section \<open>The environment\<close>

type_synonym environment = "string \<Rightarrow> string option"

definition transpose :: "('e + 'a) option \<Rightarrow> 'e + 'a option" where
  "transpose x = (case x of None \<Rightarrow> Inr None | Some r \<Rightarrow> map_sum id Some r)"

definition parse_protocol :: "string \<Rightarrow> string + adapter_family" where
  "parse_protocol value = ok_or (family_parse value) (''invalid protocol: '' @ trim value)"

definition parse_env_bool :: "string \<Rightarrow> string \<Rightarrow> string + bool" where
  "parse_env_bool value field =
     (let v = trim value in
      if v \<in> {''0'', ''false'', ''no''} then Inr False
      else if v \<in> {''1'', ''true'', ''yes''} then Inr True
      else Inl (''invalid '' @ field @ '': '' @ v))"

text \<open>A key that is set and not blank, trimmed.\<close>

definition env_key :: "environment \<Rightarrow> string \<Rightarrow> string option" where
  "env_key env name =
     (case env name of None \<Rightarrow> None | Some raw \<Rightarrow> if trim raw = [] then None else Some (trim raw))"

fun collect_keys :: "environment \<Rightarrow> provider_entry list \<Rightarrow> (provider_id \<Rightarrow> string option) \<Rightarrow> (provider_id \<Rightarrow> string option)" where
  "collect_keys env [] keys = keys"
| "collect_keys env (e # es) keys =
     collect_keys env es (case env_key env (en_api_key_env e) of None \<Rightarrow> keys | Some k \<Rightarrow> keys(en_id e \<mapsto> k))"

definition read_llm_env :: "custom_registry \<Rightarrow> environment \<Rightarrow> string + env_layer" where
  "read_llm_env reg env =
     (case transpose (map_option pid_parse (env ''MOONTIDE_PROVIDER'')) of
        Inl e \<Rightarrow> Inl e
      | Inr pid \<Rightarrow>
          (case transpose (map_option parse_protocol (env ''MOONTIDE_PROTOCOL'')) of
             Inl e \<Rightarrow> Inl e
           | Inr protocol \<Rightarrow>
               (case validate_optional (env ''MOONTIDE_MODEL'') ''model'' of
                  Inl e \<Rightarrow> Inl e
                | Inr model \<Rightarrow>
                    (case validate_optional (env ''MOONTIDE_BASE_URL'') ''base URL'' of
                       Inl e \<Rightarrow> Inl e
                     | Inr base_url \<Rightarrow>
                         (let keys = collect_keys env (all_providers @ custom_provider_entries reg) Map.empty;
                              keys = (if keys Google = None
                                      then (case env_key env ''GEMINI_API_KEY'' of None \<Rightarrow> keys | Some k \<Rightarrow> keys(Google \<mapsto> k))
                                      else keys) in
                          case transpose (map_option (\<lambda>raw. parse_env_bool raw ''MOONTIDE_RESPONSES_STORE'')
                                 (env ''MOONTIDE_RESPONSES_STORE'')) of
                            Inl e \<Rightarrow> Inl e
                          | Inr store \<Rightarrow>
                              Inr \<lparr>ev_values = \<lparr>cl_provider = pid, cl_model = model, cl_base_url = base_url,
                                     cl_api_key = None, cl_protocol = protocol, cl_profile = None\<rparr>,
                                   ev_api_keys = keys, ev_responses_store = store\<rparr>)))))"

section \<open>The merge\<close>

definition merge_provider_id :: "config_layer \<Rightarrow> env_layer \<Rightarrow> config_layer \<Rightarrow> provider_id" where
  "merge_provider_id settings env host =
     (case or_else (cl_provider host) (or_else (cl_provider (ev_values env)) (cl_provider settings)) of
        None \<Rightarrow> Deepseek | Some p \<Rightarrow> p)"

definition layer_has_api_key :: "string option \<Rightarrow> bool" where
  "layer_has_api_key v = (case v of None \<Rightarrow> False | Some k \<Rightarrow> trim k \<noteq> [])"

definition settings_apply_to_provider :: "config_layer \<Rightarrow> provider_id \<Rightarrow> bool" where
  "settings_apply_to_provider settings pid = ((case cl_provider settings of None \<Rightarrow> Deepseek | Some p \<Rightarrow> p) = pid)"

datatype api_key_source = KeyHost | KeyEnvironment | KeySettings | KeyMissing

definition resolve_api_key_source :: "config_layer \<Rightarrow> env_layer \<Rightarrow> config_layer \<Rightarrow> api_key_source" where
  "resolve_api_key_source settings env host =
     (let pid = merge_provider_id settings env host in
      if layer_has_api_key (cl_api_key host) then KeyHost
      else if ev_api_keys env pid \<noteq> None then KeyEnvironment
      else if settings_apply_to_provider settings pid \<and> layer_has_api_key (cl_api_key settings) then KeySettings
      else KeyMissing)"

definition apply_optional :: "'a option \<Rightarrow> 'a option \<Rightarrow> 'a option" where
  "apply_optional target layer = (case layer of None \<Rightarrow> target | Some v \<Rightarrow> Some v)"

definition host_profile_from_layer :: "config_layer \<Rightarrow> profile_override option" where
  "host_profile_from_layer l =
     (if cl_protocol l = None \<and> cl_profile l = None then None
      else Some \<lparr>po_protocol = cl_protocol l, po_features = Option.bind (cl_profile l) po_features,
                 po_wire = Option.bind (cl_profile l) po_wire\<rparr>)"

definition empty_override :: profile_override where
  "empty_override = \<lparr>po_protocol = None, po_features = None, po_wire = None\<rparr>"

definition empty_patch :: feature_patch where
  "empty_patch = \<lparr>fp_streaming = None, fp_tools = None, fp_thinking = None, fp_vision = None,
     fp_responses_store = None, fp_responses_previous_id = None, fp_responses_conversation = None,
     fp_responses_websocket = None, fp_anthropic_prompt_cache = None\<rparr>"

text \<open>The host profile of the merge: the environment's protocol, the host layer, and the store flag.\<close>

definition merged_host_profile :: "env_layer \<Rightarrow> config_layer \<Rightarrow> profile_override option" where
  "merged_host_profile env host =
     (let hp = empty_override\<lparr>po_protocol := cl_protocol (ev_values env)\<rparr>;
          hp = (case host_profile_from_layer host of
              None \<Rightarrow> hp
            | Some l \<Rightarrow> \<lparr>po_protocol = apply_optional (po_protocol hp) (po_protocol l),
                        po_features = apply_optional (po_features hp) (po_features l),
                        po_wire = apply_optional (po_wire hp) (po_wire l)\<rparr>);
          hp = (case ev_responses_store env of
              None \<Rightarrow> hp
            | Some store \<Rightarrow>
                hp\<lparr>po_features := Some ((case po_features hp of None \<Rightarrow> empty_patch | Some p \<Rightarrow> p)
                     \<lparr>fp_responses_store := Some store\<rparr>)\<rparr>) in
      if po_protocol hp \<noteq> None \<or> po_features hp \<noteq> None \<or> po_wire hp \<noteq> None then Some hp else None)"

definition merged_overrides ::
  "config_layer \<Rightarrow> env_layer \<Rightarrow> config_layer \<Rightarrow> resolved_endpoint \<Rightarrow> resolve_overrides \<times> string option" where
  "merged_overrides settings env host preset =
     (let pid = merge_provider_id settings env host;
          use = settings_apply_to_provider settings pid;
          take_setting = (\<lambda>target layer. if use then apply_optional target layer else target);
          model = take_setting (Some (ep_model preset)) (cl_model settings);
          base_url = take_setting (Some (ep_base_url preset)) (cl_base_url settings);
          api_key = (if use then cl_api_key settings else None);
          protocol = (if use then apply_optional (Some (ep_protocol preset)) (cl_protocol settings)
                      else Some (ep_protocol preset));
          user_profile = (if use then cl_profile settings else None);
          model = apply_optional model (cl_model (ev_values env));
          base_url = apply_optional base_url (cl_base_url (ev_values env));
          protocol = apply_optional protocol (cl_protocol (ev_values env));
          user_profile = (if user_profile = None then cl_profile (ev_values env) else user_profile);
          model = apply_optional model (cl_model host);
          base_url = apply_optional base_url (cl_base_url host);
          protocol = apply_optional protocol (cl_protocol host);
          api_key = apply_optional api_key (ev_api_keys env pid);
          api_key = apply_optional api_key (cl_api_key host) in
      (\<lparr>ro_base_url = base_url, ro_model = model, ro_protocol = protocol, ro_user_profile = user_profile,
        ro_host_profile = merged_host_profile env host\<rparr>, api_key))"

definition catalog_preset :: "custom_registry \<Rightarrow> provider_id \<Rightarrow> string + resolved_endpoint" where
  "catalog_preset reg pid = resolve_endpoint reg pid no_overrides"

definition merge_startup_llm_config ::
  "custom_registry \<Rightarrow> config_layer \<Rightarrow> env_layer \<Rightarrow> config_layer \<Rightarrow> string + provider_config" where
  "merge_startup_llm_config reg settings env host =
     (case validate_layer settings of
        Inl e \<Rightarrow> Inl e
      | Inr _ \<Rightarrow>
          (case validate_layer (ev_values env) of
             Inl e \<Rightarrow> Inl e
           | Inr _ \<Rightarrow>
               (case validate_layer host of
                  Inl e \<Rightarrow> Inl e
                | Inr _ \<Rightarrow>
                    (let pid = merge_provider_id settings env host in
                     case catalog_preset reg pid of
                       Inl e \<Rightarrow> Inl e
                     | Inr preset \<Rightarrow>
                         (case merged_overrides settings env host preset of
                            (ov, api_key) \<Rightarrow> resolve_provider_config reg pid ov api_key)))))"

section \<open>Credentials\<close>

definition api_key_env :: "custom_registry \<Rightarrow> provider_id \<Rightarrow> string + string" where
  "api_key_env reg pid = map_sum id en_api_key_env (lookup_provider reg pid)"

definition read_api_key_from_env :: "custom_registry \<Rightarrow> environment \<Rightarrow> provider_id \<Rightarrow> string + string option" where
  "read_api_key_from_env reg env pid = map_sum id (env_key env) (api_key_env reg pid)"

definition require_api_key_from_env :: "custom_registry \<Rightarrow> environment \<Rightarrow> provider_id \<Rightarrow> string + string" where
  "require_api_key_from_env reg env pid =
     (case api_key_env reg pid of
        Inl e \<Rightarrow> Inl e
      | Inr name \<Rightarrow>
          (case read_api_key_from_env reg env pid of
             Inl e \<Rightarrow> Inl e
           | Inr k \<Rightarrow> ok_or k (name @ '' is required'')))"

definition require_api_key :: "custom_registry \<Rightarrow> provider_config \<Rightarrow> string + string" where
  "require_api_key reg c =
     (if trim (pc_api_key c) = [] then
        (case api_key_env reg (ep_provider c) of Inl e \<Rightarrow> Inl e | Inr name \<Rightarrow> Inl (name @ '' is required''))
      else Inr (pc_api_key c))"

section \<open>Facts about the catalog\<close>

lemma find_family: "List.find (\<lambda>p. pd_protocol p = f) ps = Some d \<Longrightarrow> d \<in> set ps \<and> pd_protocol d = f"
  by (induction ps) (auto split: if_splits)

lemma profile_default_family: "profile_default_for e f = Some d \<Longrightarrow> pd_protocol d = f"
  by (auto simp: profile_default_for_def dest: find_family)

lemma resolve_endpoint_Inr:
  assumes "resolve_endpoint reg pid ov = Inr ep"
  obtains entry dm dflt where "lookup_provider reg pid = Inr entry" "default_model entry = Some dm"
    "ep_protocol ep \<in> set (en_supported_protocols entry)" "resolve_protocol entry ov = Inr (ep_protocol ep)"
    "profile_default_for entry (ep_protocol ep) = Some dflt"
    "merge_protocol_profile dflt (ro_user_profile ov) (ro_host_profile ov) = (ep_profile ep, ep_diagnostics ep)"
    "ep_model ep = (case ro_model ov of None \<Rightarrow> lm_id dm | Some m \<Rightarrow> m)" "ep_provider ep = pid"
    "ep_base_url ep = normalize_base_url (case ro_base_url ov of None \<Rightarrow> en_default_base_url entry | Some u \<Rightarrow> u)"
  using assms
  by (auto simp: resolve_endpoint_def resolve_protocol_def resolve_profile_def Let_def
      split: sum.splits option.splits if_splits prod.splits)

text \<open>One provider resolves for each of its protocols.\<close>

definition entry_consistent :: "provider_entry \<Rightarrow> bool" where
  "entry_consistent e \<longleftrightarrow>
     list_all (\<lambda>f. case resolve_endpoint None (en_id e) (no_overrides\<lparr>ro_protocol := Some f\<rparr>) of
         Inl _ \<Rightarrow> False
       | Inr ep \<Rightarrow> ep_protocol ep = f \<and> ep_diagnostics ep = [] \<and> rp_features (ep_profile ep) \<noteq> 0 \<and>
           config_family (from_resolved (ep_profile ep) (ep_base_url ep) []) = f)
       (en_supported_protocols e) \<and>
     en_default_protocol e \<in> set (en_supported_protocols e)"

lemma deepseek_consistent: "entry_consistent deepseek_provider"
  by code_simp

lemma agnes_consistent: "entry_consistent agnes_provider"
  by code_simp

lemma openai_consistent: "entry_consistent openai_provider"
  by code_simp

lemma anthropic_consistent: "entry_consistent anthropic_provider"
  by code_simp

lemma google_consistent: "entry_consistent google_provider"
  by code_simp

text \<open>
  the built-in catalog is consistent: every provider resolves, for each protocol it supports and without a
  clamp diagnostic, to an endpoint of that protocol whose adapter configuration has that protocol's family, and
  its default protocol is one of them.
\<close>

theorem catalog_consistent: "list_all entry_consistent all_providers"
  by (simp add: all_providers_def deepseek_consistent agnes_consistent openai_consistent anthropic_consistent google_consistent)

end
