(* ===== verification/Startup_Facts.thy ===== *)
theory Startup_Facts
  imports Llm_Startup
begin

text \<open>
  What the startup merge gives: the features of a resolved profile bit by bit, which layer wins for each
  field, that settings stored for another provider never take part, where the key comes from, and that
  registered custom providers resolve.
\<close>

section \<open>Profiles\<close>

definition patch_bit :: "profile_override option \<Rightarrow> nat \<Rightarrow> bool option" where
  "patch_bit ov n = Option.bind (override_features ov) (\<lambda>p. patch_field p n)"

lemma merged_profile_bits:
  assumes "merge_protocol_profile dflt user host = (profile, diagnostics)"
  shows "rp_protocol profile = pd_protocol dflt \<and> rp_options profile = pd_options dflt \<and>
    bit (rp_features profile) n =
      ((case patch_bit host n of Some v \<Rightarrow> v | None \<Rightarrow> (case patch_bit user n of Some v \<Rightarrow> v | None \<Rightarrow> bit (pd_features dflt) n))
       \<and> bit (pc_features (capabilities_for (pd_protocol dflt))) n \<and> bit (pd_ceiling dflt) n)"
proof -
  from assms have "profile = \<lparr>rp_protocol = pd_protocol dflt, rp_capabilities = capabilities_for (pd_protocol dflt),
      rp_features = merge_feature_config (merge_feature_config (pd_features dflt) (override_features user)) (override_features host)
        AND (pc_features (capabilities_for (pd_protocol dflt)) AND pd_ceiling dflt),
      rp_wire = override_wire host (override_wire user (pd_wire dflt)), rp_options = pd_options dflt\<rparr>"
    by (auto simp: merge_protocol_profile_def clamp_features_def Let_def)
  then show ?thesis unfolding patch_bit_def by (simp add: bit_and_iff merged_feature_bits del: patch_field.simps)
qed

text \<open>
  C33: a resolved endpoint speaks a protocol its provider supports, and a feature is enabled exactly when
  the nearest layer that names it (host, user, catalog) enables it and protocol and vendor both allow it.
\<close>

theorem endpoint_features_exact:
  assumes "resolve_endpoint reg pid ov = Inr ep"
  shows "\<exists>entry dflt. lookup_provider reg pid = Inr entry \<and> ep_protocol ep \<in> set (en_supported_protocols entry) \<and>
    profile_default_for entry (ep_protocol ep) = Some dflt \<and> rp_protocol (ep_profile ep) = ep_protocol ep \<and>
    (\<forall>n. bit (rp_features (ep_profile ep)) n =
      ((case patch_bit (ro_host_profile ov) n of Some v \<Rightarrow> v
        | None \<Rightarrow> (case patch_bit (ro_user_profile ov) n of Some v \<Rightarrow> v | None \<Rightarrow> bit (pd_features dflt) n))
       \<and> bit (pc_features (capabilities_for (ep_protocol ep))) n \<and> bit (pd_ceiling dflt) n))"
proof -
  from assms obtain entry dm dflt where e: "lookup_provider reg pid = Inr entry"
    "ep_protocol ep \<in> set (en_supported_protocols entry)" "profile_default_for entry (ep_protocol ep) = Some dflt"
    and m: "merge_protocol_profile dflt (ro_user_profile ov) (ro_host_profile ov) = (ep_profile ep, ep_diagnostics ep)"
    by (rule resolve_endpoint_Inr)
  note d = profile_default_family [OF e(3)]
  from merged_profile_bits [OF m] d e show ?thesis by auto
qed

definition deepseek_endpoint :: resolved_endpoint where
  "deepseek_endpoint = (case resolve_endpoint None Deepseek no_overrides of Inr ep \<Rightarrow> ep
     | Inl _ \<Rightarrow> \<lparr>ep_provider = Deepseek, ep_model = [], ep_protocol = OpenAiResponses, ep_base_url = [],
                ep_profile = profile_for_protocol OpenAiResponses 0, ep_diagnostics = []\<rparr>)"

lemma deepseek_resolves: "resolve_endpoint None Deepseek no_overrides = Inr deepseek_endpoint"
proof -
  have "is_ok (resolve_endpoint None Deepseek no_overrides)" by code_simp
  then obtain ep where "resolve_endpoint None Deepseek no_overrides = Inr ep" by (rule is_okE)
  then show ?thesis by (simp add: deepseek_endpoint_def)
qed

lemma endpoint_features_exact_witness: "bit (rp_features (ep_profile deepseek_endpoint)) 2"
proof -
  have f: "ep_protocol deepseek_endpoint = OpenAiResponses" by code_simp
  have d: "profile_default_for deepseek_provider OpenAiResponses = Some deepseek_responses_profile" by code_simp
  have b: "bit base_streaming_tools_thinking 2" "bit ceiling_with_previous_id 2"
    "bit (pc_features (capabilities_for OpenAiResponses)) 2" by code_simp+
  from endpoint_features_exact [OF deepseek_resolves] f d b show ?thesis
    by (simp add: no_overrides_def patch_bit_def override_features_def deepseek_responses_profile_def)
qed

section \<open>Precedence\<close>

definition first_some :: "'a option list \<Rightarrow> 'a option" where
  "first_some xs = foldr or_else xs None"

lemma first_some_simps [simp]:
  "first_some [] = None" "first_some (None # xs) = first_some xs" "first_some (Some x # xs) = Some x"
  by (simp_all add: first_some_def or_else_def)

lemma or_else_simps [simp]: "or_else None b = b" "or_else (Some x) b = Some x" "or_else a None = a"
  by (simp_all add: or_else_def split: option.split)

lemma apply_optional_or_else: "apply_optional target layer = or_else layer target"
  by (simp add: apply_optional_def or_else_def split: option.split)

lemma first_some_Cons: "first_some (x # xs) = or_else x (first_some xs)"
  by (simp add: first_some_def)

text \<open>The settings field, if the settings are those of the provider.\<close>

definition setting :: "config_layer \<Rightarrow> provider_id \<Rightarrow> 'a option \<Rightarrow> 'a option" where
  "setting settings pid v = (if settings_apply_to_provider settings pid then v else None)"

lemma merged_overrides_fields:
  assumes "merged_overrides settings env host preset = (ov, key)" "merge_provider_id settings env host = pid"
  shows "ro_model ov = first_some [cl_model host, cl_model (ev_values env), setting settings pid (cl_model settings), Some (ep_model preset)]"
    "ro_base_url ov = first_some [cl_base_url host, cl_base_url (ev_values env), setting settings pid (cl_base_url settings),
       Some (ep_base_url preset)]"
    "ro_protocol ov = first_some [cl_protocol host, cl_protocol (ev_values env), setting settings pid (cl_protocol settings),
       Some (ep_protocol preset)]"
    "key = first_some [cl_api_key host, ev_api_keys env pid, setting settings pid (cl_api_key settings)]"
    "ro_user_profile ov = first_some [setting settings pid (cl_profile settings), cl_profile (ev_values env)]"
    "ro_host_profile ov = merged_host_profile env host"
proof -
  note d = merged_overrides_def Let_def apply_optional_or_else setting_def first_some_Cons assms(2)
  from assms(1) have ov: "ov = fst (merged_overrides settings env host preset)"
    and key: "key = snd (merged_overrides settings env host preset)" by simp_all
  show "ro_model ov = first_some [cl_model host, cl_model (ev_values env), setting settings pid (cl_model settings), Some (ep_model preset)]"
    "ro_base_url ov = first_some [cl_base_url host, cl_base_url (ev_values env), setting settings pid (cl_base_url settings),
       Some (ep_base_url preset)]"
    "ro_protocol ov = first_some [cl_protocol host, cl_protocol (ev_values env), setting settings pid (cl_protocol settings),
       Some (ep_protocol preset)]"
    "key = first_some [cl_api_key host, ev_api_keys env pid, setting settings pid (cl_api_key settings)]"
    "ro_host_profile ov = merged_host_profile env host"
    unfolding ov key by (simp_all add: d)
  show "ro_user_profile ov = first_some [setting settings pid (cl_profile settings), cl_profile (ev_values env)]"
    unfolding ov by (cases "cl_profile settings") (simp_all add: d)
qed

lemma map_sum_Inr: "map_sum id f r = Inr c \<longleftrightarrow> (\<exists>x. r = Inr x \<and> c = f x)"
  by (cases r) auto

lemma merge_startup_Inr:
  assumes "merge_startup_llm_config reg settings env host = Inr c"
  obtains preset ov key ep where "catalog_preset reg (merge_provider_id settings env host) = Inr preset"
    "merged_overrides settings env host preset = (ov, key)"
    "resolve_endpoint reg (merge_provider_id settings env host) ov = Inr ep"
    "c = resolved_endpoint.extend ep \<lparr>pc_api_key = (case key of None \<Rightarrow> [] | Some k \<Rightarrow> k)\<rparr>"
  using assms
  by (auto simp: merge_startup_llm_config_def resolve_provider_config_def Let_def map_sum_Inr split: sum.splits prod.splits)

lemma extend_fields [simp]:
  "ep_model (resolved_endpoint.extend ep x) = ep_model ep" "ep_provider (resolved_endpoint.extend ep x) = ep_provider ep"
  "ep_protocol (resolved_endpoint.extend ep x) = ep_protocol ep" "ep_base_url (resolved_endpoint.extend ep x) = ep_base_url ep"
  "pc_api_key (resolved_endpoint.extend ep \<lparr>pc_api_key = k\<rparr>) = k"
  by (simp_all add: resolved_endpoint.defs)

text \<open>
  C31: what the startup merge gives: the provider of the host, else of the environment, else of the settings;
  and for model, base URL, protocol and key the first layer that has a value in the order host, environment,
  settings of this provider, catalog.
\<close>

theorem startup_precedence:
  assumes "merge_startup_llm_config reg settings env host = Inr c"
  shows "\<exists>preset. resolve_endpoint reg (ep_provider c) no_overrides = Inr preset \<and>
    Some (ep_provider c) = first_some [cl_provider host, cl_provider (ev_values env), cl_provider settings, Some Deepseek] \<and>
    Some (ep_model c) = first_some [cl_model host, cl_model (ev_values env),
      setting settings (ep_provider c) (cl_model settings), Some (ep_model preset)] \<and>
    Some (ep_base_url c) = map_option normalize_base_url (first_some [cl_base_url host, cl_base_url (ev_values env),
      setting settings (ep_provider c) (cl_base_url settings), Some (ep_base_url preset)]) \<and>
    Some (ep_protocol c) = first_some [cl_protocol host, cl_protocol (ev_values env),
      setting settings (ep_provider c) (cl_protocol settings), Some (ep_protocol preset)] \<and>
    Some (pc_api_key c) = first_some [cl_api_key host, ev_api_keys env (ep_provider c),
      setting settings (ep_provider c) (cl_api_key settings), Some []]"
proof -
  let ?pid = "merge_provider_id settings env host"
  from assms obtain preset ov key ep where p: "catalog_preset reg ?pid = Inr preset"
    and mo: "merged_overrides settings env host preset = (ov, key)"
    and ep: "resolve_endpoint reg ?pid ov = Inr ep"
    and c: "c = resolved_endpoint.extend ep \<lparr>pc_api_key = (case key of None \<Rightarrow> [] | Some k \<Rightarrow> k)\<rparr>"
    by (rule merge_startup_Inr)
  note f = merged_overrides_fields [OF mo refl]
  obtain entry dm dflt where "lookup_provider reg ?pid = Inr entry" "default_model entry = Some dm"
    "ep_protocol ep \<in> set (en_supported_protocols entry)" and e1: "resolve_protocol entry ov = Inr (ep_protocol ep)"
    and "profile_default_for entry (ep_protocol ep) = Some dflt"
    "merge_protocol_profile dflt (ro_user_profile ov) (ro_host_profile ov) = (ep_profile ep, ep_diagnostics ep)"
    and e: "ep_model ep = (case ro_model ov of None \<Rightarrow> lm_id dm | Some m \<Rightarrow> m)" "ep_provider ep = ?pid"
    "ep_base_url ep = normalize_base_url (case ro_base_url ov of None \<Rightarrow> en_default_base_url entry | Some u \<Rightarrow> u)"
    by (rule resolve_endpoint_Inr [OF ep])
  have pid: "Some ?pid = first_some [cl_provider host, cl_provider (ev_values env), cl_provider settings, Some Deepseek]"
    by (simp add: merge_provider_id_def first_some_def or_else_def split: option.split)
  have "Some (ep_model ep) = ro_model ov" unfolding e(1) f(1)
    by (simp add: first_some_def or_else_def split: option.split)
  moreover have "Some (ep_base_url ep) = map_option normalize_base_url (ro_base_url ov)" unfolding e(3) f(2)
    by (simp add: first_some_def or_else_def split: option.split)
  moreover have "Some (ep_protocol ep) = ro_protocol ov"
    using e1 unfolding resolve_protocol_def f(3)
    by (simp add: first_some_def or_else_def Let_def split: option.splits if_splits)
  moreover have "Some (case key of None \<Rightarrow> [] | Some k \<Rightarrow> k) =
      first_some [cl_api_key host, ev_api_keys env ?pid, setting settings ?pid (cl_api_key settings), Some []]"
    unfolding f(4) by (simp add: first_some_def or_else_def split: option.split)
  ultimately show ?thesis
    using p pid f(1-3) by (intro exI [of _ preset]) (simp add: c e(2) catalog_preset_def)
qed

text \<open>A run with a model in the settings and another in the environment.\<close>

definition example_settings :: config_layer where
  "example_settings = layer_default\<lparr>cl_provider := Some Openai, cl_model := Some ''gpt-x'', cl_api_key := Some ''k''\<rparr>"

definition example_env :: env_layer where
  "example_env = \<lparr>ev_values = layer_default\<lparr>cl_model := Some ''m''\<rparr>, ev_api_keys = Map.empty, ev_responses_store = Some True\<rparr>"

lemma example_merges: "is_ok (merge_startup_llm_config None example_settings example_env layer_default)"
  by code_simp

lemma startup_precedence_witness:
  "\<exists>c. merge_startup_llm_config None example_settings example_env layer_default = Inr c \<and>
     ep_provider c = Openai \<and> ep_model c = ''m'' \<and> pc_api_key c = ''k''"
proof -
  from example_merges obtain c where c: "merge_startup_llm_config None example_settings example_env layer_default = Inr c"
    by (rule is_okE)
  from startup_precedence [OF c] have "ep_provider c = Openai \<and> ep_model c = ''m'' \<and> pc_api_key c = ''k''"
    by (auto simp: example_settings_def example_env_def layer_default_def setting_def settings_apply_to_provider_def)
  with c show ?thesis by blast
qed

section \<open>Settings of another provider\<close>

lemma layer_default_fields:
  "cl_provider layer_default = None" "cl_model layer_default = None" "cl_base_url layer_default = None"
  "cl_api_key layer_default = None" "cl_protocol layer_default = None" "cl_profile layer_default = None"
  by (simp_all add: layer_default_def)

lemma apply_optional_None: "apply_optional target None = target"
  by (simp add: apply_optional_def)

lemma foreign_overrides:
  assumes "\<not> settings_apply_to_provider settings (merge_provider_id settings env host)"
    and "host' = host\<lparr>cl_provider := Some (merge_provider_id settings env host)\<rparr>"
  shows "merged_overrides layer_default env host' preset = merged_overrides settings env host preset"
proof -
  have p: "merge_provider_id layer_default env host' = merge_provider_id settings env host"
    by (simp add: assms(2) merge_provider_id_def)
  have h: "merged_host_profile env host' = merged_host_profile env host"
    by (simp add: assms(2) merged_host_profile_def host_profile_from_layer_def)
  show ?thesis
    using assms(1) unfolding merged_overrides_def Let_def p h unfolding layer_default_fields apply_optional_None assms(2)
    by (simp cong: option.case_cong)
qed

text \<open>
  C32: settings stored for one provider never take part in the configuration of another: the merge gives what
  it gives with empty settings and the provider named by the host, unless the settings are refused as such.
\<close>

theorem settings_stay_with_provider:
  assumes "\<not> settings_apply_to_provider settings (merge_provider_id settings env host)"
  shows "merge_startup_llm_config reg settings env host =
    (case validate_layer settings of Inl e \<Rightarrow> Inl e
     | Inr _ \<Rightarrow> merge_startup_llm_config reg layer_default env
         (host\<lparr>cl_provider := Some (merge_provider_id settings env host)\<rparr>))"
proof -
  let ?h = "host\<lparr>cl_provider := Some (merge_provider_id settings env host)\<rparr>"
  have v: "validate_layer layer_default = Inr ()" "validate_layer ?h = validate_layer host"
    by (simp_all add: validate_layer_def layer_default_def validate_optional_def cong: sum.case_cong)
  have p: "merge_provider_id layer_default env ?h = merge_provider_id settings env host"
    by (simp add: merge_provider_id_def)
  show ?thesis
    unfolding merge_startup_llm_config_def v p Let_def foreign_overrides [OF assms refl] sum.case ..
qed

lemma settings_stay_with_provider_witness:
  "merge_startup_llm_config None example_settings example_env (layer_default\<lparr>cl_provider := Some Google\<rparr>) =
    merge_startup_llm_config None layer_default example_env (layer_default\<lparr>cl_provider := Some Google\<rparr>)"
proof -
  have m: "merge_provider_id example_settings example_env (layer_default\<lparr>cl_provider := Some Google\<rparr>) = Google" by code_simp
  have "\<not> settings_apply_to_provider example_settings Google" by code_simp
  then have a: "\<not> settings_apply_to_provider example_settings
      (merge_provider_id example_settings example_env (layer_default\<lparr>cl_provider := Some Google\<rparr>))"
    unfolding m .
  have "validate_layer example_settings = Inr ()" by code_simp
  with settings_stay_with_provider [OF a] show ?thesis unfolding m by simp
qed

section \<open>Blank strings\<close>

lemma ws_len_trim_start: "ws_len (trim_start s) = 0"
  by (induction s rule: trim_start.induct) (subst trim_start.simps, simp)

lemma ws_len_trim_end_rev: "ws_len_rev (trim_end_rev s) = 0"
  by (induction s rule: trim_end_rev.induct) (subst trim_end_rev.simps, simp)

lemma trim_end_rev_suffix: "\<exists>p. s = p @ trim_end_rev s"
proof (induction s rule: trim_end_rev.induct)
  case (1 s)
  show ?case
  proof (cases "ws_len_rev s = 0")
    case True
    then show ?thesis by (simp add: trim_end_rev.simps [of s])
  next
    case False
    from 1 [OF False] obtain p where "drop (ws_len_rev s) s = p @ trim_end_rev (drop (ws_len_rev s) s)" by blast
    then have s: "s = (take (ws_len_rev s) s @ p) @ trim_end_rev (drop (ws_len_rev s) s)"
      by (metis append.assoc append_take_drop_id)
    have eq: "trim_end_rev s = trim_end_rev (drop (ws_len_rev s) s)"
      using False by (subst trim_end_rev.simps) simp
    show ?thesis unfolding eq using s by (rule exI)
  qed
qed

lemma ws_len_prefix: "ws_len (p @ q) = 0 \<Longrightarrow> ws_len p = 0"
proof (cases p)
  case (Cons a p1)
  assume w: "ws_len (p @ q) = 0"
  show ?thesis
  proof (cases p1)
    case Nil
    with w Cons show ?thesis by (auto split: if_splits)
  next
    case (Cons b p2)
    with w \<open>p = a # p1\<close> show ?thesis by (cases p2) (auto split: if_splits)
  qed
qed simp

lemma trim_idem: "trim (trim s) = trim s"
proof -
  obtain p where "rev (trim_start s) = p @ trim_end_rev (rev (trim_start s))"
    using trim_end_rev_suffix by blast
  then have "trim_start s = rev (trim_end_rev (rev (trim_start s))) @ rev p"
    by (metis rev_append rev_rev_ident)
  then have "trim_start s = trim s @ rev p" by (simp add: trim_def)
  with ws_len_trim_start [of s] have "ws_len (trim s) = 0" using ws_len_prefix by metis
  then have a: "trim_start (trim s) = trim s" by (subst trim_start.simps) simp
  have "trim_end_rev (rev (trim s)) = rev (trim s)"
    using ws_len_trim_end_rev [of "rev (trim_start s)"] by (subst trim_end_rev.simps) (simp add: trim_def)
  then show ?thesis unfolding trim_def [of "trim s"] a by simp
qed

section \<open>Keys\<close>

definition named_key :: "config_layer \<Rightarrow> env_layer \<Rightarrow> config_layer \<Rightarrow> provider_id \<Rightarrow> api_key_source \<Rightarrow> string option" where
  "named_key settings env host pid src =
     (case src of KeyHost \<Rightarrow> cl_api_key host | KeyEnvironment \<Rightarrow> ev_api_keys env pid
      | KeySettings \<Rightarrow> cl_api_key settings | KeyMissing \<Rightarrow> None)"

lemma collect_keys_not_blank:
  "(\<And>p k. keys p = Some k \<Longrightarrow> trim k \<noteq> []) \<Longrightarrow> collect_keys env es keys q = Some k' \<Longrightarrow> trim k' \<noteq> []"
proof (induction es arbitrary: keys)
  case Nil
  then show ?case by simp
next
  case (Cons e es)
  show ?case
  proof (cases "env_key env (en_api_key_env e)")
    case None
    with Cons.prems(2) have "collect_keys env es keys q = Some k'" by simp
    then show ?thesis by (rule Cons.IH [rotated]) (fact Cons.prems(1))
  next
    case (Some k)
    then have k: "trim k \<noteq> []" by (auto simp: env_key_def trim_idem split: option.splits if_splits)
    from Some Cons.prems(2) have "collect_keys env es (keys(en_id e \<mapsto> k)) q = Some k'" by simp
    then show ?thesis
    proof (rule Cons.IH [rotated])
      fix p k'' assume "(keys(en_id e \<mapsto> k)) p = Some k''"
      with k Cons.prems(1) [of p k''] show "trim k'' \<noteq> []" by (cases "p = en_id e") auto
    qed
  qed
qed

lemma read_llm_env_keys:
  assumes "read_llm_env reg vars = Inr env" "ev_api_keys env p = Some k"
  shows "trim k \<noteq> []"
proof -
  let ?ks = "collect_keys vars (all_providers @ custom_provider_entries reg) Map.empty"
  have b: "\<And>p k. ?ks p = Some k \<Longrightarrow> trim k \<noteq> []" by (rule collect_keys_not_blank) simp_all
  from assms(1) have "ev_api_keys env =
      (if ?ks Google = None then (case env_key vars ''GEMINI_API_KEY'' of None \<Rightarrow> ?ks | Some k \<Rightarrow> ?ks(Google \<mapsto> k)) else ?ks)"
    by (auto simp: read_llm_env_def Let_def split: sum.splits)
  with assms(2) b show ?thesis
    by (auto simp: env_key_def trim_idem split: if_splits option.splits)
qed

text \<open>
  the layer \<open>resolve_api_key_source\<close> names is the one whose key the merge takes, when the host gives no
  blank key, and the run has a usable key exactly when a layer is named.
\<close>

theorem api_key_source_exact:
  assumes "read_llm_env reg vars = Inr env" "layer_has_api_key (cl_api_key host) \<or> cl_api_key host = None"
    and "merge_startup_llm_config reg settings env host = Inr c"
  defines "src \<equiv> resolve_api_key_source settings env host"
  shows "(src \<noteq> KeyMissing \<longrightarrow> named_key settings env host (ep_provider c) src = Some (pc_api_key c)) \<and>
    (is_ok (require_api_key reg c) \<longleftrightarrow> src \<noteq> KeyMissing)"
proof -
  let ?pid = "merge_provider_id settings env host"
  from startup_precedence [OF assms(3)] have pid: "Some (ep_provider c) =
      first_some [cl_provider host, cl_provider (ev_values env), cl_provider settings, Some Deepseek]"
    and key: "Some (pc_api_key c) = first_some [cl_api_key host, ev_api_keys env (ep_provider c),
      setting settings (ep_provider c) (cl_api_key settings), Some []]" by blast+
  from pid have p: "ep_provider c = ?pid"
    by (simp add: merge_provider_id_def first_some_def or_else_def split: option.splits)
  have env: "\<And>k. ev_api_keys env ?pid = Some k \<Longrightarrow> trim k \<noteq> []"
    using read_llm_env_keys [OF assms(1)] by blast
  have ok: "is_ok (require_api_key reg c) \<longleftrightarrow> trim (pc_api_key c) \<noteq> []"
    by (auto simp: require_api_key_def split: sum.split)
  show ?thesis
    unfolding ok src_def resolve_api_key_source_def Let_def p
    using key assms(2) env unfolding p setting_def
    by (auto simp: layer_has_api_key_def named_key_def first_some_Cons or_else_def split: option.splits if_splits)
qed

definition example_vars :: environment where
  "example_vars name = (if name = ''OPENAI_API_KEY'' then Some '' key '' else None)"

definition example_read :: env_layer where
  "example_read = (case read_llm_env None example_vars of Inr env \<Rightarrow> env | Inl _ \<Rightarrow> example_env)"

lemma example_read_Inr: "read_llm_env None example_vars = Inr example_read"
proof -
  have "is_ok (read_llm_env None example_vars)" by code_simp
  then obtain env where "read_llm_env None example_vars = Inr env" by (rule is_okE)
  then show ?thesis by (simp add: example_read_def)
qed

lemma api_key_source_exact_witness:
  "\<exists>c. merge_startup_llm_config None example_settings example_read layer_default = Inr c \<and>
     resolve_api_key_source example_settings example_read layer_default = KeyEnvironment \<and>
     is_ok (require_api_key None c) \<and> pc_api_key c = ''key''"
proof -
  have "is_ok (merge_startup_llm_config None example_settings example_read layer_default)" by code_simp
  then obtain c where c: "merge_startup_llm_config None example_settings example_read layer_default = Inr c"
    by (rule is_okE)
  have h: "cl_api_key layer_default = None" by code_simp
  have k: "resolve_api_key_source example_settings example_read layer_default = KeyEnvironment" by code_simp
  have e: "ev_api_keys example_read Openai = Some ''key''" by code_simp
  have m: "merge_provider_id example_settings example_read layer_default = Openai" by code_simp
  from c have "ep_provider c = Openai"
    by (rule merge_startup_Inr) (metis extend_fields(2) m resolve_endpoint_Inr)
  with api_key_source_exact [OF example_read_Inr disjI2 [OF h] c] k e c show ?thesis
    by (auto simp: named_key_def)
qed

section \<open>Custom providers\<close>

lemma build_custom_Inr:
  assumes "build_custom_provider slug def = Inr e"
  obtains pid dflt where "pid_parse slug = Inr pid" "\<not> is_builtin pid" "en_id e = Custom slug"
    "en_profile_defaults e = [dflt]" "pd_protocol dflt = cu_protocol def"
    "en_default_protocol e = cu_protocol def" "en_supported_protocols e = [cu_protocol def]"
    "en_default_base_url e = cu_base_url def" "en_api_key_env e = cu_api_key_env def"
    "map lm_id (en_models e) = (if cu_models def = [] then [''default''] else cu_models def)"
proof -
  from assms obtain pid template where p: "pid_parse slug = Inr pid" "\<not> is_builtin pid"
    "profile_template_default (cu_profile_template def) = Inr template"
    by (auto simp: build_custom_provider_def Let_def split: sum.splits if_splits)
  show thesis
    using assms p(2)
    by (intro that [OF p(1,2), where dflt = "hd (en_profile_defaults e)"]) (auto simp: build_custom_provider_def Let_def p comp_def split: option.splits)
qed

lemma build_registry_get:
  assumes "build_registry defs m = Inr m'" "bt_inv m" "distinct (map fst defs)"
  shows "bt_inv m' \<and> (\<forall>slug. bt_get m' slug =
    (case map_of defs slug of None \<Rightarrow> bt_get m slug
     | Some def \<Rightarrow> (case build_custom_provider slug def of Inl _ \<Rightarrow> None | Inr e \<Rightarrow> Some e))) \<and>
    (\<forall>(slug, def) \<in> set defs. is_ok (build_custom_provider slug def))"
  using assms
proof (induction defs m rule: build_registry.induct)
  case (1 m)
  then show ?case by simp
next
  case (2 slug def defs m)
  from 2(2) obtain e where e: "build_custom_provider slug def = Inr e" "build_registry defs (bt_insert slug e m) = Inr m'"
    by (auto split: sum.splits)
  from 2(4) have n: "map_of defs slug = None" "distinct (map fst defs)" by (auto simp: map_of_eq_None_iff)
  have "bt_inv (bt_insert slug e m)" using 2(3) by (rule bt_inv_insert)
  from 2(1) [OF e(1,2) this n(2)] e(1) n(1) show ?case
    by (auto simp: bt.get_insert [OF 2(3)] split: option.splits)
qed

lemma bt_inv_distinct: "bt_inv m \<Longrightarrow> distinct (map fst m)"
  by (simp add: bt_inv_def strict_sorted_iff)

text \<open>
  after a successful registration every custom provider of the settings resolves: to its own protocol, its
  normalized base URL, its first model (or \<open>default\<close>) and the key variable it names.
\<close>

theorem custom_providers_resolve:
  assumes "register_custom_providers defs None = (Inr (), Some m)" "bt_inv defs" "bt_get defs slug = Some def"
  shows "\<exists>ep. resolve_endpoint (Some m) (Custom slug) no_overrides = Inr ep \<and> ep_protocol ep = cu_protocol def \<and>
    ep_base_url ep = normalize_base_url (cu_base_url def) \<and>
    ep_model ep = hd (if cu_models def = [] then [''default''] else cu_models def) \<and>
    api_key_env (Some m) (Custom slug) = Inr (cu_api_key_env def)"
proof -
  from assms(1) have m: "build_registry defs [] = Inr m"
    by (auto simp: register_custom_providers_def split: if_splits sum.splits)
  from assms(3) have d: "map_of defs slug = Some def" by (simp add: bt_get_map_of)
  from build_registry_get [OF m _ bt_inv_distinct [OF assms(2)]] have
    "bt_get m slug = (case build_custom_provider slug def of Inl _ \<Rightarrow> None | Inr e \<Rightarrow> Some e)"
    "is_ok (build_custom_provider slug def)"
    using d map_of_SomeD [OF d] by auto
  then obtain e where e: "bt_get m slug = Some e" "build_custom_provider slug def = Inr e"
    by (auto simp: is_ok_iff)
  from e(2) show ?thesis
  proof (rule build_custom_Inr)
    fix pid dflt
    assume a: "en_id e = Custom slug" "en_profile_defaults e = [dflt]" "pd_protocol dflt = cu_protocol def"
      "en_default_protocol e = cu_protocol def" "en_supported_protocols e = [cu_protocol def]"
      "en_default_base_url e = cu_base_url def" "en_api_key_env e = cu_api_key_env def"
      "map lm_id (en_models e) = (if cu_models def = [] then [''default''] else cu_models def)"
    have l: "lookup_provider (Some m) (Custom slug) = Inr e" by (simp add: custom_provider_def e(1))
    obtain dm rest where dm: "en_models e = dm # rest"
      using a(8) by (cases "en_models e") (auto split: if_splits)
    have h: "lm_id dm = hd (if cu_models def = [] then [''default''] else cu_models def)"
      using arg_cong [OF a(8), of hd] dm by simp
    have n: "ro_model no_overrides = None" "ro_base_url no_overrides = None" "ro_protocol no_overrides = None"
      "ro_user_profile no_overrides = None" "ro_host_profile no_overrides = None"
      by (simp_all add: no_overrides_def)
    have d: "default_model e = Some dm" by (simp add: default_model_def a(1) dm)
    have g: "get_model (Some m) (Custom slug) i = Inr (List.find (\<lambda>x. lm_id x = i) (en_models e))" for i
      unfolding get_model_def models_for_def l by simp
    have r: "resolve_protocol e no_overrides = Inr (cu_protocol def)"
      by (simp add: resolve_protocol_def n or_else_def a(4,5))
    have f: "resolve_profile e (cu_protocol def) no_overrides = Inr (merge_protocol_profile dflt None None)"
      by (simp add: resolve_profile_def profile_default_for_def profile_defaults_def a(1-3) n)
    have k: "api_key_env (Some m) (Custom slug) = Inr (cu_api_key_env def)"
      unfolding api_key_env_def l by (simp add: a(7))
    obtain profile diags where mp: "merge_protocol_profile dflt None None = (profile, diags)" by fastforce
    show ?thesis
      unfolding resolve_endpoint_def l sum.case d option.case n g r f mp Let_def prod.case a(6) k h by simp
  qed
qed

definition example_custom :: custom_definition where
  "example_custom = \<lparr>cu_display_name = ''Local'', cu_protocol = OpenAiChatCompletions, cu_base_url = ''http://h/v1/'',
     cu_api_key_env = ''K'', cu_profile_template = ''openai_chat_completions'', cu_profile = None, cu_models = []\<rparr>"

lemma example_builds: "is_ok (build_custom_provider ''local'' example_custom)" "is_ok (build_custom_provider ''Local'' example_custom)"
  by code_simp+

lemma custom_providers_resolve_witness:
  "\<exists>m ep. register_custom_providers [(''local'', example_custom)] None = (Inr (), Some m) \<and>
     resolve_endpoint (Some m) (Custom ''local'') no_overrides = Inr ep \<and> ep_base_url ep = ''http://h/v1'' \<and>
     ep_model ep = ''default''"
proof -
  from example_builds(1) obtain e where "build_custom_provider ''local'' example_custom = Inr e" by (rule is_okE)
  then have r: "register_custom_providers [(''local'', example_custom)] None = (Inr (), Some [(''local'', e)])"
    by (simp add: register_custom_providers_def bt_empty_def)
  have u: "normalize_base_url (cu_base_url example_custom) = ''http://h/v1''" by code_simp
  have "bt_inv [(''local'', example_custom)]" by simp
  from custom_providers_resolve [OF r this, of "''local''" example_custom] u r show ?thesis
    by (auto simp: example_custom_def)
qed

section \<open>Identifiers that survive the settings file\<close>

lemma byte_lower: "byte (char_of (byte c + 32)) = (byte c + 32) mod 256"
  by (simp add: byte_def)

lemma ascii_lower_idem: "ascii_lower (ascii_lower s) = ascii_lower s"
  by (auto simp: ascii_lower_def byte_lower)

text \<open>
  C34: a provider identifier written to the settings file is read back as itself exactly when it is built in or
  its slug is trimmed, lower-case, not empty and not the name of a built-in provider; a registered custom
  provider whose slug has an upper-case letter cannot be named by any settings file or environment.
\<close>

theorem provider_id_roundtrip:
  "(pid_parse (pid_as_str p) = Inr p \<longleftrightarrow>
      is_builtin p \<or> ascii_lower (trim (pid_as_str p)) = pid_as_str p \<and>
        pid_as_str p \<notin> set ([] # map (pid_as_str \<circ> en_id) all_providers)) \<and>
   (build_custom_provider slug def = Inr e \<and> ascii_lower slug \<noteq> slug \<longrightarrow> (\<forall>v. pid_parse v \<noteq> Inr (en_id e)))"
proof (rule conjI)
  have t: "trim (pid_as_str q) = pid_as_str q" "ascii_lower (pid_as_str q) = pid_as_str q" if "is_builtin q" for q
  proof -
    have "list_all (\<lambda>q. trim (pid_as_str q) = pid_as_str q \<and> ascii_lower (pid_as_str q) = pid_as_str q)
        [Deepseek, Agnes, Openai, Anthropic, Google]" by code_simp
    with that show "trim (pid_as_str q) = pid_as_str q" "ascii_lower (pid_as_str q) = pid_as_str q"
      by (cases q; simp)+
  qed
  show "pid_parse (pid_as_str p) = Inr p \<longleftrightarrow>
      is_builtin p \<or> ascii_lower (trim (pid_as_str p)) = pid_as_str p \<and>
        pid_as_str p \<notin> set ([] # map (pid_as_str \<circ> en_id) all_providers)"
  proof (cases "is_builtin p")
    case True
    then show ?thesis using t [OF True] by (cases p) (simp_all add: pid_parse_def)
  next
    case False
    then obtain slug where p: "p = Custom slug" by (cases p) auto
    have n: "set ([] # map (pid_as_str \<circ> en_id) all_providers) =
        {[], ''deepseek'', ''agnes'', ''openai'', ''anthropic'', ''google''}" by code_simp
    show ?thesis unfolding n p by (auto simp: pid_parse_def Let_def)
  qed
  show "build_custom_provider slug def = Inr e \<and> ascii_lower slug \<noteq> slug \<longrightarrow> (\<forall>v. pid_parse v \<noteq> Inr (en_id e))"
  proof (intro impI allI notI; elim conjE)
    fix v
    assume b: "build_custom_provider slug def = Inr e" "ascii_lower slug \<noteq> slug" "pid_parse v = Inr (en_id e)"
    from b(1) have "en_id e = Custom slug" by (rule build_custom_Inr)
    with b(3) have "slug = ascii_lower (trim v)" by (auto simp: pid_parse_def Let_def split: if_splits)
    with b(2) ascii_lower_idem show False by metis
  qed
qed

lemma provider_id_roundtrip_witness: "\<forall>v. pid_parse v \<noteq> Inr (Custom ''Local'')"
proof -
  from example_builds(2) obtain e where e: "build_custom_provider ''Local'' example_custom = Inr e" by (rule is_okE)
  then have i: "en_id e = Custom ''Local''" by (rule build_custom_Inr)
  have l: "ascii_lower ''Local'' \<noteq> ''Local''" by code_simp
  from provider_id_roundtrip [of Deepseek "''Local''" example_custom e] e l show ?thesis unfolding i by blast
qed

end
