(* ===== verification/Cli_Settings.thy ===== *)
theory Cli_Settings
  imports Startup_Facts Event_Log Tool_Runtime
begin

text \<open>
  \<open>cli/src/settings.rs\<close>, \<open>args.rs\<close>, \<open>config.rs\<close> and \<open>approval.rs\<close>, \<open>agent/src/coding_preset.rs\<close> and the checks of
  \<open>agent/src/config.rs\<close>: the settings store of the command line, its file, the launch paths that fill it, and the
  agent configuration made from it. The JSON text of the file and the derived decoder are arguments, the file is
  its contents, the terminal is the list of answers; the registry of custom providers is threaded through.
\<close>

section \<open>Arguments and the store\<close>

datatype approval_policy = PolicyDefault | PolicyAlways | PolicyAlwaysAllow

datatype trace_mode = TraceOff | TraceEvents | TraceEventsAndThinking

datatype provider_arg = ArgDeepseek | ArgAgnes

fun provider_of_arg :: "provider_arg \<Rightarrow> provider_id" where
  "provider_of_arg ArgDeepseek = Deepseek"
| "provider_of_arg ArgAgnes = Agnes"

text \<open>The policy and trace arguments have the same values as the settings they set.\<close>

record cli_args =
  ca_session :: "string option"
  ca_prompt :: "string option"
  ca_cwd :: "string option"
  ca_api_key :: "string option"
  ca_provider :: "provider_arg option"
  ca_sessions_dir :: "string option"
  ca_runs_dir :: "string option"
  ca_model :: "string option"
  ca_base_url :: "string option"
  ca_approval_policy :: "approval_policy option"
  ca_trace :: "trace_mode option"

datatype launch_mode_kind = OneShot | Repl

definition launch_mode :: "cli_args \<Rightarrow> launch_mode_kind" where
  "launch_mode args = (if ca_prompt args \<noteq> None then OneShot else Repl)"

definition session_mode :: "cli_args \<Rightarrow> string" where
  "session_mode args = (if ca_session args \<noteq> None then ''resume'' else ''create'')"

definition validate_prompt :: "cli_args \<Rightarrow> string + string" where
  "validate_prompt args =
     (case ca_prompt args of
        None \<Rightarrow> Inl ''one-shot mode requires --prompt''
      | Some p \<Rightarrow> if p = [] then Inl ''--prompt must not be empty'' else Inr p)"

datatype session_persistence = SessionItems | SessionDisabled

record persistence_config =
  pz_session :: session_persistence
  pz_diagnostic :: diagnostic_persistence

definition default_persistence :: persistence_config where
  "default_persistence = \<lparr>pz_session = SessionItems, pz_diagnostic = PersistOff\<rparr>"

record settings_values =
  sv_provider :: provider_id
  sv_api_key :: string
  sv_approval_policy :: approval_policy
  sv_trace_mode :: trace_mode
  sv_model :: string
  sv_base_url :: string
  sv_protocol :: "adapter_family option"
  sv_profile :: "profile_override option"
  sv_custom_providers :: "(string, custom_definition) btree"
  sv_max_tokens :: u32
  sv_max_steps :: u32
  sv_thinking_level :: "thinking_level option"
  sv_persistence :: persistence_config

text \<open>The store has an input owner beside the values, the file a version.\<close>

record config_store = settings_values +
  cs_input_owner :: bool

record persisted_settings = settings_values +
  pv_version :: u32

definition settings_version :: nat where
  "settings_version = 2"

definition from_runtime :: "config_store \<Rightarrow> persisted_settings" where
  "from_runtime s = settings_values.extend (settings_values.truncate s) \<lparr>pv_version = of_nat settings_version\<rparr>"

datatype settings_error =
    ReadSettings | ParseSettings | NoNumericVersion | UnsupportedVersion nat | NotAnObject | DecodeSettings
  | EncodeSettings | WriteSettings | ReadInput | SettingsError string | RestoreFailed settings_error settings_error

definition apply_to :: "persisted_settings \<Rightarrow> config_store \<Rightarrow> settings_error + config_store" where
  "apply_to p s =
     (if unat (pv_version p) \<noteq> settings_version \<and> unat (pv_version p) \<noteq> 1 then Inl (UnsupportedVersion (unat (pv_version p)))
      else Inr (settings_values.extend (settings_values.truncate p) \<lparr>cs_input_owner = cs_input_owner s\<rparr>))"

definition non_empty_api_key :: "string \<Rightarrow> string option" where
  "non_empty_api_key v = (if trim v = [] then None else Some (trim v))"

definition to_llm_layer :: "persisted_settings \<Rightarrow> string + config_layer" where
  "to_llm_layer p =
     layer_new (Some (sv_provider p)) (Some (sv_model p)) (Some (sv_base_url p)) (non_empty_api_key (sv_api_key p))
       (sv_protocol p) (sv_profile p)"

definition format_api_key :: "custom_registry \<Rightarrow> environment \<Rightarrow> string \<Rightarrow> provider_id \<Rightarrow> string" where
  "format_api_key reg env api_key pid =
     (if trim api_key = [] then ''(empty)''
      else case api_key_env reg pid of
        Inl _ \<Rightarrow> ''*** (runtime)''
      | Inr name \<Rightarrow>
          (case env name of
             None \<Rightarrow> ''*** (runtime)''
           | Some v \<Rightarrow> if trim v \<noteq> [] \<and> v = api_key then ''*** ('' @ name @ '')'' else ''*** (runtime)''))"

section \<open>The settings file\<close>

datatype settings_file = NoFile | Unreadable | Contents string

record settings_serde =
  ss_parse :: "string \<Rightarrow> json option"
  ss_decode :: "json \<Rightarrow> persisted_settings option"
  ss_encode :: "persisted_settings \<Rightarrow> string option"

fun json_as_u64 :: "json \<Rightarrow> nat option" where
  "json_as_u64 (JInt i) = (if 0 \<le> i \<and> i < 2 ^ 64 then Some (nat i) else None)"
| "json_as_u64 _ = None"

text \<open>\<open>entry("provider").or_insert_with\<close> on a file of version 1.\<close>

definition migrate :: "json \<Rightarrow> settings_error + json" where
  "migrate v =
     (if \<not> json_is_object v then Inl NotAnObject
      else Inr (if json_get ''provider'' v = None then json_put ''provider'' (JStr (pid_as_str Deepseek)) v else v))"

definition register_persisted ::
  "persisted_settings \<Rightarrow> custom_registry \<Rightarrow> (settings_error + persisted_settings) \<times> custom_registry" where
  "register_persisted p reg =
     (if bt_empty (sv_custom_providers p) then (Inr p, reg)
      else case register_custom_providers (sv_custom_providers p) reg of
        (Inl e, reg) \<Rightarrow> (Inl (SettingsError e), reg)
      | (Inr _, reg) \<Rightarrow> (Inr p, reg))"

definition decode_settings :: "settings_serde \<Rightarrow> string \<Rightarrow> settings_error + persisted_settings" where
  "decode_settings S bytes =
     (case ss_parse S bytes of
        None \<Rightarrow> Inl ParseSettings
      | Some v \<Rightarrow>
          (case Option.bind (json_get ''version'' v) json_as_u64 of
             None \<Rightarrow> Inl NoNumericVersion
           | Some version \<Rightarrow>
               if version \<noteq> 1 \<and> version \<noteq> settings_version then Inl (UnsupportedVersion version)
               else case (if version = 1 then migrate v else Inr v) of
                 Inl e \<Rightarrow> Inl e
               | Inr v \<Rightarrow> ok_or (ss_decode S v) DecodeSettings))"

fun load_persisted_settings ::
  "settings_serde \<Rightarrow> settings_file \<Rightarrow> custom_registry \<Rightarrow> (settings_error + persisted_settings) \<times> custom_registry" where
  "load_persisted_settings S (Contents bytes) reg =
     (case decode_settings S bytes of Inl e \<Rightarrow> (Inl e, reg) | Inr p \<Rightarrow> register_persisted p reg)"
| "load_persisted_settings S _ reg = (Inl ReadSettings, reg)"

definition lift_error :: "string + 'a \<Rightarrow> settings_error + 'a" where
  "lift_error r = map_sum SettingsError id r"

definition ensure_registered ::
  "settings_serde \<Rightarrow> settings_file \<Rightarrow> custom_registry \<Rightarrow> (settings_error + unit) \<times> custom_registry" where
  "ensure_registered S f reg =
     (if f = NoFile then (let (r, reg) = register_custom_providers [] reg in (lift_error r, reg))
      else case load_persisted_settings S f reg of
        (Inl e, reg) \<Rightarrow> (Inl e, reg)
      | (Inr p, reg) \<Rightarrow> (let (r, reg) = register_custom_providers (sv_custom_providers p) reg in (lift_error r, reg)))"

definition read_persisted_layer ::
  "settings_serde \<Rightarrow> settings_file \<Rightarrow> custom_registry \<Rightarrow> (settings_error + config_layer) \<times> custom_registry" where
  "read_persisted_layer S f reg =
     (if f = NoFile then (Inr layer_default, reg)
      else case ensure_registered S f reg of
        (Inl e, reg) \<Rightarrow> (Inl e, reg)
      | (Inr _, reg) \<Rightarrow>
          (case load_persisted_settings S f reg of
             (Inl e, reg) \<Rightarrow> (Inl e, reg)
           | (Inr p, reg) \<Rightarrow> (lift_error (to_llm_layer p), reg)))"

text \<open>The write replaces the file as a whole or not at all.\<close>

definition persist_settings ::
  "settings_serde \<Rightarrow> bool \<Rightarrow> config_store \<Rightarrow> settings_file \<Rightarrow> (settings_error + unit) \<times> settings_file" where
  "persist_settings S write_ok s f =
     (case ss_encode S (from_runtime s) of
        None \<Rightarrow> (Inl EncodeSettings, f)
      | Some bytes \<Rightarrow> if write_ok then (Inr (), Contents (bytes @ [newline])) else (Inl WriteSettings, f))"

section \<open>Loading the store\<close>

definition has_api_key :: "string \<Rightarrow> bool" where
  "has_api_key v = (trim v \<noteq> [])"

definition validate_explicit_api_key :: "cli_args \<Rightarrow> string + unit" where
  "validate_explicit_api_key args =
     (case ca_api_key args of
        Some v \<Rightarrow> if has_api_key v then Inr () else Inl ''explicit API key must not be empty''
      | None \<Rightarrow> Inr ())"

definition cli_host_layer :: "cli_args \<Rightarrow> string + config_layer" where
  "cli_host_layer args =
     layer_new (map_option provider_of_arg (ca_provider args)) (ca_model args) (ca_base_url args) (ca_api_key args) None None"

definition default_max_tokens :: u32 where
  "default_max_tokens = 4096"

definition default_max_steps :: u32 where
  "default_max_steps = 8"

definition default_store :: "custom_registry \<Rightarrow> string + config_store" where
  "default_store reg =
     map_sum id (\<lambda>preset.
       \<lparr>sv_provider = ep_provider preset, sv_api_key = [], sv_approval_policy = PolicyAlways, sv_trace_mode = TraceOff,
        sv_model = ep_model preset, sv_base_url = ep_base_url preset, sv_protocol = None, sv_profile = None,
        sv_custom_providers = [], sv_max_tokens = default_max_tokens, sv_max_steps = default_max_steps,
        sv_thinking_level = None, sv_persistence = default_persistence, cs_input_owner = False\<rparr>)
       (catalog_preset reg Deepseek)"

definition apply_merged_llm :: "provider_config \<Rightarrow> config_store \<Rightarrow> config_store" where
  "apply_merged_llm c s =
     s\<lparr>sv_provider := ep_provider c, sv_model := ep_model c, sv_base_url := ep_base_url c, sv_api_key := pc_api_key c,
       sv_protocol := Some (ep_protocol c)\<rparr>"

definition apply_cli_overrides :: "cli_args \<Rightarrow> config_store \<Rightarrow> config_store" where
  "apply_cli_overrides args s =
     (let s = (case ca_approval_policy args of None \<Rightarrow> s | Some p \<Rightarrow> s\<lparr>sv_approval_policy := p\<rparr>) in
      case ca_trace args of None \<Rightarrow> s | Some t \<Rightarrow> s\<lparr>sv_trace_mode := t\<rparr>)"

definition read_cli_layers ::
  "settings_serde \<Rightarrow> cli_args \<Rightarrow> environment \<Rightarrow> settings_file \<Rightarrow> custom_registry \<Rightarrow>
   (settings_error + config_layer \<times> env_layer \<times> config_layer) \<times> custom_registry" where
  "read_cli_layers S args env f reg =
     (case validate_explicit_api_key args of
        Inl e \<Rightarrow> (Inl (SettingsError e), reg)
      | Inr _ \<Rightarrow>
          (case read_persisted_layer S f reg of
             (Inl e, reg) \<Rightarrow> (Inl e, reg)
           | (Inr settings, reg) \<Rightarrow>
               (case read_llm_env reg env of
                  Inl e \<Rightarrow> (Inl (SettingsError e), reg)
                | Inr env_layer \<Rightarrow>
                    (case cli_host_layer args of
                       Inl e \<Rightarrow> (Inl (SettingsError e), reg)
                     | Inr host \<Rightarrow> (Inr (settings, env_layer, host), reg)))))"

text \<open>The defaults overwritten by the file, if there is one.\<close>

definition stored_defaults ::
  "settings_serde \<Rightarrow> settings_file \<Rightarrow> custom_registry \<Rightarrow> (settings_error + config_store) \<times> custom_registry" where
  "stored_defaults S f reg =
     (case default_store reg of
        Inl e \<Rightarrow> (Inl (SettingsError e), reg)
      | Inr s \<Rightarrow>
          if f = NoFile then (Inr s, reg)
          else case load_persisted_settings S f reg of
            (Inl e, reg) \<Rightarrow> (Inl e, reg)
          | (Inr p, reg) \<Rightarrow> (apply_to p s, reg))"

definition load_store ::
  "settings_serde \<Rightarrow> cli_args \<Rightarrow> environment \<Rightarrow> settings_file \<Rightarrow> custom_registry \<Rightarrow>
   (settings_error + config_store) \<times> custom_registry" where
  "load_store S args env f reg =
     (case ensure_registered S f reg of
        (Inl e, reg) \<Rightarrow> (Inl e, reg)
      | (Inr _, reg) \<Rightarrow>
          (case read_cli_layers S args env f reg of
             (Inl e, reg) \<Rightarrow> (Inl e, reg)
           | (Inr (settings, env_layer, host), reg) \<Rightarrow>
               (case stored_defaults S f reg of
                  (Inl e, reg) \<Rightarrow> (Inl e, reg)
                | (Inr s, reg) \<Rightarrow>
                    (case merge_startup_llm_config reg settings env_layer host of
                       Inl e \<Rightarrow> (Inl (SettingsError e), reg)
                     | Inr merged \<Rightarrow> (Inr (apply_cli_overrides args (apply_merged_llm merged s)), reg)))))"

definition load_persisted_store ::
  "settings_serde \<Rightarrow> environment \<Rightarrow> settings_file \<Rightarrow> custom_registry \<Rightarrow>
   (settings_error + config_store) \<times> custom_registry" where
  "load_persisted_store S env f reg =
     (case ensure_registered S f reg of
        (Inl e, reg) \<Rightarrow> (Inl e, reg)
      | (Inr _, reg) \<Rightarrow>
          (case stored_defaults S f reg of
             (Inl e, reg) \<Rightarrow> (Inl e, reg)
           | (Inr s, reg) \<Rightarrow>
               (case read_persisted_layer S f reg of
                  (Inl e, reg) \<Rightarrow> (Inl e, reg)
                | (Inr settings, reg) \<Rightarrow>
                    (case read_llm_env reg env of
                       Inl e \<Rightarrow> (Inl (SettingsError e), reg)
                     | Inr env_layer \<Rightarrow>
                         (case merge_startup_llm_config reg settings env_layer layer_default of
                            Inl e \<Rightarrow> (Inl (SettingsError e), reg)
                          | Inr merged \<Rightarrow> (Inr (apply_merged_llm merged s), reg))))))"

text \<open>The provider configuration a run gets: resolved again from the store.\<close>

definition store_overrides :: "config_store \<Rightarrow> resolve_overrides" where
  "store_overrides s =
     \<lparr>ro_base_url = Some (sv_base_url s), ro_model = Some (sv_model s), ro_protocol = sv_protocol s,
      ro_user_profile = sv_profile s, ro_host_profile = None\<rparr>"

definition merged_llm_from_store :: "custom_registry \<Rightarrow> config_store \<Rightarrow> string + provider_config" where
  "merged_llm_from_store reg s =
     resolve_provider_config reg (sv_provider s) (store_overrides s) (Some (sv_api_key s))"

definition apply_provider_switch_in_store ::
  "custom_registry \<Rightarrow> provider_id \<Rightarrow> bool \<Rightarrow> config_store \<Rightarrow> (string + unit) \<times> config_store" where
  "apply_provider_switch_in_store reg pid clear s =
     (case apply_provider_switch reg pid clear (sv_model s, sv_base_url s, sv_api_key s) of
        (r, (m, u, k)) \<Rightarrow>
          (let s = s\<lparr>sv_model := m, sv_base_url := u, sv_api_key := k\<rparr> in
           case r of Inl e \<Rightarrow> (Inl e, s)
           | Inr _ \<Rightarrow> (Inr (), s\<lparr>sv_provider := pid, sv_protocol := None, sv_profile := None\<rparr>)))"

end
