(* ===== verification/Cli_Launch.thy ===== *)
theory Cli_Launch
  imports Cli_Settings
begin

text \<open>
  The launch of the command line: the coding preset, the agent configuration made from the store, one-shot and
  interactive start, and the approval prompt.
\<close>

section \<open>The coding preset\<close>

datatype tool_posture = AlwaysAllowed | AskUnlessAlwaysAllow

definition coding_tool_rules :: "(string \<times> tool_posture) list" where
  "coding_tool_rules =
     [(''read'', AlwaysAllowed), (''find'', AlwaysAllowed), (''grep'', AlwaysAllowed),
      (''write'', AskUnlessAlwaysAllow), (''edit'', AskUnlessAlwaysAllow), (''bash'', AskUnlessAlwaysAllow)]"

datatype preset_policy = DesktopDefault | PresetDefault | PresetAlways | PresetAlwaysAllow

fun resolve_permission :: "tool_posture \<Rightarrow> preset_policy \<Rightarrow> tool_permission" where
  "resolve_permission posture PresetAlwaysAllow = Allow"
| "resolve_permission posture PresetAlways = Ask"
| "resolve_permission AlwaysAllowed _ = Allow"
| "resolve_permission AskUnlessAlwaysAllow _ = Ask"

definition resolve_coding_preset :: "preset_policy \<Rightarrow> string list \<times> permission_map" where
  "resolve_coding_preset policy =
     (map fst coding_tool_rules,
      fold (\<lambda>(name, posture). bt_insert name (resolve_permission posture policy)) coding_tool_rules [])"

section \<open>The agent configuration\<close>

text \<open>The working, session and run directory come resolved, or with the error of \<open>ProjectPaths::resolve\<close>.\<close>

datatype approval_handler = InteractiveApproval | NonInteractiveApproval | HostApproval

datatype progress_observer = TraceObserver trace_mode | HostObserver

record agent_config =
  ac_cwd :: string
  ac_sessions_dir :: string
  ac_runs_dir :: string
  ac_provider :: provider_config
  ac_max_tokens :: u32
  ac_thinking_level :: "thinking_level option"
  ac_max_steps :: u32
  ac_tool_names :: "string list"
  ac_permissions :: permission_map
  ac_approval :: "approval_handler option"
  ac_progress :: "progress_observer option"
  ac_persistence :: persistence_config

definition validate_persistence :: "persistence_config \<Rightarrow> string + unit" where
  "validate_persistence p =
     (if pz_session p \<noteq> SessionItems then Inl ''session persistence Disabled is not implemented'' else Inr ())"

fun first_duplicate :: "string list \<Rightarrow> string set \<Rightarrow> string option" where
  "first_duplicate [] seen = None"
| "first_duplicate (n # ns) seen = (if n \<in> seen then Some n else first_duplicate ns (insert n seen))"

definition validate_values :: "agent_config \<Rightarrow> string + unit" where
  "validate_values c =
     (case validate_persistence (ac_persistence c) of
        Inl e \<Rightarrow> Inl e
      | Inr _ \<Rightarrow>
          if trim (ep_base_url (ac_provider c)) = [] then Inl ''provider base_url must not be empty''
          else if trim (ep_model (ac_provider c)) = [] then Inl ''model must not be empty''
          else if ac_max_tokens c = 0 then Inl ''max_tokens must be greater than zero''
          else if ac_max_steps c = 0 then Inl ''max_steps must be greater than zero''
          else case first_duplicate (ac_tool_names c) {} of
            Some n \<Rightarrow> Inl (''duplicate configured tool: '' @ n)
          | None \<Rightarrow> Inr ())"

fun preset_of_policy :: "approval_policy \<Rightarrow> preset_policy" where
  "preset_of_policy PolicyDefault = PresetDefault"
| "preset_of_policy PolicyAlways = PresetAlways"
| "preset_of_policy PolicyAlwaysAllow = PresetAlwaysAllow"

definition approval_of :: "config_store \<Rightarrow> approval_handler option" where
  "approval_of s =
     (case sv_approval_policy s of
        PolicyAlwaysAllow \<Rightarrow> None
      | _ \<Rightarrow> Some (if cs_input_owner s then InteractiveApproval else NonInteractiveApproval))"

definition resolve_agent_config ::
  "custom_registry \<Rightarrow> string + string \<times> string \<times> string \<Rightarrow> config_store \<Rightarrow> string + agent_config" where
  "resolve_agent_config reg paths s =
     (case merged_llm_from_store reg s of
        Inl e \<Rightarrow> Inl e
      | Inr merged \<Rightarrow>
          (case require_api_key reg merged of
             Inl e \<Rightarrow> Inl e
           | Inr _ \<Rightarrow>
               (case paths of
                  Inl e \<Rightarrow> Inl e
                | Inr (cwd, sessions_dir, runs_dir) \<Rightarrow>
                    (case resolve_coding_preset (preset_of_policy (sv_approval_policy s)) of
                       (tool_names, permissions) \<Rightarrow>
                         Inr \<lparr>ac_cwd = cwd, ac_sessions_dir = sessions_dir, ac_runs_dir = runs_dir,
                              ac_provider = merged, ac_max_tokens = sv_max_tokens s, ac_thinking_level = sv_thinking_level s,
                              ac_max_steps = sv_max_steps s, ac_tool_names = tool_names, ac_permissions = permissions,
                              ac_approval = approval_of s,
                              ac_progress = (if sv_trace_mode s = TraceOff then None
                                             else Some (TraceObserver (sv_trace_mode s))),
                              ac_persistence = sv_persistence s\<rparr>))))"

section \<open>Start\<close>

definition resolve_one_shot ::
  "settings_serde \<Rightarrow> cli_args \<Rightarrow> environment \<Rightarrow> settings_file \<Rightarrow> custom_registry \<Rightarrow>
   (settings_error + config_store) \<times> custom_registry" where
  "resolve_one_shot S args env f reg =
     (case load_store S args env f reg of
        (Inl e, reg) \<Rightarrow> (Inl e, reg)
      | (Inr s, reg) \<Rightarrow>
          (case merged_llm_from_store reg s of
             Inl e \<Rightarrow> (Inl (SettingsError e), reg)
           | Inr merged \<Rightarrow>
               (case require_api_key reg merged of
                  Inl _ \<Rightarrow>
                    (Inl (SettingsError (''API key is required for one-shot mode; provide --api-key, '' @
                       (case api_key_env reg (sv_provider s) of Inl _ \<Rightarrow> ''provider API key env'' | Inr n \<Rightarrow> n) @
                       '', or settings.json'')), reg)
                | Inr _ \<Rightarrow> (Inr s, reg))))"

text \<open>What the user answers; \<open>None\<close> is a failed read.\<close>

record user_answers =
  an_secret :: "string option"
  an_policy :: "string option"
  an_allow :: "string option"
  an_start :: "string option"

definition choose_approval_policy :: "approval_policy \<Rightarrow> string option \<Rightarrow> settings_error + approval_policy" where
  "choose_approval_policy dflt line =
     (case line of
        None \<Rightarrow> Inl ReadInput
      | Some l \<Rightarrow>
          (let v = trim l in
           if v = [] then Inr dflt
           else if v \<in> {''1'', ''always''} then Inr PolicyAlways
           else if v \<in> {''2'', ''default''} then Inr PolicyDefault
           else if v \<in> {''3'', ''always-allow''} then Inr PolicyAlwaysAllow
           else Inl (SettingsError ''approval policy must be 1/always, 2/default, or 3/always-allow'')))"

definition ask_key :: "api_key_source \<Rightarrow> string \<Rightarrow> user_answers \<Rightarrow> config_store \<Rightarrow> settings_error + config_store" where
  "ask_key source label ans s =
     (if source \<noteq> KeyMissing then Inr s
      else case an_secret ans of
        None \<Rightarrow> Inl ReadInput
      | Some k \<Rightarrow>
          if has_api_key k then Inr (s\<lparr>sv_api_key := k\<rparr>)
          else Inl (SettingsError (label @ '' API key must not be empty'')))"

definition confirm_always_allow :: "user_answers \<Rightarrow> config_store \<Rightarrow> settings_error + unit" where
  "confirm_always_allow ans s =
     (if sv_approval_policy s \<noteq> PolicyAlwaysAllow then Inr ()
      else case an_allow ans of
        None \<Rightarrow> Inl ReadInput
      | Some l \<Rightarrow>
          if trim l \<noteq> ''ALLOW'' then Inl (SettingsError ''always-allow confirmation was not provided'') else Inr ())"

definition confirm_start :: "user_answers \<Rightarrow> settings_error + unit" where
  "confirm_start ans =
     (case an_start ans of
        None \<Rightarrow> Inl ReadInput
      | Some l \<Rightarrow>
          if ascii_lower (trim l) = ''/exit'' then Inl (SettingsError ''startup cancelled from settings'') else Inr ())"

text \<open>The prompts of \<open>resolve_interactive\<close>, from the loaded store to the one that is persisted.\<close>

definition ask_settings ::
  "api_key_source \<Rightarrow> string \<Rightarrow> user_answers \<Rightarrow> config_store \<Rightarrow> settings_error + config_store" where
  "ask_settings source label ans s =
     (case ask_key source label ans s of
        Inl e \<Rightarrow> Inl e
      | Inr s \<Rightarrow>
          (case choose_approval_policy (sv_approval_policy s) (an_policy ans) of
             Inl e \<Rightarrow> Inl e
           | Inr policy \<Rightarrow>
               (let s = s\<lparr>sv_approval_policy := policy\<rparr> in
                case confirm_always_allow ans s of
                  Inl e \<Rightarrow> Inl e
                | Inr _ \<Rightarrow> (case confirm_start ans of Inl e \<Rightarrow> Inl e | Inr _ \<Rightarrow> Inr s))))"

definition resolve_interactive ::
  "settings_serde \<Rightarrow> bool \<Rightarrow> cli_args \<Rightarrow> environment \<Rightarrow> user_answers \<Rightarrow> settings_file \<Rightarrow> custom_registry \<Rightarrow>
   (settings_error + config_store) \<times> settings_file \<times> custom_registry" where
  "resolve_interactive S write_ok args env ans f reg =
     (case load_store S args env f reg of
        (Inl e, reg) \<Rightarrow> (Inl e, f, reg)
      | (Inr s, reg) \<Rightarrow>
          (let s = s\<lparr>cs_input_owner := True\<rparr> in
           case lookup_provider reg (sv_provider s) of
             Inl e \<Rightarrow> (Inl (SettingsError e), f, reg)
           | Inr entry \<Rightarrow>
               (case read_cli_layers S args env f reg of
                  (Inl e, reg) \<Rightarrow> (Inl e, f, reg)
                | (Inr (settings, env_layer, host), reg) \<Rightarrow>
                    (case ask_settings (resolve_api_key_source settings env_layer host) (pid_label (en_id entry)) ans s of
                       Inl e \<Rightarrow> (Inl e, f, reg)
                     | Inr s \<Rightarrow>
                         (case persist_settings S write_ok s f of
                            (Inl e, f) \<Rightarrow> (Inl e, f, reg)
                          | (Inr _, f) \<Rightarrow> (Inr s, f, reg))))))"

section \<open>The approval prompt\<close>

definition parse_response :: "string \<Rightarrow> tool_approval" where
  "parse_response input =
     (let v = ascii_lower (trim input) in
      if v \<in> {''y'', ''yes''} then Approved
      else if v \<in> {[], ''n'', ''no''} then ApprovalDenied ''tool approval denied by user''
      else ApprovalDenied ''approval response must be y or n'')"

definition max_preview_chars :: nat where
  "max_preview_chars = 512"

definition truncate_prompt :: "string \<Rightarrow> string" where
  "truncate_prompt input =
     (let preview = take_chars max_preview_chars input in
      if length preview < length input then preview @ ellipsis else preview)"

text \<open>What a read of the terminal gives: a line, the end or an interrupt, or an error.\<close>

datatype terminal_read = TerminalLine string | TerminalClosed | TerminalError string

fun prompt_and_read :: "terminal_read \<Rightarrow> string + tool_approval" where
  "prompt_and_read (TerminalLine l) = Inr (parse_response l)"
| "prompt_and_read TerminalClosed = Inr ApprovalCancelled"
| "prompt_and_read (TerminalError e) = Inl e"

definition non_interactive_answer :: "tool_call \<Rightarrow> string + tool_approval" where
  "non_interactive_answer call =
     Inr (ApprovalDenied (''interactive approval is unavailable for one-shot tool '' @ call_name call))"

text \<open>The handler the configuration names, given the state of the terminal; \<open>HostApproval\<close> answers as its host does.\<close>

fun handler_answer ::
  "approval_handler \<Rightarrow> (tool_call \<Rightarrow> terminal_read) \<Rightarrow> (tool_call \<Rightarrow> string + tool_approval) \<Rightarrow> tool_call \<Rightarrow>
   string + tool_approval" where
  "handler_answer InteractiveApproval term host call = prompt_and_read (term call)"
| "handler_answer NonInteractiveApproval term host call = non_interactive_answer call"
| "handler_answer HostApproval term host call = host call"

end
