(* ===== verification/Cli_Facts.thy ===== *)
theory Cli_Facts
  imports Cli_Launch
begin

text \<open>
  What the command line guarantees: a started run has a key and a configuration from which the tool runtime can be
  built, tools that change something run without a question only after an explicit always-allow, settings survive
  the file, and which profile a run really gets.
\<close>

section \<open>Permissions\<close>

lemma preset_rules:
  "resolve_coding_preset PresetDefault = ([''read'', ''find'', ''grep'', ''write'', ''edit'', ''bash''],
     [(''bash'', Ask), (''edit'', Ask), (''find'', Allow), (''grep'', Allow), (''read'', Allow), (''write'', Ask)])"
  "resolve_coding_preset PresetAlways = ([''read'', ''find'', ''grep'', ''write'', ''edit'', ''bash''],
     [(''bash'', Ask), (''edit'', Ask), (''find'', Ask), (''grep'', Ask), (''read'', Ask), (''write'', Ask)])"
  "resolve_coding_preset PresetAlwaysAllow = ([''read'', ''find'', ''grep'', ''write'', ''edit'', ''bash''],
     [(''bash'', Allow), (''edit'', Allow), (''find'', Allow), (''grep'', Allow), (''read'', Allow), (''write'', Allow)])"
  by code_simp+

lemma resolve_agent_config_Inr:
  assumes "resolve_agent_config reg paths s = Inr c"
  obtains cwd sd rd where "paths = Inr (cwd, sd, rd)"
    "merged_llm_from_store reg s = Inr (ac_provider c)" "is_ok (require_api_key reg (ac_provider c))"
    "(ac_tool_names c, ac_permissions c) = resolve_coding_preset (preset_of_policy (sv_approval_policy s))"
    "ac_approval c = approval_of s"
  using assms by (auto simp: resolve_agent_config_def split: sum.splits prod.splits)

text \<open>
  C35: the permissions of a configuration of the command line, tool by tool: \<open>write\<close>, \<open>edit\<close> and \<open>bash\<close> run without
  a question exactly under the policy always-allow, \<open>read\<close>, \<open>find\<close> and \<open>grep\<close> under every policy but always-ask, and no
  other tool has a permission at all. The configuration always gives a tool runtime for a registry of these tools.
\<close>

theorem cli_permissions_exact:
  assumes "resolve_agent_config reg paths s = Inr c"
    and "tool_name ` set (reg_tools registry) = set (ac_tool_names c)"
  shows "is_ok (runtime_new registry (ac_permissions c) (ac_approval c \<noteq> None)) \<and>
    set (ac_tool_names c) = {''read'', ''find'', ''grep'', ''write'', ''edit'', ''bash''} \<and>
    (\<forall>n. bt_get (ac_permissions c) n =
      (if n \<in> {''write'', ''edit'', ''bash''} then Some (if sv_approval_policy s = PolicyAlwaysAllow then Allow else Ask)
       else if n \<in> {''read'', ''find'', ''grep''} then Some (if sv_approval_policy s = PolicyAlways then Ask else Allow)
       else None))"
proof -
  from assms(1) have tp: "(ac_tool_names c, ac_permissions c) = resolve_coding_preset (preset_of_policy (sv_approval_policy s))"
    and a: "ac_approval c = approval_of s" by (auto elim: resolve_agent_config_Inr)
  have t: "ac_tool_names c = [''read'', ''find'', ''grep'', ''write'', ''edit'', ''bash'']"
    using tp by (cases "sv_approval_policy s") (simp_all add: preset_rules)
  have r: "is_ok (runtime_new registry (ac_permissions c) (ac_approval c \<noteq> None))"
    unfolding runtime_new_ok_iff assms(2) a approval_of_def
    using tp by (cases "sv_approval_policy s") (auto simp: preset_rules)
  moreover have "bt_get (ac_permissions c) n =
      (if n \<in> {''write'', ''edit'', ''bash''} then Some (if sv_approval_policy s = PolicyAlwaysAllow then Allow else Ask)
       else if n \<in> {''read'', ''find'', ''grep''} then Some (if sv_approval_policy s = PolicyAlways then Ask else Allow)
       else None)" for n
    using tp by (cases "sv_approval_policy s") (auto simp: preset_rules)
  ultimately show ?thesis using t by auto
qed

section \<open>Start\<close>

lemma merged_store_preserved:
  "sv_profile (apply_merged_llm c s) = sv_profile s" "sv_profile (apply_cli_overrides args s) = sv_profile s"
  "sv_provider (apply_cli_overrides args s) = sv_provider s" "sv_model (apply_cli_overrides args s) = sv_model s"
  "sv_base_url (apply_cli_overrides args s) = sv_base_url s" "sv_protocol (apply_cli_overrides args s) = sv_protocol s"
  "sv_api_key (apply_cli_overrides args s) = sv_api_key s"
  by (auto simp: apply_merged_llm_def apply_cli_overrides_def Let_def split: option.split)

lemma merged_of_policy: "merged_llm_from_store reg (s\<lparr>sv_approval_policy := p\<rparr>) = merged_llm_from_store reg s"
  by (simp add: merged_llm_from_store_def store_overrides_def)

lemma load_store_owner:
  assumes "load_store S args env f reg = (Inr s, reg')"
  shows "\<not> cs_input_owner s"
proof -
  from assms obtain reg1 s0 merged where d: "stored_defaults S f reg1 = (Inr s0, reg')"
    and s: "s = apply_cli_overrides args (apply_merged_llm merged s0)"
    by (auto simp: load_store_def split: sum.splits prod.splits)
  from d obtain d0 where "default_store reg1 = Inr d0" and o: "cs_input_owner s0 = cs_input_owner d0"
    by (auto simp: stored_defaults_def apply_to_def settings_values.defs split: sum.splits prod.splits if_splits)
  then have "\<not> cs_input_owner s0" by (auto simp: default_store_def map_sum_Inr)
  then show ?thesis by (auto simp: s apply_merged_llm_def apply_cli_overrides_def Let_def split: option.split)
qed

text \<open>
  C36: a one-shot run that starts has a complete configuration with a key, once its directories resolve, and no
  input owner, so the approval handler of its configuration answers no question with yes, whatever the terminal or a
  host would say.
\<close>

theorem one_shot_ready:
  assumes "resolve_one_shot S args env f reg = (Inr s, reg')"
  shows "\<not> cs_input_owner s \<and>
    (\<exists>c. resolve_agent_config reg' (Inr paths) s = Inr c \<and> is_ok (require_api_key reg' (ac_provider c)) \<and>
      (\<forall>h call term host. ac_approval c = Some h \<longrightarrow> handler_answer h term host call \<noteq> Inr Approved))"
proof -
  from assms obtain reg1 where l: "load_store S args env f reg1 = (Inr s, reg')"
    by (auto simp: resolve_one_shot_def split: sum.splits prod.splits)
  note owner = load_store_owner [OF l]
  from assms have "is_ok (resolve_agent_config reg' (Inr paths) s)"
    by (auto simp: resolve_one_shot_def resolve_agent_config_def split: sum.splits prod.splits)
  then obtain c where c: "resolve_agent_config reg' (Inr paths) s = Inr c" by (rule is_okE)
  then have "is_ok (require_api_key reg' (ac_provider c))" "ac_approval c = approval_of s"
    by (auto elim: resolve_agent_config_Inr)
  with c owner show ?thesis
    by (auto simp: approval_of_def non_interactive_answer_def split: approval_policy.splits)
qed

lemma ask_settings_Inr:
  assumes "ask_settings source label ans s = Inr s'"
  shows "(source = KeyMissing \<longrightarrow> has_api_key (sv_api_key s')) \<and>
    (sv_approval_policy s' = PolicyAlwaysAllow \<longrightarrow> (\<exists>l. an_allow ans = Some l \<and> trim l = ''ALLOW'')) \<and>
    (\<exists>l. an_start ans = Some l \<and> ascii_lower (trim l) \<noteq> ''/exit'')"
  using assms
  by (auto simp: ask_settings_def ask_key_def confirm_always_allow_def confirm_start_def Let_def
      split: sum.splits option.splits if_splits)

text \<open>
  an interactive start under always-allow was confirmed with the word ALLOW, whatever named the policy, was not
  cancelled, and has written the settings file with that policy.
\<close>

theorem always_allow_confirmed:
  assumes "resolve_interactive S write_ok args env ans f reg = (Inr s, f', reg')"
  shows "(sv_approval_policy s = PolicyAlwaysAllow \<longrightarrow> (\<exists>l. an_allow ans = Some l \<and> trim l = ''ALLOW'')) \<and>
    (\<exists>l. an_start ans = Some l \<and> ascii_lower (trim l) \<noteq> ''/exit'') \<and>
    (\<exists>bytes. ss_encode S (from_runtime s) = Some bytes \<and> f' = Contents (bytes @ [newline]))"
proof -
  from assms obtain source label s0 where a: "ask_settings source label ans s0 = Inr s"
    and p: "persist_settings S write_ok s f = (Inr (), f')"
    by (auto simp: resolve_interactive_def Let_def split: sum.splits prod.splits)
  from p show ?thesis using ask_settings_Inr [OF a]
    by (auto simp: persist_settings_def split: option.splits if_splits)
qed

section \<open>The profile of a run\<close>

lemma load_persisted_Inr:
  "load_persisted_settings S (Contents bytes) reg = (Inr p, reg') \<Longrightarrow> decode_settings S bytes = Inr p"
  by (auto simp: register_persisted_def split: sum.splits prod.splits if_splits)

lemma stored_defaults_profile:
  assumes "stored_defaults S (Contents bytes) reg = (Inr s, reg')" "decode_settings S bytes = Inr p"
  shows "sv_profile s = sv_profile p"
proof -
  from assms(1) obtain p' s0 reg0 where l: "load_persisted_settings S (Contents bytes) reg0 = (Inr p', reg')"
    and a: "apply_to p' s0 = Inr s"
    by (auto simp: stored_defaults_def split: sum.splits prod.splits)
  from load_persisted_Inr [OF l] assms(2) have "p' = p" by simp
  with a show ?thesis by (auto simp: apply_to_def settings_values.defs split: if_splits)
qed

lemma load_store_profile:
  assumes "load_store S args env (Contents bytes) reg = (Inr s, reg')" "decode_settings S bytes = Inr p"
  shows "sv_profile s = sv_profile p"
proof -
  from assms(1) obtain reg1 s0 merged where "stored_defaults S (Contents bytes) reg1 = (Inr s0, reg')"
    "s = apply_cli_overrides args (apply_merged_llm merged s0)"
    by (auto simp: load_store_def split: sum.splits prod.splits)
  with stored_defaults_profile assms(2) show ?thesis by (simp add: merged_store_preserved)
qed

lemma resolve_endpoint_protocol:
  assumes "resolve_endpoint reg pid ov = Inr ep" "ro_protocol ov = Some q"
  shows "ep_protocol ep = q"
proof -
  from assms(1) obtain entry where "resolve_protocol entry ov = Inr (ep_protocol ep)" by (rule resolve_endpoint_Inr)
  with assms(2) show ?thesis by (auto simp: resolve_protocol_def or_else_def Let_def split: if_splits)
qed

lemma resolve_endpoint_again:
  assumes "resolve_endpoint reg pid ov = Inr ep" "ro_protocol ov' = Some (ep_protocol ep)"
  shows "is_ok (resolve_endpoint reg pid ov')"
proof -
  from assms(1) obtain entry dm dflt where e: "lookup_provider reg pid = Inr entry" "default_model entry = Some dm"
    "ep_protocol ep \<in> set (en_supported_protocols entry)" "profile_default_for entry (ep_protocol ep) = Some dflt"
    by (rule resolve_endpoint_Inr)
  have g: "get_model reg pid m = Inr (List.find (\<lambda>x. lm_id x = m) (en_models entry))" for m
    by (simp add: get_model_def models_for_def e(1))
  show ?thesis
    using e assms(2)
    by (auto simp: g resolve_endpoint_def resolve_protocol_def resolve_profile_def Let_def is_ok_iff or_else_def
        split: sum.splits option.splits prod.splits)
qed

lemma load_store_Inr:
  assumes "load_store S args env f reg = (Inr s, reg')"
  obtains reg1 reg2 s0 settings env_layer host merged where
    "read_cli_layers S args env f reg1 = (Inr (settings, env_layer, host), reg2)"
    "stored_defaults S f reg2 = (Inr s0, reg')"
    "merge_startup_llm_config reg' settings env_layer host = Inr merged"
    "s = apply_cli_overrides args (apply_merged_llm merged s0)"
  using assms by (auto simp: load_store_def split: sum.splits prod.splits)

lemma loaded_store_ok:
  assumes "load_store S args env f reg = (Inr s, reg')"
  shows "is_ok (merged_llm_from_store reg' s)"
proof -
  from assms obtain reg1 reg2 s0 settings env_layer host merged where
    m: "merge_startup_llm_config reg' settings env_layer host = Inr merged"
    and s: "s = apply_cli_overrides args (apply_merged_llm merged s0)"
    by (rule load_store_Inr)
  from m obtain ov ep key where ep: "resolve_endpoint reg' (ep_provider ep) ov = Inr ep"
    and c: "merged = resolved_endpoint.extend ep \<lparr>pc_api_key = key\<rparr>"
    by (rule merge_startup_Inr) (metis resolve_endpoint_Inr that)
  have p: "sv_provider s = ep_provider ep" "ro_protocol (store_overrides s) = Some (ep_protocol ep)"
    by (simp_all add: s store_overrides_def merged_store_preserved) (simp_all add: apply_merged_llm_def c)
  from resolve_endpoint_again [OF ep p(2)] p(1) show ?thesis
    by (auto simp: merged_llm_from_store_def resolve_provider_config_def is_ok_iff)
qed

text \<open>
  a store that was loaded can be resolved into a provider configuration, with the provider, model, protocol and
  key of the startup merge.
\<close>

theorem loaded_store_resolves:
  assumes "load_store S args env f reg = (Inr s, reg')"
  shows "\<exists>c reg1 reg2 settings env_layer host merged. merged_llm_from_store reg' s = Inr c \<and>
    read_cli_layers S args env f reg1 = (Inr (settings, env_layer, host), reg2) \<and>
    merge_startup_llm_config reg' settings env_layer host = Inr merged \<and>
    ep_provider c = ep_provider merged \<and> ep_model c = ep_model merged \<and> ep_protocol c = ep_protocol merged \<and>
    pc_api_key c = pc_api_key merged \<and> ep_base_url c = normalize_base_url (ep_base_url merged)"
proof -
  from assms obtain reg1 reg2 s0 settings env_layer host merged where
    r: "read_cli_layers S args env f reg1 = (Inr (settings, env_layer, host), reg2)"
    and m: "merge_startup_llm_config reg' settings env_layer host = Inr merged"
    and s: "s = apply_cli_overrides args (apply_merged_llm merged s0)"
    by (rule load_store_Inr)
  from m obtain ov ep key where ep: "resolve_endpoint reg' (ep_provider ep) ov = Inr ep"
    and c: "merged = resolved_endpoint.extend ep \<lparr>pc_api_key = key\<rparr>"
    by (rule merge_startup_Inr) (metis resolve_endpoint_Inr that)
  have f: "sv_provider s = ep_provider ep" "ro_protocol (store_overrides s) = Some (ep_protocol ep)"
    "ro_model (store_overrides s) = Some (ep_model ep)" "ro_base_url (store_overrides s) = Some (ep_base_url ep)"
    "sv_api_key s = key"
    by (simp_all add: s store_overrides_def merged_store_preserved) (simp_all add: apply_merged_llm_def c)
  from resolve_endpoint_again [OF ep f(2)] obtain ep' where
    e': "resolve_endpoint reg' (ep_provider ep) (store_overrides s) = Inr ep'" by (rule is_okE)
  then obtain entry dm dflt where "lookup_provider reg' (ep_provider ep) = Inr entry" "default_model entry = Some dm"
    "ep_protocol ep' \<in> set (en_supported_protocols entry)"
    and p: "resolve_protocol entry (store_overrides s) = Inr (ep_protocol ep')"
    and "profile_default_for entry (ep_protocol ep') = Some dflt"
    "merge_protocol_profile dflt (ro_user_profile (store_overrides s)) (ro_host_profile (store_overrides s)) =
      (ep_profile ep', ep_diagnostics ep')"
    and i: "ep_model ep' = (case ro_model (store_overrides s) of None \<Rightarrow> lm_id dm | Some m \<Rightarrow> m)" "ep_provider ep' = ep_provider ep"
    "ep_base_url ep' = normalize_base_url
      (case ro_base_url (store_overrides s) of None \<Rightarrow> en_default_base_url entry | Some u \<Rightarrow> u)"
    by (rule resolve_endpoint_Inr)
  from e' f(2) have "ep_protocol ep' = ep_protocol ep" by (rule resolve_endpoint_protocol)
  moreover have "merged_llm_from_store reg' s = Inr (resolved_endpoint.extend ep' \<lparr>pc_api_key = key\<rparr>)"
    by (simp add: merged_llm_from_store_def resolve_provider_config_def f e')
  ultimately show ?thesis using r m i f(3,4) by (auto simp: c intro!: exI)
qed

text \<open>
  C37: the features of a run of the command line are those of the catalog under the profile stored in the settings
  file: whatever provider those settings were made for, and whatever the environment says about storing responses.
\<close>

theorem cli_run_features:
  assumes "load_store S args env (Contents bytes) reg = (Inr s, reg')" "decode_settings S bytes = Inr p"
    and "merged_llm_from_store reg' s = Inr c"
  shows "\<exists>entry dflt. lookup_provider reg' (ep_provider c) = Inr entry \<and>
    profile_default_for entry (ep_protocol c) = Some dflt \<and>
    (\<forall>n. bit (rp_features (ep_profile c)) n =
      ((case patch_bit (sv_profile p) n of Some v \<Rightarrow> v | None \<Rightarrow> bit (pd_features dflt) n)
       \<and> bit (pc_features (capabilities_for (ep_protocol c))) n \<and> bit (pd_ceiling dflt) n))"
proof -
  note pr = load_store_profile [OF assms(1,2)]
  from assms(3) obtain ep where ep: "resolve_endpoint reg' (sv_provider s) (store_overrides s) = Inr ep"
    and c: "c = resolved_endpoint.extend ep \<lparr>pc_api_key = sv_api_key s\<rparr>"
    by (auto simp: merged_llm_from_store_def resolve_provider_config_def map_sum_Inr)
  from ep obtain entry dm dflt where e: "lookup_provider reg' (sv_provider s) = Inr entry"
    "profile_default_for entry (ep_protocol ep) = Some dflt"
    and m: "merge_protocol_profile dflt (ro_user_profile (store_overrides s)) (ro_host_profile (store_overrides s)) =
      (ep_profile ep, ep_diagnostics ep)" and i: "ep_provider ep = sv_provider s"
    by (rule resolve_endpoint_Inr)
  have "patch_bit None n = None" for n by (simp add: patch_bit_def override_features_def)
  with merged_profile_bits [OF m] profile_default_family [OF e(2)] e i pr show ?thesis
    by (auto simp: c store_overrides_def resolved_endpoint.defs)
qed

text \<open>Settings of DeepSeek that switch thinking off, and a run with \<open>--provider agnes\<close>.\<close>

definition thinking_off :: profile_override where
  "thinking_off = empty_override\<lparr>po_features := Some (empty_patch\<lparr>fp_thinking := Some False\<rparr>)\<rparr>"

definition example_persisted :: persisted_settings where
  "example_persisted =
     \<lparr>sv_provider = Deepseek, sv_api_key = ''d'', sv_approval_policy = PolicyAlways, sv_trace_mode = TraceOff,
      sv_model = ''m'', sv_base_url = ''u'', sv_protocol = None, sv_profile = Some thinking_off,
      sv_custom_providers = [], sv_max_tokens = 1, sv_max_steps = 1, sv_thinking_level = None,
      sv_persistence = default_persistence, pv_version = 2\<rparr>"

definition example_serde :: settings_serde where
  "example_serde = \<lparr>ss_parse = (\<lambda>_. Some (JObj [(''version'', JInt 2)])), ss_decode = (\<lambda>_. Some example_persisted),
     ss_encode = (\<lambda>_. Some [])\<rparr>"

definition example_args :: cli_args where
  "example_args = \<lparr>ca_session = None, ca_prompt = Some ''p'', ca_cwd = None, ca_api_key = Some ''k'',
     ca_provider = Some ArgAgnes, ca_sessions_dir = None, ca_runs_dir = None, ca_model = None, ca_base_url = None,
     ca_approval_policy = None, ca_trace = None\<rparr>"

definition example_layer :: config_layer where
  "example_layer = \<lparr>cl_provider = Some Deepseek, cl_model = Some ''m'', cl_base_url = Some ''u'', cl_api_key = Some ''d'',
     cl_protocol = None, cl_profile = Some thinking_off\<rparr>"

definition example_host :: config_layer where
  "example_host = layer_default\<lparr>cl_provider := Some Agnes, cl_api_key := Some ''k''\<rparr>"

definition no_env :: env_layer where
  "no_env = \<lparr>ev_values = layer_default, ev_api_keys = Map.empty, ev_responses_store = None\<rparr>"

lemma example_decodes: "decode_settings example_serde [] = Inr example_persisted"
  by code_simp

lemma example_file: "load_persisted_settings example_serde (Contents []) reg = (Inr example_persisted, reg)"
  by (simp add: example_decodes register_persisted_def example_persisted_def bt_empty_def)

lemma example_ensure: "ensure_registered example_serde (Contents []) reg = (Inr (), reg)"
  unfolding ensure_registered_def example_file
  by (simp add: example_persisted_def register_custom_providers_def bt_empty_def lift_error_def)

lemma collect_no_keys: "collect_keys (\<lambda>_. None) es keys = keys"
  by (induction es arbitrary: keys) (simp_all add: env_key_def)

lemma read_no_env: "read_llm_env reg (\<lambda>_. None) = Inr no_env"
  by (simp add: read_llm_env_def transpose_def validate_optional_def collect_no_keys env_key_def no_env_def layer_default_def)

lemma example_cli_layers:
  "read_cli_layers example_serde example_args (\<lambda>_. None) (Contents []) reg = (Inr (example_layer, no_env, example_host), reg)"
proof -
  have "to_llm_layer example_persisted = Inr example_layer" "cli_host_layer example_args = Inr example_host"
    "validate_explicit_api_key example_args = Inr ()" by code_simp+
  then show ?thesis
    unfolding read_cli_layers_def read_persisted_layer_def example_ensure example_file
    by (simp add: read_no_env lift_error_def)
qed

lemma example_merged: "case merge_startup_llm_config None example_layer no_env example_host of Inl _ \<Rightarrow> False
    | Inr c \<Rightarrow> ep_provider c = Agnes \<and> bit (rp_features (ep_profile c)) 2 \<and> pc_api_key c = ''k''"
  by code_simp

lemma example_loads:
  obtains s where "load_store example_serde example_args (\<lambda>_. None) (Contents []) None = (Inr s, None)"
    "sv_approval_policy s = PolicyAlways"
proof -
  from example_merged obtain c where c: "merge_startup_llm_config None example_layer no_env example_host = Inr c"
    by (auto split: sum.splits)
  have "is_ok (default_store None)" by code_simp
  then obtain s0 where s0: "default_store None = Inr s0" by (rule is_okE)
  have v: "unat (pv_version example_persisted) = settings_version" by code_simp
  let ?s1 = "settings_values.extend (settings_values.truncate example_persisted) \<lparr>cs_input_owner = cs_input_owner s0\<rparr>"
  have "stored_defaults example_serde (Contents []) None = (Inr ?s1, None)"
    unfolding stored_defaults_def s0 example_file by (simp add: s0 apply_to_def v example_file del: load_persisted_settings.simps)
  then have l: "load_store example_serde example_args (\<lambda>_. None) (Contents []) None =
      (Inr (apply_cli_overrides example_args (apply_merged_llm c ?s1)), None)"
    by (simp add: load_store_def example_ensure example_cli_layers c)
  have "sv_approval_policy (apply_cli_overrides example_args (apply_merged_llm c ?s1)) = PolicyAlways"
    by (simp add: apply_cli_overrides_def apply_merged_llm_def settings_values.defs example_args_def example_persisted_def)
  with l show thesis by (rule that)
qed

lemma cli_run_features_witness:
  "\<exists>s c c'. load_store example_serde example_args (\<lambda>_. None) (Contents []) None = (Inr s, None) \<and>
     merged_llm_from_store None s = Inr c \<and> \<not> bit (rp_features (ep_profile c)) 2 \<and>
     merge_startup_llm_config None example_layer no_env example_host = Inr c' \<and> bit (rp_features (ep_profile c')) 2"
proof -
  from example_loads obtain s where s: "load_store example_serde example_args (\<lambda>_. None) (Contents []) None = (Inr s, None)"
    by blast
  from loaded_store_ok [OF s] obtain c where c: "merged_llm_from_store None s = Inr c" by (rule is_okE)
  have t: "patch_bit (sv_profile example_persisted) 2 = Some False" by code_simp
  from cli_run_features [OF s example_decodes c] t have "\<not> bit (rp_features (ep_profile c)) 2" by auto
  with s c example_merged show ?thesis by (auto split: sum.splits)
qed

lemma loaded_store_resolves_witness:
  "\<exists>s c. load_store example_serde example_args (\<lambda>_. None) (Contents []) None = (Inr s, None) \<and>
     merged_llm_from_store None s = Inr c \<and> ep_provider c = Agnes \<and> pc_api_key c = ''k''"
proof -
  from example_loads obtain s where s: "load_store example_serde example_args (\<lambda>_. None) (Contents []) None = (Inr s, None)"
    by blast
  from loaded_store_resolves [OF s] s example_merged show ?thesis
    by (auto simp: example_cli_layers split: sum.splits)
qed

lemma example_starts:
  obtains s where "resolve_one_shot example_serde example_args (\<lambda>_. None) (Contents []) None = (Inr s, None)"
    "sv_approval_policy s = PolicyAlways"
proof (rule example_loads)
  fix s
  assume s: "load_store example_serde example_args (\<lambda>_. None) (Contents []) None = (Inr s, None)"
    and p: "sv_approval_policy s = PolicyAlways"
  from loaded_store_ok [OF s] obtain c where c: "merged_llm_from_store None s = Inr c" by (rule is_okE)
  from s have "sv_api_key s = ''k''"
    using example_merged by (auto elim!: load_store_Inr simp: example_cli_layers merged_store_preserved apply_merged_llm_def
        split: sum.splits)
  then have "pc_api_key c = ''k''"
    using c by (auto simp: merged_llm_from_store_def resolve_provider_config_def map_sum_Inr)
  moreover have "trim ''k'' \<noteq> []" by code_simp
  ultimately have "is_ok (require_api_key None c)" by (simp add: require_api_key_def)
  with s c p show thesis by (intro that [of s]) (auto simp: resolve_one_shot_def is_ok_iff)
qed

lemma one_shot_ready_witness:
  "\<exists>s c. resolve_one_shot example_serde example_args (\<lambda>_. None) (Contents []) None = (Inr s, None) \<and>
     resolve_agent_config None (Inr ([], [], [])) s = Inr c \<and> is_ok (require_api_key None (ac_provider c)) \<and>
     \<not> cs_input_owner s"
  by (rule example_starts) (use one_shot_ready [of example_serde example_args "\<lambda>_. None" "Contents []" None _ None "([], [], [])"] in blast)

definition example_answers :: user_answers where
  "example_answers = \<lparr>an_secret = None, an_policy = Some ''3'', an_allow = Some '' ALLOW'', an_start = Some []\<rparr>"

lemma example_persist: "persist_settings example_serde True s f = (Inr (), Contents [newline])"
  by (simp add: persist_settings_def example_serde_def)

lemma always_allow_confirmed_witness:
  "\<exists>s. resolve_interactive example_serde True example_args (\<lambda>_. None) example_answers (Contents []) None =
     (Inr s, Contents [newline], None) \<and> sv_approval_policy s = PolicyAlwaysAllow"
proof (rule example_loads)
  fix s
  assume s: "load_store example_serde example_args (\<lambda>_. None) (Contents []) None = (Inr s, None)"
  let ?r = "resolve_interactive example_serde True example_args (\<lambda>_. None) example_answers (Contents []) None"
  have p: "sv_provider s = Agnes"
    using s example_merged by (auto elim!: load_store_Inr simp: example_cli_layers merged_store_preserved apply_merged_llm_def
        split: sum.splits)
  have k: "resolve_api_key_source example_layer no_env example_host = KeyHost" by code_simp
  have a: "choose_approval_policy d (an_policy example_answers) = Inr PolicyAlwaysAllow" for d
    by (cases d) (code_simp+)
  have w: "an_allow example_answers = Some '' ALLOW''" by (simp add: example_answers_def)
  have b: "trim '' ALLOW'' = ''ALLOW''" "confirm_start example_answers = Inr ()" by code_simp+
  have "?r = (Inr (s\<lparr>cs_input_owner := True, sv_approval_policy := PolicyAlwaysAllow\<rparr>), Contents [newline], None)"
    by (simp add: resolve_interactive_def s p example_cli_layers k ask_settings_def ask_key_def a confirm_always_allow_def w b
        example_persist Let_def)
  with always_allow_confirmed [OF this] show ?thesis by auto
qed

section \<open>Settings survive the file\<close>

text \<open>What is asked of the JSON library and the derived codecs for the written values: they are read back, but for the provider,
which is written with \<open>as_str\<close> and read with \<open>parse\<close>.\<close>

definition reads_back :: "settings_serde \<Rightarrow> persisted_settings \<Rightarrow> bool" where
  "reads_back S p \<longleftrightarrow>
     (\<forall>bytes. ss_encode S p = Some bytes \<longrightarrow>
        (\<exists>v. ss_parse S (bytes @ [newline]) = Some v \<and> json_get ''version'' v = Some (JInt (int (unat (pv_version p)))) \<and>
          ss_decode S v = (case pid_parse (pid_as_str (sv_provider p)) of
             Inl _ \<Rightarrow> None | Inr pid \<Rightarrow> Some (p\<lparr>sv_provider := pid\<rparr>))))"

text \<open>A store as the startup merge and the settings catalog leave it: trimmed, normalized, with a supported protocol.\<close>

definition settled_store :: "custom_registry \<Rightarrow> config_store \<Rightarrow> bool" where
  "settled_store reg s \<longleftrightarrow>
     trim (sv_model s) = sv_model s \<and> sv_model s \<noteq> [] \<and> trim (sv_base_url s) = sv_base_url s \<and> sv_base_url s \<noteq> [] \<and>
     normalize_base_url (sv_base_url s) = sv_base_url s \<and> trim (sv_api_key s) = sv_api_key s \<and>
     sv_protocol s \<noteq> None \<and> is_ok (merged_llm_from_store reg s) \<and> is_ok (catalog_preset reg (sv_provider s)) \<and>
     pid_parse (pid_as_str (sv_provider s)) = Inr (sv_provider s)"

lemma persisted_decodes:
  assumes "reads_back S (from_runtime s)" "persist_settings S w s f = (Inr (), f')"
  shows "\<exists>bytes. f' = Contents bytes \<and> decode_settings S bytes =
    (case pid_parse (pid_as_str (sv_provider s)) of
       Inl _ \<Rightarrow> Inl DecodeSettings | Inr pid \<Rightarrow> Inr ((from_runtime s)\<lparr>sv_provider := pid\<rparr>))"
proof -
  from assms(2) obtain bytes where b: "ss_encode S (from_runtime s) = Some bytes" "f' = Contents (bytes @ [newline])"
    by (auto simp: persist_settings_def split: option.splits if_splits)
  from assms(1) b(1) obtain v where v: "ss_parse S (bytes @ [newline]) = Some v"
    "json_get ''version'' v = Some (JInt (int (unat (pv_version (from_runtime s)))))"
    "ss_decode S v = (case pid_parse (pid_as_str (sv_provider (from_runtime s))) of
       Inl _ \<Rightarrow> None | Inr pid \<Rightarrow> Some ((from_runtime s)\<lparr>sv_provider := pid\<rparr>))"
    unfolding reads_back_def by blast
  have n: "unat (pv_version (from_runtime s)) = 2" "sv_provider (from_runtime s) = sv_provider s"
    by (simp_all add: from_runtime_def settings_version_def settings_values.defs)
  have "decode_settings S (bytes @ [newline]) = ok_or (ss_decode S v) DecodeSettings"
    by (simp add: decode_settings_def v(1,2) n settings_version_def)
  with b(2) v(3) n show ?thesis by (auto split: sum.split)
qed

lemma from_runtime_fields:
  "sv_provider (from_runtime s) = sv_provider s" "sv_model (from_runtime s) = sv_model s"
  "sv_base_url (from_runtime s) = sv_base_url s" "sv_api_key (from_runtime s) = sv_api_key s"
  "sv_protocol (from_runtime s) = sv_protocol s" "sv_profile (from_runtime s) = sv_profile s"
  "sv_custom_providers (from_runtime s) = sv_custom_providers s"
  by (simp_all add: from_runtime_def settings_values.defs)

lemma register_again:
  "register_custom_providers defs reg = (Inr (), reg') \<Longrightarrow> register_custom_providers defs reg' = (Inr (), reg')"
  by (auto simp: register_custom_providers_def split: if_splits sum.splits)

text \<open>
  An environment that does not contradict the store: a provider, model, base URL or protocol it names is the store's, and so
  is a key it has for the store's provider.
\<close>

definition env_agrees :: "env_layer \<Rightarrow> config_store \<Rightarrow> bool" where
  "env_agrees e s \<longleftrightarrow>
     cl_provider (ev_values e) \<in> {None, Some (sv_provider s)} \<and> cl_model (ev_values e) \<in> {None, Some (sv_model s)} \<and>
     cl_base_url (ev_values e) \<in> {None, Some (sv_base_url s)} \<and> cl_protocol (ev_values e) \<in> {None, sv_protocol s} \<and>
     ev_api_keys e (sv_provider s) \<in> {None, Some (sv_api_key s)}"

lemma settled_layer:
  assumes "settled_store reg s"
  shows "to_llm_layer (from_runtime s) = Inr \<lparr>cl_provider = Some (sv_provider s), cl_model = Some (sv_model s),
    cl_base_url = Some (sv_base_url s), cl_api_key = (if sv_api_key s = [] then None else Some (sv_api_key s)),
    cl_protocol = sv_protocol s, cl_profile = sv_profile s\<rparr>"
  using assms
  by (simp add: settled_store_def to_llm_layer_def layer_new_def validate_optional_def parse_non_empty_def from_runtime_fields
      non_empty_api_key_def)

lemma builtin_endpoint: "is_builtin pid \<Longrightarrow> resolve_endpoint reg pid ov = resolve_endpoint None pid ov"
proof -
  assume b: "is_builtin pid"
  then have l: "lookup_provider reg pid = lookup_provider None pid" by (cases pid) simp_all
  then have g: "get_model reg pid = get_model None pid" by (simp add: get_model_def models_for_def fun_eq_iff)
  show ?thesis unfolding resolve_endpoint_def l g ..
qed

lemma settled_merges:
  assumes "settled_store reg s" "env_agrees e s"
  shows "\<exists>c. merge_startup_llm_config reg \<lparr>cl_provider = Some (sv_provider s), cl_model = Some (sv_model s),
      cl_base_url = Some (sv_base_url s), cl_api_key = (if sv_api_key s = [] then None else Some (sv_api_key s)),
      cl_protocol = sv_protocol s, cl_profile = sv_profile s\<rparr> e layer_default = Inr c \<and>
    apply_merged_llm c (s\<lparr>cs_input_owner := False\<rparr>) = s\<lparr>cs_input_owner := False\<rparr>"
proof -
  let ?layer = "\<lparr>cl_provider = Some (sv_provider s), cl_model = Some (sv_model s), cl_base_url = Some (sv_base_url s),
    cl_api_key = (if sv_api_key s = [] then None else Some (sv_api_key s)), cl_protocol = sv_protocol s,
    cl_profile = sv_profile s\<rparr>"
  note ag = assms(2) [unfolded env_agrees_def]
  from assms(1) have st: "trim (sv_model s) = sv_model s" "sv_model s \<noteq> []" "trim (sv_base_url s) = sv_base_url s"
    "sv_base_url s \<noteq> []" "normalize_base_url (sv_base_url s) = sv_base_url s" by (simp_all add: settled_store_def)
  from assms(1) obtain q where q: "sv_protocol s = Some q" by (auto simp: settled_store_def)
  have pid: "merge_provider_id ?layer e layer_default = sv_provider s"
    using ag by (auto simp: merge_provider_id_def layer_default_def)
  have v: "validate_layer ?layer = Inr ()" "validate_layer (ev_values e) = Inr ()" "validate_layer layer_default = Inr ()"
    using st ag by (auto simp: validate_layer_def validate_optional_def parse_non_empty_def layer_default_def)
  from assms(1) obtain preset where pre: "catalog_preset reg (sv_provider s) = Inr preset" by (auto simp: settled_store_def is_ok_iff)
  obtain ov key where mo: "merged_overrides ?layer e layer_default preset = (ov, key)" by fastforce
  note f = merged_overrides_fields [OF mo pid]
  have ov: "ro_model ov = Some (sv_model s)" "ro_base_url ov = Some (sv_base_url s)" "ro_protocol ov = Some q"
    "(case key of None \<Rightarrow> [] | Some k \<Rightarrow> k) = sv_api_key s"
    unfolding f(1-4) using ag q by (auto simp: layer_default_def setting_def settings_apply_to_provider_def)
  from assms(1) obtain ep0 where ep0: "resolve_endpoint reg (sv_provider s) (store_overrides s) = Inr ep0"
    by (auto simp: settled_store_def is_ok_iff merged_llm_from_store_def resolve_provider_config_def map_sum_Inr)
  then have "ep_protocol ep0 = q" by (rule resolve_endpoint_protocol) (simp add: store_overrides_def q)
  with ov(3) have "is_ok (resolve_endpoint reg (sv_provider s) ov)" by (intro resolve_endpoint_again [OF ep0]) simp
  then obtain ep where ep: "resolve_endpoint reg (sv_provider s) ov = Inr ep" by (rule is_okE)
  then obtain entry dm dflt where "lookup_provider reg (sv_provider s) = Inr entry" "default_model entry = Some dm"
    "ep_protocol ep \<in> set (en_supported_protocols entry)" and p: "resolve_protocol entry ov = Inr (ep_protocol ep)"
    and "profile_default_for entry (ep_protocol ep) = Some dflt"
    "merge_protocol_profile dflt (ro_user_profile ov) (ro_host_profile ov) = (ep_profile ep, ep_diagnostics ep)"
    and e: "ep_model ep = (case ro_model ov of None \<Rightarrow> lm_id dm | Some m \<Rightarrow> m)" "ep_provider ep = sv_provider s"
    "ep_base_url ep = normalize_base_url (case ro_base_url ov of None \<Rightarrow> en_default_base_url entry | Some u \<Rightarrow> u)"
    by (rule resolve_endpoint_Inr)
  from ep ov(3) have "ep_protocol ep = q" by (rule resolve_endpoint_protocol)
  then have "apply_merged_llm (resolved_endpoint.extend ep \<lparr>pc_api_key = sv_api_key s\<rparr>) (s\<lparr>cs_input_owner := False\<rparr>) =
      s\<lparr>cs_input_owner := False\<rparr>"
    using e ov st q by (simp add: apply_merged_llm_def)
  moreover have "merge_startup_llm_config reg ?layer e layer_default =
      Inr (resolved_endpoint.extend ep \<lparr>pc_api_key = sv_api_key s\<rparr>)"
    unfolding merge_startup_llm_config_def v pid Let_def sum.case pre mo prod.case
    by (simp add: resolve_provider_config_def ep ov(4))
  ultimately show ?thesis by blast
qed

text \<open>
  C38: a store that is written to the settings file and loaded again comes back unchanged, but for the input owner, which
  is not in the file: in the process that wrote it, in a fresh one that registers the custom providers of the file
  first, or without any, the usual case. Named conditions: the store is settled (trimmed and resolvable, under a
  provider id that its own text names), the environment does not contradict it, and the derived codec reads back
  what it wrote, but for the provider, which is parsed.
\<close>

theorem reload_keeps_settings:
  assumes "reads_back S (from_runtime s)" "persist_settings S w s f = (Inr (), f')"
    and "register_custom_providers (sv_custom_providers s) reg = (Inr (), reg')" "settled_store reg' s"
    and "read_llm_env reg' env = Inr e" "env_agrees e s"
  shows "load_persisted_store S env f' reg = (Inr (s\<lparr>cs_input_owner := False\<rparr>), reg')"
proof -
  from assms(4) have pid: "pid_parse (pid_as_str (sv_provider s)) = Inr (sv_provider s)" by (simp add: settled_store_def)
  have self: "(from_runtime s)\<lparr>sv_provider := sv_provider s\<rparr> = from_runtime s"
    by (simp add: from_runtime_def settings_values.defs)
  from persisted_decodes [OF assms(1,2)] obtain bytes where f': "f' = Contents bytes"
    and d: "decode_settings S bytes = Inr (from_runtime s)" by (auto simp: pid self)
  note again = register_again [OF assms(3)]
  have l: "load_persisted_settings S f' r = (Inr (from_runtime s), reg')" if "r = reg \<or> r = reg'" for r
    using that assms(3) again
    by (auto simp: f' d register_persisted_def from_runtime_fields register_custom_providers_def split: if_splits sum.splits)
  have n: "f' \<noteq> NoFile" by (simp add: f')
  have e: "ensure_registered S f' r = (Inr (), reg')" if "r = reg \<or> r = reg'" for r
    using again by (simp add: ensure_registered_def l [OF that] n from_runtime_fields lift_error_def)
  let ?layer = "\<lparr>cl_provider = Some (sv_provider s), cl_model = Some (sv_model s), cl_base_url = Some (sv_base_url s),
    cl_api_key = (if sv_api_key s = [] then None else Some (sv_api_key s)), cl_protocol = sv_protocol s,
    cl_profile = sv_profile s\<rparr>"
  have r: "read_persisted_layer S f' reg' = (Inr ?layer, reg')"
    by (simp add: read_persisted_layer_def e l n settled_layer [OF assms(4)] lift_error_def)
  have "is_ok (default_store reg')"
    using deepseek_resolves by (simp add: default_store_def catalog_preset_def builtin_endpoint [of Deepseek reg'] is_ok_iff)
  then obtain s0 where s0: "default_store reg' = Inr s0" by (rule is_okE)
  then have "\<not> cs_input_owner s0" by (auto simp: default_store_def map_sum_Inr)
  then have "apply_to (from_runtime s) s0 = Inr (s\<lparr>cs_input_owner := False\<rparr>)"
    by (simp add: apply_to_def from_runtime_def settings_version_def settings_values.defs)
  then have d: "stored_defaults S f' reg' = (Inr (s\<lparr>cs_input_owner := False\<rparr>), reg')"
    by (simp add: stored_defaults_def s0 l n)
  from settled_merges [OF assms(4,6)] obtain c where c: "merge_startup_llm_config reg' ?layer e layer_default = Inr c"
    and same: "apply_merged_llm c (s\<lparr>cs_input_owner := False\<rparr>) = s\<lparr>cs_input_owner := False\<rparr>" by blast
  show ?thesis by (simp add: load_persisted_store_def e d r assms(5) c same)
qed

definition plain_store :: config_store where
  "plain_store =
     \<lparr>sv_provider = Deepseek, sv_api_key = ''d'', sv_approval_policy = PolicyDefault, sv_trace_mode = TraceEvents,
      sv_model = ''m'', sv_base_url = ''http://h'', sv_protocol = Some OpenAiResponses, sv_profile = None,
      sv_custom_providers = [], sv_max_tokens = 1, sv_max_steps = 1, sv_thinking_level = None,
      sv_persistence = default_persistence, cs_input_owner = True\<rparr>"

definition plain_serde :: settings_serde where
  "plain_serde = \<lparr>ss_parse = (\<lambda>_. Some (JObj [(''version'', JInt 2)])), ss_decode = (\<lambda>_. Some (from_runtime plain_store)),
     ss_encode = (\<lambda>_. Some [])\<rparr>"

text \<open>An environment with the key that is also in the store.\<close>

definition key_env :: environment where
  "key_env name = (if name = ''DEEPSEEK_API_KEY'' then Some ''d'' else None)"

lemma reload_keeps_settings_witness:
  "load_persisted_store plain_serde key_env (Contents [newline]) None = (Inr (plain_store\<lparr>cs_input_owner := False\<rparr>), None)"
proof -
  have "pid_parse (pid_as_str Deepseek) = Inr Deepseek" by code_simp
  then have b: "reads_back plain_serde (from_runtime plain_store)"
    by (simp add: reads_back_def plain_serde_def from_runtime_fields)
      (simp add: plain_store_def from_runtime_def settings_version_def settings_values.defs)
  have p: "persist_settings plain_serde True plain_store NoFile = (Inr (), Contents [newline])"
    by (simp add: persist_settings_def plain_serde_def)
  have reg: "register_custom_providers (sv_custom_providers plain_store) None = (Inr (), None)" by code_simp
  have s: "settled_store None plain_store" by code_simp
  have "case read_llm_env None key_env of Inl _ \<Rightarrow> False
      | Inr e \<Rightarrow> env_agrees e plain_store \<and> ev_api_keys e Deepseek = Some ''d''" by code_simp
  then obtain e where "read_llm_env None key_env = Inr e" "env_agrees e plain_store" by (auto split: sum.splits)
  from reload_keeps_settings [OF b p reg s this] show ?thesis .
qed

definition registry_of :: "string list \<Rightarrow> registry" where
  "registry_of ns = \<lparr>reg_tools = map (\<lambda>n. \<lparr>tool_spec = \<lparr>spec_name = n, spec_description = [], spec_input_schema = JNull\<rparr>,
     tool_executor = 0\<rparr>) ns, reg_validators = []\<rparr>"

lemma cli_permissions_exact_witness:
  "\<exists>s c. resolve_agent_config None (Inr ([], [], [])) s = Inr c \<and> sv_approval_policy s = PolicyAlways \<and>
     is_ok (runtime_new (registry_of (ac_tool_names c)) (ac_permissions c) (ac_approval c \<noteq> None)) \<and>
     bt_get (ac_permissions c) ''bash'' = Some Ask"
proof (rule example_starts)
  fix s
  assume s: "resolve_one_shot example_serde example_args (\<lambda>_. None) (Contents []) None = (Inr s, None)"
    and p: "sv_approval_policy s = PolicyAlways"
  from s have "is_ok (resolve_agent_config None (Inr ([], [], [])) s)"
    by (auto simp: resolve_one_shot_def resolve_agent_config_def split: sum.splits prod.splits)
  then obtain c where c: "resolve_agent_config None (Inr ([], [], [])) s = Inr c" by (rule is_okE)
  have "tool_name ` set (reg_tools (registry_of (ac_tool_names c))) = set (ac_tool_names c)"
    by (simp add: registry_of_def image_comp comp_def)
  from cli_permissions_exact [OF c this] c p show ?thesis by (intro exI [of _ s] exI [of _ c]) simp
qed

end
