(* ===== verification/Setting_Catalog.thy ===== *)
theory Setting_Catalog
  imports Cli_Facts
begin

text \<open>
  \<open>cli/src/setting_catalog.rs\<close>, the change handler of \<open>settings_ui.rs\<close> and the part of \<open>agent/src/agent.rs\<close> that a
  change reaches: the entries of the settings page, cycling a value, the projection of a provider switch, the way
  back into the store, and persisting, reloading and restoring. What the reload of the agent answers is an argument.
\<close>

section \<open>The agent facade\<close>

record agent_facade =
  ag_session_id :: string
  ag_call_config :: llm_call_config
  ag_max_steps :: u32
  ag_cwd :: string
  ag_tool_names :: "string list"
  ag_permissions :: permission_map
  ag_approval_configured :: bool

definition from_parts :: "agent_config \<Rightarrow> string \<Rightarrow> string \<Rightarrow> agent_facade" where
  "from_parts c session_id cwd =
     \<lparr>ag_session_id = session_id,
      ag_call_config = to_call_config (ac_provider c) (ac_max_tokens c) (ac_thinking_level c) None None,
      ag_max_steps = ac_max_steps c, ag_cwd = cwd, ag_tool_names = ac_tool_names c, ag_permissions = ac_permissions c,
      ag_approval_configured = (ac_approval c \<noteq> None)\<rparr>"

definition apply_parts :: "agent_config \<Rightarrow> string \<Rightarrow> agent_facade \<Rightarrow> agent_facade" where
  "apply_parts c cwd ag =
     (let hint = (if lc_protocol (ag_call_config ag) = ep_protocol (ac_provider c)
                  then lc_previous_response_id (ag_call_config ag) else None) in
      ag\<lparr>ag_cwd := cwd,
         ag_call_config := to_call_config (ac_provider c) (ac_max_tokens c) (ac_thinking_level c) None hint,
         ag_max_steps := ac_max_steps c, ag_tool_names := ac_tool_names c, ag_permissions := ac_permissions c,
         ag_approval_configured := (ac_approval c \<noteq> None)\<rparr>)"

text \<open>\<open>reload\<close>: the checks, then what flushing the log and building the parts answered.\<close>

definition agent_reload ::
  "agent_config \<Rightarrow> string + unit \<Rightarrow> string + unit \<Rightarrow> string + string \<Rightarrow> agent_facade \<Rightarrow> (string + unit) \<times> agent_facade" where
  "agent_reload c paths_ok flushed parts ag =
     (case validate_values c of
        Inl e \<Rightarrow> (Inl e, ag)
      | Inr _ \<Rightarrow>
          (case paths_ok of
             Inl e \<Rightarrow> (Inl e, ag)
           | Inr _ \<Rightarrow>
               (case flushed of
                  Inl e \<Rightarrow> (Inl e, ag)
                | Inr _ \<Rightarrow> (case parts of Inl e \<Rightarrow> (Inl e, ag) | Inr cwd \<Rightarrow> (Inr (), apply_parts c cwd ag)))))"

definition apply_turn_limits :: "u32 \<Rightarrow> u32 \<Rightarrow> thinking_level option \<Rightarrow> agent_facade \<Rightarrow> (string + unit) \<times> agent_facade" where
  "apply_turn_limits max_steps max_tokens thinking ag =
     (if max_steps = 0 then (Inl ''max_steps must be greater than zero'', ag)
      else if max_tokens = 0 then (Inl ''max_tokens must be greater than zero'', ag)
      else (Inr (), ag\<lparr>ag_max_steps := max_steps,
              ag_call_config := (ag_call_config ag)\<lparr>lc_max_tokens := max_tokens, lc_thinking_level := thinking\<rparr>\<rparr>))"

text \<open>The call configuration of a turn, and what a response leaves for the next one.\<close>

definition turn_config :: "agent_facade \<Rightarrow> llm_call_config" where
  "turn_config ag = (ag_call_config ag)\<lparr>lc_session_id := Some (ag_session_id ag)\<rparr>"

definition remember_response :: "string option \<Rightarrow> agent_facade \<Rightarrow> agent_facade" where
  "remember_response response_id ag =
     (case response_id of
        None \<Rightarrow> ag
      | Some rid \<Rightarrow> ag\<lparr>ag_call_config := (ag_call_config ag)\<lparr>lc_previous_response_id := Some rid\<rparr>\<rparr>)"

section \<open>Numbers\<close>

fun dec_str :: "nat \<Rightarrow> string" where
  "dec_str n = (if n < 10 then [char_of (48 + n)] else dec_str (n div 10) @ [char_of (48 + n mod 10)])"

declare dec_str.simps [simp del]

definition is_digit :: "char \<Rightarrow> bool" where
  "is_digit c = (48 \<le> byte c \<and> byte c \<le> 57)"

definition digits_value :: "string \<Rightarrow> nat" where
  "digits_value s = foldl (\<lambda>v c. 10 * v + (byte c - 48)) 0 s"

text \<open>\<open>str::parse::<u32>\<close>: an optional plus sign, at least one digit, and no overflow.\<close>

definition parse_u32 :: "string \<Rightarrow> u32 option" where
  "parse_u32 s =
     (let d = (case s of c # r \<Rightarrow> if c = CHR ''+'' then r else s | [] \<Rightarrow> s) in
      if d = [] \<or> \<not> list_all is_digit d then None
      else if digits_value d < 2 ^ 32 then Some (word_of_nat (digits_value d)) else None)"

section \<open>Entries\<close>

datatype setting_id =
    SApiKey | SApprovalPolicy | SBaseUrl | SCwd | SMaxSteps | SMaxTokens | SModel | SProvider | SThinkingLevel
  | SProtocol | SProfile | STrace

fun setting_id_str :: "setting_id \<Rightarrow> string" where
  "setting_id_str SApiKey = ''api-key''"
| "setting_id_str SApprovalPolicy = ''approval-policy''"
| "setting_id_str SBaseUrl = ''base-url''"
| "setting_id_str SCwd = ''cwd''"
| "setting_id_str SMaxSteps = ''max-steps''"
| "setting_id_str SMaxTokens = ''max-tokens''"
| "setting_id_str SModel = ''model''"
| "setting_id_str SProtocol = ''protocol''"
| "setting_id_str SProfile = ''profile''"
| "setting_id_str SProvider = ''provider''"
| "setting_id_str SThinkingLevel = ''thinking-level''"
| "setting_id_str STrace = ''trace''"

datatype apply_effect = ReadOnly | NextTurn | ReloadAgent

fun apply_status_message :: "apply_effect \<Rightarrow> string" where
  "apply_status_message ReadOnly = ''read-only''"
| "apply_status_message NextTurn = ''applied on next turn''"
| "apply_status_message ReloadAgent = ''agent reloaded''"

record setting_entry =
  se_id :: setting_id
  se_label :: string
  se_description :: string
  se_current :: string
  se_values :: "string list option"
  se_apply :: apply_effect

definition searchable_text :: "setting_entry \<Rightarrow> string" where
  "searchable_text e = se_label e @ '' '' @ setting_id_str (se_id e)"

fun approval_label :: "approval_policy \<Rightarrow> string" where
  "approval_label PolicyDefault = ''coding defaults''"
| "approval_label PolicyAlways = ''always ask''"
| "approval_label PolicyAlwaysAllow = ''always allow''"

fun trace_label :: "trace_mode \<Rightarrow> string" where
  "trace_label TraceOff = ''off''"
| "trace_label TraceEvents = ''events''"
| "trace_label TraceEventsAndThinking = ''events-thinking''"

fun thinking_label :: "thinking_level option \<Rightarrow> string" where
  "thinking_label None = ''off''"
| "thinking_label (Some ThinkOff) = ''off''"
| "thinking_label (Some ThinkLow) = ''low''"
| "thinking_label (Some ThinkMedium) = ''medium''"
| "thinking_label (Some ThinkHigh) = ''high''"

definition parse_approval :: "string \<Rightarrow> string + approval_policy" where
  "parse_approval v =
     (if v = ''always ask'' then Inr PolicyAlways
      else if v = ''coding defaults'' then Inr PolicyDefault
      else if v = ''always allow'' then Inr PolicyAlwaysAllow
      else Inl (''unknown approval policy label: '' @ v))"

definition parse_trace :: "string \<Rightarrow> string + trace_mode" where
  "parse_trace v =
     (if v = ''off'' then Inr TraceOff
      else if v = ''events'' then Inr TraceEvents
      else if v = ''events-thinking'' then Inr TraceEventsAndThinking
      else Inl (''unknown trace label: '' @ v))"

definition parse_thinking :: "string \<Rightarrow> string + thinking_level option" where
  "parse_thinking v =
     (if v = ''off'' then Inr None
      else if v = ''low'' then Inr (Some ThinkLow)
      else if v = ''medium'' then Inr (Some ThinkMedium)
      else if v = ''high'' then Inr (Some ThinkHigh)
      else Inl (''unknown thinking level label: '' @ v))"

definition cycle_values :: "string \<Rightarrow> string list \<Rightarrow> string list" where
  "cycle_values current defaults = (if current \<in> set defaults then defaults else defaults @ [current])"

definition catalog_default :: string where
  "catalog_default = ''catalog default''"

definition entries_of ::
  "environment \<Rightarrow> custom_registry \<Rightarrow> string \<Rightarrow> config_store \<Rightarrow> llm_model list \<Rightarrow> provider_entry \<Rightarrow> setting_entry list" where
  "entries_of env reg cwd s models entry =
     [\<lparr>se_id = SProvider, se_label = ''Provider'', se_description = ''LLM provider preset'',
       se_current = pid_as_str (sv_provider s), se_values = Some (map pid_as_str (list_provider_ids reg)),
       se_apply = ReloadAgent\<rparr>,
      \<lparr>se_id = SModel, se_label = ''Model'', se_description = ''Model name sent to the provider'',
       se_current = sv_model s, se_values = Some (map lm_id models), se_apply = ReloadAgent\<rparr>,
      \<lparr>se_id = SBaseUrl, se_label = ''Base URL'', se_description = ''OpenAI-compatible endpoint root'',
       se_current = sv_base_url s, se_values = None, se_apply = ReloadAgent\<rparr>,
      \<lparr>se_id = SProtocol, se_label = ''Protocol'', se_description = ''Wire protocol adapter family'',
       se_current = (case sv_protocol s of None \<Rightarrow> catalog_default | Some p \<Rightarrow> family_as_str p),
       se_values = Some (map family_as_str (en_supported_protocols entry)), se_apply = ReloadAgent\<rparr>,
      \<lparr>se_id = SProfile, se_label = ''Profile'',
       se_description = ''User protocol profile override persisted in settings.json'',
       se_current = (if sv_profile s \<noteq> None then ''custom'' else catalog_default), se_values = None, se_apply = ReadOnly\<rparr>,
      \<lparr>se_id = SApiKey, se_label = ''API key'', se_description = ''Provider API key for this process (masked)'',
       se_current = format_api_key reg env (sv_api_key s) (sv_provider s), se_values = None, se_apply = ReadOnly\<rparr>,
      \<lparr>se_id = SApprovalPolicy, se_label = ''Approval policy'',
       se_description = ''Tool permission posture for the coding preset'',
       se_current = approval_label (sv_approval_policy s),
       se_values = Some [''always ask'', ''coding defaults'', ''always allow''], se_apply = ReloadAgent\<rparr>,
      \<lparr>se_id = STrace, se_label = ''Trace'', se_description = ''Progress events written to stderr during turns'',
       se_current = trace_label (sv_trace_mode s), se_values = Some [''off'', ''events'', ''events-thinking''],
       se_apply = ReloadAgent\<rparr>,
      \<lparr>se_id = SThinkingLevel, se_label = ''Thinking level'',
       se_description = ''Reasoning depth for thinking-capable models'',
       se_current = thinking_label (sv_thinking_level s), se_values = Some [''off'', ''low'', ''medium'', ''high''],
       se_apply = NextTurn\<rparr>,
      \<lparr>se_id = SMaxSteps, se_label = ''Max steps'', se_description = ''Maximum model steps per user turn'',
       se_current = dec_str (unat (sv_max_steps s)),
       se_values = Some (cycle_values (dec_str (unat (sv_max_steps s))) [''4'', ''8'', ''12'', ''16'']), se_apply = NextTurn\<rparr>,
      \<lparr>se_id = SMaxTokens, se_label = ''Max tokens'', se_description = ''Maximum output tokens per model step'',
       se_current = dec_str (unat (sv_max_tokens s)),
       se_values = Some (cycle_values (dec_str (unat (sv_max_tokens s))) [''2048'', ''4096'', ''8192'']), se_apply = NextTurn\<rparr>,
      \<lparr>se_id = SCwd, se_label = ''Working directory'',
       se_description = ''Session working directory and Project Instructions root'', se_current = cwd, se_values = None,
       se_apply = ReadOnly\<rparr>]"

definition catalog_from_runtime ::
  "environment \<Rightarrow> custom_registry \<Rightarrow> string \<Rightarrow> config_store \<Rightarrow> string + setting_entry list" where
  "catalog_from_runtime env reg cwd s =
     (case models_for reg (sv_provider s) of
        Inl e \<Rightarrow> Inl e
      | Inr models \<Rightarrow>
          (case lookup_provider reg (sv_provider s) of
             Inl e \<Rightarrow> Inl e
           | Inr entry \<Rightarrow> Inr (entries_of env reg cwd s models entry)))"

section \<open>Cycling\<close>

definition next_value :: "string list \<Rightarrow> string \<Rightarrow> string" where
  "next_value values current =
     values ! (((case position (\<lambda>v. v = current) values of None \<Rightarrow> 0 | Some i \<Rightarrow> i) + 1) mod length values)"

text \<open>One entry under a provider switch: its own refresh function, then the protocol row.\<close>

definition refresh_entry ::
  "provider_id \<Rightarrow> resolved_endpoint \<Rightarrow> string list \<Rightarrow> string list \<Rightarrow> setting_entry \<Rightarrow> setting_entry" where
  "refresh_entry pid preset model_values protocol_values e =
     (case se_id e of
        SProvider \<Rightarrow> e\<lparr>se_current := pid_as_str pid\<rparr>
      | SModel \<Rightarrow> e\<lparr>se_current := ep_model preset, se_values := Some model_values\<rparr>
      | SBaseUrl \<Rightarrow> e\<lparr>se_current := ep_base_url preset\<rparr>
      | SProtocol \<Rightarrow> e\<lparr>se_values := Some protocol_values, se_current := family_as_str (ep_protocol preset)\<rparr>
      | SApiKey \<Rightarrow> e\<lparr>se_current := ''(empty)''\<rparr>
      | _ \<Rightarrow> e)"

definition refresh_projection :: "custom_registry \<Rightarrow> provider_id \<Rightarrow> setting_entry list \<Rightarrow> (string + unit) \<times> setting_entry list" where
  "refresh_projection reg pid cat =
     (case catalog_preset reg pid of
        Inl e \<Rightarrow> (Inl e, cat)
      | Inr preset \<Rightarrow>
          (case models_for reg pid of
             Inl e \<Rightarrow> (Inl e, cat)
           | Inr models \<Rightarrow>
               (case lookup_provider reg pid of
                  Inl e \<Rightarrow> (Inl e, cat)
                | Inr entry \<Rightarrow>
                    (Inr (), map (refresh_entry pid preset (map lm_id models) (map family_as_str (en_supported_protocols entry)))
                       cat))))"

definition cycle_value ::
  "custom_registry \<Rightarrow> nat \<Rightarrow> nat list \<Rightarrow> setting_entry list \<Rightarrow> (string + apply_effect option) \<times> setting_entry list" where
  "cycle_value reg filtered_index indices cat =
     (if length indices \<le> filtered_index then (Inl ''selected setting index out of range'', cat)
      else let i = indices ! filtered_index in
        if length cat \<le> i then (Inl ''setting entry missing'', cat)
        else let e = cat ! i in
          (case se_values e of
             None \<Rightarrow> (Inr None, cat)
           | Some values \<Rightarrow>
               if values = [] then (Inl (''setting '' @ se_label e @ '' has no values to cycle''), cat)
               else let v = next_value values (se_current e); cat = cat[i := e\<lparr>se_current := v\<rparr>] in
                 if se_id e = SProvider then
                   (case pid_parse v of
                      Inl err \<Rightarrow> (Inl err, cat)
                    | Inr pid \<Rightarrow>
                        (case refresh_projection reg pid cat of
                           (Inl err, cat) \<Rightarrow> (Inl err, cat)
                         | (Inr _, cat) \<Rightarrow> (Inr (Some (se_apply e)), cat)))
                 else (Inr (Some (se_apply e)), cat)))"

section \<open>Back into the store\<close>

fun sync_setting :: "custom_registry \<Rightarrow> setting_id \<Rightarrow> string \<Rightarrow> config_store \<Rightarrow> (string + unit) \<times> config_store" where
  "sync_setting reg SProvider v s =
     (case pid_parse v of
        Inl e \<Rightarrow> (Inl e, s)
      | Inr pid \<Rightarrow> if pid \<noteq> sv_provider s then apply_provider_switch_in_store reg pid True s else (Inr (), s))"
| "sync_setting reg SProtocol v s =
     (if v = catalog_default then (Inr (), s\<lparr>sv_protocol := None\<rparr>)
      else case family_parse v of
        None \<Rightarrow> (Inl (''unknown protocol label: '' @ v), s)
      | Some p \<Rightarrow> (Inr (), s\<lparr>sv_protocol := Some p\<rparr>))"
| "sync_setting reg SModel v s = (Inr (), s\<lparr>sv_model := v\<rparr>)"
| "sync_setting reg SBaseUrl v s = (Inr (), s\<lparr>sv_base_url := v\<rparr>)"
| "sync_setting reg SApprovalPolicy v s =
     (case parse_approval v of Inl e \<Rightarrow> (Inl e, s) | Inr p \<Rightarrow> (Inr (), s\<lparr>sv_approval_policy := p\<rparr>))"
| "sync_setting reg STrace v s =
     (case parse_trace v of Inl e \<Rightarrow> (Inl e, s) | Inr t \<Rightarrow> (Inr (), s\<lparr>sv_trace_mode := t\<rparr>))"
| "sync_setting reg SThinkingLevel v s =
     (case parse_thinking v of Inl e \<Rightarrow> (Inl e, s) | Inr t \<Rightarrow> (Inr (), s\<lparr>sv_thinking_level := t\<rparr>))"
| "sync_setting reg SMaxSteps v s =
     (case parse_u32 v of None \<Rightarrow> (Inl (''invalid max steps value: '' @ v), s) | Some n \<Rightarrow> (Inr (), s\<lparr>sv_max_steps := n\<rparr>))"
| "sync_setting reg SMaxTokens v s =
     (case parse_u32 v of None \<Rightarrow> (Inl (''invalid max tokens value: '' @ v), s) | Some n \<Rightarrow> (Inr (), s\<lparr>sv_max_tokens := n\<rparr>))"
| "sync_setting reg _ v s = (Inr (), s)"

fun sync_to_runtime :: "custom_registry \<Rightarrow> setting_entry list \<Rightarrow> config_store \<Rightarrow> (string + unit) \<times> config_store" where
  "sync_to_runtime reg [] s = (Inr (), s)"
| "sync_to_runtime reg (e # es) s =
     (case sync_setting reg (se_id e) (se_current e) s of
        (Inl err, s) \<Rightarrow> (Inl err, s)
      | (Inr _, s) \<Rightarrow> sync_to_runtime reg es s)"

section \<open>Applying a change\<close>

text \<open>What the world answers: whether each write of the file succeeds, the paths, and the steps of the reload.\<close>

record apply_world =
  aw_write :: bool
  aw_restore :: bool
  aw_paths :: "string + string \<times> string \<times> string"
  aw_paths_ok :: "string + unit"
  aw_flushed :: "string + unit"
  aw_parts :: "string + string"

record ui_state =
  ui_settings :: config_store
  ui_catalog :: "setting_entry list"
  ui_agent :: agent_facade
  ui_file :: settings_file
  ui_registry :: custom_registry

definition reload_agent ::
  "settings_serde \<Rightarrow> environment \<Rightarrow> apply_world \<Rightarrow> ui_state \<Rightarrow> (settings_error + unit) \<times> ui_state" where
  "reload_agent S env W u =
     (case load_persisted_store S env (ui_file u) (ui_registry u) of
        (Inl e, reg) \<Rightarrow> (Inl e, u\<lparr>ui_registry := reg\<rparr>)
      | (Inr s, reg) \<Rightarrow>
          (let s = s\<lparr>cs_input_owner := cs_input_owner (ui_settings u)\<rparr>; u = u\<lparr>ui_registry := reg\<rparr> in
           case resolve_agent_config reg (aw_paths W) s of
             Inl e \<Rightarrow> (Inl (SettingsError e), u)
           | Inr c \<Rightarrow>
               (case agent_reload c (aw_paths_ok W) (aw_flushed W) (aw_parts W) (ui_agent u) of
                  (Inl e, _) \<Rightarrow> (Inl (SettingsError e), u)
                | (Inr _, ag) \<Rightarrow> (Inr (), u\<lparr>ui_agent := ag, ui_settings := s\<rparr>))))"

definition apply_setting_change ::
  "settings_serde \<Rightarrow> environment \<Rightarrow> apply_world \<Rightarrow> apply_effect \<Rightarrow> config_store \<Rightarrow> ui_state \<Rightarrow>
   (settings_error + unit) \<times> ui_state" where
  "apply_setting_change S env W effect previous u =
     (if effect = ReadOnly then (Inr (), u)
      else case persist_settings S (aw_write W) (ui_settings u) (ui_file u) of
        (Inl e, f) \<Rightarrow> (Inl e, u\<lparr>ui_file := f\<rparr>)
      | (Inr _, f) \<Rightarrow>
          (let u = u\<lparr>ui_file := f\<rparr>;
               (r, u) = (if effect = NextTurn then
                   (let s = ui_settings u;
                        (r, ag) = apply_turn_limits (sv_max_steps s) (sv_max_tokens s) (sv_thinking_level s) (ui_agent u) in
                    (lift_error r, u\<lparr>ui_agent := ag\<rparr>))
                 else reload_agent S env W u) in
           case r of
             Inr _ \<Rightarrow> (Inr (), u)
           | Inl e \<Rightarrow>
               (case persist_settings S (aw_restore W) previous (ui_file u) of
                  (Inl e', f) \<Rightarrow> (Inl (RestoreFailed e e'), u\<lparr>ui_file := f\<rparr>)
                | (Inr _, f) \<Rightarrow> (Inl e, u\<lparr>ui_file := f\<rparr>))))"

text \<open>The Enter key of the settings page; \<open>confirmed\<close> is the answer to the always-allow question.\<close>

definition rebuild_catalog :: "environment \<Rightarrow> ui_state \<Rightarrow> (settings_error + unit) \<times> ui_state" where
  "rebuild_catalog env u =
     (case catalog_from_runtime env (ui_registry u) (ag_cwd (ui_agent u)) (ui_settings u) of
        Inl e \<Rightarrow> (Inl (SettingsError e), u)
      | Inr cat \<Rightarrow> (Inr (), u\<lparr>ui_catalog := cat\<rparr>))"

definition change_setting ::
  "settings_serde \<Rightarrow> environment \<Rightarrow> apply_world \<Rightarrow> bool \<Rightarrow> nat \<Rightarrow> nat list \<Rightarrow> ui_state \<Rightarrow>
   (settings_error + unit) \<times> ui_state" where
  "change_setting S env W confirmed selected filtered u =
     (if filtered = [] then (Inr (), u)
      else let previous = ui_settings u in
        (case cycle_value (ui_registry u) selected filtered (ui_catalog u) of
           (Inl e, cat) \<Rightarrow> (Inl (SettingsError e), u\<lparr>ui_catalog := cat\<rparr>)
         | (Inr None, cat) \<Rightarrow> (Inr (), u\<lparr>ui_catalog := cat\<rparr>)
         | (Inr (Some effect), cat) \<Rightarrow>
             (case sync_to_runtime (ui_registry u) cat previous of
                (Inl e, s) \<Rightarrow> (Inl (SettingsError e), u\<lparr>ui_catalog := cat, ui_settings := s\<rparr>)
              | (Inr _, s) \<Rightarrow>
                  (let u = u\<lparr>ui_catalog := cat, ui_settings := s\<rparr> in
                   if sv_approval_policy s = PolicyAlwaysAllow \<and> sv_approval_policy previous \<noteq> PolicyAlwaysAllow \<and> \<not> confirmed
                   then rebuild_catalog env (u\<lparr>ui_settings := previous\<rparr>)
                   else if effect = ReadOnly then (Inr (), u)
                   else case apply_setting_change S env W effect previous u of
                     (Inr _, u) \<Rightarrow> (Inr (), u)
                   | (Inl e, u) \<Rightarrow>
                       (case rebuild_catalog env (u\<lparr>ui_settings := previous\<rparr>) of
                          (Inl e', u) \<Rightarrow> (Inl e', u)
                        | (Inr _, u) \<Rightarrow> (Inl e, u))))))"

end
