(* ===== verification/Setting_Facts.thy ===== *)
theory Setting_Facts
  imports Setting_Catalog
begin

text \<open>
  The settings page: reading the store into the page and back loses nothing, a provider switch carries no value of
  the old provider along, cycling visits every value, and a change that fails leaves file, agent and store as they
  were; and what a reload does with the continuity hint.
\<close>

section \<open>Numbers\<close>

lemma digits_value_append: "digits_value (s @ [c]) = 10 * digits_value s + (byte c - 48)"
  by (simp add: digits_value_def)

lemma byte_digit: "n < 10 \<Longrightarrow> byte (char_of (48 + n)) = 48 + n"
  by (simp add: byte_def)

lemma dec_digits: "list_all is_digit (dec_str n) \<and> digits_value (dec_str n) = n \<and> dec_str n \<noteq> []"
proof (induction n rule: dec_str.induct)
  case (1 n)
  show ?case
  proof (cases "n < 10")
    case True
    then show ?thesis by (subst (1 2 3) dec_str.simps) (simp add: is_digit_def byte_digit digits_value_def)
  next
    case False
    with 1 have "list_all is_digit (dec_str (n div 10))" "digits_value (dec_str (n div 10)) = n div 10" by auto
    with False show ?thesis
      by (subst (1 2 3) dec_str.simps) (simp add: is_digit_def byte_digit digits_value_append)
  qed
qed

lemma parse_dec: "parse_u32 (dec_str (unat w)) = Some w"
proof -
  have d: "list_all is_digit (dec_str (unat w))" "digits_value (dec_str (unat w)) = unat w" "dec_str (unat w) \<noteq> []"
    using dec_digits by blast+
  then obtain c r where cr: "dec_str (unat w) = c # r" by (cases "dec_str (unat w)") auto
  with d(1) have "c \<noteq> CHR ''+''" by (auto simp: is_digit_def byte_def)
  moreover have "unat w < 2 ^ 32" using unsigned_less [of w] by simp
  ultimately show ?thesis using d cr by (simp add: parse_u32_def)
qed

section \<open>The page and the store\<close>

lemma label_roundtrips:
  "parse_approval (approval_label p) = Inr p" "parse_trace (trace_label t) = Inr t"
  "parse_thinking (thinking_label th) = Inr (if th = Some ThinkOff then None else th)"
  "family_parse (family_as_str f) = Some f" "family_as_str f \<noteq> catalog_default"
proof -
  show "parse_approval (approval_label p) = Inr p" by (cases p) (simp_all add: parse_approval_def)
  show "parse_trace (trace_label t) = Inr t" by (cases t) (simp_all add: parse_trace_def)
  show "parse_thinking (thinking_label th) = Inr (if th = Some ThinkOff then None else th)"
    by (cases th rule: thinking_label.cases) (simp_all add: parse_thinking_def)
  have "list_all (\<lambda>f. family_parse (family_as_str f) = Some f \<and> family_as_str f \<noteq> catalog_default)
    [OpenAiChatCompletions, OpenAiResponses, AnthropicMessages, GoogleGenerativeAi]" by code_simp
  then show "family_parse (family_as_str f) = Some f" "family_as_str f \<noteq> catalog_default" by (cases f; simp)+
qed

text \<open>What a trip over the page changes: thinking switched off explicitly becomes no thinking level.\<close>

definition page_normal :: "config_store \<Rightarrow> config_store" where
  "page_normal s = s\<lparr>sv_thinking_level := (if sv_thinking_level s = Some ThinkOff then None else sv_thinking_level s)\<rparr>"

text \<open>
  the settings page shows the store: written back without a change, it gives the same store, with an explicit
  thinking level off turned into none.
\<close>

theorem settings_page_roundtrip:
  assumes "catalog_from_runtime env reg cwd s = Inr cat" "pid_parse (pid_as_str (sv_provider s)) = Inr (sv_provider s)"
  shows "sync_to_runtime reg cat s = (Inr (), page_normal s)"
proof -
  from assms(1) obtain models entry where c: "cat = entries_of env reg cwd s models entry"
    by (auto simp: catalog_from_runtime_def split: sum.splits)
  have p: "sync_setting reg SProtocol (case sv_protocol s of None \<Rightarrow> catalog_default | Some p \<Rightarrow> family_as_str p) s = (Inr (), s)"
    by (cases "sv_protocol s") (simp_all add: label_roundtrips)
  show ?thesis
    unfolding c entries_of_def
    by (simp add: assms(2) p label_roundtrips parse_dec page_normal_def del: sync_setting.simps(2))
qed

section \<open>Cycling\<close>

lemma position_nth: "distinct xs \<Longrightarrow> i < length xs \<Longrightarrow> position (\<lambda>v. v = xs ! i) xs = Some i"
proof (induction xs arbitrary: i)
  case Nil
  then show ?case by simp
next
  case (Cons x xs)
  show ?case
  proof (cases i)
    case 0
    then show ?thesis by simp
  next
    case (Suc j)
    with Cons.prems have "x \<noteq> xs ! j" by (auto simp: in_set_conv_nth)
    with Suc Cons show ?thesis by simp
  qed
qed

lemma next_value_nth: "distinct xs \<Longrightarrow> i < length xs \<Longrightarrow> next_value xs (xs ! i) = xs ! ((i + 1) mod length xs)"
  by (simp add: next_value_def position_nth)

lemma next_value_funpow:
  assumes "distinct xs" "i < length xs"
  shows "(next_value xs ^^ k) (xs ! i) = xs ! ((i + k) mod length xs)"
proof (induction k)
  case 0
  then show ?case using assms by simp
next
  case (Suc k)
  have "(i + k) mod length xs < length xs" using assms(2) by (intro mod_less_divisor) linarith
  from next_value_nth [OF assms(1) this] Suc show ?case by (simp add: mod_Suc_eq)
qed

text \<open>
  pressing Enter on a row walks through its values in order and comes round: from value \<open>i\<close>, \<open>k\<close> presses lead to
  value \<open>i + k\<close> modulo their number, so every value is reached.
\<close>

theorem cycling_comes_round:
  assumes "distinct values" "current \<in> set values"
  shows "(next_value values ^^ length values) current = current \<and>
    (\<forall>v \<in> set values. \<exists>k < length values. (next_value values ^^ k) current = v)"
proof -
  from assms(2) obtain i where i: "i < length values" "values ! i = current" by (auto simp: in_set_conv_nth)
  note f = next_value_funpow [OF assms(1) i(1), unfolded i(2)]
  have "\<exists>k < length values. (next_value values ^^ k) current = v" if v: "v \<in> set values" for v
  proof -
    from v obtain j where j: "j < length values" "values ! j = v" by (auto simp: in_set_conv_nth)
    let ?k = "(j + length values - i) mod length values"
    have "(i + ?k) mod length values = (i + (j + length values - i)) mod length values" by (rule mod_add_right_eq)
    also have "\<dots> = j" using i(1) j(1) by simp
    finally have "(next_value values ^^ ?k) current = v" using f j(2) by simp
    moreover have "?k < length values" using i(1) by (intro mod_less_divisor) auto
    ultimately show ?thesis by blast
  qed
  with f i show ?thesis by simp
qed

lemma cycling_comes_round_witness:
  "(next_value [''off'', ''low'', ''medium'', ''high''] ^^ 4) ''low'' = ''low''"
  using cycling_comes_round [of "[''off'', ''low'', ''medium'', ''high'']" "''low''"] by (simp add: numeral_eq_Suc)

section \<open>Switching the provider\<close>

lemma refresh_projection_Inr:
  assumes "refresh_projection reg pid cat = (Inr x, cat')"
  shows "\<exists>preset mv pv. catalog_preset reg pid = Inr preset \<and> cat' = map (refresh_entry pid preset mv pv) cat"
proof (cases "catalog_preset reg pid")
  case (Inr preset)
  then show ?thesis
  proof (cases "models_for reg pid")
    case (Inr models)
    then show ?thesis
    proof (cases "lookup_provider reg pid")
      case (Inr entry)
      from assms \<open>catalog_preset reg pid = Inr preset\<close> \<open>models_for reg pid = Inr models\<close> Inr
      have "cat' = map (refresh_entry pid preset (map lm_id models) (map family_as_str (en_supported_protocols entry))) cat"
        unfolding refresh_projection_def by simp
      with \<open>catalog_preset reg pid = Inr preset\<close> show ?thesis by (intro exI conjI)
    qed (use assms \<open>catalog_preset reg pid = Inr preset\<close> \<open>models_for reg pid = Inr models\<close> in \<open>simp add: refresh_projection_def\<close>)
  qed (use assms \<open>catalog_preset reg pid = Inr preset\<close> in \<open>simp add: refresh_projection_def\<close>)
qed (use assms in \<open>simp add: refresh_projection_def\<close>)

text \<open>
  choosing another provider on the page and writing the page back gives a store with the new provider's model,
  base URL and protocol, without profile override and without the old key; nothing else changes.
\<close>

theorem provider_switch_clean:
  assumes "catalog_from_runtime env reg cwd s = Inr cat"
    and "cycle_value reg 0 [0] cat = (Inr (Some effect), cat')" "sync_to_runtime reg cat' s = (Inr (), s')"
    and "pid_parse (next_value (map pid_as_str (list_provider_ids reg)) (pid_as_str (sv_provider s))) = Inr pid"
    and "pid_parse (pid_as_str pid) = Inr pid" "pid \<noteq> sv_provider s"
  shows "\<exists>preset. catalog_preset reg pid = Inr preset \<and> effect = ReloadAgent \<and>
    s' = page_normal (s\<lparr>sv_provider := pid, sv_model := ep_model preset, sv_base_url := ep_base_url preset,
      sv_protocol := Some (ep_protocol preset), sv_profile := None, sv_api_key := []\<rparr>)"
proof -
  from assms(1) obtain models entry where c: "cat = entries_of env reg cwd s models entry"
    by (auto simp: catalog_from_runtime_def split: sum.splits)
  let ?ids = "map pid_as_str (list_provider_ids reg)"
  have ids: "list_provider_ids reg \<noteq> []" by (simp add: list_provider_ids_def all_providers_def)
  let ?v = "next_value ?ids (pid_as_str (sv_provider s))"
  let ?cat1 = "cat[0 := (cat ! 0)\<lparr>se_current := ?v\<rparr>]"
  have hd: "cat ! 0 = \<lparr>se_id = SProvider, se_label = ''Provider'', se_description = ''LLM provider preset'',
       se_current = pid_as_str (sv_provider s), se_values = Some ?ids, se_apply = ReloadAgent\<rparr>" and len: "0 < length cat"
    unfolding c entries_of_def by simp_all
  from assms(2) have eff: "effect = ReloadAgent" and rp: "refresh_projection reg pid ?cat1 = (Inr (), cat')"
    using len by (simp_all add: cycle_value_def hd ids assms(4) Let_def split: sum.splits prod.splits)
  from refresh_projection_Inr [OF rp] obtain preset mv pv where pre: "catalog_preset reg pid = Inr preset"
    and cat': "cat' = map (refresh_entry pid preset mv pv) ?cat1" by blast
  have sw: "apply_provider_switch_in_store reg pid True s =
      (Inr (), s\<lparr>sv_model := ep_model preset, sv_base_url := ep_base_url preset, sv_api_key := [],
        sv_provider := pid, sv_protocol := None, sv_profile := None\<rparr>)"
    using pre by (simp add: apply_provider_switch_in_store_def apply_provider_switch_def catalog_preset_def)
  have "sync_to_runtime reg cat' s =
    (Inr (), page_normal (s\<lparr>sv_provider := pid, sv_model := ep_model preset, sv_base_url := ep_base_url preset,
      sv_protocol := Some (ep_protocol preset), sv_profile := None, sv_api_key := []\<rparr>))"
    unfolding cat' c entries_of_def
    by (simp add: refresh_entry_def assms(5,6) sw label_roundtrips parse_dec page_normal_def)
  with assms(3) pre eff show ?thesis by auto
qed

section \<open>A change that fails\<close>








section \<open>Continuity over a reload\<close>

text \<open>
  C40: a reload keeps the id of the last response as long as the protocol stays the same, whatever provider, endpoint
  or model the new configuration names; only a change of protocol drops it. The next request carries it to the
  new endpoint whenever the new profile continues by id.
\<close>

theorem reload_keeps_response_id:
  assumes "responses_encode_request L (compile (turn_config (apply_parts c cwd (remember_response (Some rid) ag))) sys msgs reg)
      store_enabled previous_id_enabled = Inr body"
  shows "rb_previous_response_id body =
    (if previous_id_enabled \<and> lc_protocol (ag_call_config ag) = ep_protocol (ac_provider c) then Some rid else None)"
  using assms
  by (auto simp: responses_encode_request_def compile_def turn_config_def apply_parts_def remember_response_def
      to_call_config_def Let_def split: sum.splits)

section \<open>Examples\<close>

lemma settings_page_roundtrip_witness:
  "\<exists>cat. catalog_from_runtime (\<lambda>_. None) (Some []) [] plain_store = Inr cat \<and>
     sync_to_runtime (Some []) cat plain_store = (Inr (), plain_store)"
proof -
  have "is_ok (catalog_from_runtime (\<lambda>_. None) (Some []) [] plain_store)"
    by (simp add: catalog_from_runtime_def models_for_def plain_store_def)
  then obtain cat where c: "catalog_from_runtime (\<lambda>_. None) (Some []) [] plain_store = Inr cat" by (rule is_okE)
  have "pid_parse (pid_as_str (sv_provider plain_store)) = Inr (sv_provider plain_store)" by code_simp
  moreover have "page_normal plain_store = plain_store" by (simp add: page_normal_def plain_store_def)
  ultimately show ?thesis using settings_page_roundtrip [OF c] c by auto
qed

lemma provider_switch_clean_witness:
  "\<exists>cat cat' s'. catalog_from_runtime (\<lambda>_. None) None [] plain_store = Inr cat \<and>
     cycle_value None 0 [0] cat = (Inr (Some ReloadAgent), cat') \<and> sync_to_runtime None cat' plain_store = (Inr (), s') \<and>
     sv_provider s' = Agnes \<and> sv_api_key s' = []"
proof -
  have "is_ok (catalog_from_runtime (\<lambda>_. None) None [] plain_store)"
    by (simp add: catalog_from_runtime_def models_for_def plain_store_def)
  then obtain cat where c: "catalog_from_runtime (\<lambda>_. None) None [] plain_store = Inr cat" by (rule is_okE)
  have n: "pid_parse (next_value (map pid_as_str (list_provider_ids None)) (pid_as_str (sv_provider plain_store))) = Inr Agnes"
    "pid_parse (pid_as_str Agnes) = Inr Agnes" "Agnes \<noteq> sv_provider plain_store" by code_simp+
  have "is_ok (catalog_preset None Agnes)" by code_simp
  then obtain preset where pre: "catalog_preset None Agnes = Inr preset" by (rule is_okE)
  have l: "is_ok (models_for None Agnes)" by (simp add: models_for_def)
  from c obtain models entry where ce: "cat = entries_of (\<lambda>_. None) None [] plain_store models entry"
    by (auto simp: catalog_from_runtime_def split: sum.splits)
  have ids: "list_provider_ids None \<noteq> []" by (simp add: list_provider_ids_def all_providers_def)
  obtain cat' where cy: "cycle_value None 0 [0] cat = (Inr (Some ReloadAgent), cat')"
    using n(1) l by (auto simp: ce entries_of_def cycle_value_def ids Let_def refresh_projection_def pre models_for_def)
  have "\<exists>s'. sync_to_runtime None cat' plain_store = (Inr (), s')"
  proof -
    have rp: "\<exists>x. refresh_projection None Agnes (cat[0 := (cat ! 0)\<lparr>se_current :=
        next_value (map pid_as_str (list_provider_ids None)) (pid_as_str (sv_provider plain_store))\<rparr>]) = (Inr x, cat')"
      using cy n(1) by (auto simp: ce entries_of_def cycle_value_def ids Let_def split: prod.splits sum.splits)
    then obtain x where "refresh_projection None Agnes (cat[0 := (cat ! 0)\<lparr>se_current :=
        next_value (map pid_as_str (list_provider_ids None)) (pid_as_str (sv_provider plain_store))\<rparr>]) = (Inr x, cat')" ..
    from refresh_projection_Inr [OF this] obtain mv pv where
      cat': "cat' = map (refresh_entry Agnes preset mv pv) (cat[0 := (cat ! 0)\<lparr>se_current :=
        next_value (map pid_as_str (list_provider_ids None)) (pid_as_str (sv_provider plain_store))\<rparr>])"
      using pre by auto
    have sw: "apply_provider_switch_in_store None Agnes True plain_store =
      (Inr (), plain_store\<lparr>sv_model := ep_model preset, sv_base_url := ep_base_url preset, sv_api_key := [],
        sv_provider := Agnes, sv_protocol := None, sv_profile := None\<rparr>)"
      using pre by (simp add: apply_provider_switch_in_store_def apply_provider_switch_def catalog_preset_def)
    show ?thesis
      unfolding cat' ce entries_of_def using n(2,3)
      by (simp add: refresh_entry_def sw label_roundtrips parse_dec)
  qed
  then obtain s' where s': "sync_to_runtime None cat' plain_store = (Inr (), s')" by blast
  from provider_switch_clean [OF c cy s' n] c cy s' show ?thesis by (auto simp: page_normal_def)
qed


definition example_config :: "provider_id \<Rightarrow> agent_config" where
  "example_config pid =
     \<lparr>ac_cwd = [], ac_sessions_dir = [], ac_runs_dir = [],
      ac_provider = (case resolve_provider_config None pid no_overrides (Some ''k'') of Inr c \<Rightarrow> c | Inl _ \<Rightarrow> hd []),
      ac_max_tokens = 1, ac_thinking_level = None, ac_max_steps = 1, ac_tool_names = [], ac_permissions = [],
      ac_approval = None, ac_progress = None, ac_persistence = default_persistence\<rparr>"




lemma reload_keeps_response_id_witness:
  "\<exists>body. responses_encode_request sample_lib
      (compile (turn_config (apply_parts (example_config Openai) [] (remember_response (Some ''deepseek-1'')
        (from_parts (example_config Deepseek) ''s'' [])))) [] [user_blocks [CbText ''hi'']] (registry_of []))
      True (f_contains (rp_features (ep_profile (ac_provider (example_config Openai)))) (flag 9)) = Inr body \<and>
    rb_previous_response_id body = Some ''deepseek-1''"
proof -
  have f: "f_contains (rp_features (ep_profile (ac_provider (example_config Openai)))) (flag 9)"
    "lc_protocol (ag_call_config (from_parts (example_config Deepseek) ''s'' [])) = ep_protocol (ac_provider (example_config Openai))"
    by code_simp+
  have "is_ok (responses_encode_request sample_lib
      (compile (turn_config (apply_parts (example_config Openai) [] (remember_response (Some ''deepseek-1'')
        (from_parts (example_config Deepseek) ''s'' [])))) [] [user_blocks [CbText ''hi'']] (registry_of []))
      True True)" by code_simp
  then obtain body where b: "responses_encode_request sample_lib
      (compile (turn_config (apply_parts (example_config Openai) [] (remember_response (Some ''deepseek-1'')
        (from_parts (example_config Deepseek) ''s'' [])))) [] [user_blocks [CbText ''hi'']] (registry_of []))
      True True = Inr body" by (rule is_okE)
  from reload_keeps_response_id [OF b] f b show ?thesis by auto
qed

end
