(* ===== verification/Spec2Isabelle.thy ===== *)
theory Spec2Isabelle
  imports Session_Query Turn_Properties Providers Event_Log Progress Search_Facts Setting_Facts
begin

text \<open>
  A verification development of Moontide, a coding agent in Rust: the kernel \<open>crates/agent-core\<close>, its
  composition \<open>crates/agent\<close>, the tools \<open>crates/agent-tools\<close> and the command line \<open>crates/cli\<close>. Paths
  below are relative to \<open>src/crates\<close>.

  The program. A turn starts with a prompt. The loop reads the Session Item Log, turns it into messages,
  sends a request through one of four provider adapters, folds the streamed reply into a response, and either
  ends with its text or runs the tool calls of the response and goes round again. Every item is committed to the log
  (memory and file) before hooks and observers see its event. Beside the log there are two streams of
  diagnostics, the Agent Event Log and the progress events, each behind a bounded queue with a worker.
  The configuration of a run is merged from catalog, settings file, environment and host.

  Conventions. A \<open>Result\<close> is \<open>'e + 'a\<close> with \<open>Inl\<close> the error; a \<open>&mut self\<close> method returns the new state; \<open>u64\<close>
  and \<open>u32\<close> are words, with the wrap-around and the saturation of the source; a string is its UTF-8 bytes; \<open>BTreeMap\<close>
  is a sorted association list. What is not in the repository (clocks, fresh identifiers, the HTTP client, the
  JSON text and the derived codecs of \<open>serde\<close>, \<open>jsonschema\<close>, the regular expressions, the shell, the walk of directories)
  is an argument: a function, a record of functions, or the list of its answers. A hypothesis on such an argument is
  named in the claim that uses it.
\<close>

section \<open>Theories and sources\<close>

text \<open>
  Foundations.
  \<^item> \<open>Prelude\<close>: results, machine integers, byte strings, trimming; the collections the proofs share.
  \<^item> \<open>Ordered_Map\<close>: the locale \<open>ordered_map\<close> and its interpretation \<open>bt\<close> on the sorted lists that stand for
    \<open>BTreeMap\<close> and \<open>BTreeSet\<close>.
  \<^item> \<open>Channel\<close>: the locale \<open>bounded_queue\<close> and its interpretation \<open>channel\<close> on \<open>tokio::sync::mpsc\<close>; \<open>bridge\<close> in \<open>Events\<close>
    is the second one.
  \<^item> \<open>Utf8\<close>: lossy decoding and character boundaries.

  The log of a session (\<open>agent-core/src/session\<close>).
  \<^item> \<open>Session_Types\<close> (\<open>types.rs\<close>): items, drafts, validation.
  \<^item> \<open>Session_Files\<close> (\<open>file_store.rs\<close>): the two files of a session as their bytes, the append with every point where it
    can fail, the reader, the migration of version 1.
  \<^item> \<open>Session_Store\<close> (\<open>store.rs\<close>, \<open>commit.rs\<close>): the record \<open>session_store\<close> with creation, loading, \<open>commit_item\<close> and its
    rollback, forks, and the commit of an event. The locale \<open>commit_handler\<close> of \<open>Events\<close> is interpreted here.
  \<^item> \<open>Session_Query\<close> (\<open>query.rs\<close>): summaries and the pages of whole turns.

  From the log to a request.
  \<^item> \<open>Context_Materialize\<close> (\<open>context/materialize.rs\<close>): the phase machine, and the grammar \<open>closed_log\<close> it is proved equal to.
  \<^item> \<open>Profile_Config\<close>, \<open>Model_Input\<close> (\<open>llm/profile_config\<close>, \<open>model_input\<close>): feature words, patches, the clamp, the request.
  \<^item> \<open>Request_Encoders\<close> (\<open>llm/normalize\<close>, outbound): the bodies of the four wire formats.

  From bytes to a response.
  \<^item> \<open>Protocol\<close>, \<open>Response_Builder\<close> (\<open>llm/protocol\<close>, \<open>llm/response_builder.rs\<close>, \<open>llm/provider.rs\<close>): the builder and the
    calls that fold a stream into a response.
  \<^item> \<open>Sse\<close> (\<open>llm/adapter/*\<close>): line buffer and read loop, with the locale \<open>wire_decoder\<close>.
  \<^item> \<open>Stream_Decoders\<close> (\<open>llm/normalize/*/stream.rs\<close>): the four decoders; interpretations \<open>chat\<close>, \<open>responses\<close>,
    \<open>anthropic\<close> and \<open>gemini\<close> of \<open>wire_decoder\<close>.
  \<^item> \<open>Stream_Contracts\<close>, \<open>Stream_Properties\<close>: the locale \<open>wire_contract\<close> (a form of stream under which the events come in an
    order the builder accepts), its four interpretations, and what follows for the loop. The form of the
    Responses decoder is the one it expects, not the documented one; C17 is about the difference.
  \<^item> \<open>Providers\<close> (\<open>llm/adapter/mod.rs\<close>): adapter configuration, URLs, credentials, one whole call.

  Tools.
  \<^item> \<open>Tools\<close>, \<open>Tool_Runtime\<close> (\<open>agent-core/src/tools\<close>, \<open>loop/tool_runtime.rs\<close>): registry, validation, permissions,
    the path of a call to its executor.
  \<^item> \<open>Workspace\<close>, \<open>File_Tools\<close>, \<open>File_Tool_Facts\<close> (\<open>agent-tools\<close>): a file tree with links, the resolution of targets, and the
    executors of \<open>edit\<close>, \<open>write\<close>, \<open>read\<close>, \<open>find\<close> and \<open>bash\<close>.
  \<^item> \<open>Search_Tools\<close>, \<open>Search_Facts\<close>: \<open>grep\<close> and the aggregation of \<open>web_search\<close>.

  The turn (\<open>agent-core/src/loop\<close>, \<open>event\<close>).
  \<^item> \<open>Events\<close>: turn events, and commit before hooks before observers.
  \<^item> \<open>Turn_Control\<close> (\<open>response.rs\<close>, \<open>retry.rs\<close>, \<open>turn.rs\<close>): classification, delays, policy.
  \<^item> \<open>Agent_Loop\<close> (\<open>agent_loop.rs\<close>): \<open>run_turn\<close> over the record \<open>loop_env\<close> of the answers of the world; the state is
    \<open>loop_state\<close>.
  \<^item> \<open>Turn_Proofs\<close>, \<open>Turn_Properties\<close>: a weakest precondition for the loop, the shape of what a turn adds, its
    budget.

  Diagnostics.
  \<^item> \<open>Event_Records\<close>, \<open>Event_Log\<close> (\<open>event/derive.rs\<close>, \<open>agent/src/log\<close>): rows, filter, queue, file, and the worker as the
    step relation \<open>log_step\<close>.
  \<^item> \<open>Progress\<close> (\<open>agent/src/progress.rs\<close>): derived events, the coalescing worker, the resync marker.

  Configuration.
  \<^item> \<open>Llm_Catalog\<close>, \<open>Llm_Startup\<close>, \<open>Startup_Facts\<close> (\<open>agent/src/llm\<close>): providers, the registry of custom ones, the resolution of an
    endpoint, the layers and their merge.
  \<^item> \<open>Cli_Settings\<close>, \<open>Cli_Launch\<close>, \<open>Cli_Facts\<close> (\<open>cli/src/settings.rs\<close>, \<open>config.rs\<close>, \<open>approval.rs\<close>,
    \<open>agent/src/coding_preset.rs\<close>): the settings store and its file, the launch paths, permissions.
  \<^item> \<open>Setting_Catalog\<close>, \<open>Setting_Facts\<close> (\<open>cli/src/setting_catalog.rs\<close>, \<open>agent/src/agent.rs\<close>): the settings page, a change with its
    restore, the reload of the agent.
\<close>

section \<open>What the lemmas show\<close>

text \<open>
  \<^item> The turn (C1 to C4): what a turn adds to the log on every exit; that the log stays one a request can be made from
    unless a commit failed and said so; what a success means; how often the model is called and how long the loop sleeps.
  \<^item> The log (C5, C6, C10, C11, C23, C24): numbering and turn order of every reachable store, loading, atomic
    commits, forks, paging; and the defect that a torn append leaves a file that no longer loads.
  \<^item> Materialization and requests (C7, C8, C20, C21): the machine against its grammar, the pairing of calls and results, and
    what each encoder accepts.
  \<^item> Streams (C12 to C19): the content of a response, the independence of network chunks, that streams settle, which
    documented streams are accepted, and three ways in which tool calls are refused.
  \<^item> Tools (C9, C27 to C30): no executor without authorization, containment of paths and writes with the case where it
    fails, what grep shows.
  \<^item> Queues (C22, C25, C26): order, bounds and what is counted, over every interleaving.
  \<^item> Configuration (C31 to C40): precedence of layers, features bit by bit, provider identifiers, permissions, one-shot
    runs, the settings file, failed changes, and the continuity hint over a reload.

  Theorems without a claim number are of the same kind; several prove a defect that the manifest lists.
\<close>

section \<open>Bounds\<close>

text \<open>
  The bounds are those of the source or of the system. A path walk follows 40 links, the limit of the kernel. The queues
  hold 256 rows or events. A file row has at most 64 KiB with its newline, a tool output at most 32 KiB. A step makes one
  call and at most 3 retries, the most a policy may allow, which sleep 3.5 seconds in all. Every loop of the
  program that is modelled ends by structural recursion or a measure, so no definition runs on fuel; a progress worker
  drains within the bound that C26 states.
\<close>

section \<open>What is not modelled\<close>

text \<open>
  \<^item> Time and the network: a reply is the finite list of its chunks, and a call ends when the list does. A connection that stalls
    for ever, which the client of the source has no timeout for, is outside the model; a cancellation during a call is an
    answer of the world.
  \<^item> Derived codecs and JSON text: arguments. C38 assumes that the codec of the settings reads back what it wrote, but for
    the provider, whose text and parser are modelled.
  \<^item> The file system below the tools: a failing write leaves a prefix of its content, whose length is an answer of the disk; paths
    are walked from the root, since the tools use absolute paths; other processes do not interfere during one call.
  \<^item> The resolution of the project directories and their creation, the construction of the parts of an agent, and the flush
    before a reload: their outcome, error or value, is an argument.
  \<^item> Poisoned locks, and the bias of \<open>select!\<close> in the event log: the model has more interleavings.
  \<^item> Left out as wiring, literals or terminal I/O: the schemas of the tools, prompt text, rendering, the read loop of the
    command line and the score of its fuzzy search (floating point), the scrapers of the web search.
  \<^item> Left out: the desktop application (\<open>moontide-desktop\<close>), its runtime and its protocol.
\<close>

end
